(* ===== verification/Prelude.thy ===== *)
theory Prelude
  imports Main "HOL-Library.Word" "HOL-Library.Monad_Syntax"
begin

section \<open>Prelude: machine types, byte memory, byte orders\<close>

text \<open>
  What every component shares: the integer types of \<open>src/types.h\<close>, memory as a list of bytes
  whose accesses out of range are undefined behaviour (the value \<open>None\<close>), the two byte
  orders as functions from words to bytes, and the collections of simplification rules.
\<close>

unbundle bit_operations_syntax

type_synonym u8 = "8 word"
type_synonym u16 = "16 word"
type_synonym u32 = "32 word"
type_synonym u64 = "64 word"
type_synonym bytes = "u8 list"

named_theorems mem_simps \<open>reads and writes of byte memory\<close>
named_theorems wire_defs \<open>definitions of byte-order encodings\<close>

subsection \<open>Byte memory\<close>

text \<open>
  A C array is a list; reading or writing outside of it is undefined behaviour, the value
  \<open>None\<close>. \<open>mem_read\<close> reads one cell, \<open>mem_slice\<close> a run of cells,
  \<open>mem_write\<close> stores a run of cells (an assignment, \<open>memcpy\<close> into the array).
\<close>

definition mem_read :: "'a list \<Rightarrow> nat \<Rightarrow> 'a option" where
  "mem_read m i = (if i < length m then Some (m ! i) else None)"

definition mem_slice :: "'a list \<Rightarrow> nat \<Rightarrow> nat \<Rightarrow> 'a list option" where
  "mem_slice m i n = (if i + n \<le> length m then Some (take n (drop i m)) else None)"

definition mem_write :: "'a list \<Rightarrow> nat \<Rightarrow> 'a list \<Rightarrow> 'a list option" where
  "mem_write m i bs =
     (if i + length bs \<le> length m then Some (take i m @ bs @ drop (i + length bs) m) else None)"

lemma mem_read_Some [mem_simps]: "mem_read m i = Some b \<longleftrightarrow> i < length m \<and> b = m ! i"
  by (auto simp: mem_read_def)

lemma mem_read_None [mem_simps]: "mem_read m i = None \<longleftrightarrow> length m \<le> i"
  by (auto simp: mem_read_def)

lemma mem_slice_Some [mem_simps]:
  "mem_slice m i n = Some bs \<longleftrightarrow> i + n \<le> length m \<and> bs = take n (drop i m)"
  by (auto simp: mem_slice_def)

lemma mem_write_Some [mem_simps]:
  "mem_write m i bs = Some m' \<longleftrightarrow>
     i + length bs \<le> length m \<and> m' = take i m @ bs @ drop (i + length bs) m"
  by (auto simp: mem_write_def)

lemma mem_write_None [mem_simps]: "mem_write m i bs = None \<longleftrightarrow> length m < i + length bs"
  by (auto simp: mem_write_def)

lemma mem_write_length: "mem_write m i bs = Some m' \<Longrightarrow> length m' = length m"
  by (auto simp: mem_simps)

lemma mem_slice_write_same:
  "mem_write m i bs = Some m' \<Longrightarrow> mem_slice m' i (length bs) = Some bs"
  by (auto simp: mem_simps mem_slice_def)

lemma mem_write_outside:
  "mem_write m i bs = Some m' \<Longrightarrow> j < i \<or> i + length bs \<le> j \<Longrightarrow> mem_read m' j = mem_read m j"
  by (auto simp: mem_simps mem_read_def nth_append)

lemma mem_slice_length: "mem_slice m i n = Some bs \<Longrightarrow> length bs = n"
  by (auto simp: mem_simps)

lemma mem_slice_nth: "mem_slice m i n = Some bs \<Longrightarrow> k < n \<Longrightarrow> mem_read m (i + k) = Some (bs ! k)"
  by (auto simp: mem_simps mem_read_def)

lemma mem_write_append:
  "mem_write (xs @ ys @ zs) (length xs) bs = Some (xs @ bs @ zs)"
  if "length bs = length ys"
  using that by (simp add: mem_write_def)

subsection \<open>Results of partial code\<close>

text \<open>
  \<open>returns m P\<close>: if the code returns at all, its result satisfies \<open>P\<close>. The rules walk through a long
  sequence of reads one statement at a time.
\<close>

definition returns :: "'a option \<Rightarrow> ('a \<Rightarrow> bool) \<Rightarrow> bool" where
  "returns m P \<longleftrightarrow> (\<forall>y. m = Some y \<longrightarrow> P y)"

lemma returnsD: "returns m P \<Longrightarrow> m = Some y \<Longrightarrow> P y"
  by (simp add: returns_def)

lemma returns_Some: "P x \<Longrightarrow> returns (Some x) P"
  by (simp add: returns_def)

lemma returns_None: "returns None P"
  by (simp add: returns_def)

lemma returns_bind: "(\<And>x. m = Some x \<Longrightarrow> returns (f x) P) \<Longrightarrow> returns (Option.bind m f) P"
  by (cases m) (simp_all add: returns_def)

lemma returns_if: "(b \<Longrightarrow> returns x P) \<Longrightarrow> (\<not> b \<Longrightarrow> returns y P) \<Longrightarrow> returns (if b then x else y) P"
  by simp

lemma returns_split: "(\<And>a b. x = (a, b) \<Longrightarrow> returns (f a b) P) \<Longrightarrow> returns (case x of (a, b) \<Rightarrow> f a b) P"
  by (cases x) simp

lemmas returns_intros = returns_Some returns_None returns_bind returns_if returns_split

subsection \<open>Byte orders\<close>

text \<open>
  The bytes of a word, least significant first (\<open>le\<close>, also how the x86-64 hosts of the
  program lay a \<open>uN\<close> out in memory) and most significant first (\<open>be\<close>, network order).
\<close>

definition le16 :: "u16 \<Rightarrow> bytes" where [wire_defs]:
  "le16 n = [ucast n, ucast (drop_bit 8 n)]"

definition le32 :: "u32 \<Rightarrow> bytes" where [wire_defs]:
  "le32 n = [ucast n, ucast (drop_bit 8 n), ucast (drop_bit 16 n), ucast (drop_bit 24 n)]"

definition le64 :: "u64 \<Rightarrow> bytes" where [wire_defs]:
  "le64 n = [ucast n, ucast (drop_bit 8 n), ucast (drop_bit 16 n), ucast (drop_bit 24 n),
             ucast (drop_bit 32 n), ucast (drop_bit 40 n), ucast (drop_bit 48 n),
             ucast (drop_bit 56 n)]"

definition be16 :: "u16 \<Rightarrow> bytes" where [wire_defs]: "be16 n = rev (le16 n)"
definition be32 :: "u32 \<Rightarrow> bytes" where [wire_defs]: "be32 n = rev (le32 n)"
definition be64 :: "u64 \<Rightarrow> bytes" where [wire_defs]: "be64 n = rev (le64 n)"

lemma length_wire [simp]:
  "length (le16 a) = 2" "length (le32 b) = 4" "length (le64 c) = 8"
  "length (be16 a) = 2" "length (be32 b) = 4" "length (be64 c) = 8"
  by (simp_all add: wire_defs)

lemma or_absorb_iff: "a OR b = a \<longleftrightarrow> a AND b = b" for a b :: "'a::len word"
  by (auto simp: bit_eq_iff bit_or_iff bit_and_iff)

lemma and_0xff: "w AND 0xff = take_bit 8 w" for w :: "'a::len word"
  by (simp add: take_bit_eq_mask mask_eq_exp_minus_1)

lemma low_byte [simp]: "ucast (w AND 0xff) = (ucast w :: u8)" for w :: "'a::len word"
  by (rule bit_word_eqI) (auto simp: and_0xff bit_simps)

text \<open>Reassembling a word from its bytes: the reading direction, free of sign extension.\<close>

definition of_le :: "bytes \<Rightarrow> 'a::len word" where
  "of_le bs = foldr (\<lambda>b w. ucast b OR push_bit 8 w) bs 0"

lemma of_le_simps [simp]:
  "of_le [] = 0"
  "of_le (b # bs) = ucast b OR push_bit 8 (of_le bs)"
  by (simp_all add: of_le_def)

text \<open>The generic run of \<open>k\<close> bytes, which the fixed sizes unfold to.\<close>

fun le_bytes :: "nat \<Rightarrow> 'a::len word \<Rightarrow> bytes" where
  "le_bytes 0 w = []"
| "le_bytes (Suc k) w = ucast w # le_bytes k (drop_bit 8 w)"

lemma low_byte_split:
  fixes w :: "'a::len word"
  shows "ucast (ucast w :: u8) OR push_bit 8 (take_bit m (drop_bit 8 w)) = take_bit (m + 8) w"
  by (rule bit_word_eqI) (auto simp: bit_simps not_less)

lemma of_le_bytes: "of_le (le_bytes k w) = take_bit (8 * k) w"
  by (induction k w rule: le_bytes.induct) (simp_all add: low_byte_split add.commute)

lemma le_bytes_numeral [simp]:
  "le_bytes (numeral v) w = ucast w # le_bytes (pred_numeral v) (drop_bit 8 w)"
  by (simp add: numeral_eq_Suc)

lemma length_le_bytes [simp]: "length (le_bytes k w) = k"
  by (induction k w rule: le_bytes.induct) simp_all

lemma le_fixed:
  "le16 a = le_bytes 2 a" "le32 b = le_bytes 4 b" "le64 c = le_bytes 8 c"
  by (simp_all add: wire_defs drop_bit_drop_bit)

lemma of_le16: "of_le (le16 n) = n"
  by (simp only: le_fixed of_le_bytes) (simp add: take_bit_word_eq_self)

lemma of_le32: "of_le (le32 n) = n"
  by (simp only: le_fixed of_le_bytes) (simp add: take_bit_word_eq_self)

lemma of_le64: "of_le (le64 n) = n"
  by (simp only: le_fixed of_le_bytes) (simp add: take_bit_word_eq_self)

lemma of_be16: "of_le (rev (be16 n)) = n"
  by (simp add: be16_def of_le16)

lemma of_be32: "of_le (rev (be32 n)) = n"
  by (simp add: be32_def of_le32)

lemma of_be64: "of_le (rev (be64 n)) = n"
  by (simp add: be64_def of_le64)

lemma le32_inject [simp]: "le32 a = le32 b \<longleftrightarrow> a = b"
  by (metis of_le32)

lemma be32_inject [simp]: "be32 a = be32 b \<longleftrightarrow> a = b"
  by (metis of_be32)

lemma be16_inject [simp]: "be16 a = be16 b \<longleftrightarrow> a = b"
  by (metis of_be16)

end
