(* ===== verification/Byte_Slice.thy ===== *)
theory Byte_Slice
  imports Prelude
begin

section \<open>libyte::Slice: positioned integer reads and writes (src/byte.hpp)\<close>

text \<open>
  A \<open>Slice\<close> is a \<open>char *\<close> and a position. The array behind the pointer is the list
  \<open>sl_data\<close>; an access outside of it is undefined behaviour (\<open>None\<close>). The writers take
  the low byte of shifted values; the readers widen \<open>data[pos++]\<close>, a plain \<open>char\<close>, whose
  signedness is implementation-defined: the parameter \<open>sg\<close> says whether \<open>char\<close> is signed
  (true for the x86-64 compilers the repository names).
\<close>

record slice =
  sl_data :: bytes
  sl_pos :: nat

definition Slice :: "bytes \<Rightarrow> slice" where
  "Slice s = \<lparr>sl_data = s, sl_pos = 0\<rparr>"

definition Slice_off :: "bytes \<Rightarrow> nat \<Rightarrow> slice" where
  "Slice_off s off = \<lparr>sl_data = s, sl_pos = off\<rparr>"

definition Offset :: "nat \<Rightarrow> slice \<Rightarrow> slice" where
  "Offset off s = s\<lparr>sl_pos := off\<rparr>"

subsection \<open>Writers\<close>

text \<open>
  \<open>put_bytes\<close> is the common shape: the assignments \<open>dest[i] = ...\<close>, the advance of
  \<open>pos\<close> and the returned pointer \<open>dest + k\<close> (an index into the array).
\<close>

definition put_bytes :: "bytes \<Rightarrow> slice \<Rightarrow> (nat \<times> slice) option" where
  "put_bytes bs s = do {
     m \<leftarrow> mem_write (sl_data s) (sl_pos s) bs;
     Some (sl_pos s + length bs, s\<lparr>sl_data := m, sl_pos := sl_pos s + length bs\<rparr>)
   }"

definition PutU8 :: "u8 \<Rightarrow> slice \<Rightarrow> (nat \<times> slice) option" where
  "PutU8 n = put_bytes [n]"

definition PutLeU16 :: "u16 \<Rightarrow> slice \<Rightarrow> (nat \<times> slice) option" where
  "PutLeU16 n = put_bytes [ucast (n AND 0xff), ucast (drop_bit 8 n AND 0xff)]"

definition PutBeU16 :: "u16 \<Rightarrow> slice \<Rightarrow> (nat \<times> slice) option" where
  "PutBeU16 n = put_bytes [ucast (drop_bit 8 n AND 0xff), ucast (n AND 0xff)]"

definition PutLeU32 :: "u32 \<Rightarrow> slice \<Rightarrow> (nat \<times> slice) option" where
  "PutLeU32 n = put_bytes
     [ucast (n AND 0xff), ucast (drop_bit 8 n AND 0xff),
      ucast (drop_bit 16 n AND 0xff), ucast (drop_bit 24 n AND 0xff)]"

definition PutBeU32 :: "u32 \<Rightarrow> slice \<Rightarrow> (nat \<times> slice) option" where
  "PutBeU32 n = put_bytes
     [ucast (drop_bit 24 n AND 0xff), ucast (drop_bit 16 n AND 0xff),
      ucast (drop_bit 8 n AND 0xff), ucast (n AND 0xff)]"

definition PutLeU64 :: "u64 \<Rightarrow> slice \<Rightarrow> (nat \<times> slice) option" where
  "PutLeU64 n = put_bytes
     [ucast (n AND 0xff), ucast (drop_bit 8 n AND 0xff),
      ucast (drop_bit 16 n AND 0xff), ucast (drop_bit 24 n AND 0xff),
      ucast (drop_bit 32 n AND 0xff), ucast (drop_bit 40 n AND 0xff),
      ucast (drop_bit 48 n AND 0xff), ucast (drop_bit 56 n AND 0xff)]"

definition PutBeU64 :: "u64 \<Rightarrow> slice \<Rightarrow> (nat \<times> slice) option" where
  "PutBeU64 n = put_bytes
     [ucast (drop_bit 56 n AND 0xff), ucast (drop_bit 48 n AND 0xff),
      ucast (drop_bit 40 n AND 0xff), ucast (drop_bit 32 n AND 0xff),
      ucast (drop_bit 24 n AND 0xff), ucast (drop_bit 16 n AND 0xff),
      ucast (drop_bit 8 n AND 0xff), ucast (n AND 0xff)]"

subsection \<open>Readers\<close>

text \<open>\<open>data[pos++]\<close>, and its conversion from \<open>char\<close> to a wider unsigned type.\<close>

definition getc :: "slice \<Rightarrow> (u8 \<times> slice) option" where
  "getc s = do {
     b \<leftarrow> mem_read (sl_data s) (sl_pos s);
     Some (b, s\<lparr>sl_pos := sl_pos s + 1\<rparr>)
   }"

definition widen :: "bool \<Rightarrow> u8 \<Rightarrow> 'a::len word" where
  "widen sg b = (if sg then scast b else ucast b)"

definition U8 :: "slice \<Rightarrow> (u8 \<times> slice) option" where
  "U8 s = getc s"

definition LeU16 :: "bool \<Rightarrow> slice \<Rightarrow> (u16 \<times> slice) option" where
  "LeU16 sg s = do {
     (b0, s) \<leftarrow> getc s;
     (b1, s) \<leftarrow> getc s;
     Some (widen sg b0 OR push_bit 8 (widen sg b1), s)
   }"

definition LeU32 :: "bool \<Rightarrow> slice \<Rightarrow> (u32 \<times> slice) option" where
  "LeU32 sg s = do {
     (b0, s) \<leftarrow> getc s;
     (b1, s) \<leftarrow> getc s;
     (b2, s) \<leftarrow> getc s;
     (b3, s) \<leftarrow> getc s;
     Some (widen sg b0 OR push_bit 8 (widen sg b1) OR push_bit 16 (widen sg b2)
             OR push_bit 24 (widen sg b3), s)
   }"

definition LeU64 :: "bool \<Rightarrow> slice \<Rightarrow> (u64 \<times> slice) option" where
  "LeU64 sg s = do {
     (b0, s) \<leftarrow> getc s;
     (b1, s) \<leftarrow> getc s;
     (b2, s) \<leftarrow> getc s;
     (b3, s) \<leftarrow> getc s;
     (b4, s) \<leftarrow> getc s;
     (b5, s) \<leftarrow> getc s;
     (b6, s) \<leftarrow> getc s;
     (b7, s) \<leftarrow> getc s;
     Some (widen sg b0 OR push_bit 8 (widen sg b1) OR push_bit 16 (widen sg b2)
             OR push_bit 24 (widen sg b3) OR push_bit 32 (widen sg b4)
             OR push_bit 40 (widen sg b5) OR push_bit 48 (widen sg b6)
             OR push_bit 56 (widen sg b7), s)
   }"

definition BeU16 :: "bool \<Rightarrow> slice \<Rightarrow> (u16 \<times> slice) option" where
  "BeU16 sg s = do {
     (b0, s) \<leftarrow> getc s;
     (b1, s) \<leftarrow> getc s;
     Some (push_bit 8 (widen sg b0) OR widen sg b1, s)
   }"

definition BeU32 :: "bool \<Rightarrow> slice \<Rightarrow> (u32 \<times> slice) option" where
  "BeU32 sg s = do {
     (b0, s) \<leftarrow> getc s;
     (b1, s) \<leftarrow> getc s;
     (b2, s) \<leftarrow> getc s;
     (b3, s) \<leftarrow> getc s;
     Some (push_bit 24 (widen sg b0) OR push_bit 16 (widen sg b1) OR push_bit 8 (widen sg b2)
             OR widen sg b3, s)
   }"

definition BeU64 :: "bool \<Rightarrow> slice \<Rightarrow> (u64 \<times> slice) option" where
  "BeU64 sg s = do {
     (b0, s) \<leftarrow> getc s;
     (b1, s) \<leftarrow> getc s;
     (b2, s) \<leftarrow> getc s;
     (b3, s) \<leftarrow> getc s;
     (b4, s) \<leftarrow> getc s;
     (b5, s) \<leftarrow> getc s;
     (b6, s) \<leftarrow> getc s;
     (b7, s) \<leftarrow> getc s;
     Some (push_bit 56 (widen sg b0) OR push_bit 48 (widen sg b1) OR push_bit 40 (widen sg b2)
             OR push_bit 32 (widen sg b3) OR push_bit 24 (widen sg b4)
             OR push_bit 16 (widen sg b5) OR push_bit 8 (widen sg b6) OR widen sg b7, s)
   }"

subsection \<open>The GETVAR macros\<close>

text \<open>
  The macros read from a pointer \<open>p\<close> (here an index into the bytes behind it) and advance
  it. Each cast \<open>(uN)(p)[i]\<close> widens the pointee, a \<open>char\<close> of signedness \<open>sg\<close> or, with
  \<open>sg = False\<close>, an \<open>unsigned char\<close>. \<open>GETVAR_BE32\<close> is left out: its statement
  expression ends in \<open>r\<close> without a semicolon, so no use of it compiles.
\<close>

definition GETVAR_8 :: "bytes \<Rightarrow> nat \<Rightarrow> (u8 \<times> nat) option" where
  "GETVAR_8 m p = do { b \<leftarrow> mem_read m p; Some (b, p + 1) }"

definition GETVAR_LE16 :: "bool \<Rightarrow> bytes \<Rightarrow> nat \<Rightarrow> (u16 \<times> nat) option" where
  "GETVAR_LE16 sg m p = do {
     b0 \<leftarrow> mem_read m p;
     b1 \<leftarrow> mem_read m (p + 1);
     Some (push_bit 0 (widen sg b0) OR push_bit 8 (widen sg b1), p + 2)
   }"

definition GETVAR_LE32 :: "bool \<Rightarrow> bytes \<Rightarrow> nat \<Rightarrow> (u32 \<times> nat) option" where
  "GETVAR_LE32 sg m p = do {
     b0 \<leftarrow> mem_read m p;
     b1 \<leftarrow> mem_read m (p + 1);
     b2 \<leftarrow> mem_read m (p + 2);
     b3 \<leftarrow> mem_read m (p + 3);
     Some (push_bit 0 (widen sg b0) OR push_bit 8 (widen sg b1) OR push_bit 16 (widen sg b2)
             OR push_bit 24 (widen sg b3), p + 4)
   }"

definition GETVAR_LE64 :: "bool \<Rightarrow> bytes \<Rightarrow> nat \<Rightarrow> (u64 \<times> nat) option" where
  "GETVAR_LE64 sg m p = do {
     b0 \<leftarrow> mem_read m p;
     b1 \<leftarrow> mem_read m (p + 1);
     b2 \<leftarrow> mem_read m (p + 2);
     b3 \<leftarrow> mem_read m (p + 3);
     b4 \<leftarrow> mem_read m (p + 4);
     b5 \<leftarrow> mem_read m (p + 5);
     b6 \<leftarrow> mem_read m (p + 6);
     b7 \<leftarrow> mem_read m (p + 7);
     Some (push_bit 0 (widen sg b0) OR push_bit 8 (widen sg b1) OR push_bit 16 (widen sg b2)
             OR push_bit 24 (widen sg b3) OR push_bit 32 (widen sg b4)
             OR push_bit 40 (widen sg b5) OR push_bit 48 (widen sg b6)
             OR push_bit 56 (widen sg b7), p + 8)
   }"

definition GETVAR_BE16 :: "bool \<Rightarrow> bytes \<Rightarrow> nat \<Rightarrow> (u16 \<times> nat) option" where
  "GETVAR_BE16 sg m p = do {
     b0 \<leftarrow> mem_read m p;
     b1 \<leftarrow> mem_read m (p + 1);
     Some (push_bit 8 (widen sg b0) OR push_bit 0 (widen sg b1), p + 2)
   }"

text \<open>
  In \<open>GETAVR_BE64\<close> the four upper bytes are widened to \<open>u64\<close> before they are shifted, the
  four lower ones are not: \<open>(u8)(p)[4] << 24\<close> is a 32-bit \<open>int\<close>, sign-extended when it meets
  the \<open>u64\<close>.
\<close>

definition int_shift :: "nat \<Rightarrow> u8 \<Rightarrow> u64" where
  "int_shift k b = scast (push_bit k (ucast b) :: u32)"

definition GETAVR_BE64 :: "bytes \<Rightarrow> nat \<Rightarrow> (u64 \<times> nat) option" where
  "GETAVR_BE64 m p = do {
     b0 \<leftarrow> mem_read m p;
     b1 \<leftarrow> mem_read m (p + 1);
     b2 \<leftarrow> mem_read m (p + 2);
     b3 \<leftarrow> mem_read m (p + 3);
     b4 \<leftarrow> mem_read m (p + 4);
     b5 \<leftarrow> mem_read m (p + 5);
     b6 \<leftarrow> mem_read m (p + 6);
     b7 \<leftarrow> mem_read m (p + 7);
     Some (push_bit 56 (ucast b0) OR push_bit 48 (ucast b1) OR push_bit 40 (ucast b2)
             OR push_bit 32 (ucast b3) OR int_shift 24 b4 OR int_shift 16 b5
             OR int_shift 8 b6 OR int_shift 0 b7, p + 8)
   }"

subsection \<open>What the writers store and the readers load\<close>


lemmas put_defs =
  PutU8_def PutLeU16_def PutBeU16_def PutLeU32_def PutBeU32_def PutLeU64_def PutBeU64_def

lemma put_wire:
  "PutLeU16 a = put_bytes (le16 a)" "PutBeU16 a = put_bytes (be16 a)"
  "PutLeU32 b = put_bytes (le32 b)" "PutBeU32 b = put_bytes (be32 b)"
  "PutLeU64 c = put_bytes (le64 c)" "PutBeU64 c = put_bytes (be64 c)"
  by (simp_all add: put_defs wire_defs)

lemma put_bytes_Some:
  "put_bytes bs s = Some (q, s') \<longleftrightarrow>
     (\<exists>m. mem_write (sl_data s) (sl_pos s) bs = Some m \<and> q = sl_pos s + length bs \<and>
        s' = s\<lparr>sl_data := m, sl_pos := sl_pos s + length bs\<rparr>)"
  by (auto simp: put_bytes_def bind_eq_Some_conv)

lemma put_bytes_at:
  "length bs = length ys \<Longrightarrow>
   put_bytes bs \<lparr>sl_data = pre @ ys @ post, sl_pos = length pre\<rparr> =
     Some (length pre + length bs, \<lparr>sl_data = pre @ bs @ post, sl_pos = length pre + length bs\<rparr>)"
  by (simp add: put_bytes_def mem_write_append)

lemma put_bytes_None:
  "put_bytes bs s = None \<longleftrightarrow> length (sl_data s) < sl_pos s + length bs"
  by (auto simp: put_bytes_def bind_eq_None_conv mem_simps split: Option.bind_splits)

lemma getc_at:
  "k < length bs \<Longrightarrow> getc \<lparr>sl_data = pre @ bs @ post, sl_pos = length pre + k\<rparr> =
     Some (bs ! k, \<lparr>sl_data = pre @ bs @ post, sl_pos = length pre + Suc k\<rparr>)"
  by (simp add: getc_def mem_read_def nth_append)

lemmas getc_at_0 = getc_at [where k = 0, simplified]

text \<open>The value the readers assemble from the bytes of a word, without sign extension.\<close>

lemma le16_value: "ucast (ucast n :: u8) OR push_bit 8 (ucast (ucast (drop_bit 8 n) :: u8)) = n"
  for n :: u16
  using of_le16 [of n] by (simp add: wire_defs)

lemma le32_value:
  "ucast (ucast n :: u8) OR push_bit 8 (ucast (ucast (drop_bit 8 n) :: u8)) OR
   push_bit 16 (ucast (ucast (drop_bit 16 n) :: u8)) OR
   push_bit 24 (ucast (ucast (drop_bit 24 n) :: u8)) = n"
  for n :: u32
  using of_le32 [of n] by (simp add: wire_defs)

lemma le64_value:
  "ucast (ucast n :: u8) OR push_bit 8 (ucast (ucast (drop_bit 8 n) :: u8)) OR
   push_bit 16 (ucast (ucast (drop_bit 16 n) :: u8)) OR
   push_bit 24 (ucast (ucast (drop_bit 24 n) :: u8)) OR
   push_bit 32 (ucast (ucast (drop_bit 32 n) :: u8)) OR
   push_bit 40 (ucast (ucast (drop_bit 40 n) :: u8)) OR
   push_bit 48 (ucast (ucast (drop_bit 48 n) :: u8)) OR
   push_bit 56 (ucast (ucast (drop_bit 56 n) :: u8)) = n"
  for n :: u64
  using of_le64 [of n] by (simp add: wire_defs)

lemma be64_value:
  "push_bit 56 (ucast (ucast (drop_bit 56 n) :: u8)) OR
   push_bit 48 (ucast (ucast (drop_bit 48 n) :: u8)) OR
   push_bit 40 (ucast (ucast (drop_bit 40 n) :: u8)) OR
   push_bit 32 (ucast (ucast (drop_bit 32 n) :: u8)) OR
   push_bit 24 (ucast (ucast (drop_bit 24 n) :: u8)) OR
   push_bit 16 (ucast (ucast (drop_bit 16 n) :: u8)) OR
   push_bit 8 (ucast (ucast (drop_bit 8 n) :: u8)) OR ucast (ucast n :: u8) = n"
  for n :: u64
  using le64_value [of n] by (simp only: or.commute or.left_commute)

subsection \<open>The contract of a field: what is put is what is got\<close>

text \<open>
  One field type of a \<open>Slice\<close> is a writer, a reader, the bytes in between and their number.
  The laws say that the writer stores exactly those bytes and that the reader, standing before
  those bytes, returns the value. What follows holds for every such pair.
\<close>

locale slice_field =
  fixes put :: "'a \<Rightarrow> slice \<Rightarrow> (nat \<times> slice) option"
    and get :: "slice \<Rightarrow> ('a \<times> slice) option"
    and enc :: "'a \<Rightarrow> bytes"
    and w :: nat
  assumes enc_length: "length (enc n) = w"
    and put_enc: "put n s = put_bytes (enc n) s"
    and get_enc: "get \<lparr>sl_data = pre @ enc n @ post, sl_pos = length pre\<rparr> =
      Some (n, \<lparr>sl_data = pre @ enc n @ post, sl_pos = length pre + w\<rparr>)"
begin

lemma enc_inject: "enc m = enc n \<Longrightarrow> m = n"
  using get_enc [of "[]" m "[]"] get_enc [of "[]" n "[]"] by simp

lemma put_defined: "(\<exists>q s'. put n s = Some (q, s')) \<longleftrightarrow> sl_pos s + w \<le> length (sl_data s)"
  using put_bytes_None [of "enc n" s] by (cases "put n s") (auto simp: put_enc enc_length)

lemma put_split:
  assumes "put n s = Some (q, s')"
  shows "q = sl_pos s + w" and "sl_pos s' = sl_pos s + w"
    and "sl_data s' = take (sl_pos s) (sl_data s) @ enc n @ drop (sl_pos s + w) (sl_data s)"
    and "sl_pos s \<le> length (sl_data s)"
  using assms by (auto simp: put_enc put_bytes_Some mem_simps enc_length)

lemma roundtrip:
  assumes "put n s = Some (q, s')"
  shows "get (Offset (sl_pos s) s') = Some (n, s')"
proof -
  note p = put_split [OF assms]
  let ?pre = "take (sl_pos s) (sl_data s)"
  have len: "length ?pre = sl_pos s" using p(4) by simp
  have "Offset (sl_pos s) s' = \<lparr>sl_data = ?pre @ enc n @ drop (sl_pos s + w) (sl_data s),
      sl_pos = length ?pre\<rparr>"
    using p len by (simp add: Offset_def)
  then show ?thesis
    using get_enc [of ?pre n "drop (sl_pos s + w) (sl_data s)"] p len by simp
qed

lemma put_frame:
  assumes "put n s = Some (q, s')" and "j < sl_pos s \<or> sl_pos s + w \<le> j"
  shows "mem_read (sl_data s') j = mem_read (sl_data s) j"
  using assms by (auto simp: put_enc put_bytes_Some enc_length dest: mem_write_outside)

text \<open>A run of fields written one after the other is read back in the same order.\<close>

fun put_all :: "'a list \<Rightarrow> slice \<Rightarrow> slice option" where
  "put_all [] s = Some s"
| "put_all (n # ns) s = do { (q, s) \<leftarrow> put n s; put_all ns s }"

fun get_all :: "nat \<Rightarrow> slice \<Rightarrow> ('a list \<times> slice) option" where
  "get_all 0 s = Some ([], s)"
| "get_all (Suc k) s = do { (n, s) \<leftarrow> get s; (ns, s) \<leftarrow> get_all k s; Some (n # ns, s) }"

lemma put_all_at:
  "length ys = w * length ns \<Longrightarrow>
   put_all ns \<lparr>sl_data = pre @ ys @ post, sl_pos = length pre\<rparr> =
     Some \<lparr>sl_data = pre @ concat (map enc ns) @ post, sl_pos = length pre + w * length ns\<rparr>"
proof (induction ns arbitrary: pre ys)
  case Nil
  then show ?case by simp
next
  case (Cons n ns)
  obtain ys1 ys2 where ys: "ys = ys1 @ ys2" and len: "length ys1 = w" "length ys2 = w * length ns"
    using Cons.prems by (metis append_take_drop_id length_append add_left_cancel length_Cons
      length_take length_drop min_absorb2 le_add1 mult_Suc_right)
  have "put n \<lparr>sl_data = pre @ ys1 @ ys2 @ post, sl_pos = length pre\<rparr> =
      Some (length pre + w, \<lparr>sl_data = pre @ enc n @ ys2 @ post, sl_pos = length pre + w\<rparr>)"
    using put_bytes_at [of "enc n" ys1 pre "ys2 @ post"] len by (simp add: put_enc enc_length)
  moreover have "put_all ns \<lparr>sl_data = pre @ enc n @ ys2 @ post, sl_pos = length pre + w\<rparr> =
      Some \<lparr>sl_data = pre @ enc n @ concat (map enc ns) @ post,
        sl_pos = length pre + w + w * length ns\<rparr>"
    using Cons.IH [of ys2 "pre @ enc n"] len by (simp add: enc_length)
  ultimately show ?case
    by (simp add: ys)
qed

lemma get_all_at:
  "get_all (length ns) \<lparr>sl_data = pre @ concat (map enc ns) @ post, sl_pos = length pre\<rparr> =
     Some (ns, \<lparr>sl_data = pre @ concat (map enc ns) @ post, sl_pos = length pre + w * length ns\<rparr>)"
proof (induction ns arbitrary: pre)
  case Nil
  then show ?case by simp
next
  case (Cons n ns)
  show ?case
    using get_enc [of pre n "concat (map enc ns) @ post"] Cons.IH [of "pre @ enc n"]
    by (simp add: enc_length ac_simps)
qed

end

subsection \<open>The seven field types, when char is unsigned\<close>

lemmas get_defs = LeU16_def LeU32_def LeU64_def BeU16_def BeU32_def BeU64_def U8_def

lemma widen_unsigned [simp]: "widen False b = ucast b"
  by (simp add: widen_def)

lemma getc_list:
  "getc \<lparr>sl_data = m, sl_pos = i\<rparr> =
     (if i < length m then Some (m ! i, \<lparr>sl_data = m, sl_pos = Suc i\<rparr>) else None)"
  by (simp add: getc_def mem_read_def)

lemmas field_simps' = put_wire getc_list nth_append wire_defs
  le16_value le32_value le64_value

interpretation sl_u8: slice_field PutU8 U8 "\<lambda>n. [n]" 1
  by unfold_locales (simp_all add: PutU8_def U8_def getc_list)

interpretation sl_le16: slice_field PutLeU16 "LeU16 False" le16 2
  by unfold_locales (simp_all add: get_defs field_simps')

interpretation sl_le32: slice_field PutLeU32 "LeU32 False" le32 4
  by unfold_locales (simp_all add: get_defs field_simps')

interpretation sl_le64: slice_field PutLeU64 "LeU64 False" le64 8
  by unfold_locales (simp_all add: get_defs field_simps')

interpretation sl_be16: slice_field PutBeU16 "BeU16 False" be16 2
  by unfold_locales (simp_all add: get_defs field_simps' or.commute or.left_commute)

interpretation sl_be32: slice_field PutBeU32 "BeU32 False" be32 4
  by unfold_locales (simp_all add: get_defs field_simps' or.commute or.left_commute)

interpretation sl_be64: slice_field PutBeU64 "BeU64 False" be64 8
  by unfold_locales (simp_all add: get_defs field_simps' be64_value)

text \<open>
  With a signed \<open>char\<close> the readers sign-extend every byte they load, so a byte with its top
  bit set ORs ones over all the bytes above it. The next lemmas say exactly which values
  survive.
\<close>

lemma sx_small: "widen True b = (ucast b :: 'a::len word)" if "\<not> bit b 7" for b :: u8
proof (rule bit_word_eqI)
  fix i assume i: "i < LENGTH('a)"
  have "bit b i \<Longrightarrow> i < 8" using bit_imp_le_length [of b i] by simp
  with that i show "bit (widen True b :: 'a word) i \<longleftrightarrow> bit (ucast b :: 'a word) i"
    by (cases "i < 7") (auto simp: widen_def bit_simps min_def not_less le_less)
qed

lemma LeU16_signed_at:
  "LeU16 True \<lparr>sl_data = pre @ le16 n @ post, sl_pos = length pre\<rparr> =
   Some (n OR (if bit n 7 then 0xff00 else 0),
     \<lparr>sl_data = pre @ le16 n @ post, sl_pos = length pre + 2\<rparr>)"
proof -
  have ff: "(0xff00 :: u16) = push_bit 8 (mask 8)" by (simp add: mask_eq_exp_minus_1)
  have "bit (scast (ucast n :: u8) OR push_bit 8 (scast (ucast (drop_bit 8 n) :: u8)) :: u16) i \<longleftrightarrow>
      bit (n OR (if bit n 7 then 0xff00 else 0)) i" if "i < 16" for i
  proof (cases "i < 8")
    case True
    then show ?thesis unfolding ff by (cases "i = 7") (auto simp: bit_simps min_def)
  next
    case False
    then show ?thesis
      using that unfolding ff by (cases "i = 15") (auto simp: bit_simps min_def)
  qed
  then have "scast (ucast n :: u8) OR push_bit 8 (scast (ucast (drop_bit 8 n) :: u8)) =
      n OR (if bit n 7 then 0xff00 else 0)"
    by (intro bit_word_eqI) simp
  then show ?thesis
    by (simp add: LeU16_def getc_list nth_append wire_defs widen_def)
qed

lemma int_shift_or:
  "int_shift 24 (ucast (drop_bit 24 n)) OR int_shift 16 (ucast (drop_bit 16 n)) OR
   int_shift 8 (ucast (drop_bit 8 n)) OR int_shift 0 (ucast n) =
   take_bit 32 n OR (if bit n 31 then 0xffffffff00000000 else 0)" (is "?l = ?r")
proof (rule bit_word_eqI)
  fix i assume i: "i < LENGTH(64)"
  have ff: "(0xffffffff00000000 :: u64) = push_bit 32 (mask 32)"
    by (simp add: mask_eq_exp_minus_1)
  have sx: "bit (int_shift k b) i \<longleftrightarrow>
      (if i < 32 then k \<le> i \<and> bit b (i - k) else k \<le> 31 \<and> bit b (31 - k))" for k b
    using i by (cases "i = 31") (auto simp: int_shift_def bit_simps min_def not_less)
  show "bit ?l i \<longleftrightarrow> bit ?r i"
    using i unfolding ff
    by (cases "i < 8"; cases "i < 16"; cases "i < 24"; cases "i < 32") (auto simp: sx bit_simps)
qed

lemma GETAVR_BE64_value:
  "GETAVR_BE64 (be64 n) 0 = Some (n OR (if bit n 31 then 0xffffffff00000000 else 0), 8)"
proof -
  have hi: "push_bit 56 (ucast (ucast (drop_bit 56 n) :: u8)) OR
      push_bit 48 (ucast (ucast (drop_bit 48 n) :: u8)) OR
      push_bit 40 (ucast (ucast (drop_bit 40 n) :: u8)) OR
      push_bit 32 (ucast (ucast (drop_bit 32 n) :: u8)) = push_bit 32 (drop_bit 32 n)"
    by (rule bit_word_eqI, rename_tac i, case_tac "i < 40"; case_tac "i < 48"; case_tac "i < 56")
      (auto simp: bit_simps)
  have whole: "push_bit 32 (drop_bit 32 n) OR take_bit 32 n OR m = n OR m" for m
    by (rule bit_word_eqI, rename_tac i, case_tac "i < 32") (auto simp: bit_simps)
  show ?thesis
    using whole [of 0] whole
    by (simp add: GETAVR_BE64_def mem_read_def wire_defs int_shift_or hi flip: or.assoc)
      (simp add: or.assoc int_shift_or hi whole)
qed

subsection \<open>Properties\<close>

text \<open>
  C14. What a \<open>Put\<close> writes, the matching reader returns, in both byte orders and all widths,
  when \<open>char\<close> is unsigned: after any successful \<open>Put\<close>, going back to the position before it and
  reading yields the value put and leaves the slice where the writer left it.
\<close>

theorem slice_put_get_roundtrip:
  "(PutU8 b s = Some (q, t) \<longrightarrow> U8 (Offset (sl_pos s) t) = Some (b, t)) \<and>
   (PutLeU16 n s = Some (q, t) \<longrightarrow> LeU16 False (Offset (sl_pos s) t) = Some (n, t)) \<and>
   (PutBeU16 n s = Some (q, t) \<longrightarrow> BeU16 False (Offset (sl_pos s) t) = Some (n, t)) \<and>
   (PutLeU32 k s = Some (q, t) \<longrightarrow> LeU32 False (Offset (sl_pos s) t) = Some (k, t)) \<and>
   (PutBeU32 k s = Some (q, t) \<longrightarrow> BeU32 False (Offset (sl_pos s) t) = Some (k, t)) \<and>
   (PutLeU64 l s = Some (q, t) \<longrightarrow> LeU64 False (Offset (sl_pos s) t) = Some (l, t)) \<and>
   (PutBeU64 l s = Some (q, t) \<longrightarrow> BeU64 False (Offset (sl_pos s) t) = Some (l, t))"
  by (intro conjI impI sl_u8.roundtrip sl_le16.roundtrip sl_be16.roundtrip sl_le32.roundtrip
      sl_be32.roundtrip sl_le64.roundtrip sl_be64.roundtrip)

theorem slice_put_get_roundtrip_witness:
  "\<exists>t. PutBeU32 0x12345678 (Slice_off [0, 0, 0, 0, 0, 0] 1) = Some (5, t) \<and>
     sl_data t = [0, 0x12, 0x34, 0x56, 0x78, 0] \<and>
     BeU32 False (Offset 1 t) = Some (0x12345678, t)"
proof -
  let ?s = "Slice_off [0, 0, 0, 0, 0, 0] 1"
  let ?t = "\<lparr>sl_data = [0, 0x12, 0x34, 0x56, 0x78, 0], sl_pos = 5\<rparr>"
  have put: "PutBeU32 0x12345678 ?s = Some (5, ?t)"
    by (simp add: PutBeU32_def put_bytes_def mem_write_def Slice_off_def)
  have "sl_pos ?s = 1" by (simp add: Slice_off_def)
  then show ?thesis
    using slice_put_get_roundtrip [of 0 ?s 5 ?t 0 "0x12345678" 0] put by auto
qed

text \<open>
  With a signed \<open>char\<close> (the x86-64 default) a 16-bit value survives \<open>PutLeU16\<close> and
  \<open>LeU16\<close> exactly when its low byte is below 0x80 or its high byte is all ones: the reader
  sign-extends the low byte over the high one.
\<close>

theorem LeU16_signed_roundtrip_iff:
  assumes "PutLeU16 n s = Some (q, t)"
  shows "LeU16 True (Offset (sl_pos s) t) = Some (n, t) \<longleftrightarrow> (bit n 7 \<longrightarrow> n AND 0xff00 = 0xff00)"
proof -
  note p = sl_le16.put_split [OF assms]
  let ?pre = "take (sl_pos s) (sl_data s)" and ?post = "drop (sl_pos s + 2) (sl_data s)"
  have "Offset (sl_pos s) t = \<lparr>sl_data = ?pre @ le16 n @ ?post, sl_pos = length ?pre\<rparr>"
    using p by (simp add: Offset_def)
  then have "LeU16 True (Offset (sl_pos s) t) = Some (n OR (if bit n 7 then 0xff00 else 0), t)"
    using LeU16_signed_at [of ?pre n ?post] p by simp
  moreover have "n OR 0xff00 = n \<longleftrightarrow> n AND 0xff00 = 0xff00"
    by (rule or_absorb_iff)
  ultimately show ?thesis by simp
qed

theorem LeU16_signed_roundtrip_iff_witness:
  "LeU16 True (Offset 0 \<lparr>sl_data = [0x80, 0x01], sl_pos = 2\<rparr>)
     \<noteq> Some (0x0180, \<lparr>sl_data = [0x80, 0x01], sl_pos = 2\<rparr>)"
proof -
  have put: "PutLeU16 0x0180 (Slice [0, 0]) =
      Some (2, \<lparr>sl_data = [0x80, 0x01], sl_pos = 2\<rparr>)"
    by (simp add: PutLeU16_def put_bytes_def mem_write_def Slice_def)
  have "sl_pos (Slice [0, 0]) = 0" by (simp add: Slice_def)
  moreover have "bit (0x0180 :: u16) 7" "(0x0180 :: u16) AND 0xff00 \<noteq> 0xff00"
    by code_simp+
  ultimately show ?thesis
    using LeU16_signed_roundtrip_iff [OF put] by simp
qed

end
