(* ===== verification/Byte_Buffer.thy ===== *)
theory Byte_Buffer
  imports Prelude
begin

section \<open>libyte::Buffer: the growable byte queue (src/buffer.hpp)\<close>

text \<open>
  The private \<open>std::vector<char> v_\<close> is its elements and its capacity. Capacity follows the
  vector of libstdc++: \<open>reserve\<close> raises it to the asked value, an insertion or a \<open>resize\<close> that
  does not fit grows it by the larger of the old size and the added elements, and nothing lowers
  it. A pointer argument is \<open>None\<close> for a null pointer or \<open>Some\<close> of the bytes behind it. A failed
  \<open>assert\<close> and an access out of range are both the result \<open>None\<close>. Each operation runs under the
  mutex \<open>lock_\<close>, so it is one step of the state.
\<close>

record buffer =
  vec :: bytes
  vec_cap :: nat

subsection \<open>The vector operations used\<close>

definition vec_reserve :: "nat \<Rightarrow> buffer \<Rightarrow> buffer" where
  "vec_reserve n b = b\<lparr>vec_cap := max (vec_cap b) n\<rparr>"

definition vec_room :: "nat \<Rightarrow> buffer \<Rightarrow> buffer" where
  "vec_room k b =
     (if length (vec b) + k \<le> vec_cap b then b
      else b\<lparr>vec_cap := length (vec b) + max (length (vec b)) k\<rparr>)"

definition vec_insert_end :: "bytes \<Rightarrow> buffer \<Rightarrow> buffer" where
  "vec_insert_end xs b = (vec_room (length xs) b)\<lparr>vec := vec b @ xs\<rparr>"

definition vec_erase_front :: "nat \<Rightarrow> buffer \<Rightarrow> buffer" where
  "vec_erase_front n b = b\<lparr>vec := drop n (vec b)\<rparr>"

definition vec_resize :: "nat \<Rightarrow> buffer \<Rightarrow> buffer" where
  "vec_resize n b =
     (vec_room (n - length (vec b)) b)\<lparr>vec := take n (vec b) @ replicate (n - length (vec b)) 0\<rparr>"

subsection \<open>The class\<close>

definition Buffer :: buffer where
  "Buffer = \<lparr>vec = [], vec_cap = 0\<rparr>"

definition Buffer_sized :: "nat \<Rightarrow> buffer" where
  "Buffer_sized n = vec_reserve n Buffer"

definition Empty :: "buffer \<Rightarrow> bool" where
  "Empty b = (vec b = [])"

definition Cap :: "buffer \<Rightarrow> nat" where
  "Cap b = vec_cap b"

definition Len :: "buffer \<Rightarrow> nat" where
  "Len b = length (vec b)"

text \<open>\<open>v_.data()\<close> is the null pointer while nothing has been allocated.\<close>

definition Bytes :: "buffer \<Rightarrow> bytes option" where
  "Bytes b = (if vec_cap b = 0 then None else Some (vec b))"

definition tryWrite :: "bytes option \<Rightarrow> nat \<Rightarrow> buffer \<Rightarrow> (nat \<times> buffer) option" where
  "tryWrite p n b =
     (let s = Cap b;
          b = (if Len b + n > s then vec_reserve (s + 2 * n) b else b)
      in do {
        src \<leftarrow> p;
        xs \<leftarrow> mem_slice src 0 n;
        Some (n, vec_insert_end xs b)
      })"

definition Write :: "bytes option \<Rightarrow> nat \<Rightarrow> buffer \<Rightarrow> (nat \<times> buffer) option" where
  "Write p n b = (if p \<noteq> None \<or> n > 0 then tryWrite p n b else None)"

text \<open>\<open>Write(const char *s)\<close>: \<open>strlen\<close> stops at the first zero byte.\<close>

definition Write_cstr :: "bytes \<Rightarrow> buffer \<Rightarrow> (nat \<times> buffer) option" where
  "Write_cstr s b =
     (if 0 \<in> set s then Write (Some s) (length (takeWhile (\<lambda>c. c \<noteq> 0) s)) b else None)"

definition WriteByte :: "u8 \<Rightarrow> buffer \<Rightarrow> (nat \<times> buffer) option" where
  "WriteByte c = Write (Some [c]) 1"

text \<open>\<open>Write(T b)\<close>: the object representation of a trivially copyable value.\<close>

definition Write_obj :: "bytes \<Rightarrow> buffer \<Rightarrow> (nat \<times> buffer) option" where
  "Write_obj rep = Write (Some rep) (length rep)"

definition Write_buffer :: "buffer \<Rightarrow> buffer \<Rightarrow> (nat \<times> buffer) option" where
  "Write_buffer o' = Write (Bytes o') (Len o')"

definition Write_string :: "bytes \<Rightarrow> buffer \<Rightarrow> (nat \<times> buffer) option" where
  "Write_string s = Write (Some s) (length s)"

definition tryRead :: "bytes \<Rightarrow> nat \<Rightarrow> buffer \<Rightarrow> (nat \<times> bytes \<times> buffer) option" where
  "tryRead p n b =
     (let n = (if n > Len b then Len b else n)
      in if n > 0 then do {
           p \<leftarrow> mem_write p 0 (take n (vec b));
           Some (n, p, vec_erase_front n b)
         }
         else Some (n, p, b))"

definition Read :: "bytes option \<Rightarrow> nat \<Rightarrow> buffer \<Rightarrow> (nat \<times> bytes \<times> buffer) option" where
  "Read p n b = (case p of None \<Rightarrow> None | Some d \<Rightarrow> if n > 0 then tryRead d n b else None)"

definition Reset :: "nat \<Rightarrow> buffer \<Rightarrow> buffer" where
  "Reset offset = vec_resize offset"

definition Remove :: "nat \<Rightarrow> buffer \<Rightarrow> nat \<times> buffer" where
  "Remove n b = (let n = (if n > Len b then Len b else n) in (n, vec_erase_front n b))"

definition Realloc :: "nat \<Rightarrow> bool \<Rightarrow> buffer \<Rightarrow> buffer" where
  "Realloc n force b =
     vec_resize 0 (if force \<or> Cap b < n then vec_reserve n b else b)"

subsection \<open>Invariant and behaviour\<close>

named_theorems buf_defs \<open>definitions of the buffer operations\<close>

declare Buffer_def [buf_defs] Empty_def [buf_defs] Cap_def [buf_defs] Len_def [buf_defs]
  vec_reserve_def [buf_defs] vec_room_def [buf_defs] vec_insert_end_def [buf_defs]
  vec_erase_front_def [buf_defs] vec_resize_def [buf_defs] Bytes_def [buf_defs]
  tryWrite_def [buf_defs] Write_def [buf_defs] tryRead_def [buf_defs] Read_def [buf_defs]
  Reset_def [buf_defs] Remove_def [buf_defs] Realloc_def [buf_defs] WriteByte_def [buf_defs]
  Write_obj_def [buf_defs] Write_string_def [buf_defs] Write_cstr_def [buf_defs]
  Write_buffer_def [buf_defs] Buffer_sized_def [buf_defs]

definition buf_ok :: "buffer \<Rightarrow> bool" where
  "buf_ok b \<longleftrightarrow> length (vec b) \<le> vec_cap b"

lemma Write_Some:
  "Write p n b = Some (k, b') \<Longrightarrow> \<exists>src. p = Some src \<and> n \<le> length src \<and> k = n \<and>
     vec b' = vec b @ take n src"
  by (auto simp: buf_defs mem_slice_def Let_def bind_eq_Some_conv split: if_splits)

lemma Write_defined:
  "n \<le> length src \<Longrightarrow> \<exists>b'. Write (Some src) n b = Some (n, b') \<and> vec b' = vec b @ take n src"
  by (auto simp: buf_defs mem_slice_def Let_def)

lemma Write_None: "Write p n b = None \<longleftrightarrow> (case p of None \<Rightarrow> True | Some src \<Rightarrow> length src < n)"
  by (auto simp: buf_defs mem_slice_def Let_def split: option.splits)

text \<open>The room \<open>tryWrite\<close> reserves is always enough: the insertion never reallocates again.\<close>

lemma tryWrite_no_second_growth:
  assumes "buf_ok b" and "tryWrite p n b = Some (k, b')"
  shows "vec_cap b' = (if Len b + n > Cap b then Cap b + 2 * n else Cap b)"
proof -
  let ?b = "if Len b + n > Cap b then vec_reserve (Cap b + 2 * n) b else b"
  obtain src where "n \<le> length src" and b': "b' = vec_insert_end (take n src) ?b"
    using assms(2) by (auto simp: tryWrite_def Let_def mem_simps bind_eq_Some_conv)
  then have xs: "length (take n src) = n" by simp
  have "vec_room n ?b = ?b"
    using assms(1) by (auto simp: vec_room_def buf_ok_def vec_reserve_def Len_def Cap_def)
  then show ?thesis
    using assms(1) xs b' by (auto simp: vec_insert_end_def buf_ok_def vec_reserve_def Len_def Cap_def)
qed

lemma Write_ok: "buf_ok b \<Longrightarrow> Write p n b = Some (k, b') \<Longrightarrow> buf_ok b'"
  by (auto simp: buf_ok_def buf_defs mem_simps Let_def bind_eq_Some_conv split: if_splits)

lemma vec_resize_ok: "buf_ok b \<Longrightarrow> buf_ok (vec_resize n b)"
  by (auto simp: buf_ok_def buf_defs)

lemma Reset_ok: "buf_ok b \<Longrightarrow> buf_ok (Reset n b)"
  by (simp add: Reset_def vec_resize_ok)

lemma Remove_ok: "buf_ok b \<Longrightarrow> buf_ok (snd (Remove n b))"
  by (auto simp: buf_ok_def buf_defs Let_def)

lemma Realloc_ok: "buf_ok b \<Longrightarrow> buf_ok (Realloc n f b)"
  by (auto simp: buf_ok_def buf_defs)

lemma Read_ok: "buf_ok b \<Longrightarrow> Read p n b = Some (k, d, b') \<Longrightarrow> buf_ok b'"
  by (auto simp: buf_ok_def buf_defs Let_def bind_eq_Some_conv split: if_splits option.splits)

lemma Remove_contents [simp]: "vec (snd (Remove n b)) = drop n (vec b)"
  by (auto simp: buf_defs Let_def)

lemma Remove_count: "fst (Remove n b) = min n (Len b)"
  by (auto simp: buf_defs Let_def)

lemma Reset_contents: "vec (Reset n b) = take n (vec b) @ replicate (n - length (vec b)) 0"
  by (simp add: buf_defs)

lemma Reset_0 [simp]: "vec (Reset 0 b) = []"
  by (simp add: Reset_contents)

lemma Realloc_contents [simp]: "vec (Realloc n f b) = []"
  by (simp add: buf_defs)

lemma Read_spec:
  assumes "Read (Some d) n b = Some (k, d', b')"
  shows "k = min n (Len b)" and "take k d' = take k (vec b)" and "drop k d' = drop k d"
    and "vec b' = drop k (vec b)"
  using assms
  by (auto simp: buf_defs mem_simps Let_def bind_eq_Some_conv split: if_splits)

subsection \<open>The contract clients rely on: a first-in first-out byte queue\<close>

text \<open>
  What the connections of the network layer need of a buffer: writing appends, removing drops
  from the front, whatever happens to the capacity.
\<close>

locale byte_fifo =
  fixes contents :: "'b \<Rightarrow> bytes"
    and append' :: "bytes \<Rightarrow> 'b \<Rightarrow> 'b"
    and discard :: "nat \<Rightarrow> 'b \<Rightarrow> 'b"
  assumes contents_append: "contents (append' xs b) = contents b @ xs"
    and contents_discard: "contents (discard n b) = drop n (contents b)"
begin

fun append_all :: "bytes list \<Rightarrow> 'b \<Rightarrow> 'b" where
  "append_all [] b = b"
| "append_all (xs # xss) b = append_all xss (append' xs b)"

lemma contents_append_all: "contents (append_all xss b) = contents b @ concat xss"
  by (induction xss arbitrary: b) (simp_all add: contents_append)

lemma discard_append:
  "n \<le> length (contents b) \<Longrightarrow>
   contents (append' xs (discard n b)) = contents (discard n (append' xs b))"
  by (simp add: contents_append contents_discard)

lemma discard_discard: "contents (discard m (discard n b)) = contents (discard (m + n) b)"
  by (simp add: contents_discard)

lemma fifo: "contents b = xs @ ys \<Longrightarrow> contents (discard (length xs) b) = ys"
  by (simp add: contents_discard)

end

definition buf_append :: "bytes \<Rightarrow> buffer \<Rightarrow> buffer" where
  "buf_append xs b = (case Write (Some xs) (length xs) b of None \<Rightarrow> b | Some (_, b') \<Rightarrow> b')"

definition buf_discard :: "nat \<Rightarrow> buffer \<Rightarrow> buffer" where
  "buf_discard n b = snd (Remove n b)"

lemma Write_buf_append: "Write (Some xs) (length xs) b = Some (length xs, buf_append xs b)"
  using Write_defined [of "length xs" xs b] by (auto simp: buf_append_def)

lemma v_buf_append [simp]: "vec (buf_append xs b) = vec b @ xs"
  using Write_defined [of "length xs" xs b] by (auto simp: buf_append_def)

lemma buf_append_ok: "buf_ok b \<Longrightarrow> buf_ok (buf_append xs b)"
  using Write_buf_append Write_ok by blast

interpretation buf: byte_fifo vec buf_append buf_discard
  by unfold_locales (simp_all add: buf_discard_def)

subsection \<open>Properties\<close>

text \<open>
  C13. \<open>Buffer\<close> is a queue of bytes: a write of \<open>n\<close> bytes that is allowed appends exactly them
  and returns \<open>n\<close>, a read hands out the oldest bytes (all of them when fewer are stored) and
  removes them, a remove drops the oldest bytes and returns how many it dropped; and each of them
  keeps the size within the capacity.
\<close>

theorem buffer_queue:
  "(buf_ok b \<and> n \<le> length src \<longrightarrow>
      (\<exists>b'. Write (Some src) n b = Some (n, b') \<and> vec b' = vec b @ take n src \<and> buf_ok b')) \<and>
   (buf_ok b \<and> 0 < n \<and> n \<le> length dst \<longrightarrow>
      (\<exists>dst' b'. Read (Some dst) n b = Some (min n (Len b), dst', b') \<and>
         take (min n (Len b)) dst' @ vec b' = vec b \<and> buf_ok b')) \<and>
   (buf_ok b \<longrightarrow> (\<exists>b'. Remove n b = (min n (Len b), b') \<and> vec b' = drop n (vec b) \<and> buf_ok b'))"
proof (intro conjI impI)
  assume "buf_ok b \<and> n \<le> length src"
  then show "\<exists>b'. Write (Some src) n b = Some (n, b') \<and> vec b' = vec b @ take n src \<and> buf_ok b'"
    using Write_defined [of n src b] Write_ok by blast
next
  assume a: "buf_ok b \<and> 0 < n \<and> n \<le> length dst"
  then obtain k d b' where r: "Read (Some dst) n b = Some (k, d, b')"
    by (cases "Read (Some dst) n b") (auto simp: Read_def tryRead_def Let_def Len_def mem_simps bind_eq_None_conv split: if_splits)
  note s = Read_spec [OF r]
  have "take k d @ vec b' = vec b" using s by simp
  then show "\<exists>dst' b'. Read (Some dst) n b = Some (min n (Len b), dst', b') \<and>
      take (min n (Len b)) dst' @ vec b' = vec b \<and> buf_ok b'"
    using r s(1) Read_ok a by blast
next
  assume "buf_ok b"
  then show "\<exists>b'. Remove n b = (min n (Len b), b') \<and> vec b' = drop n (vec b) \<and> buf_ok b'"
    using Remove_ok [of b n] Remove_contents [of n b]
    by (cases "Remove n b") (auto simp: Remove_count [symmetric])
qed

theorem buffer_queue_witness:
  "\<exists>b'. Write (Some [7, 8, 9]) 2 \<lparr>vec = [1], vec_cap = 1\<rparr> = Some (2, b') \<and> vec b' = [1, 7, 8]"
proof -
  have "buf_ok \<lparr>vec = [1], vec_cap = 1\<rparr> \<and> 2 \<le> length [7, 8, 9 :: u8]"
    by (simp add: buf_ok_def)
  then show ?thesis
    using buffer_queue [of "\<lparr>vec = [1], vec_cap = 1\<rparr>" 2 "[7, 8, 9]" "[]"] by auto
qed

end
