(* ===== verification/Nalu.thy ===== *)
theory Nalu
  imports Prelude
begin

section \<open>Annex-B byte streams: nalu::Split, nalu::Sort, read264frame (src/stream/sps.hpp, frame.hpp)\<close>

text \<open>
  A frame is a run of NAL units, each after the start code 00 00 00 01. Pointers are indices
  into the allocation \<open>m\<close> that holds the frame; \<open>memcmp\<close> over four bytes reads all four, so a
  comparison that reaches past the allocation is undefined behaviour (\<open>None\<close>).
\<close>

definition START :: bytes where
  "START = [0, 0, 0, 1]"

text \<open>Conversion of a \<open>size_t\<close> to \<open>int\<close>, and \<open>size_t\<close> subtraction, on 64-bit hosts.\<close>

definition c_int :: "nat \<Rightarrow> int" where
  "c_int n = sint (word_of_nat n :: 32 word)"

definition sub_size :: "nat \<Rightarrow> nat \<Rightarrow> nat" where
  "sub_size a b = (if b \<le> a then a - b else a + 2 ^ 64 - b)"

lemma c_int_small [simp]: "n < 2 ^ 31 \<Longrightarrow> c_int n = int n"
  by (simp add: c_int_def signed_of_nat signed_take_bit_int_eq_self)

lemma sub_size_le [simp]: "b \<le> a \<Longrightarrow> sub_size a b = a - b"
  by (simp add: sub_size_def)

definition IsH264 :: "u8 \<Rightarrow> bool" where
  "IsH264 b \<longleftrightarrow> b AND 0xf0 = 0x60"

record unit_t =
  u_type :: u8
  u_size :: int
  u_data :: "nat option"

definition unit_zero :: unit_t where
  "unit_zero = \<lparr>u_type = 0, u_size = 0, u_data = None\<rparr>"

subsection \<open>Split\<close>

function scan_start :: "bytes \<Rightarrow> nat \<Rightarrow> nat \<Rightarrow> nat \<Rightarrow> nat option" where
  "scan_start m d len i =
     (if i < len then
        (case mem_slice m (d + i) 4 of
           None \<Rightarrow> None
         | Some w \<Rightarrow> if w = START then Some i else scan_start m d len (Suc i))
      else Some i)"
  by pat_completeness auto
termination
  by (relation "measure (\<lambda>(m, d, len, i). len - i)") auto

declare scan_start.simps [simp del]

text \<open>
  \<open>Split\<close> returns the pointer to the last unit (\<open>None\<close> inside is the null pointer, when the data
  does not begin with a start code), the new \<open>length\<close> and the units before the last one.
\<close>

function Split_nalu ::
  "bytes \<Rightarrow> nat \<Rightarrow> nat \<Rightarrow> unit_t list \<Rightarrow> (nat option \<times> nat \<times> unit_t list) option" where
  "Split_nalu m data len nalus =
     (case mem_slice m data 4 of
        None \<Rightarrow> None
      | Some w \<Rightarrow>
          if w \<noteq> START then Some (None, len, nalus)
          else
            (case scan_start m (data + 4) (sub_size len 4) 0 of
               None \<Rightarrow> None
             | Some i \<Rightarrow>
                 if i < sub_size len 4 then
                   (case mem_read m (data + 4) of
                      None \<Rightarrow> None
                    | Some b0 \<Rightarrow>
                        Split_nalu m (data + 4 + i) (sub_size len 4 - i)
                          (nalus @ [\<lparr>u_type = b0, u_size = c_int i, u_data = Some (data + 4)\<rparr>]))
                 else Some (Some (data + 4), sub_size len 4, nalus)))"
  by pat_completeness auto
termination
  by (relation "measure (\<lambda>(m, data, len, nalus). length m - data)") (auto simp: mem_simps)

declare Split_nalu.simps [simp del]

subsection \<open>Sort\<close>

text \<open>
  The codec is decided by the first unit (\<open>nalus[0]\<close>, undefined when there is none). The last
  SPS, PPS and (HEVC) VPS win; the two slots of the result start out zeroed.
\<close>

definition AVC_NALU_TYPE_SPS :: u8 where "AVC_NALU_TYPE_SPS = 7"
definition AVC_NALU_TYPE_PPS :: u8 where "AVC_NALU_TYPE_PPS = 8"
definition HEVC_NALU_TYPE_VPS :: u8 where "HEVC_NALU_TYPE_VPS = 32"
definition HEVC_NALU_TYPE_SPS :: u8 where "HEVC_NALU_TYPE_SPS = 33"
definition HEVC_NALU_TYPE_PPS :: u8 where "HEVC_NALU_TYPE_PPS = 34"

lemmas nalu_types = AVC_NALU_TYPE_SPS_def AVC_NALU_TYPE_PPS_def HEVC_NALU_TYPE_VPS_def
  HEVC_NALU_TYPE_SPS_def HEVC_NALU_TYPE_PPS_def

fun sort_step :: "bool \<Rightarrow> unit_t \<Rightarrow> unit_t \<times> unit_t \<times> unit_t option \<Rightarrow> unit_t \<times> unit_t \<times> unit_t option" where
  "sort_step b264 v (r0, r1, vps) =
     (if b264 then
        (if u_type v AND 0x1F = AVC_NALU_TYPE_SPS then (v, r1, vps)
         else if u_type v AND 0x1F = AVC_NALU_TYPE_PPS then (r0, v, vps)
         else (r0, r1, vps))
      else
        (let t = drop_bit 1 (u_type v AND 0x7E) in
         if t = HEVC_NALU_TYPE_SPS then (v, r1, vps)
         else if t = HEVC_NALU_TYPE_PPS then (r0, v, vps)
         else if t = HEVC_NALU_TYPE_VPS then (r0, r1, Some v)
         else (r0, r1, vps)))"

definition Sort :: "unit_t list \<Rightarrow> unit_t list option" where
  "Sort nalus =
     (case nalus of
        [] \<Rightarrow> None
      | first # _ \<Rightarrow>
          (case fold (sort_step (IsH264 (u_type first))) nalus (unit_zero, unit_zero, None) of
             (r0, r1, vps) \<Rightarrow>
               Some ([r0, r1] @ (case vps of None \<Rightarrow> [] | Some v \<Rightarrow> [v]))))"

subsection \<open>read264frame\<close>

text \<open>
  The offset of the start code after the first slice (types 1 and 5), or -1. The conditions are
  short-circuited, so a byte is read only when those before it matched.
\<close>

definition is_start :: "bytes \<Rightarrow> nat \<Rightarrow> bool option" where
  "is_start b i = do {
     b0 \<leftarrow> mem_read b i;
     if b0 \<noteq> 0 then Some False else do {
       b1 \<leftarrow> mem_read b (i + 1);
       if b1 \<noteq> 0 then Some False else do {
         b2 \<leftarrow> mem_read b (i + 2);
         if b2 \<noteq> 0 then Some False else do {
           b3 \<leftarrow> mem_read b (i + 3);
           Some (b3 = 1)
         }
       }
     }
   }"

function read264_loop :: "bytes \<Rightarrow> int \<Rightarrow> nat \<Rightarrow> bool \<Rightarrow> int option" where
  "read264_loop b len i ok =
     (if int i < len then
        (case is_start b i of
           None \<Rightarrow> None
         | Some False \<Rightarrow> read264_loop b len (Suc i) ok
         | Some True \<Rightarrow>
             if ok then Some (int i)
             else
               (case mem_read b (i + 4) of
                  None \<Rightarrow> None
                | Some t \<Rightarrow>
                    read264_loop b len (Suc i) (t AND 0x1F = 1 \<or> t AND 0x1F = 5)))
      else Some (- 1))"
  by pat_completeness auto
termination
  by (relation "measure (\<lambda>(b, len, i, ok). nat (len - int i))") auto

declare read264_loop.simps [simp del]

definition read264frame :: "bytes \<Rightarrow> int \<Rightarrow> int option" where
  "read264frame b len = read264_loop b len 0 False"

subsection \<open>What Split computes\<close>

text \<open>A byte string has no start code inside when no run of four of its bytes is one.\<close>

definition no_start :: "bytes \<Rightarrow> bool" where
  "no_start xs \<longleftrightarrow> (\<forall>i. i + 4 \<le> length xs \<longrightarrow> take 4 (drop i xs) \<noteq> START)"

definition no_start_upto :: "bytes \<Rightarrow> bool" where
  "no_start_upto xs = list_all (\<lambda>i. take 4 (drop i xs) \<noteq> START) [0..<length xs - 3]"

lemma no_start_code [code]: "no_start xs = no_start_upto xs"
  by (auto simp: no_start_def no_start_upto_def list_all_iff)

text \<open>The frame the units came from.\<close>

definition annexb :: "bytes list \<Rightarrow> bytes" where
  "annexb nals = concat (map ((@) START) nals)"

lemma annexb_simps [simp]:
  "annexb [] = []" "annexb (x # xs) = START @ x @ annexb xs"
  by (simp_all add: annexb_def)

lemma length_START [simp]: "length START = 4"
  by (simp add: START_def)

text \<open>
  No window that starts inside a unit and reaches into the following start code is itself a start
  code: its last byte would be a 1 among the zeros.
\<close>

lemma window_nth: "k + 3 < length y \<Longrightarrow> take 4 (drop k y) ! 3 = y ! (k + 3)"
  by simp

lemma no_early_start:
  assumes "no_start x" and "k < length x"
  shows "take 4 (drop k (x @ START @ rest)) \<noteq> START"
proof (cases "k + 4 \<le> length x")
  case True
  with assms show ?thesis by (simp add: no_start_def)
next
  case False
  let ?y = "x @ START @ rest"
  have "take 4 (drop k ?y) ! 3 = ?y ! (k + 3)"
    using assms(2) by (intro window_nth) simp
  moreover have "?y ! (k + 3) = START ! (k + 3 - length x)"
  proof -
    have "k + 3 - length x < 4" using assms(2) by linarith
    then show ?thesis using False by (simp add: nth_append)
  qed
  moreover have "k + 3 - length x \<in> {0, 1, 2}"
    using False assms(2) by auto
  ultimately have "take 4 (drop k ?y) ! 3 = 0"
    by (auto simp: START_def)
  then show ?thesis by (auto simp: START_def)
qed

lemma scan_skip:
  assumes "\<And>j. i \<le> j \<Longrightarrow> j < k \<Longrightarrow> \<exists>w. mem_slice m (d + j) 4 = Some w \<and> w \<noteq> START"
    and "i \<le> k" and "k \<le> len"
  shows "scan_start m d len i = scan_start m d len k"
  using assms
proof (induction "k - i" arbitrary: i)
  case 0
  then show ?case by simp
next
  case (Suc n)
  then have "i < k" by simp
  from Suc.prems(1) [of i] this obtain w where "mem_slice m (d + i) 4 = Some w" "w \<noteq> START"
    by auto
  then have "scan_start m d len i = scan_start m d len (Suc i)"
    using \<open>i < k\<close> Suc.prems(3) by (subst scan_start.simps) simp
  also have "\<dots> = scan_start m d len k"
    using Suc by simp
  finally show ?case .
qed

lemma scan_finds:
  assumes "no_start x" and "m = pre @ x @ START @ rest" and "length x + 4 \<le> len"
  shows "scan_start m (length pre) len 0 = Some (length x)"
proof -
  have "\<exists>w. mem_slice m (length pre + j) 4 = Some w \<and> w \<noteq> START" if "j < length x" for j
    using no_early_start [OF assms(1) that, of rest] that
    by (auto simp: assms(2) mem_slice_def)
  then have "scan_start m (length pre) len 0 = scan_start m (length pre) len (length x)"
    using assms(3) by (intro scan_skip) auto
  also have "\<dots> = Some (length x)"
    using assms(3) by (subst scan_start.simps) (simp add: assms(2) mem_slice_def)
  finally show ?thesis .
qed

text \<open>
  In the last unit the scan compares at every position, so its final windows reach three bytes
  past the frame; those bytes must be in the allocation and must not complete a start code.
\<close>

lemma scan_last:
  assumes "no_start (x @ take 3 slack)" and "m = pre @ x @ slack" and "3 \<le> length slack"
  shows "scan_start m (length pre) (length x) 0 = Some (length x)"
proof -
  have "\<exists>w. mem_slice m (length pre + j) 4 = Some w \<and> w \<noteq> START" if "j < length x" for j
  proof -
    have "take 4 (drop j (x @ slack)) = take 4 (drop j (x @ take 3 slack))"
    proof -
      have "4 + j - length x \<le> 3" using that by simp
      then show ?thesis by (simp add: min_def)
    qed
    moreover have "take 4 (drop j (x @ take 3 slack)) \<noteq> START"
      using assms(1,3) that by (simp add: no_start_def del: drop_append take_append)
    ultimately show ?thesis
      using that assms(3) by (simp add: assms(2) mem_slice_def del: drop_append take_append)
        (simp add: drop_append)
  qed
  then have "scan_start m (length pre) (length x) 0 = scan_start m (length pre) (length x) (length x)"
    by (intro scan_skip) auto
  then show ?thesis by (subst (asm) (2) scan_start.simps) simp
qed

text \<open>
  The units \<open>Split\<close> reports for a list of NAL units laid out from offset \<open>d\<close> (the start code of
  the first one): one for each but the last.
\<close>

fun units_at :: "nat \<Rightarrow> bytes list \<Rightarrow> unit_t list" where
  "units_at d [] = []"
| "units_at d [x] = []"
| "units_at d (x # y # ys) =
     \<lparr>u_type = (x @ [0]) ! 0, u_size = c_int (length x), u_data = Some (d + 4)\<rparr>
       # units_at (d + 4 + length x) (y # ys)"

lemma Split_step:
  assumes "no_start x" and "length x + 4 \<le> n"
  shows "Split_nalu (pre @ START @ x @ START @ rest) (length pre) (4 + n) us =
    Split_nalu (pre @ START @ x @ START @ rest) (length pre + 4 + length x) (n - length x)
      (us @ [\<lparr>u_type = (x @ [0]) ! 0, u_size = c_int (length x), u_data = Some (length pre + 4)\<rparr>])"
proof -
  let ?m = "pre @ START @ x @ START @ rest"
  have st: "mem_slice ?m (length pre) 4 = Some START"
    by (simp add: mem_slice_def)
  have sc: "scan_start ?m (length pre + 4) n 0 = Some (length x)"
    using scan_finds [OF assms(1) _ assms(2), of ?m "pre @ START" rest] by simp
  have rd: "mem_read ?m (length pre + 4) = Some ((x @ [0]) ! 0)"
    by (cases x) (simp_all add: mem_read_def nth_append START_def)
  show ?thesis
    using assms(2) by (subst Split_nalu.simps) (simp add: st sc rd)
qed

lemma Split_annexb:
  assumes "nals \<noteq> []" and "\<forall>x \<in> set (butlast nals). no_start x"
    and "no_start (last nals @ take 3 slack)" and "3 \<le> length slack"
  shows "Split_nalu (pre @ annexb nals @ slack) (length pre) (length (annexb nals)) us =
    Some (Some (length pre + length (annexb nals) - length (last nals)), length (last nals),
      us @ units_at (length pre) nals)"
  using assms
proof (induction nals arbitrary: pre us rule: induct_list012)
  case 1
  then show ?case by simp
next
  case (2 x)
  have sc: "scan_start (pre @ START @ x @ slack) (length pre + 4) (length x) 0 = Some (length x)"
    using scan_last [of x slack "pre @ START @ x @ slack" "pre @ START"] 2 by simp
  have st: "mem_slice (pre @ START @ x @ slack) (length pre) 4 = Some START"
    by (simp add: mem_slice_def)
  show ?case
    by (subst Split_nalu.simps) (simp add: sc st)
next
  case (3 x y ys)
  have x: "no_start x" using 3 by simp
  let ?pre = "pre @ START @ x"
  have "Split_nalu (pre @ annexb (x # y # ys) @ slack) (length pre)
      (length (annexb (x # y # ys))) us =
    Split_nalu (?pre @ annexb (y # ys) @ slack) (length ?pre) (length (annexb (y # ys)))
      (us @ [\<lparr>u_type = (x @ [0]) ! 0, u_size = c_int (length x), u_data = Some (length pre + 4)\<rparr>])"
    using Split_step [OF x, of "length x + length (annexb (y # ys))" pre "y @ annexb ys @ slack" us]
    by (simp add: add.commute add.left_commute)
  also have "\<dots> = Some (Some (length ?pre + length (annexb (y # ys)) - length (last (y # ys))),
      length (last (y # ys)),
      (us @ [\<lparr>u_type = (x @ [0]) ! 0, u_size = c_int (length x), u_data = Some (length pre + 4)\<rparr>])
        @ units_at (length ?pre) (y # ys))"
    by (rule "3.IH"(2)) (use 3 in auto)
  finally show ?case by (simp add: add.commute add.left_commute)
qed

text \<open>The bytes a unit refers to.\<close>

definition unit_bytes :: "bytes \<Rightarrow> unit_t \<Rightarrow> bytes option" where
  "unit_bytes m u = (case u_data u of None \<Rightarrow> None | Some d \<Rightarrow> mem_slice m d (nat (u_size u)))"

lemma units_at_bytes:
  assumes "\<forall>x \<in> set nals. length x < 2 ^ 31"
  shows "map (unit_bytes (pre @ annexb nals @ slack)) (units_at (length pre) nals) =
    map Some (butlast nals)"
  using assms
proof (induction nals arbitrary: pre rule: induct_list012)
  case (3 x y ys)
  have "unit_bytes (pre @ annexb (x # y # ys) @ slack)
      \<lparr>u_type = (x @ [0]) ! 0, u_size = c_int (length x), u_data = Some (length pre + 4)\<rparr> = Some x"
    using 3 by (simp add: unit_bytes_def mem_slice_def)
  moreover have "map (unit_bytes (pre @ annexb (x # y # ys) @ slack))
      (units_at (length pre + 4 + length x) (y # ys)) = map Some (butlast (y # ys))"
    using "3.IH"(2) [of "pre @ START @ x"] "3.prems" by (simp add: add.assoc)
  ultimately show ?case by simp
qed simp_all

text \<open>With fewer than three readable bytes after a non-empty last unit the scan leaves the allocation.\<close>

lemma scan_faults:
  assumes "no_start (x @ slack)" and "x \<noteq> []" and "length slack < 3"
    and "m = pre @ x @ slack"
  shows "scan_start m (length pre) (length x) 0 = None"
proof -
  let ?k = "length x + length slack - 3"
  have k: "?k < length x" using assms(2,3) by (cases x) auto
  have "\<exists>w. mem_slice m (length pre + j) 4 = Some w \<and> w \<noteq> START" if "j < ?k" for j
  proof -
    have "take 4 (drop j (x @ slack)) \<noteq> START"
      using assms(1) that by (simp add: no_start_def del: drop_append take_append)
    then show ?thesis
      using that by (simp add: assms(4) mem_slice_def)
  qed
  then have "scan_start m (length pre) (length x) 0 = scan_start m (length pre) (length x) ?k"
    using k by (intro scan_skip) auto
  also have "\<dots> = None"
    using k by (subst scan_start.simps) (auto simp: assms(4) mem_slice_def)
  finally show ?thesis .
qed

lemma Split_faults:
  assumes "nals \<noteq> []" and "\<forall>x \<in> set (butlast nals). no_start x"
    and "no_start (last nals @ slack)" and "last nals \<noteq> []" and "length slack < 3"
  shows "Split_nalu (pre @ annexb nals @ slack) (length pre) (length (annexb nals)) us = None"
  using assms
proof (induction nals arbitrary: pre us rule: induct_list012)
  case (2 x)
  have "scan_start (pre @ START @ x @ slack) (length pre + 4) (length x) 0 = None"
    using scan_faults [of x slack "pre @ START @ x @ slack" "pre @ START"] 2 by simp
  then show ?case
    by (subst Split_nalu.simps) (simp add: mem_slice_def)
next
  case (3 x y ys)
  have x: "no_start x" using 3 by simp
  let ?u = "\<lparr>u_type = (x @ [0]) ! 0, u_size = c_int (length x), u_data = Some (length pre + 4)\<rparr>"
  have "Split_nalu (pre @ annexb (x # y # ys) @ slack) (length pre)
      (length (annexb (x # y # ys))) us =
    Split_nalu ((pre @ START @ x) @ annexb (y # ys) @ slack) (length (pre @ START @ x))
      (length (annexb (y # ys))) (us @ [?u])"
    using Split_step [OF x, of "length x + length (annexb (y # ys))" pre "y @ annexb ys @ slack" us]
    by (simp add: add.commute add.left_commute)
  also have "\<dots> = None"
    by (rule "3.IH"(2)) (use 3 in auto)
  finally show ?case .
qed simp

subsection \<open>What Sort computes\<close>

definition is_sps :: "bool \<Rightarrow> unit_t \<Rightarrow> bool" where
  "is_sps b264 v = (if b264 then u_type v AND 0x1F = 7 else drop_bit 1 (u_type v AND 0x7E) = 33)"

definition is_pps :: "bool \<Rightarrow> unit_t \<Rightarrow> bool" where
  "is_pps b264 v = (if b264 then u_type v AND 0x1F = 8 else drop_bit 1 (u_type v AND 0x7E) = 34)"

definition is_vps :: "bool \<Rightarrow> unit_t \<Rightarrow> bool" where
  "is_vps b264 v = (\<not> b264 \<and> drop_bit 1 (u_type v AND 0x7E) = 32)"

lemma sort_step_eq:
  "sort_step b v (r0, r1, vps) =
     (if is_sps b v then v else r0, if is_pps b v then v else r1,
      if is_vps b v then Some v else vps)"
  by (cases b; cases "is_sps b v"; cases "is_pps b v")
    (simp_all add: is_sps_def is_pps_def is_vps_def nalu_types)

lemma sort_fold:
  "fold (sort_step b) us (r0, r1, v) =
     (last (r0 # filter (is_sps b) us), last (r1 # filter (is_pps b) us),
      last (v # map Some (filter (is_vps b) us)))"
proof (induction us arbitrary: r0 r1 v)
  case Nil
  then show ?case by simp
next
  case (Cons u us)
  show ?case
    by (simp only: fold_Cons o_apply sort_step_eq Cons.IH) simp
qed

lemma last_map_Some: "last (None # map Some xs) = (if xs = [] then None else Some (last xs))"
  by (induction xs rule: rev_induct) auto

subsection \<open>Properties\<close>

text \<open>
  C6. Splitting a frame of NAL units gives back the units: every unit but the last is reported
  with its first byte, its size and a pointer to its bytes, and the returned pointer and length are
  those of the last unit. It needs three readable bytes after the frame.
\<close>

theorem Split_recovers_units:
  assumes "nals \<noteq> []" and "\<forall>x \<in> set (butlast nals). no_start x"
    and "no_start (last nals @ take 3 slack)" and "3 \<le> length slack"
    and "\<forall>x \<in> set nals. length x < 2 ^ 31"
  shows "\<exists>us p. Split_nalu (pre @ annexb nals @ slack) (length pre) (length (annexb nals)) [] =
      Some (Some p, length (last nals), us) \<and>
    map (unit_bytes (pre @ annexb nals @ slack)) us = map Some (butlast nals) \<and>
    mem_slice (pre @ annexb nals @ slack) p (length (last nals)) = Some (last nals)"
proof (intro exI conjI)
  show "Split_nalu (pre @ annexb nals @ slack) (length pre) (length (annexb nals)) [] =
      Some (Some (length pre + length (annexb nals) - length (last nals)), length (last nals),
        units_at (length pre) nals)"
    using Split_annexb [OF assms(1-4)] by simp
  show "map (unit_bytes (pre @ annexb nals @ slack)) (units_at (length pre) nals) =
      map Some (butlast nals)"
    by (rule units_at_bytes [OF assms(5)])
  have "annexb nals = annexb (butlast nals) @ START @ last nals"
    using assms(1) by (induction nals rule: induct_list012) auto
  then show "mem_slice (pre @ annexb nals @ slack)
      (length pre + length (annexb nals) - length (last nals)) (length (last nals)) =
      Some (last nals)"
    by (simp add: mem_slice_def)
qed

theorem Split_recovers_units_witness:
  "\<exists>us p. Split_nalu (annexb [[0x67, 1], [0x68], [0x65, 2, 3]] @ [0, 0, 0]) 0 18 [] =
     Some (Some p, 3, us) \<and>
   map (unit_bytes (annexb [[0x67, 1], [0x68], [0x65, 2, 3]] @ [0, 0, 0])) us =
     [Some [0x67, 1], Some [0x68]]"
proof -
  let ?n = "[[0x67, 1], [0x68], [0x65, 2, 3]] :: bytes list"
  have "\<forall>x \<in> set (butlast ?n). no_start x" "no_start (last ?n @ take 3 [0, 0, 0])"
    by (auto simp: no_start_code no_start_upto_def START_def upt_rec)
  then show ?thesis
    using Split_recovers_units [of ?n "[0, 0, 0]" "[]"] by auto
qed

text \<open>
  On a frame that ends with its allocation (or with fewer than three bytes after it) and whose
  last unit is not empty, \<open>Split\<close> reads past the allocation: its scan compares four bytes at every
  position up to the last one.
\<close>

theorem Split_overreads_tight_frame:
  assumes "nals \<noteq> []" and "\<forall>x \<in> set (butlast nals). no_start x"
    and "no_start (last nals @ slack)" and "last nals \<noteq> []" and "length slack < 3"
  shows "Split_nalu (pre @ annexb nals @ slack) (length pre) (length (annexb nals)) us = None"
  by (rule Split_faults [OF assms])

theorem Split_overreads_tight_frame_witness:
  "Split_nalu (START @ [0x41, 0x9a]) 0 6 [] = None"
proof -
  have "no_start ([0x41, 0x9a] @ [])"
    by (simp add: no_start_code no_start_upto_def)
  then show ?thesis
    using Split_overreads_tight_frame [of "[[0x41, 0x9a]]" "[]" "[]"] by simp
qed

text \<open>
  \<open>Sort\<close> puts the last SPS first and the last PPS second, zeroed slots standing for missing
  ones, and a third entry, the last VPS, exactly for an HEVC list that has one; the codec is that
  of the first unit's type byte. It is undefined on an empty list only.
\<close>

theorem Sort_selects:
  "Sort nalus = (case nalus of [] \<Rightarrow> None | f # _ \<Rightarrow>
     (let b = IsH264 (u_type f) in
      Some ([last (unit_zero # filter (is_sps b) nalus), last (unit_zero # filter (is_pps b) nalus)]
        @ (if filter (is_vps b) nalus = [] then [] else [last (filter (is_vps b) nalus)]))))"
  by (cases nalus) (simp_all only: Sort_def sort_fold last_map_Some Let_def list.case prod.case
      split: if_splits, auto)

end
