(* ===== verification/Bit_Reader.thy ===== *)
theory Bit_Reader
  imports Prelude
begin

section \<open>Bit-level reading of parameter sets: u, Ue, Se, de_emulation_prevention (src/stream/sps.hpp)\<close>

text \<open>
  \<open>buf\<close> is the array behind the \<open>BYTE *\<close>, \<open>p\<close> the bit position \<open>nStartBit\<close>. The readers take no
  account of the length: a read outside the array is undefined behaviour (\<open>None\<close>). Positions and
  lengths are unbounded here; they stay below the 32 bits of \<open>UINT\<close> for arrays of less than
  2^29 bytes.
\<close>

definition get_bit :: "bytes \<Rightarrow> nat \<Rightarrow> bool option" where
  "get_bit buf p = do {
     b \<leftarrow> mem_read buf (p div 8);
     Some (b AND drop_bit (p mod 8) 0x80 \<noteq> 0)
   }"

text \<open>The loop \<open>dwRet <<= 1; if (bit) dwRet += 1; nStartBit++\<close>, \<open>n\<close> times.\<close>

fun read_bits :: "nat \<Rightarrow> bytes \<Rightarrow> nat \<Rightarrow> nat \<Rightarrow> (nat \<times> nat) option" where
  "read_bits 0 buf p acc = Some (acc, p)"
| "read_bits (Suc n) buf p acc = do {
     b \<leftarrow> get_bit buf p;
     read_bits n buf (p + 1) (2 * acc + of_bool b)
   }"

definition u_bits :: "nat \<Rightarrow> bytes \<Rightarrow> nat \<Rightarrow> (nat \<times> nat) option" where
  "u_bits n buf p = read_bits n buf p 0"

text \<open>The loop that counts zero bits up to the first one or the end of the \<open>nLen\<close> bytes.\<close>

function count_zeros :: "bytes \<Rightarrow> nat \<Rightarrow> nat \<Rightarrow> nat \<Rightarrow> (nat \<times> nat) option" where
  "count_zeros buf nLen p z =
     (if p < nLen * 8 then
        (case get_bit buf p of
           None \<Rightarrow> None
         | Some True \<Rightarrow> Some (z, p)
         | Some False \<Rightarrow> count_zeros buf nLen (p + 1) (z + 1))
      else Some (z, p))"
  by pat_completeness auto
termination
  by (relation "measure (\<lambda>(buf, nLen, p, z). nLen * 8 - p)") auto

declare count_zeros.simps [simp del]

text \<open>
  \<open>(1 << nZeroNum) - 1 + dwRet\<close> shifts an \<open>int\<close>: from 31 zeros on it overflows, which is
  undefined behaviour.
\<close>

definition Ue :: "bytes \<Rightarrow> nat \<Rightarrow> nat \<Rightarrow> (nat \<times> nat) option" where
  "Ue buf nLen p = do {
     (z, p) \<leftarrow> count_zeros buf nLen p 0;
     (r, p) \<leftarrow> read_bits z buf (p + 1) 0;
     if z < 31 then Some (2 ^ z - 1 + r, p) else None
   }"

text \<open>
  \<open>Ue\<close> yields less than 2^31, so its value is an \<open>int\<close> as it is and \<open>ceil(k / 2)\<close>, computed in
  \<open>double\<close>, is exact.
\<close>

definition Se :: "bytes \<Rightarrow> nat \<Rightarrow> nat \<Rightarrow> (int \<times> nat) option" where
  "Se buf nLen p = do {
     (k, p) \<leftarrow> Ue buf nLen p;
     let nValue = int ((k + 1) div 2);
     Some (if k mod 2 = 0 then - nValue else nValue, p)
   }"

text \<open>
  \<open>de_emulation_prevention\<close> removes emulation bytes in place. The bound of both loops is the
  original size minus two (minus one), an unsigned subtraction that wraps below two bytes.
\<close>

definition deemu_match :: "bytes \<Rightarrow> nat \<Rightarrow> bool option" where
  "deemu_match buf i = do {
     b0 \<leftarrow> mem_read buf i;
     b1 \<leftarrow> mem_read buf (i + 1);
     b2 \<leftarrow> mem_read buf (i + 2);
     Some (unat (b0 XOR 0x00) + unat (b1 XOR 0x00) + unat (b2 XOR 0x03) = 0)
   }"

function deemu_shift :: "bytes \<Rightarrow> nat \<Rightarrow> nat \<Rightarrow> bytes option" where
  "deemu_shift buf n j =
     (if j + 1 < n then
        (case mem_read buf (j + 1) of
           None \<Rightarrow> None
         | Some b \<Rightarrow> deemu_shift (buf[j := b]) n (j + 1))
      else Some buf)"
  by pat_completeness auto
termination
  by (relation "measure (\<lambda>(buf, n, j). n - j)") auto

declare deemu_shift.simps [simp del]

function deemu_loop :: "bytes \<Rightarrow> nat \<Rightarrow> nat \<Rightarrow> nat \<Rightarrow> nat \<Rightarrow> (bytes \<times> nat) option" where
  "deemu_loop buf n bound i sz =
     (if i < bound then
        (case deemu_match buf i of
           None \<Rightarrow> None
         | Some False \<Rightarrow> deemu_loop buf n bound (i + 1) sz
         | Some True \<Rightarrow>
             (case deemu_shift buf n (i + 2) of
                None \<Rightarrow> None
              | Some buf' \<Rightarrow> deemu_loop buf' n bound (i + 1) (sz - 1)))
      else Some (buf, sz))"
  by pat_completeness auto
termination
  by (relation "measure (\<lambda>(buf, n, bound, i, sz). bound - i)") auto

declare deemu_loop.simps [simp del]

definition de_emulation_prevention :: "bytes \<Rightarrow> nat \<Rightarrow> (bytes \<times> nat) option" where
  "de_emulation_prevention buf sz =
     deemu_loop buf sz (if sz < 2 then sz + 2 ^ 32 - 2 else sz - 2) 0 sz"

subsection \<open>Bits of a byte string\<close>

text \<open>The bits of the array in reading order, most significant first.\<close>

definition byte_bits :: "u8 \<Rightarrow> bool list" where
  "byte_bits b = map (\<lambda>k. bit b (7 - k)) [0..<8]"

definition bits_of :: "bytes \<Rightarrow> bool list" where
  "bits_of bs = concat (map byte_bits bs)"

lemma length_byte_bits [simp]: "length (byte_bits b) = 8"
  by (simp add: byte_bits_def)

lemma length_bits_of [simp]: "length (bits_of bs) = 8 * length bs"
  by (induction bs) (simp_all add: bits_of_def)

lemma bits_of_Cons: "bits_of (b # bs) = byte_bits b @ bits_of bs"
  by (simp add: bits_of_def)

lemma bits_of_append: "bits_of (xs @ ys) = bits_of xs @ bits_of ys"
  by (simp add: bits_of_def)

lemma bits_of_nth: "p < 8 * length bs \<Longrightarrow> bits_of bs ! p = bit (bs ! (p div 8)) (7 - p mod 8)"
proof (induction bs arbitrary: p)
  case Nil
  then show ?case by simp
next
  case (Cons b bs)
  show ?case
  proof (cases "p < 8")
    case True
    then show ?thesis by (simp add: bits_of_Cons nth_append byte_bits_def)
  next
    case False
    then obtain q where q: "p = q + 8" by (metis add.commute le_Suc_ex not_less)
    then show ?thesis
      using Cons.IH[of q] Cons.prems by (simp add: bits_of_Cons nth_append div_add_self2)
  qed
qed

lemma top_bit_test: "b AND drop_bit k 0x80 \<noteq> 0 \<longleftrightarrow> bit b (7 - k)" if "k < 8" for b :: u8
proof -
  have exp: "bit (2 ^ 7 :: u8) m \<longleftrightarrow> m < 8 \<and> m = 7" for m
    by (subst bit_exp_iff) (auto simp: possible_bit_word)
  have top: "bit (0x80 :: u8) m = (m = 7)" for m
    using exp[of m] by (cases "m < 8") (auto intro: impossible_bit)
  have mask: "bit (b AND drop_bit k 0x80) n = (bit b n \<and> n = 7 - k)" for n
  proof -
    have "bit (b AND drop_bit k 0x80) n = (bit b n \<and> bit (0x80 :: u8) (k + n))"
      by (simp only: bit_and_iff bit_drop_bit_eq o_def)
    also have "\<dots> = (bit b n \<and> n = 7 - k)"
      using that by (simp only: top) auto
    finally show ?thesis .
  qed
  show ?thesis
  proof
    assume "b AND drop_bit k 0x80 \<noteq> 0"
    then obtain n where "bit (b AND drop_bit k 0x80) n" using bit_eqI[of "b AND drop_bit k 0x80" 0] by force
    then show "bit b (7 - k)" unfolding mask by blast
  next
    assume "bit b (7 - k)"
    then have "bit (b AND drop_bit k 0x80) (7 - k)" unfolding mask by simp
    then show "b AND drop_bit k 0x80 \<noteq> 0" by force
  qed
qed

lemma get_bit_eq: "get_bit buf p = (if p < 8 * length buf then Some (bits_of buf ! p) else None)"
  by (auto simp: get_bit_def mem_read_def bits_of_nth top_bit_test bind_eq_Some_conv)

lemma read_bits_spec:
  "p + n \<le> 8 * length buf \<Longrightarrow>
     read_bits n buf p acc =
       Some (foldl (\<lambda>a b. 2 * a + of_bool b) acc (take n (drop p (bits_of buf))), p + n)"
proof (induction n arbitrary: p acc)
  case 0
  then show ?case by simp
next
  case (Suc n)
  then have "drop p (bits_of buf) = bits_of buf ! p # drop (Suc p) (bits_of buf)"
    by (simp add: Cons_nth_drop_Suc)
  with Suc show ?case by (simp add: get_bit_eq)
qed

text \<open>The other way round: a read that returns stayed inside the array and moved by the bits it read.\<close>

lemma read_bits_SomeD:
  "read_bits n buf p acc = Some (v, q) \<Longrightarrow> q = p + n \<and> (n = 0 \<or> q \<le> 8 * length buf)"
  by (induction n arbitrary: p acc) (auto simp: get_bit_eq bind_eq_Some_conv split: if_splits, force+)

lemma count_zeros_run:
  assumes "p + z < 8 * nLen" "nLen \<le> length buf"
    and "take (Suc z) (drop p (bits_of buf)) = replicate z False @ [True]"
  shows "count_zeros buf nLen p k = Some (k + z, p + z)"
  using assms
proof (induction z arbitrary: p k)
  case 0
  then have "bits_of buf ! p"
    by (simp add: take_Suc_conv_app_nth)
  with 0 show ?case
    by (subst count_zeros.simps) (simp add: get_bit_eq)
next
  case (Suc z)
  then have d: "drop p (bits_of buf) = bits_of buf ! p # drop (Suc p) (bits_of buf)"
    by (simp add: Cons_nth_drop_Suc)
  with Suc.prems(3) have nb: "\<not> bits_of buf ! p"
    and "take (Suc z) (drop (p + 1) (bits_of buf)) = replicate z False @ [True]"
    by simp_all
  with Suc.IH[of "p + 1" "k + 1"] Suc.prems(1,2) nb show ?case
    by (subst count_zeros.simps) (simp add: get_bit_eq)
qed

subsection \<open>Exp-Golomb codes\<close>

text \<open>The encoder the readers invert: the specification of ue(v) and se(v) in H.264 clause 9.1.\<close>

fun to_bits :: "nat \<Rightarrow> nat \<Rightarrow> bool list" where
  "to_bits 0 v = []"
| "to_bits (Suc n) v = to_bits n (v div 2) @ [odd v]"

fun ilog2 :: "nat \<Rightarrow> nat" where
  "ilog2 n = (if n < 2 then 0 else Suc (ilog2 (n div 2)))"

declare ilog2.simps [simp del]

definition exp_golomb :: "nat \<Rightarrow> bool list" where
  "exp_golomb v = (let z = ilog2 (v + 1) in replicate z False @ True # to_bits z (v + 1 - 2 ^ z))"

definition signed_code :: "int \<Rightarrow> nat" where
  "signed_code s = (if 0 < s then nat (2 * s - 1) else nat (- 2 * s))"

lemma length_to_bits [simp]: "length (to_bits n v) = n"
  by (induction n arbitrary: v) simp_all

lemma foldl_to_bits:
  "foldl (\<lambda>a b. 2 * a + of_bool b) acc (to_bits n v) = acc * 2 ^ n + v mod 2 ^ n"
proof (induction n arbitrary: v)
  case (Suc n)
  have "v mod (2 * 2 ^ n) = 2 * (v div 2 mod 2 ^ n) + v mod 2"
    by (simp add: mod_mult2_eq)
  with Suc show ?case by (simp add: mod_2_eq_odd)
qed simp

lemma ilog2_bounds: "0 < n \<Longrightarrow> 2 ^ ilog2 n \<le> n \<and> n < 2 ^ Suc (ilog2 n)"
proof (induction n rule: ilog2.induct)
  case (1 n)
  show ?case
  proof (cases "n < 2")
    case True
    with 1 show ?thesis by (subst (1 2) ilog2.simps) simp
  next
    case False
    with 1 have "2 ^ ilog2 (n div 2) \<le> n div 2 \<and> n div 2 < 2 ^ Suc (ilog2 (n div 2))"
      by simp
    moreover have "ilog2 n = Suc (ilog2 (n div 2))"
      using False by (subst ilog2.simps) simp
    ultimately show ?thesis by simp linarith
  qed
qed

lemma length_exp_golomb [simp]: "length (exp_golomb v) = 2 * ilog2 (v + 1) + 1"
  by (simp add: exp_golomb_def Let_def)

lemma Ue_decodes:
  assumes small: "v + 1 < 2 ^ 31"
    and room: "p + length (exp_golomb v) \<le> 8 * nLen" "nLen \<le> length buf"
    and code: "take (length (exp_golomb v)) (drop p (bits_of buf)) = exp_golomb v"
  shows "Ue buf nLen p = Some (v, p + length (exp_golomb v))"
proof -
  define z where "z = ilog2 (v + 1)"
  have pow: "2 ^ z \<le> v + 1" "v + 1 < 2 * 2 ^ z"
    using ilog2_bounds[of "v + 1"] by (simp_all add: z_def)
  have z31: "z < 31"
  proof (rule ccontr)
    assume "\<not> z < 31"
    then have "(2::nat) ^ 31 \<le> 2 ^ z" by (intro power_increasing) auto
    with pow small show False by linarith
  qed
  have len: "length (exp_golomb v) = Suc z + z" by (simp add: z_def)
  have eg: "exp_golomb v = (replicate z False @ [True]) @ to_bits z (v + 1 - 2 ^ z)"
    by (simp add: exp_golomb_def z_def Let_def)
  have eq: "take (Suc z) (drop p (bits_of buf)) @ take z (drop (p + z + 1) (bits_of buf)) =
      (replicate z False @ [True]) @ to_bits z (v + 1 - 2 ^ z)"
    using code take_add[of "Suc z" z "drop p (bits_of buf)"]
    by (simp only: len eg drop_drop) (simp add: add.commute)
  have "length (take (Suc z) (drop p (bits_of buf))) = length (replicate z False @ [True])"
    using room len by simp
  then have parts: "take (Suc z) (drop p (bits_of buf)) = replicate z False @ [True]"
    "take z (drop (p + z + 1) (bits_of buf)) = to_bits z (v + 1 - 2 ^ z)"
    using eq append_eq_append_conv by blast+
  have "count_zeros buf nLen p 0 = Some (z, p + z)"
    using count_zeros_run[OF _ room(2) parts(1), of 0] room(1) len by simp
  moreover have "read_bits z buf (p + z + 1) 0 = Some (v + 1 - 2 ^ z, p + z + 1 + z)"
    using room len pow by (subst read_bits_spec) (simp_all add: parts(2)[simplified] foldl_to_bits)
  ultimately show ?thesis
    using z31 pow len by (simp add: Ue_def)
qed

lemma signed_code_inverse:
  "(if signed_code s mod 2 = 0 then - int ((signed_code s + 1) div 2)
    else int ((signed_code s + 1) div 2)) = s"
proof (cases "0 < s")
  case True
  then have c: "int (signed_code s) = 2 * s - 1" by (simp add: signed_code_def)
  then have "signed_code s mod 2 \<noteq> 0" by presburger
  moreover have "int ((signed_code s + 1) div 2) = s" using c by (simp add: zdiv_int)
  ultimately show ?thesis by simp
next
  case False
  then have c: "int (signed_code s) = - 2 * s" by (simp add: signed_code_def)
  then have "signed_code s mod 2 = 0" by presburger
  moreover have "int ((signed_code s + 1) div 2) = - s" using c by (simp add: zdiv_int)
  ultimately show ?thesis by simp
qed

subsection \<open>Emulation prevention\<close>

text \<open>
  What the in-place loops compute, read off the output: \<open>a\<close> and \<open>b\<close> are the last two bytes put out.
  A 03 after two zero bytes of output is dropped, and the byte after it is put out unexamined.
\<close>

fun unesc :: "u8 \<Rightarrow> u8 \<Rightarrow> bytes \<Rightarrow> bytes" where
  "unesc a b [] = []"
| "unesc a b [c] = (if a = 0 \<and> b = 0 \<and> c = 3 then [] else [c])"
| "unesc a b (c # d # r) =
     (if a = 0 \<and> b = 0 \<and> c = 3 then d # unesc b d r else c # unesc b c (d # r))"

lemma length_unesc: "length (unesc a b r) \<le> length r"
  by (induction a b r rule: unesc.induct) auto

lemma xor3_zero: "x XOR 3 = 0 \<longleftrightarrow> x = 3" for x :: u8
proof -
  have "x = 3" if "x XOR 3 = 0"
  proof -
    from that have "(x XOR 3) XOR 3 = 0 XOR 3" by simp
    then show ?thesis by (simp add: xor.assoc)
  qed
  then show ?thesis by auto
qed

lemma deemu_match_at:
  "deemu_match (pre @ a # b # c # r) (length pre) = Some (a = 0 \<and> b = 0 \<and> c = 3)"
  by (simp add: deemu_match_def mem_read_def nth_append xor3_zero unat_eq_zero)

lemma deemu_shift_at:
  "deemu_shift (xs @ c # r @ t) (length xs + 1 + length r) (length xs) =
     Some (xs @ r @ last (c # r) # t)"
proof (induction r arbitrary: xs c)
  case Nil
  show ?case by (subst deemu_shift.simps) simp
next
  case (Cons d r)
  have m: "mem_read (xs @ c # (d # r) @ t) (length xs + 1) = Some d"
    by (simp add: mem_read_def nth_append)
  have "deemu_shift ((xs @ [d]) @ d # r @ t) (length (xs @ [d]) + 1 + length r) (length (xs @ [d])) =
      Some ((xs @ [d]) @ r @ last (d # r) # t)"
    by (rule Cons.IH)
  with m show ?case
    by (subst deemu_shift.simps) (simp add: list_update_append)
qed

text \<open>The stale tail behind the shifted bytes repeats the last byte and never matches.\<close>

lemma deemu_tail:
  "deemu_loop (pre @ a # replicate m l @ t) n (length pre + m - 1) (length pre) sz =
     Some (pre @ a # replicate m l @ t, sz)"
proof (induction m arbitrary: pre a)
  case 0
  show ?case by (subst deemu_loop.simps) auto
next
  case (Suc m)
  show ?case
  proof (cases m)
    case 0
    then show ?thesis by (subst deemu_loop.simps) simp
  next
    case (Suc k)
    have "deemu_match (pre @ a # replicate (Suc m) l @ t) (length pre) = Some False"
      using deemu_match_at[of pre a l l "replicate k l @ t"] by (auto simp: Suc)
    moreover have "deemu_loop ((pre @ [a]) @ l # replicate m l @ t) n (length (pre @ [a]) + m - 1)
        (length (pre @ [a])) sz = Some ((pre @ [a]) @ l # replicate m l @ t, sz)"
      by (rule Suc.IH)
    ultimately show ?thesis
      by (subst deemu_loop.simps) (simp add: Suc)
  qed
qed

text \<open>One turn of the loop on either outcome of the comparison.\<close>

lemma deemu_loop_keep:
  assumes "\<not> (a = 0 \<and> b = 0 \<and> c = 3)" "length pre < bound"
  shows "deemu_loop (pre @ a # b # c # r) n bound (length pre) sz =
    deemu_loop ((pre @ [a]) @ b # c # r) n bound (length (pre @ [a])) sz"
  using assms by (subst deemu_loop.simps) (auto simp: deemu_match_at)

lemma deemu_loop_drop:
  assumes "a = 0 \<and> b = 0 \<and> c = 3" "length pre < bound" "n = length pre + 3 + length r"
  shows "deemu_loop (pre @ a # b # c # r @ t) n bound (length pre) sz =
    deemu_loop ((pre @ [a]) @ b # r @ last (c # r) # t) n bound (length (pre @ [a])) (sz - 1)"
  using assms deemu_shift_at[of "pre @ [a, b]" c r t]
  by (subst deemu_loop.simps) (simp add: deemu_match_at add.commute numeral_eq_Suc)

lemma last_repeat: "k = 0 \<or> l = last xs \<Longrightarrow> xs \<noteq> [] \<Longrightarrow>
    replicate k l @ [last (xs @ replicate k l)] = replicate (Suc k) (last xs)"
  by (cases k) (auto simp: replicate_append_same)

lemma deemu_loop_unesc:
  "k = 0 \<or> l = last (b # rest) \<Longrightarrow> n = length pre + 2 + length rest + k \<Longrightarrow>
   \<exists>junk. deemu_loop (pre @ a # b # rest @ replicate k l @ t) n (n - 2) (length pre) sz =
     Some (pre @ a # b # unesc a b rest @ junk @ t, sz - (length rest - length (unesc a b rest)))
   \<and> length (unesc a b rest @ junk) = length rest + k"
proof (induction a b rest arbitrary: pre k l sz rule: unesc.induct)
  case (1 a b)
  then have "replicate k l = replicate k b" "n - 2 = length pre + Suc k - 1" by auto
  then show ?case
    using deemu_tail[of pre a "Suc k" b t n sz] by auto
next
  case (2 a b c)
  then have l: "replicate k l = replicate k c" and n: "n = length pre + 3 + k"
    by auto
  have tail: "deemu_loop ((pre @ [a]) @ b # replicate (Suc k) c @ t) n (n - 2) (length (pre @ [a])) z =
      Some ((pre @ [a]) @ b # replicate (Suc k) c @ t, z)" for z
    using deemu_tail[of "pre @ [a]" b "Suc k" c t n z] n by simp
  show ?case
  proof (cases "a = 0 \<and> b = 0 \<and> c = 3")
    case True
    have "deemu_loop (pre @ a # b # c # replicate k c @ t) n (n - 2) (length pre) sz =
        deemu_loop ((pre @ [a]) @ b # replicate k c @ last (c # replicate k c) # t) n (n - 2)
          (length (pre @ [a])) (sz - 1)"
      by (rule deemu_loop_drop[OF True]) (simp_all add: n)
    also have "replicate k c @ last (c # replicate k c) # t = replicate (Suc k) c @ t"
      using last_repeat[of k c "[c]"] by (cases k) (simp_all add: replicate_append_same replicate_app_Cons_same)
    finally show ?thesis
      using tail[of "sz - 1"] True by (auto simp: l)
  next
    case False
    then show ?thesis
      using deemu_loop_keep[OF False, of pre "n - 2" "replicate k c @ t" n sz] tail[of sz] n
      by (auto simp: l)
  qed
next
  case (3 a b c d r)
  show ?case
  proof (cases "a = 0 \<and> b = 0 \<and> c = 3")
    case True
    let ?l = "last (d # r)"
    have "deemu_loop (pre @ a # b # c # (d # r @ replicate k l) @ t) n (n - 2) (length pre) sz =
        deemu_loop ((pre @ [a]) @ b # (d # r @ replicate k l) @ last (c # d # r @ replicate k l) # t)
          n (n - 2) (length (pre @ [a])) (sz - 1)"
      by (rule deemu_loop_drop[OF True]) (simp_all add: "3.prems")
    also have "(d # r @ replicate k l) @ last (c # d # r @ replicate k l) # t =
        d # r @ replicate (Suc k) ?l @ t"
      using last_repeat[of k l "d # r"] "3.prems"(1) by simp
    finally show ?thesis
      using "3.IH"(1)[OF True, of "Suc k" ?l "pre @ [a]" "sz - 1"] "3.prems" True length_unesc[of b d r]
      by (auto simp: Suc_diff_le)
  next
    case False
    then show ?thesis
      using deemu_loop_keep[OF False, of pre "n - 2" "d # r @ replicate k l @ t" n sz]
        "3.IH"(2)[OF False, of k l "pre @ [a]" sz] "3.prems" length_unesc[of b c "d # r"]
      by (auto simp: Suc_diff_le)
  qed
qed

text \<open>
  Below two bytes the bound of the loop wraps around and the first comparison reads outside
  the array.
\<close>

lemma de_emulation_prevention_short: "length buf < 2 \<Longrightarrow> de_emulation_prevention buf (length buf) = None"
  unfolding de_emulation_prevention_def
  by (subst deemu_loop.simps)
    (auto simp: deemu_match_def mem_read_def bind_eq_None_conv split: bind_splits)

subsection \<open>Properties\<close>

text \<open>C11. \<open>Ue\<close> inverts Exp-Golomb coding: wherever the code of a value below 2^31 - 1 stands in
  the bits of the array, \<open>Ue\<close> returns that value and moves the bit position just behind the code,
  whatever stands before and after it.\<close>

theorem Ue_reads_exp_golomb:
  assumes "v + 1 < 2 ^ 31" "8 * length buf = length pre + length (exp_golomb v) + length rest"
    and "bits_of buf = pre @ exp_golomb v @ rest"
  shows "Ue buf (length buf) (length pre) = Some (v, length pre + length (exp_golomb v))"
  using assms by (intro Ue_decodes) auto

lemma Ue_reads_exp_golomb_witness:
  "Ue [0x14, 0x80] (length [0x14, 0x80 :: u8]) (length [False]) =
     Some (4, length [False] + length (exp_golomb 4))"
  by (rule Ue_reads_exp_golomb [of 4 "[0x14, 0x80]" "[False]"
        "[False, False, True] @ replicate 7 False"])
    (simp, code_simp, code_simp)

text \<open>\<open>Se\<close> inverts the signed Exp-Golomb coding: the code of the number that stands for \<open>s\<close> (2s - 1 for
  a positive \<open>s\<close>, -2s otherwise) reads back as \<open>s\<close>.\<close>

theorem Se_reads_signed_exp_golomb:
  assumes "\<bar>s\<bar> < 2 ^ 30 - 1"
    and "bits_of buf = pre @ exp_golomb (signed_code s) @ rest"
  shows "Se buf (length buf) (length pre) =
    Some (s, length pre + length (exp_golomb (signed_code s)))"
proof -
  have small: "signed_code s + 1 < 2 ^ 31"
    using assms(1) by (auto simp: signed_code_def)
  have "length (bits_of buf) = length pre + length (exp_golomb (signed_code s)) + length rest"
    by (simp only: assms(2)) simp
  then have room: "length pre + length (exp_golomb (signed_code s)) \<le> 8 * length buf"
    by (simp only: length_bits_of)
  have "Ue buf (length buf) (length pre) =
      Some (signed_code s, length pre + length (exp_golomb (signed_code s)))"
    using small room by (rule Ue_decodes) (simp_all add: assms(2))
  then show ?thesis
    using signed_code_inverse[of s] unfolding Se_def Let_def by (auto simp: numeral_2_eq_2)
qed

lemma Se_reads_signed_exp_golomb_witness:
  "Se [0x14, 0x80] (length [0x14, 0x80 :: u8]) (length [False]) =
     Some (- 2, length [False] + length (exp_golomb (signed_code (- 2))))"
  by (rule Se_reads_signed_exp_golomb [of "- 2" "[0x14, 0x80]" "[False]"
        "[False, False, True] @ replicate 7 False"])
    (simp, code_simp)

lemma de_emulation_unesc:
  "\<exists>junk. de_emulation_prevention (a # b # rest @ t) (length (a # b # rest)) =
     Some (a # b # unesc a b rest @ junk @ t, length (a # b # unesc a b rest))
   \<and> length (unesc a b rest @ junk) = length rest"
proof -
  have len: "length (unesc a b rest) \<le> length rest" by (rule length_unesc)
  obtain junk where j: "deemu_loop (a # b # rest @ t) (length rest + 2) (length rest) 0 (length rest + 2) =
      Some (a # b # unesc a b rest @ junk @ t, length rest + 2 - (length rest - length (unesc a b rest)))"
      "length (unesc a b rest @ junk) = length rest"
    using deemu_loop_unesc[of 0 0 b rest "length rest + 2" "[]" a t "length rest + 2"] by auto
  show ?thesis
    using j len by (intro exI[of _ junk]) (simp add: de_emulation_prevention_def)
qed


lemma de_emulation_keeps_escaped_03:
  "de_emulation_prevention [0, 0, 3, 0, 3] 5 = Some ([0, 0, 0, 3, 3], 3)"
  by code_simp

end
