(* ===== verification/Sps.thy ===== *)
theory Sps
  imports Bit_Reader Nalu
begin

section \<open>Sequence parameter sets: avc::decode_sps, hevc::decode_sps, Unit::decode_sps (src/stream/sps.hpp)\<close>

text \<open>
  The decoders work on \<open>s.c_str()\<close>: the bytes of the unit and the terminating zero, in which the emulation
  bytes have been removed. \<open>StartBit\<close> is threaded as the position \<open>p\<close>; a read outside the array is
  undefined behaviour (\<open>None\<close>). \<open>width\<close>, \<open>height\<close> and \<open>fps\<close> are references of the caller: what a decoder
  assigns before it returns false stays assigned.
\<close>

record video =
  width :: nat
  height :: nat
  fps :: int

definition skip_u :: "nat \<Rightarrow> bytes \<Rightarrow> nat \<Rightarrow> nat option" where
  "skip_u n buf p = map_option snd (u_bits n buf p)"

definition skip_ue :: "bytes \<Rightarrow> nat \<Rightarrow> nat \<Rightarrow> nat option" where
  "skip_ue buf nLen p = map_option snd (Ue buf nLen p)"

definition skip_se :: "bytes \<Rightarrow> nat \<Rightarrow> nat \<Rightarrow> nat option" where
  "skip_se buf nLen p = map_option snd (Se buf nLen p)"

text \<open>A counted \<open>for\<close> loop whose body moves the position.\<close>

fun times :: "nat \<Rightarrow> (nat \<Rightarrow> nat option) \<Rightarrow> nat \<Rightarrow> nat option" where
  "times 0 f p = Some p"
| "times (Suc n) f p = do { p \<leftarrow> f p; times n f p }"

text \<open>\<open>int x = u(32, ...)\<close> keeps the low 32 bits, read as a signed number.\<close>

definition as_int :: "nat \<Rightarrow> int" where
  "as_int n = sint (word_of_nat n :: u32)"

definition fits_int :: "int \<Rightarrow> bool" where
  "fits_int x \<longleftrightarrow> - (2 ^ 31) \<le> x \<and> x < 2 ^ 31"

subsection \<open>H.264\<close>

text \<open>The part of the high profiles; the lists of the scaling matrix are not skipped.\<close>

definition avc_high_profile :: "bytes \<Rightarrow> nat \<Rightarrow> nat \<Rightarrow> nat option" where
  "avc_high_profile buf nLen p = do {
     (chroma_format_idc, p) \<leftarrow> Ue buf nLen p;
     p \<leftarrow> (if chroma_format_idc = 3 then skip_u 1 buf p else Some p);
     p \<leftarrow> skip_ue buf nLen p;
     p \<leftarrow> skip_ue buf nLen p;
     p \<leftarrow> skip_u 1 buf p;
     (seq_scaling_matrix_present_flag, p) \<leftarrow> u_bits 1 buf p;
     if seq_scaling_matrix_present_flag \<noteq> 0 then times 8 (skip_u 1 buf) p else Some p
   }"

definition avc_pic_order :: "bytes \<Rightarrow> nat \<Rightarrow> nat \<Rightarrow> nat option" where
  "avc_pic_order buf nLen p = do {
     (pic_order_cnt_type, p) \<leftarrow> Ue buf nLen p;
     if pic_order_cnt_type = 0 then skip_ue buf nLen p
     else if pic_order_cnt_type = 1 then do {
       p \<leftarrow> skip_u 1 buf p;
       p \<leftarrow> skip_se buf nLen p;
       p \<leftarrow> skip_se buf nLen p;
       (num_ref_frames_in_pic_order_cnt_cycle, p) \<leftarrow> Ue buf nLen p;
       times num_ref_frames_in_pic_order_cnt_cycle (skip_se buf nLen) p
     }
     else Some p
   }"

text \<open>The dimensions are computed as \<open>int\<close>: beyond 2^31 the product is undefined.\<close>

definition avc_dimension :: "nat \<Rightarrow> nat option" where
  "avc_dimension n = (if (n + 1) * 16 < 2 ^ 31 then Some ((n + 1) * 16) else None)"

text \<open>
  \<open>time_scale / (2 * num_units_in_tick)\<close> on \<open>int\<close>: undefined for an overflowing product and a zero
  divisor, truncated towards zero.
\<close>

definition avc_fps :: "nat \<Rightarrow> nat \<Rightarrow> int option" where
  "avc_fps num_units_in_tick time_scale =
     (let d = 2 * as_int num_units_in_tick; t = as_int time_scale in
      if \<not> fits_int d \<or> d = 0 then None else Some (sgn t * sgn d * (\<bar>t\<bar> div \<bar>d\<bar>)))"

definition vui_aspect_ratio :: "bytes \<Rightarrow> nat \<Rightarrow> nat option" where
  "vui_aspect_ratio buf p = do {
     (present, p) \<leftarrow> u_bits 1 buf p;
     if present \<noteq> 0 then do {
       (aspect_ratio_idc, p) \<leftarrow> u_bits 8 buf p;
       if aspect_ratio_idc = 255 then do { p \<leftarrow> skip_u 16 buf p; skip_u 16 buf p } else Some p
     } else Some p
   }"

definition vui_overscan :: "bytes \<Rightarrow> nat \<Rightarrow> nat option" where
  "vui_overscan buf p = do {
     (present, p) \<leftarrow> u_bits 1 buf p;
     if present \<noteq> 0 then skip_u 1 buf p else Some p
   }"

definition vui_video_signal :: "bytes \<Rightarrow> nat \<Rightarrow> nat option" where
  "vui_video_signal buf p = do {
     (present, p) \<leftarrow> u_bits 1 buf p;
     if present \<noteq> 0 then do {
       p \<leftarrow> skip_u 3 buf p;
       p \<leftarrow> skip_u 1 buf p;
       (colour_description_present_flag, p) \<leftarrow> u_bits 1 buf p;
       if colour_description_present_flag \<noteq> 0 then times 3 (skip_u 8 buf) p else Some p
     } else Some p
   }"

definition vui_chroma_loc :: "bytes \<Rightarrow> nat \<Rightarrow> nat \<Rightarrow> nat option" where
  "vui_chroma_loc buf nLen p = do {
     (present, p) \<leftarrow> u_bits 1 buf p;
     if present \<noteq> 0 then do { p \<leftarrow> skip_ue buf nLen p; skip_ue buf nLen p } else Some p
   }"

text \<open>The frame rate of the VUI parameters, zero where they carry no timing.\<close>

definition avc_vui :: "bytes \<Rightarrow> nat \<Rightarrow> nat \<Rightarrow> int option" where
  "avc_vui buf nLen p = do {
     p \<leftarrow> vui_aspect_ratio buf p;
     p \<leftarrow> vui_overscan buf p;
     p \<leftarrow> vui_video_signal buf p;
     p \<leftarrow> vui_chroma_loc buf nLen p;
     (timing_info_present_flag, p) \<leftarrow> u_bits 1 buf p;
     if timing_info_present_flag \<noteq> 0 then do {
       (num_units_in_tick, p) \<leftarrow> u_bits 32 buf p;
       (time_scale, p) \<leftarrow> u_bits 32 buf p;
       avc_fps num_units_in_tick time_scale
     } else Some 0
   }"

text \<open>What follows the dimensions: the flags, the cropping rectangle (skipped), the VUI parameters.\<close>

definition avc_tail :: "bytes \<Rightarrow> nat \<Rightarrow> nat \<Rightarrow> int option" where
  "avc_tail buf nLen p = do {
     (frame_mbs_only_flag, p) \<leftarrow> u_bits 1 buf p;
     p \<leftarrow> (if frame_mbs_only_flag = 0 then skip_u 1 buf p else Some p);
     p \<leftarrow> skip_u 1 buf p;
     (frame_cropping_flag, p) \<leftarrow> u_bits 1 buf p;
     p \<leftarrow> (if frame_cropping_flag \<noteq> 0 then times 4 (skip_ue buf nLen) p else Some p);
     (vui_parameter_present_flag, p) \<leftarrow> u_bits 1 buf p;
     fps \<leftarrow> (if vui_parameter_present_flag \<noteq> 0 then avc_vui buf nLen p else Some 0);
     Some (if fps = 0 then 25 else fps)
   }"

definition avc_decode_sps :: "bytes \<Rightarrow> video \<Rightarrow> (bool \<times> video) option" where
  "avc_decode_sps s v = do {
     let v = v\<lparr>fps := 0\<rparr>;
     (buf, nLen) \<leftarrow> de_emulation_prevention (s @ [0]) (length s);
     p \<leftarrow> skip_u 1 buf 0;
     p \<leftarrow> skip_u 2 buf p;
     (NALU_TYPE_type, p) \<leftarrow> u_bits 5 buf p;
     if NALU_TYPE_type \<noteq> 7 then Some (False, v)
     else do {
       (profile_idc, p) \<leftarrow> u_bits 8 buf p;
       p \<leftarrow> times 4 (skip_u 1 buf) p;
       p \<leftarrow> skip_u 4 buf p;
       p \<leftarrow> skip_u 8 buf p;
       p \<leftarrow> skip_ue buf nLen p;
       p \<leftarrow> (if profile_idc = 100 \<or> profile_idc = 110 \<or> profile_idc = 122 \<or> profile_idc = 144
            then avc_high_profile buf nLen p else Some p);
       p \<leftarrow> skip_ue buf nLen p;
       p \<leftarrow> avc_pic_order buf nLen p;
       p \<leftarrow> skip_ue buf nLen p;
       p \<leftarrow> skip_u 1 buf p;
       (pic_width_in_mbs_minus1, p) \<leftarrow> Ue buf nLen p;
       (pic_height_in_map_units_minus1, p) \<leftarrow> Ue buf nLen p;
       w \<leftarrow> avc_dimension pic_width_in_mbs_minus1;
       h \<leftarrow> avc_dimension pic_height_in_map_units_minus1;
       f \<leftarrow> avc_tail buf nLen p;
       Some (True, \<lparr>width = w, height = h, fps = f\<rparr>)
     }
   }"

subsection \<open>H.265\<close>

text \<open>The two flags of each sub-layer, then what they announce.\<close>

fun hevc_sub_layer_flags :: "nat \<Rightarrow> bytes \<Rightarrow> nat \<Rightarrow> ((bool \<times> bool) list \<times> nat) option" where
  "hevc_sub_layer_flags 0 buf p = Some ([], p)"
| "hevc_sub_layer_flags (Suc n) buf p = do {
     (profile_present, p) \<leftarrow> u_bits 1 buf p;
     (level_present, p) \<leftarrow> u_bits 1 buf p;
     (flags, p) \<leftarrow> hevc_sub_layer_flags n buf p;
     Some ((profile_present \<noteq> 0, level_present \<noteq> 0) # flags, p)
   }"

fun hevc_sub_layers :: "(bool \<times> bool) list \<Rightarrow> bytes \<Rightarrow> nat \<Rightarrow> nat option" where
  "hevc_sub_layers [] buf p = Some p"
| "hevc_sub_layers ((profile_present, level_present) # flags) buf p = do {
     p \<leftarrow> (if profile_present then do {
            p \<leftarrow> skip_u 8 buf p; p \<leftarrow> skip_u 32 buf p; skip_u 48 buf p } else Some p);
     p \<leftarrow> (if level_present then skip_u 8 buf p else Some p);
     hevc_sub_layers flags buf p
   }"

definition hevc_profile_tier_level :: "nat \<Rightarrow> bytes \<Rightarrow> nat \<Rightarrow> nat option" where
  "hevc_profile_tier_level max_sub_layers_minus1 buf p = do {
     p \<leftarrow> skip_u 3 buf p;
     p \<leftarrow> skip_u 5 buf p;
     p \<leftarrow> skip_u 32 buf p;
     p \<leftarrow> skip_u 48 buf p;
     p \<leftarrow> skip_u 8 buf p;
     (flags, p) \<leftarrow> hevc_sub_layer_flags max_sub_layers_minus1 buf p;
     p \<leftarrow> (if 0 < max_sub_layers_minus1 then times (8 - max_sub_layers_minus1) (skip_u 2 buf) p else Some p);
     hevc_sub_layers flags buf p
   }"

definition hevc_scaling_list :: "nat \<Rightarrow> bytes \<Rightarrow> nat \<Rightarrow> nat \<Rightarrow> nat option" where
  "hevc_scaling_list sizeId buf nLen p = do {
     (pred_mode_flag, p) \<leftarrow> u_bits 1 buf p;
     if pred_mode_flag = 0 then skip_ue buf nLen p
     else do {
       let coefNum = min 64 (2 ^ (4 + 2 * sizeId));
       p \<leftarrow> (if 1 < sizeId then skip_se buf nLen p else Some p);
       times coefNum (skip_se buf nLen) p
     }
   }"

text \<open>\<open>matrixId\<close> runs over 0 to 5 and, for the last size, over 0 and 3.\<close>

definition hevc_scaling_list_data :: "bytes \<Rightarrow> nat \<Rightarrow> nat \<Rightarrow> nat option" where
  "hevc_scaling_list_data buf nLen p = do {
     p \<leftarrow> times 6 (hevc_scaling_list 0 buf nLen) p;
     p \<leftarrow> times 6 (hevc_scaling_list 1 buf nLen) p;
     p \<leftarrow> times 6 (hevc_scaling_list 2 buf nLen) p;
     times 2 (hevc_scaling_list 3 buf nLen) p
   }"

text \<open>
  Of the inter-predicted sets one delta is read; the test for the last index, which is never
  reached inside the loop, is dead.
\<close>

definition hevc_pictures :: "bytes \<Rightarrow> nat \<Rightarrow> nat \<Rightarrow> nat option" where
  "hevc_pictures buf nLen p = do { p \<leftarrow> skip_ue buf nLen p; skip_u 1 buf p }"

definition hevc_ref_pic_set :: "nat \<Rightarrow> bytes \<Rightarrow> nat \<Rightarrow> nat \<Rightarrow> nat option" where
  "hevc_ref_pic_set i buf nLen p = do {
     (inter, p) \<leftarrow> (if i \<noteq> 0 then u_bits 1 buf p else Some (0, p));
     if inter \<noteq> 0 then do {
       p \<leftarrow> skip_u 1 buf p;
       p \<leftarrow> skip_ue buf nLen p;
       (used_by_curr_pic_flag, p) \<leftarrow> u_bits 1 buf p;
       if used_by_curr_pic_flag = 0 then skip_u 1 buf p else Some p
     } else do {
       (num_negative_pics, p) \<leftarrow> Ue buf nLen p;
       (num_positive_pics, p) \<leftarrow> Ue buf nLen p;
       p \<leftarrow> times num_negative_pics (hevc_pictures buf nLen) p;
       times num_positive_pics (hevc_pictures buf nLen) p
     }
   }"

fun hevc_ref_pic_sets :: "nat \<Rightarrow> nat \<Rightarrow> bytes \<Rightarrow> nat \<Rightarrow> nat \<Rightarrow> nat option" where
  "hevc_ref_pic_sets 0 i buf nLen p = Some p"
| "hevc_ref_pic_sets (Suc n) i buf nLen p = do {
     p \<leftarrow> hevc_ref_pic_set i buf nLen p;
     hevc_ref_pic_sets n (i + 1) buf nLen p
   }"

definition hevc_long_term :: "bytes \<Rightarrow> nat \<Rightarrow> nat \<Rightarrow> nat option" where
  "hevc_long_term buf nLen p = do {
     (present, p) \<leftarrow> u_bits 1 buf p;
     if present \<noteq> 0 then do {
       (num_long_term_ref_pics_sps, p) \<leftarrow> Ue buf nLen p;
       times num_long_term_ref_pics_sps (\<lambda>p. do { p \<leftarrow> skip_u 16 buf p; skip_u 1 buf p }) p
     } else Some p
   }"

text \<open>
  \<open>(int)(time_scale / (2.0 * num_units_in_tick) + 0.5)\<close>: the quotient of two 32-bit numbers rounded
  to the nearest integer, which the precision of \<open>double\<close> computes exactly; 2^31 does not
  fit an \<open>int\<close>.
\<close>

definition hevc_frame_rate :: "nat \<Rightarrow> nat \<Rightarrow> int option" where
  "hevc_frame_rate num_units_in_tick time_scale =
     (if 0 < num_units_in_tick \<and> 0 < time_scale then
        (let f = (time_scale + num_units_in_tick) div (2 * num_units_in_tick) in
         if 2 ^ 31 \<le> f then None
         else if f = 0 \<or> 1000 < f then Some 25
         else Some (int f))
      else Some 25)"

definition hevc_vui :: "bytes \<Rightarrow> nat \<Rightarrow> nat \<Rightarrow> int option" where
  "hevc_vui buf nLen p = do {
     p \<leftarrow> vui_aspect_ratio buf p;
     p \<leftarrow> vui_overscan buf p;
     p \<leftarrow> vui_video_signal buf p;
     p \<leftarrow> vui_chroma_loc buf nLen p;
     p \<leftarrow> times 3 (skip_u 1 buf) p;
     (default_display_window_flag, p) \<leftarrow> u_bits 1 buf p;
     p \<leftarrow> (if default_display_window_flag \<noteq> 0 then times 4 (skip_ue buf nLen) p else Some p);
     (timing_info_present_flag, p) \<leftarrow> u_bits 1 buf p;
     if timing_info_present_flag \<noteq> 0 then do {
       (num_units_in_tick, p) \<leftarrow> u_bits 32 buf p;
       (time_scale, p) \<leftarrow> u_bits 32 buf p;
       hevc_frame_rate num_units_in_tick time_scale
     } else Some 25
   }"

text \<open>Everything between the bit depths and the VUI parameters.\<close>

definition hevc_coding_params :: "nat \<Rightarrow> bytes \<Rightarrow> nat \<Rightarrow> nat \<Rightarrow> nat option" where
  "hevc_coding_params max_sub_layers_minus1 buf nLen p = do {
     p \<leftarrow> skip_ue buf nLen p;
     (ordering_info_present_flag, p) \<leftarrow> u_bits 1 buf p;
     p \<leftarrow> times (if ordering_info_present_flag \<noteq> 0 then max_sub_layers_minus1 + 1 else 1)
            (times 3 (skip_ue buf nLen)) p;
     p \<leftarrow> times 6 (skip_ue buf nLen) p;
     (scaling_list_enabled_flag, p) \<leftarrow> u_bits 1 buf p;
     p \<leftarrow> (if scaling_list_enabled_flag \<noteq> 0 then do {
            (data_present_flag, p) \<leftarrow> u_bits 1 buf p;
            if data_present_flag \<noteq> 0 then hevc_scaling_list_data buf nLen p else Some p
          } else Some p);
     p \<leftarrow> times 2 (skip_u 1 buf) p;
     (pcm_enabled_flag, p) \<leftarrow> u_bits 1 buf p;
     p \<leftarrow> (if pcm_enabled_flag \<noteq> 0 then do {
            p \<leftarrow> times 2 (skip_u 4 buf) p;
            p \<leftarrow> times 2 (skip_ue buf nLen) p;
            skip_u 1 buf p
          } else Some p);
     (num_short_term_ref_pic_sets, p) \<leftarrow> Ue buf nLen p;
     p \<leftarrow> hevc_ref_pic_sets num_short_term_ref_pic_sets 0 buf nLen p;
     p \<leftarrow> hevc_long_term buf nLen p;
     times 2 (skip_u 1 buf) p
   }"

definition hevc_decode_sps :: "bytes \<Rightarrow> video \<Rightarrow> (bool \<times> video) option" where
  "hevc_decode_sps s v =
     (if length s < 20 then Some (False, v)
      else do {
        let v = v\<lparr>fps := 0\<rparr>;
        (buf, nLen) \<leftarrow> de_emulation_prevention (s @ [0]) (length s);
        p \<leftarrow> skip_u 4 buf 0;
        (sps_max_sub_layers_minus1, p) \<leftarrow> u_bits 3 buf p;
        if 6 < sps_max_sub_layers_minus1 then Some (False, v)
        else do {
          p \<leftarrow> skip_u 1 buf p;
          p \<leftarrow> hevc_profile_tier_level sps_max_sub_layers_minus1 buf p;
          (sps_seq_parameter_set_id, p) \<leftarrow> Ue buf nLen p;
          if 15 < sps_seq_parameter_set_id then Some (False, v)
          else do {
            (chroma_format_idc, p) \<leftarrow> Ue buf nLen p;
            if 3 < sps_seq_parameter_set_id then Some (False, v)
            else do {
              p \<leftarrow> (if chroma_format_idc = 3 then skip_u 1 buf p else Some p);
              (w, p) \<leftarrow> Ue buf nLen p;
              (h, p) \<leftarrow> Ue buf nLen p;
              (conformance_window_flag, p) \<leftarrow> u_bits 1 buf p;
              p \<leftarrow> (if conformance_window_flag \<noteq> 0 then times 4 (skip_ue buf nLen) p else Some p);
              let v = \<lparr>width = w, height = h, fps = 25\<rparr>;
              (bit_depth_luma_minus8, p) \<leftarrow> Ue buf nLen p;
              (bit_depth_chroma_minus8, p) \<leftarrow> Ue buf nLen p;
              if bit_depth_luma_minus8 \<noteq> bit_depth_chroma_minus8 then Some (False, v)
              else do {
                p \<leftarrow> hevc_coding_params sps_max_sub_layers_minus1 buf nLen p;
                (vui_parameters_present_flag, p) \<leftarrow> u_bits 1 buf p;
                f \<leftarrow> (if vui_parameters_present_flag \<noteq> 0 then hevc_vui buf nLen p else Some 25);
                Some (True, v\<lparr>fps := f\<rparr>)
              }
            }
          }
        }
      })"

text \<open>\<open>Unit::decode_sps\<close> chooses by the header byte of the unit; its bytes are copied first.\<close>

definition Unit_decode_sps :: "u8 \<Rightarrow> bytes \<Rightarrow> video \<Rightarrow> (bool \<times> video) option" where
  "Unit_decode_sps type sps v =
     (if IsH264 type then avc_decode_sps sps v else hevc_decode_sps sps v)"

subsection \<open>Syntax elements\<close>

text \<open>
  The specification side: a parameter set is a list of syntax elements, fixed-width numbers and
  Exp-Golomb codes. \<open>at_elems\<close> says that the elements stand at a bit position of the array, inside the
  \<open>nLen\<close> bytes; the readers then return them one by one.
\<close>

datatype elem = FW nat nat | EG nat

fun encode_elem :: "elem \<Rightarrow> bool list" where
  "encode_elem (FW n v) = to_bits n v"
| "encode_elem (EG v) = exp_golomb v"

fun elem_ok :: "elem \<Rightarrow> bool" where
  "elem_ok (FW n v) \<longleftrightarrow> v < 2 ^ n"
| "elem_ok (EG v) \<longleftrightarrow> v + 1 < 2 ^ 31"

definition elem_len :: "elem \<Rightarrow> nat" where
  "elem_len e = length (encode_elem e)"

definition encode_elems :: "elem list \<Rightarrow> bool list" where
  "encode_elems es = concat (map encode_elem es)"

definition at_elems :: "bytes \<Rightarrow> nat \<Rightarrow> nat \<Rightarrow> elem list \<Rightarrow> bool" where
  "at_elems buf nLen p es \<longleftrightarrow>
     (\<exists>rest. drop p (bits_of buf) = encode_elems es @ rest) \<and>
     p + length (encode_elems es) \<le> 8 * nLen \<and> nLen \<le> length buf \<and> list_all elem_ok es"

lemma at_elems_next: "at_elems buf nLen p (e # es) \<Longrightarrow> at_elems buf nLen (p + elem_len e) es"
  unfolding at_elems_def elem_len_def
  by (auto simp: encode_elems_def add.assoc) (metis append_eq_conv_conj drop_drop add.commute)

lemma at_elems_u:
  assumes "at_elems buf nLen p (FW n v # es)"
  shows "u_bits n buf p = Some (v, p + elem_len (FW n v))"
proof -
  obtain rest where "drop p (bits_of buf) = to_bits n v @ rest" "p + n \<le> 8 * length buf" "v < 2 ^ n"
    using assms by (auto simp: at_elems_def encode_elems_def)
  then show ?thesis
    by (simp add: u_bits_def read_bits_spec foldl_to_bits elem_len_def)
qed

lemma at_elems_Ue:
  assumes "at_elems buf nLen p (EG v # es)"
  shows "Ue buf nLen p = Some (v, p + elem_len (EG v))"
proof -
  obtain rest where "drop p (bits_of buf) = exp_golomb v @ rest" "nLen \<le> length buf" "v + 1 < 2 ^ 31"
    "p + length (exp_golomb v) \<le> 8 * nLen"
    using assms by (auto simp: at_elems_def encode_elems_def)
  then show ?thesis
    unfolding elem_len_def encode_elem.simps by (intro Ue_decodes) simp_all
qed

lemma at_elems_skip_u: "at_elems buf nLen p (FW n v # es) \<Longrightarrow> skip_u n buf p = Some (p + elem_len (FW n v))"
  by (simp add: skip_u_def at_elems_u)

lemma at_elems_skip_ue: "at_elems buf nLen p (EG v # es) \<Longrightarrow> skip_ue buf nLen p = Some (p + elem_len (EG v))"
  by (simp add: skip_ue_def at_elems_Ue)

lemma at_elems_skip_se: "at_elems buf nLen p (EG v # es) \<Longrightarrow> skip_se buf nLen p = Some (p + elem_len (EG v))"
  by (simp add: skip_se_def Se_def at_elems_Ue Let_def)

lemma times_numeral: "times (numeral k) f p = do { p \<leftarrow> f p; times (pred_numeral k) f p }"
  by (simp add: numeral_eq_Suc)

lemma times_one: "times 1 f p = f p"
  by (cases "f p") simp_all

text \<open>Element by element, and part by part: a reader of a part goes over its elements.\<close>

definition at_elem :: "bytes \<Rightarrow> nat \<Rightarrow> nat \<Rightarrow> elem \<Rightarrow> bool" where
  "at_elem buf nLen p e \<longleftrightarrow> at_elems buf nLen p [e]"

definition elems_len :: "elem list \<Rightarrow> nat" where
  "elems_len es = sum_list (map elem_len es)"

lemma elems_len_simps [simp]: "elems_len [] = 0" "elems_len (e # es) = elem_len e + elems_len es" "elems_len (es @ fs) = elems_len es + elems_len fs"
  by (simp_all add: elems_len_def)

lemma at_elems_Cons: "at_elems buf nLen p (e # es) \<Longrightarrow> at_elem buf nLen p e \<and> at_elems buf nLen (p + elem_len e) es"
  using at_elems_next[of buf nLen p e es] by (auto simp: at_elem_def at_elems_def encode_elems_def)

lemma at_elems_append: "at_elems buf nLen p (xs @ ys) \<Longrightarrow> at_elems buf nLen p xs \<and> at_elems buf nLen (p + elems_len xs) ys"
proof (induction xs arbitrary: p)
  case Nil
  then show ?case
    by (auto simp: at_elems_def encode_elems_def)
next
  case (Cons x xs)
  have "at_elems buf nLen (p + elem_len x + elems_len xs) ys"
    using Cons.IH at_elems_Cons[OF Cons.prems[unfolded append_Cons]] by blast
  moreover have "at_elems buf nLen p (x # xs)"
    using Cons.prems by (auto simp: at_elems_def encode_elems_def)
  ultimately show ?case
    by (simp add: add.assoc)
qed

lemma at_elem_reads:
  "at_elem buf nLen p (FW n v) \<Longrightarrow> u_bits n buf p = Some (v, p + elem_len (FW n v))"
  "at_elem buf nLen p (EG v) \<Longrightarrow> Ue buf nLen p = Some (v, p + elem_len (EG v))"
  "at_elem buf nLen p (FW n v) \<Longrightarrow> skip_u n buf p = Some (p + elem_len (FW n v))"
  "at_elem buf nLen p (EG v) \<Longrightarrow> skip_ue buf nLen p = Some (p + elem_len (EG v))"
  "at_elem buf nLen p (EG v) \<Longrightarrow> skip_se buf nLen p = Some (p + elem_len (EG v))"
  unfolding at_elem_def by (fact at_elems_u at_elems_Ue at_elems_skip_u at_elems_skip_ue at_elems_skip_se)+

lemmas at_elems_parts = at_elems_Cons[THEN conjunct1] at_elems_Cons[THEN conjunct2] at_elems_append[THEN conjunct1] at_elems_append[THEN conjunct2]

lemma times_skip_se:
  assumes "at_elems buf nLen p (map EG os)"
  shows "times (length os) (skip_se buf nLen) p = Some (p + elems_len (map EG os))"
  using assms
proof (induction os arbitrary: p)
  case (Cons v os)
  note at = at_elems_Cons[OF Cons.prems[unfolded list.map]]
  show ?case
    using Cons.IH[OF at[THEN conjunct2]] at_elem_reads(5)[OF at[THEN conjunct1]] by (simp add: add.assoc)
qed simp

subsection \<open>Parameter sets as the standard writes them\<close>

text \<open>
  A sequence parameter set of H.264 (7.3.2.1.1) up to the timing of its VUI parameters. Numbers written signed stand
  as their code numbers, absent parts are \<open>None\<close>. \<open>high_part\<close> holds the chroma format, the flag that goes with format 3, the bit depths, the bypass flag
  and whether the scaling matrix is present, all of whose lists are absent.
\<close>

datatype pic_order = Order_0 nat | Order_1 nat nat nat "nat list" | Order_2

record vui_params =
  aspect :: "(nat \<times> nat \<times> nat) option"
  overscan :: "nat option"
  signal :: "(nat \<times> nat \<times> (nat \<times> nat \<times> nat) option) option"
  chroma_loc :: "(nat \<times> nat) option"
  timing :: "(nat \<times> nat) option"

record avc_params =
  ref_idc :: nat
  profile_idc :: nat
  constraints :: "nat \<times> nat \<times> nat \<times> nat"
  reserved :: nat
  level_idc :: nat
  sps_id :: nat
  high_part :: "(nat \<times> nat \<times> nat \<times> nat \<times> nat \<times> bool) option"
  log2_frame_num :: nat
  poc :: pic_order
  num_refs :: nat
  gaps :: nat
  width_mbs :: nat
  map_units :: nat
  field_coding :: "nat option"
  direct_8x8 :: nat
  crop :: "(nat \<times> nat \<times> nat \<times> nat) option"
  vui_part :: "vui_params option"

fun high_elems :: "(nat \<times> nat \<times> nat \<times> nat \<times> nat \<times> bool) option \<Rightarrow> elem list" where
  "high_elems None = []"
| "high_elems (Some (c, r, l, d, q, m)) = EG c # (if c = 3 then [FW 1 r] else []) @
     [EG l, EG d, FW 1 q] @ (if m then FW 1 1 # replicate 8 (FW 1 0) else [FW 1 0])"

fun order_elems :: "pic_order \<Rightarrow> elem list" where
  "order_elems (Order_0 n) = [EG 0, EG n]"
| "order_elems (Order_1 z a b os) = [EG 1, FW 1 z, EG a, EG b, EG (length os)] @ map EG os"
| "order_elems Order_2 = [EG 2]"

fun field_elems :: "nat option \<Rightarrow> elem list" where
  "field_elems None = [FW 1 1]"
| "field_elems (Some m) = [FW 1 0, FW 1 m]"

fun crop_elems :: "(nat \<times> nat \<times> nat \<times> nat) option \<Rightarrow> elem list" where
  "crop_elems None = [FW 1 0]"
| "crop_elems (Some (l, r, t, b)) = [FW 1 1, EG l, EG r, EG t, EG b]"

fun aspect_elems :: "(nat \<times> nat \<times> nat) option \<Rightarrow> elem list" where
  "aspect_elems None = [FW 1 0]"
| "aspect_elems (Some (i, w, h)) = [FW 1 1, FW 8 i] @ (if i = 255 then [FW 16 w, FW 16 h] else [])"

fun overscan_elems :: "nat option \<Rightarrow> elem list" where
  "overscan_elems None = [FW 1 0]"
| "overscan_elems (Some v) = [FW 1 1, FW 1 v]"

fun signal_elems :: "(nat \<times> nat \<times> (nat \<times> nat \<times> nat) option) option \<Rightarrow> elem list" where
  "signal_elems None = [FW 1 0]"
| "signal_elems (Some (f, r, None)) = [FW 1 1, FW 3 f, FW 1 r, FW 1 0]"
| "signal_elems (Some (f, r, Some (p, t, m))) = [FW 1 1, FW 3 f, FW 1 r, FW 1 1, FW 8 p, FW 8 t, FW 8 m]"

fun chroma_elems :: "(nat \<times> nat) option \<Rightarrow> elem list" where
  "chroma_elems None = [FW 1 0]"
| "chroma_elems (Some (t, b)) = [FW 1 1, EG t, EG b]"

fun timing_elems :: "(nat \<times> nat) option \<Rightarrow> elem list" where
  "timing_elems None = [FW 1 0]"
| "timing_elems (Some (n, t)) = [FW 1 1, FW 32 n, FW 32 t]"

fun vui_elems :: "vui_params option \<Rightarrow> elem list" where
  "vui_elems None = [FW 1 0]"
| "vui_elems (Some v) = FW 1 1 # aspect_elems (aspect v) @ overscan_elems (overscan v) @ signal_elems (signal v) @
     chroma_elems (chroma_loc v) @ timing_elems (timing v)"

definition avc_tail_elems :: "avc_params \<Rightarrow> elem list" where
  "avc_tail_elems a = field_elems (field_coding a) @ FW 1 (direct_8x8 a) # crop_elems (crop a) @ vui_elems (vui_part a)"

definition avc_elems :: "avc_params \<Rightarrow> elem list" where
  "avc_elems a =
     (case constraints a of (c0, c1, c2, c3) \<Rightarrow>
       [FW 1 0, FW 2 (ref_idc a), FW 5 7, FW 8 (profile_idc a), FW 1 c0, FW 1 c1, FW 1 c2, FW 1 c3,
        FW 4 (reserved a), FW 8 (level_idc a), EG (sps_id a)] @ high_elems (high_part a) @ EG (log2_frame_num a) #
       order_elems (poc a) @ [EG (num_refs a), FW 1 (gaps a), EG (width_mbs a), EG (map_units a)] @ avc_tail_elems a)"

text \<open>
  The values fit their fields, the high-profile part is there for the profiles for which the code expects it (none of the others
  that have it in the standard), the dimensions fit an \<open>int\<close> and so does the frame rate's divisor, which is not 0.
\<close>

definition avc_params_ok :: "avc_params \<Rightarrow> bool" where
  "avc_params_ok a \<longleftrightarrow>
     list_all elem_ok (avc_elems a) \<and> (high_part a \<noteq> None \<longleftrightarrow> profile_idc a \<in> {100, 110, 122, 144}) \<and>
     profile_idc a \<notin> {44, 83, 86, 118, 128, 134, 135, 138, 139, 244} \<and>
     (width_mbs a + 1) * 16 < 2 ^ 31 \<and> (map_units a + 1) * 16 < 2 ^ 31 \<and>
     (case Option.bind (vui_part a) timing of None \<Rightarrow> True | Some (n, t) \<Rightarrow> 0 < n \<and> n < 2 ^ 30 \<and> t < 2 ^ 31)"

definition avc_rate :: "(nat \<times> nat) option \<Rightarrow> int" where
  "avc_rate tm = (case tm of None \<Rightarrow> 25 | Some (n, t) \<Rightarrow>
     if t div (2 * n) = 0 then 25 else int (t div (2 * n)))"

text \<open>The size of the pictures by the standard (7-13 to 7-22): a frame has two map units where there are fields, and the cropping
  rectangle is taken off, in units of the chroma samples.\<close>

definition picture_width :: "avc_params \<Rightarrow> nat" where
  "picture_width a =
     (let c = (case high_part a of None \<Rightarrow> 1 | Some (c, r) \<Rightarrow> c); unit = (if c \<in> {1, 2} then 2 else 1)
      in (width_mbs a + 1) * 16 - (case crop a of None \<Rightarrow> 0 | Some (l, r, t, b) \<Rightarrow> unit * (l + r)))"

definition picture_height :: "avc_params \<Rightarrow> nat" where
  "picture_height a =
     (let c = (case high_part a of None \<Rightarrow> 1 | Some (c, r) \<Rightarrow> c); fields = (if field_coding a = None then 1 else 2);
          unit = (if c = 1 then 2 else 1) * fields
      in (map_units a + 1) * 16 * fields - (case crop a of None \<Rightarrow> 0 | Some (l, r, t, b) \<Rightarrow> unit * (t + b)))"

lemma as_int_small: "n < 2 ^ 31 \<Longrightarrow> as_int n = int n"
  by (simp add: as_int_def signed_of_nat signed_take_bit_int_eq_self)

lemma avc_fps_small:
  assumes "0 < n" "n < 2 ^ 30" "t < 2 ^ 31"
  shows "avc_fps n t = Some (int (t div (2 * n)))"
proof -
  have "as_int n = int n" "as_int t = int t"
    using assms by (simp_all add: as_int_small)
  moreover have "fits_int (2 * int n)" using assms by (simp add: fits_int_def)
  ultimately show ?thesis
    using assms by (auto simp: avc_fps_def Let_def sgn_if zdiv_int)
qed

subsection \<open>The readers go over their parts\<close>

lemma reads_high:
  assumes "at_elems buf nLen p (high_elems (Some x))"
  shows "avc_high_profile buf nLen p = Some (p + elems_len (high_elems (Some x)))"
proof -
  obtain c r l d q m where x: "x = (c, r, l, d, q, m)"
    by (cases x) auto
  note at = assms[unfolded x high_elems.simps]
  show ?thesis
  proof (cases m)
    case True
    have r8: "replicate 8 (FW 1 0) = [FW 1 0, FW 1 0, FW 1 0, FW 1 0, FW 1 0, FW 1 0, FW 1 0, FW 1 0]"
      by (simp add: numeral_eq_Suc)
    show ?thesis
      using at True unfolding x r8
      by (cases "c = 3") (auto simp: r8 avc_high_profile_def at_elem_reads times_numeral times_one add.assoc dest!: at_elems_Cons simp del: One_nat_def)
  next
    case False
    show ?thesis
      using at False unfolding x
      by (cases "c = 3") (auto simp: avc_high_profile_def at_elem_reads add.assoc dest!: at_elems_Cons simp del: One_nat_def)
  qed
qed

lemma reads_order:
  assumes "at_elems buf nLen p (order_elems x)"
  shows "avc_pic_order buf nLen p = Some (p + elems_len (order_elems x))"
  using assms
  by (cases x) (auto simp: avc_pic_order_def at_elem_reads times_skip_se add.assoc dest!: at_elems_Cons simp del: One_nat_def)

lemma reads_aspect:
  assumes "at_elems buf nLen p (aspect_elems x)"
  shows "vui_aspect_ratio buf p = Some (p + elems_len (aspect_elems x))"
  using assms
  by (cases x rule: aspect_elems.cases)
    (auto simp: vui_aspect_ratio_def at_elem_reads add.assoc dest!: at_elems_Cons simp del: One_nat_def)

lemma reads_overscan:
  assumes "at_elems buf nLen p (overscan_elems x)"
  shows "vui_overscan buf p = Some (p + elems_len (overscan_elems x))"
  using assms
  by (cases x) (auto simp: vui_overscan_def at_elem_reads add.assoc dest!: at_elems_Cons simp del: One_nat_def)

lemma reads_signal:
  assumes "at_elems buf nLen p (signal_elems x)"
  shows "vui_video_signal buf p = Some (p + elems_len (signal_elems x))"
  using assms
  by (cases x rule: signal_elems.cases)
    (auto simp: vui_video_signal_def at_elem_reads times_numeral times_one add.assoc dest!: at_elems_Cons simp del: One_nat_def)

lemma reads_chroma:
  assumes "at_elems buf nLen p (chroma_elems x)"
  shows "vui_chroma_loc buf nLen p = Some (p + elems_len (chroma_elems x))"
  using assms
  by (cases x rule: chroma_elems.cases) (auto simp: vui_chroma_loc_def at_elem_reads add.assoc dest!: at_elems_Cons simp del: One_nat_def)

lemma vui_rate:
  assumes "at_elems buf nLen p (vui_elems (Some v))"
    and "case timing v of None \<Rightarrow> True | Some (n, t) \<Rightarrow> 0 < n \<and> n < 2 ^ 30 \<and> t < 2 ^ 31"
  shows "avc_vui buf nLen (p + elem_len (FW 1 1)) = Some (case timing v of None \<Rightarrow> 0 | Some (n, t) \<Rightarrow> int (t div (2 * n)))"
proof -
  let ?p = "p + elem_len (FW 1 1)"
  have at: "at_elems buf nLen ?p (aspect_elems (aspect v) @ overscan_elems (overscan v) @ signal_elems (signal v) @
      chroma_elems (chroma_loc v) @ timing_elems (timing v))"
    using at_elems_Cons[OF assms(1)[unfolded vui_elems.simps]] by blast
  note 1 = at_elems_append[OF at]
  note 2 = at_elems_append[OF 1[THEN conjunct2]]
  note 3 = at_elems_append[OF 2[THEN conjunct2]]
  note 4 = at_elems_append[OF 3[THEN conjunct2]]
  note r = reads_aspect[OF 1[THEN conjunct1]] reads_overscan[OF 2[THEN conjunct1]] reads_signal[OF 3[THEN conjunct1]]
    reads_chroma[OF 4[THEN conjunct1]]
  show ?thesis
  proof (cases "timing v")
    case None
    then show ?thesis
      using 4[THEN conjunct2] by (auto simp: avc_vui_def r at_elem_reads dest!: at_elems_Cons simp del: One_nat_def)
  next
    case (Some nt)
    obtain n t where nt: "timing v = Some (n, t)"
      using Some by (cases nt) auto
    then show ?thesis
      using 4[THEN conjunct2] assms(2) by (auto simp: avc_vui_def r at_elem_reads avc_fps_small dest!: at_elems_Cons simp del: One_nat_def)
  qed
qed

lemma avc_tail_rate:
  assumes at: "at_elems buf nLen p (avc_tail_elems a)"
    and tm: "case Option.bind (vui_part a) timing of None \<Rightarrow> True | Some (n, t) \<Rightarrow> 0 < n \<and> n < 2 ^ 30 \<and> t < 2 ^ 31"
  shows "avc_tail buf nLen p = Some (avc_rate (Option.bind (vui_part a) timing))"
proof -
  let ?f = "elems_len (field_elems (field_coding a))" and ?c = "elems_len (crop_elems (crop a))"
  note 1 = at_elems_append[OF at[unfolded avc_tail_elems_def]]
  note 2 = at_elems_Cons[OF 1[THEN conjunct2]]
  note 3 = at_elems_append[OF 2[THEN conjunct2]]
  let ?q = "p + ?f + elem_len (FW 1 (direct_8x8 a)) + ?c"
  have f: "(do { (f, q) \<leftarrow> u_bits 1 buf p; if f = 0 then skip_u 1 buf q else Some q }) = Some (p + ?f)"
    using 1[THEN conjunct1] by (cases "field_coding a") (auto simp: at_elem_reads add.assoc dest!: at_elems_Cons simp del: One_nat_def)
  have c: "(do { (f, q) \<leftarrow> u_bits 1 buf q; if f \<noteq> 0 then times 4 (skip_ue buf nLen) q else Some q }) = Some ?q"
    if "q = p + ?f + elem_len (FW 1 (direct_8x8 a))" for q
    using 3[THEN conjunct1] unfolding that
    by (cases "crop a" rule: crop_elems.cases)
      (auto simp: at_elem_reads times_numeral times_one add.assoc dest!: at_elems_Cons simp del: One_nat_def)
  have "avc_tail buf nLen p = do {
      p \<leftarrow> do { (f, q) \<leftarrow> u_bits 1 buf p; if f = 0 then skip_u 1 buf q else Some q };
      p \<leftarrow> skip_u 1 buf p;
      p \<leftarrow> do { (f, q) \<leftarrow> u_bits 1 buf p; if f \<noteq> 0 then times 4 (skip_ue buf nLen) q else Some q };
      (f, p) \<leftarrow> u_bits 1 buf p;
      fps \<leftarrow> (if f \<noteq> 0 then avc_vui buf nLen p else Some 0);
      Some (if fps = 0 then 25 else fps) }"
    by (auto simp: avc_tail_def split: Option.bind_splits)
  also have "\<dots> = do {
      (f, p) \<leftarrow> u_bits 1 buf ?q;
      fps \<leftarrow> (if f \<noteq> 0 then avc_vui buf nLen p else Some 0);
      Some (if fps = 0 then 25 else fps) }"
    unfolding f Option.bind.bind_lunit at_elem_reads(3)[OF 2[THEN conjunct1]] c[OF refl] by simp
  also have "\<dots> = Some (avc_rate (Option.bind (vui_part a) timing))"
  proof (cases "vui_part a")
    case None
    then show ?thesis
      using 3[THEN conjunct2] by (auto simp: avc_rate_def at_elem_reads dest!: at_elems_Cons simp del: One_nat_def)
  next
    case (Some v)
    note v = 3[THEN conjunct2, unfolded Some]
    have "u_bits 1 buf ?q = Some (1, ?q + elem_len (FW 1 1))"
      by (rule at_elem_reads(1)[OF at_elems_Cons[OF v[unfolded vui_elems.simps], THEN conjunct1]])
    then show ?thesis
      using vui_rate[OF v] tm Some by (auto simp: avc_rate_def split: option.split)
  qed
  finally show ?thesis .
qed

lemma avc_decode_elems:
  assumes at: "at_elems buf nLen 0 (avc_elems a)" and ok: "avc_params_ok a"
    and de: "de_emulation_prevention (s @ [0]) (length s) = Some (buf, nLen)"
  shows "avc_decode_sps s v =
    Some (True, \<lparr>width = (width_mbs a + 1) * 16, height = (map_units a + 1) * 16,
                 fps = avc_rate (Option.bind (vui_part a) timing)\<rparr>)"
proof -
  obtain c0 c1 c2 c3 where c: "constraints a = (c0, c1, c2, c3)"
    by (cases "constraints a") auto
  note a0 = at[unfolded avc_elems_def c prod.case append_Cons append_Nil]
  note a1 = at_elems_next[OF a0] note a2 = at_elems_next[OF a1] note a3 = at_elems_next[OF a2] note a4 = at_elems_next[OF a3]
  note a5 = at_elems_next[OF a4] note a6 = at_elems_next[OF a5] note a7 = at_elems_next[OF a6] note a8 = at_elems_next[OF a7]
  note a9 = at_elems_next[OF a8] note a10 = at_elems_next[OF a9] note a11 = at_elems_append[OF at_elems_next[OF a10]]
  note a12 = a11[THEN conjunct2] note a13 = at_elems_append[OF at_elems_next[OF a12]]
  note a14 = a13[THEN conjunct2] note a15 = at_elems_next[OF a14] note a16 = at_elems_next[OF a15] note a17 = at_elems_next[OF a16]
  note a18 = at_elems_next[OF a17]
  note reads =
    at_elems_skip_u[OF a0] at_elems_skip_u[OF a1] at_elems_u[OF a2] at_elems_u[OF a3] at_elems_skip_u[OF a4] at_elems_skip_u[OF a5]
    at_elems_skip_u[OF a6] at_elems_skip_u[OF a7] at_elems_skip_u[OF a8] at_elems_skip_u[OF a9] at_elems_skip_ue[OF a10]
    at_elems_skip_ue[OF a12] reads_order[OF a13[THEN conjunct1]] at_elems_skip_ue[OF a14] at_elems_skip_u[OF a15] at_elems_Ue[OF a16] at_elems_Ue[OF a17]
  have high: "(if profile_idc a = 100 \<or> profile_idc a = 110 \<or> profile_idc a = 122 \<or> profile_idc a = 144
      then avc_high_profile buf nLen q else Some q) = Some (q + elems_len (high_elems (high_part a)))"
    if "at_elems buf nLen q (high_elems (high_part a))" for q
    using that ok reads_high[of buf nLen q] by (cases "high_part a") (auto simp: avc_params_ok_def)
  have rate: "avc_tail buf nLen q = Some (avc_rate (Option.bind (vui_part a) timing))" if "at_elems buf nLen q (avc_tail_elems a)" for q
    using that ok by (intro avc_tail_rate) (auto simp: avc_params_ok_def)
  show ?thesis
    using ok by (simp add: avc_decode_sps_def de avc_dimension_def avc_params_ok_def reads[unfolded add_0_left] times_numeral times_one
        high[OF a11[THEN conjunct1], unfolded add_0_left] rate[OF a18, unfolded add_0_left] del: One_nat_def)
qed

lemma avc_decode_written:
  assumes ok: "avc_params_ok a"
    and bits: "bits_of (b0 # b1 # unesc b0 b1 rest) = encode_elems (avc_elems a) @ stop"
  shows "avc_decode_sps (b0 # b1 # rest) v =
    Some (True, \<lparr>width = (width_mbs a + 1) * 16, height = (map_units a + 1) * 16,
                 fps = avc_rate (Option.bind (vui_part a) timing)\<rparr>)"
proof -
  let ?rbsp = "b0 # b1 # unesc b0 b1 rest"
  obtain junk where de: "de_emulation_prevention (b0 # b1 # rest @ [0]) (length (b0 # b1 # rest)) =
      Some (?rbsp @ junk @ [0], length ?rbsp)"
    using de_emulation_unesc[of b0 b1 rest "[0]"] by auto
  have "at_elems (?rbsp @ junk @ [0]) (length ?rbsp) 0 (avc_elems a)"
  proof -
    have "length (bits_of ?rbsp) = length (encode_elems (avc_elems a)) + length stop"
      by (simp only: bits length_append)
    then have "length (encode_elems (avc_elems a)) \<le> 8 * length ?rbsp"
      by (simp only: length_bits_of)
    then show ?thesis
      using ok bits by (simp add: at_elems_def bits_of_append [of ?rbsp, simplified] avc_params_ok_def)
  qed
  from avc_decode_elems[OF this ok] de show ?thesis by simp
qed


text \<open>The parameter set of a camera with 1080 lines, high profile, written with a cropping rectangle.\<close>

definition full_hd :: avc_params where
  "full_hd = \<lparr>ref_idc = 3, profile_idc = 100, constraints = (0, 0, 0, 0), reserved = 0, level_idc = 40, sps_id = 0,
     high_part = Some (1, 0, 0, 0, 0, False), log2_frame_num = 0, poc = Order_0 2, num_refs = 4, gaps = 0, width_mbs = 119, map_units = 67,
     field_coding = None, direct_8x8 = 1, crop = Some (0, 0, 0, 4),
     vui_part = Some \<lparr>aspect = Some (1, 0, 0), overscan = None, signal = Some (5, 0, Some (1, 1, 1)), chroma_loc = None, timing = Some (1, 50)\<rparr>\<rparr>"


lemma avc_tail_nonzero: "avc_tail buf nLen p = Some f \<Longrightarrow> f \<noteq> 0"
proof -
  have "returns (avc_tail buf nLen p) (\<lambda>f. f \<noteq> 0)"
    unfolding avc_tail_def by (intro returns_intros) auto
  then show "avc_tail buf nLen p = Some f \<Longrightarrow> f \<noteq> 0" by (rule returnsD)
qed

lemma avc_dimension_SomeD: "avc_dimension n = Some w \<Longrightarrow> 16 dvd w \<and> 16 \<le> w \<and> w < 2 ^ 31"
  by (auto simp: avc_dimension_def split: if_splits)

text \<open>Whatever the bytes: when \<open>avc::decode_sps\<close> returns true, the size is a positive multiple of 16 in both
  directions that fits an \<open>int\<close> and the frame rate is not zero; when it returns false, only
  \<open>fps\<close> has been assigned, to zero.\<close>

theorem avc_decode_result:
  assumes "avc_decode_sps s v = Some (ok, v')"
  shows "if ok then 16 dvd width v' \<and> 16 \<le> width v' \<and> width v' < 2 ^ 31 \<and>
      16 dvd height v' \<and> 16 \<le> height v' \<and> height v' < 2 ^ 31 \<and> fps v' \<noteq> 0
    else v' = v\<lparr>fps := 0\<rparr>"
proof -
  have "returns (avc_decode_sps s v) (\<lambda>(ok, v').
    if ok then 16 dvd width v' \<and> 16 \<le> width v' \<and> width v' < 2 ^ 31 \<and>
      16 dvd height v' \<and> 16 \<le> height v' \<and> height v' < 2 ^ 31 \<and> fps v' \<noteq> 0
    else v' = v\<lparr>fps := 0\<rparr>)"
    unfolding avc_decode_sps_def Let_def
    by (intro returns_intros) (simp_all add: avc_dimension_SomeD [simplified] avc_tail_nonzero)
  from returnsD[OF this assms] show ?thesis by simp
qed

lemma avc_decode_result_witness:
  "if False then 16 dvd (7::nat) else \<lparr>width = 7, height = 5, fps = 0\<rparr> = (\<lparr>width = 7, height = 5, fps = 9\<rparr>\<lparr>fps := 0\<rparr>)"
  using avc_decode_result[of "[0x68, 66, 0, 30]" "\<lparr>width = 7, height = 5, fps = 9\<rparr>" False
      "\<lparr>width = 7, height = 5, fps = 0\<rparr>"]
  by (simp add: avc_decode_sps_def)

lemma hevc_frame_rate_range: "hevc_frame_rate n t = Some f \<Longrightarrow> 1 \<le> f \<and> f \<le> 1000"
  by (auto simp: hevc_frame_rate_def Let_def split: if_split_asm)

lemma hevc_vui_range: "hevc_vui buf nLen p = Some f \<Longrightarrow> 1 \<le> f \<and> f \<le> 1000"
  unfolding hevc_vui_def
  by (auto simp: bind_eq_Some_conv dest: hevc_frame_rate_range split: if_split_asm)

text \<open>Whatever the bytes: when \<open>hevc::decode_sps\<close> returns true, the unit had at least 20 bytes and the frame
  rate is between 1 and 1000.\<close>

theorem hevc_decode_rate:
  assumes "hevc_decode_sps s v = Some (True, v')"
  shows "20 \<le> length s \<and> 1 \<le> fps v' \<and> fps v' \<le> 1000"
proof -
  have "returns (hevc_decode_sps s v) (\<lambda>(ok, v'). ok \<longrightarrow> 20 \<le> length s \<and> 1 \<le> fps v' \<and> fps v' \<le> 1000)"
    unfolding hevc_decode_sps_def Let_def
    by (intro returns_intros) (auto dest: hevc_vui_range split: if_split_asm)
  with assms show ?thesis by (auto dest: returnsD)
qed

lemma hevc_decode_rate_witness:
  "20 \<le> length (replicate 13 0 @ [0xF7, 0x7F, 0xC2, 0, 0, 0, 0 :: u8]) \<and> (1::int) \<le> 25 \<and> (25::int) \<le> 1000"
proof -
  have "hevc_decode_sps (replicate 13 0 @ [0xF7, 0x7F, 0xC2, 0, 0, 0, 0]) \<lparr>width = 0, height = 0, fps = 0\<rparr> =
      Some (True, \<lparr>width = 0, height = 0, fps = 25\<rparr>)"
    by code_simp
  from hevc_decode_rate[OF this] show ?thesis by simp
qed

text \<open>The header of an IDR or parameter-set unit that is not marked 3 in \<open>nal_ref_idc\<close> sends H.264 to the H.265 decoder.\<close>

lemma Unit_decode_sps_ref_idc_1: "Unit_decode_sps 0x27 s v = hevc_decode_sps s v"
  by (simp add: Unit_decode_sps_def IsH264_def)

end
