(* ===== verification/Rtp_Depay.thy ===== *)
theory Rtp_Depay
  imports Byte_Buffer
begin

section \<open>librtp::Packet: parsing RTP packets and reassembling frames (src/stream/rtp.hpp)\<close>

text \<open>
  A packet is the array \<open>mem\<close> at the pointer given to \<open>Unmarshal\<close>; \<open>p_data\<close> is the offset of the
  pointer \<open>data\<close> into it and \<open>p_size\<close> the \<open>int\<close> left behind it. Reading outside the array and writing
  a negative size (a huge \<open>size_t\<close>) are faults, \<open>None\<close>.
\<close>

definition Uint16 :: "bytes \<Rightarrow> nat \<Rightarrow> u16 option" where
  "Uint16 mem i = do {
     b0 \<leftarrow> mem_read mem i;
     b1 \<leftarrow> mem_read mem (i + 1);
     Some (push_bit 8 (ucast b0) OR ucast b1)
   }"

text \<open>The second byte is \<open>b[0]\<close> again, not \<open>b[1]\<close>.\<close>

definition Uint32 :: "bytes \<Rightarrow> nat \<Rightarrow> u32 option" where
  "Uint32 mem i = do {
     b0 \<leftarrow> mem_read mem i;
     b2 \<leftarrow> mem_read mem (i + 2);
     b3 \<leftarrow> mem_read mem (i + 3);
     Some (push_bit 24 (ucast b0) OR push_bit 16 (ucast b0) OR push_bit 8 (ucast b2) OR ucast b3)
   }"

definition nalu_header :: bytes where
  "nalu_header = [0, 0, 0, 1]"

record rtp_header =
  csrcLen :: u8
  extension :: u8
  padding :: u8
  version :: u8
  payloadType :: u8
  marker :: u8
  seq :: u16
  timestamp :: u32
  ssrc :: u32

record packet =
  hr :: rtp_header
  mem :: bytes
  p_data :: nat
  p_size :: int

definition RTP_HEADER_SIZE :: nat where
  "RTP_HEADER_SIZE = 12"

definition data_at :: "packet \<Rightarrow> nat \<Rightarrow> u8 option" where
  "data_at p i = mem_read (mem p) (p_data p + i)"

definition advance :: "nat \<Rightarrow> packet \<Rightarrow> packet" where
  "advance n p = p\<lparr>p_data := p_data p + n, p_size := p_size p - int n\<rparr>"

text \<open>\<open>b.Write((char *)data, size)\<close>.\<close>

definition write_data :: "packet \<Rightarrow> buffer \<Rightarrow> buffer option" where
  "write_data p b =
     (if p_size p < 0 then None
      else map_option snd (Write (Some (drop (p_data p) (mem p))) (nat (p_size p)) b))"

definition write_bytes :: "bytes \<Rightarrow> buffer \<Rightarrow> buffer option" where
  "write_bytes xs b = map_option snd (Write (Some xs) (length xs) b)"

definition Unmarshal :: "bytes \<Rightarrow> int \<Rightarrow> packet option" where
  "Unmarshal m len = do {
     b0 \<leftarrow> mem_read m 0;
     b1 \<leftarrow> mem_read m 1;
     sq \<leftarrow> Uint16 m 2;
     ts \<leftarrow> Uint32 m 4;
     sc \<leftarrow> Uint32 m 8;
     Some \<lparr>hr = \<lparr>csrcLen = drop_bit 4 b0, extension = drop_bit 3 b0 AND 1,
              padding = drop_bit 2 b0 AND 1, version = b0 AND 3,
              payloadType = b1 AND 0x7F, marker = drop_bit 7 b1,
              seq = sq, timestamp = ts, ssrc = sc\<rparr>,
           mem = m, p_data = RTP_HEADER_SIZE, p_size = len - int RTP_HEADER_SIZE\<rparr>
   }"

definition PayloadType :: "packet \<Rightarrow> u8" where
  "PayloadType p = payloadType (hr p)"

definition UnmarshalAVC :: "packet \<Rightarrow> bytes \<Rightarrow> buffer \<Rightarrow> (u8 \<times> packet \<times> buffer) option" where
  "UnmarshalAVC p e b = do {
     ntype \<leftarrow> data_at p 1;
     d0 \<leftarrow> data_at p 0;
     let flag = d0 AND 0x1f;
     (sflag, ntype, p, b) \<leftarrow>
       (if flag = 28 then do {
          let sflag = (ntype AND 0x80) OR (ntype AND 0x40);
          Some (sflag, ntype - sflag, advance 2 p, b)
        } else do {
          b \<leftarrow> write_bytes nalu_header b;
          Some (0, d0, p, b)
        });
     let ntype = ntype AND 0x1F;
     b \<leftarrow> (if flag = 28 \<and> sflag AND 0x80 \<noteq> 0 then do {
            b \<leftarrow> (if ntype = 5 \<and> Empty b then write_bytes e b else Some b);
            b \<leftarrow> write_bytes nalu_header b;
            write_bytes [ntype OR 0x60] b
          } else Some b);
     b \<leftarrow> write_data p b;
     Some (if marker (hr p) = 1 \<and> (ntype = 1 \<or> ntype = 5) then ntype else 0, p, b)
   }"

definition UnmarshalHVC :: "packet \<Rightarrow> bytes \<Rightarrow> buffer \<Rightarrow> (u8 \<times> packet \<times> buffer) option" where
  "UnmarshalHVC p e b = do {
     d0 \<leftarrow> data_at p 0;
     let flag = drop_bit 1 d0;
     (sflag, ntype, p, b) \<leftarrow>
       (if flag = 49 then do {
          ntype \<leftarrow> data_at p 2;
          let sflag = (ntype AND 0x80) OR (ntype AND 0x40);
          Some (sflag, ntype - sflag, advance 3 p, b)
        } else do {
          b \<leftarrow> write_bytes nalu_header b;
          Some (0, d0, p, b)
        });
     b \<leftarrow> (if flag = 49 \<and> sflag AND 0x80 \<noteq> 0 then do {
            let ntype = push_bit 1 ntype;
            let t = drop_bit 1 (ntype AND 0x7e);
            b \<leftarrow> (if t = 19 \<and> Empty b then write_bytes e b else Some b);
            b \<leftarrow> write_bytes nalu_header b;
            b \<leftarrow> write_bytes [ntype] b;
            write_bytes [0x01] b
          } else Some b);
     b \<leftarrow> write_data p b;
     if marker (hr p) = 1 \<and> sflag AND 0x40 \<noteq> 0 then do {
       all \<leftarrow> Bytes b;
       c \<leftarrow> mem_read all 4;
       Some (drop_bit 1 (c AND 0x7e), p, b)
     } else Some (0, p, b)
   }"

definition Decode :: "packet \<Rightarrow> bytes \<Rightarrow> buffer \<Rightarrow> bool \<Rightarrow> (u8 \<times> packet \<times> buffer) option" where
  "Decode p e b bHevc = (if bHevc then UnmarshalHVC p e b else UnmarshalAVC p e b)"

text \<open>What the RTSP client does with one packet: parse and decode it into its frame buffer.\<close>

definition receive :: "bool \<Rightarrow> bytes \<Rightarrow> bytes \<Rightarrow> buffer \<Rightarrow> (u8 \<times> buffer) option" where
  "receive bHevc e pkt b = do {
     p \<leftarrow> Unmarshal pkt (int (length pkt));
     (t, p, b) \<leftarrow> Decode p e b bHevc;
     Some (t, b)
   }"

fun receive_all :: "bool \<Rightarrow> bytes \<Rightarrow> bytes list \<Rightarrow> buffer \<Rightarrow> (u8 list \<times> buffer) option" where
  "receive_all h e [] b = Some ([], b)"
| "receive_all h e (x # xs) b = do {
     (t, b) \<leftarrow> receive h e x b;
     (ts, b) \<leftarrow> receive_all h e xs b;
     Some (t # ts, b)
   }"

subsection \<open>Writing into the frame buffer\<close>

lemma write_bytes_eq: "write_bytes xs b = Some (buf_append xs b)"
  by (simp add: write_bytes_def Write_buf_append)

lemma write_data_eq:
  assumes "p_data p \<le> length (mem p)" "p_size p = int (length (mem p) - p_data p)"
  shows "write_data p b = Some (buf_append (drop (p_data p) (mem p)) b)"
proof -
  have "nat (p_size p) = length (drop (p_data p) (mem p))"
    using assms by simp
  then show ?thesis
    using assms Write_buf_append[of "drop (p_data p) (mem p)" b] by (simp add: write_data_def)
qed

lemma hr_advance [simp]: "hr (advance n p) = hr p"
  by (simp add: advance_def)

lemma Uint16_Some: "i + 2 \<le> length m \<Longrightarrow> \<exists>x. Uint16 m i = Some x"
  by (auto simp: Uint16_def mem_read_def)

lemma Uint32_Some: "i + 4 \<le> length m \<Longrightarrow> \<exists>x. Uint32 m i = Some x"
  by (auto simp: Uint32_def mem_read_def)

text \<open>Parsing never fails on twelve bytes or more, and always on fewer.\<close>

lemma Unmarshal_Some:
  assumes "12 \<le> length m"
  shows "\<exists>p. Unmarshal m len = Some p \<and> mem p = m \<and> p_data p = 12 \<and> p_size p = len - 12 \<and>
     marker (hr p) = drop_bit 7 (m ! 1) \<and> payloadType (hr p) = m ! 1 AND 0x7F"
proof -
  obtain x y z where "Uint16 m 2 = Some x" "Uint32 m 4 = Some y" "Uint32 m 8 = Some z"
    using Uint16_Some[of 2 m] Uint32_Some[of 4 m] Uint32_Some[of 8 m] assms by auto
  moreover have "mem_read m 0 = Some (m ! 0)" "mem_read m 1 = Some (m ! 1)"
    using assms by (auto simp: mem_read_def)
  ultimately show ?thesis
    by (simp add: Unmarshal_def RTP_HEADER_SIZE_def)
qed

lemma Unmarshal_short: "length m < 12 \<Longrightarrow> Unmarshal m len = None"
proof -
  assume "length m < 12"
  then have "Uint32 m 8 = None"
    by (auto simp: Uint32_def mem_read_def bind_eq_None_conv)
  then show ?thesis
    by (auto simp: Unmarshal_def bind_eq_None_conv)
qed

subsection \<open>Fragmented units\<close>

text \<open>The header byte of a fragment: the start and end marks and the type of the unit.\<close>

definition fu_byte :: "bool \<Rightarrow> bool \<Rightarrow> u8 \<Rightarrow> u8" where
  "fu_byte s e t = (if s then 0x80 else 0) OR (if e then 0x40 else 0) OR (t AND 0x3F)"

lemma and_not_and: "x AND NOT (x AND y) = x AND NOT y" for x :: "'a::len word"
  by (rule bit_word_eqI) (auto simp: bit_simps)

lemma flags_cleared: "x - ((x AND 0x80) OR (x AND 0x40)) = x AND 0x3F" for x :: u8
proof -
  have "x - ((x AND 0x80) OR (x AND 0x40)) = x AND NOT ((x AND 0x80) OR (x AND 0x40))"
    by (rule disjunctive_diff) (auto simp: bit_simps)
  also have "\<dots> = x AND NOT (x AND 0xC0)"
    by (simp flip: bit.conj_disj_distrib)
  also have "\<dots> = x AND NOT 0xC0"
    by (rule and_not_and)
  also have "NOT (0xC0 :: u8) = 0x3F"
    by simp
  finally show ?thesis .
qed

lemma or3_and: "(a OR b OR c) AND d = (a AND d) OR (b AND d) OR (c AND d)" for a :: "'a::len word"
  by (simp add: bit.conj_disj_distrib2)

lemma fu_byte_flags:
  "fu_byte s e t AND 0x80 = (if s then 0x80 else 0)"
  "fu_byte s e t AND 0x40 = (if e then 0x40 else 0)"
  "fu_byte s e t AND 0x3F = t AND 0x3F"
  "fu_byte s e t AND 0x1F = t AND 0x1F"
  by (simp_all add: fu_byte_def or3_and and.assoc)

text \<open>Marker bit of a packet: bit 7 of its second byte.\<close>

definition marked :: "bytes \<Rightarrow> bool" where
  "marked hdr \<longleftrightarrow> drop_bit 7 (hdr ! 1) = (1 :: u8)"


text \<open>
  One fragment unit of H.264 (indicator type 28): the start fragment opens the unit with a start
  code and a rebuilt header byte, every fragment appends what follows its two header bytes.
\<close>

definition open_unit :: "bytes \<Rightarrow> bytes \<Rightarrow> bool \<Rightarrow> buffer \<Rightarrow> buffer" where
  "open_unit e head idr b =
     buf_append head (buf_append nalu_header (if idr \<and> Empty b then buf_append e b else b))"

definition frame_type :: "bytes \<Rightarrow> u8 \<Rightarrow> u8" where
  "frame_type hdr t = (if marked hdr \<and> (t = 1 \<or> t = 5) then t else 0)"

lemma drop_hdr: "length hdr = 12 \<Longrightarrow> drop 14 (hdr @ x # y # piece) = piece"
  by simp

lemma receive_fua:
  assumes hdr: "length hdr = 12" and fi: "fi AND 0x1F = 28" and t: "t' = t AND 0x1F"
  shows "receive False e (hdr @ fi # fu_byte s en t # piece) b =
    Some (frame_type hdr t', buf_append piece (if s then open_unit e [t' OR 0x60] (t' = 5) b else b))"
proof -
  let ?m = "hdr @ fi # fu_byte s en t # piece"
  obtain p where p: "Unmarshal ?m (int (length ?m)) = Some p" "mem p = ?m" "p_data p = 12"
    "p_size p = int (length ?m) - 12" "marker (hr p) = drop_bit 7 (?m ! 1)"
    using Unmarshal_Some[of ?m "int (length ?m)"] hdr by auto
  have d: "data_at p 0 = Some fi" "data_at p (Suc 0) = Some (fu_byte s en t)"
    using p hdr by (simp_all add: data_at_def mem_read_def nth_append)
  have w: "write_data (advance 2 p) c = Some (buf_append piece c)" for c
    using write_data_eq[of "advance 2 p" c] p hdr by (simp add: advance_def)
  have mk: "marker (hr p) = 1 \<longleftrightarrow> marked hdr"
    using p(5) hdr by (simp add: marked_def nth_append)
  have fl: "((fu_byte s en t AND 0x80) OR (fu_byte s en t AND 0x40)) AND 0x80 \<noteq> 0 \<longleftrightarrow> s" for s
    by (simp add: fu_byte_flags)
  have nt: "(fu_byte s en t - ((fu_byte s en t AND 0x80) OR (fu_byte s en t AND 0x40))) AND 0x1F = t'" for s
    unfolding flags_cleared by (simp add: and.assoc fu_byte_flags t)
  have "Decode p e b False = Some (frame_type hdr t', advance 2 p,
      buf_append piece (if s then open_unit e [t' OR 0x60] (t' = 5) b else b))"
    unfolding Decode_def UnmarshalAVC_def Let_def
    by (cases s) (auto simp: d fi fl nt w write_bytes_eq frame_type_def open_unit_def mk [symmetric])
  then show ?thesis
    unfolding receive_def p(1) by simp
qed

text \<open>The same for H.265 (type 49): two header bytes and a fragment header with a 6-bit type.\<close>

lemma forget_packet:
  "Option.bind (map_option (\<lambda>(x, b). (x, q, b)) r) (\<lambda>(t, p, b). Some (t, b)) = r"
  by (cases r) auto

lemma drop_push: "drop_bit n (push_bit n (take_bit m x)) = take_bit m x" if "m + n \<le> 8" for x :: u8
  using that by (intro bit_word_eqI) (auto simp: bit_drop_bit_eq bit_push_bit_iff bit_take_bit_iff)

lemma type_in_header: "drop_bit 1 (push_bit 1 (x AND 0x3F) AND 0x7E) = x AND 0x3F" for x :: u8
proof -
  have x: "x AND 0x3F = take_bit 6 x"
    by (simp add: take_bit_eq_mask mask_eq_exp_minus_1)
  have "drop_bit 1 (push_bit 1 (x AND 0x3F) AND 0x7E) = drop_bit 1 (push_bit 1 (x AND 0x3F)) AND drop_bit 1 0x7E"
    by (rule drop_bit_and)
  also have "drop_bit 1 (push_bit 1 (x AND 0x3F)) = x AND 0x3F"
    unfolding x by (rule drop_push) simp
  also have "drop_bit 1 (0x7E :: u8) = 0x3F"
    by simp
  finally show ?thesis
    by (simp add: and.assoc)
qed

lemma receive_fuh:
  assumes hdr: "length hdr = 12" and fi: "drop_bit 1 d0 = (49 :: u8)" and t: "t' = t AND 0x3F"
    and c_def: "c = buf_append piece (if s then buf_append [1] (open_unit e [push_bit 1 t'] (t' = 19) b) else b)"
  shows "receive True e (hdr @ d0 # d1 # fu_byte s en t # piece) b =
    (if marked hdr \<and> en then
       (case Bytes c of None \<Rightarrow> None
        | Some bs \<Rightarrow> map_option (\<lambda>x. (drop_bit 1 (x AND 0x7e), c)) (mem_read bs 4))
     else Some (0, c))"
proof -
  let ?m = "hdr @ d0 # d1 # fu_byte s en t # piece"
  obtain p where p: "Unmarshal ?m (int (length ?m)) = Some p" "mem p = ?m" "p_data p = 12"
    "p_size p = int (length ?m) - 12" "marker (hr p) = drop_bit 7 (?m ! 1)"
    using Unmarshal_Some[of ?m "int (length ?m)"] hdr by auto
  have d: "data_at p 0 = Some d0" "data_at p 2 = Some (fu_byte s en t)"
    using p hdr by (simp_all add: data_at_def mem_read_def nth_append)
  have w: "write_data (advance 3 p) c = Some (buf_append piece c)" for c
    using write_data_eq[of "advance 3 p" c] p hdr by (simp add: advance_def)
  have mk: "marker (hr p) = 1 \<longleftrightarrow> marked hdr"
    using p(5) hdr by (simp add: marked_def nth_append)
  have fl: "((fu_byte s en t AND 0x80) OR (fu_byte s en t AND 0x40)) AND 0x80 \<noteq> 0 \<longleftrightarrow> s"
    "((fu_byte s en t AND 0x80) OR (fu_byte s en t AND 0x40)) AND 0x40 \<noteq> 0 \<longleftrightarrow> en" for s
    by (simp_all add: fu_byte_flags)
  have nt: "fu_byte s en t - ((fu_byte s en t AND 0x80) OR (fu_byte s en t AND 0x40)) = t'" for s
    unfolding flags_cleared by (simp add: fu_byte_flags t)
  have t19: "drop_bit 1 (push_bit 1 t' AND 0x7e) = t'"
    unfolding t by (rule type_in_header)
  have "Decode p e b True = map_option (\<lambda>(x, b). (x, advance 3 p, b))
    (if marked hdr \<and> en then
       (case Bytes c of None \<Rightarrow> None
        | Some bs \<Rightarrow> map_option (\<lambda>x. (drop_bit 1 (x AND 0x7e), c)) (mem_read bs 4))
     else Some (0, c))"
    unfolding Decode_def UnmarshalHVC_def Let_def c_def
    by (cases s) (auto simp: d fi fl nt w t19 [unfolded drop_bit_and] mem_read_def write_bytes_eq open_unit_def mk [symmetric]
        simp del: One_nat_def push_bit_Suc split: option.split)
  then show ?thesis
    unfolding receive_def p(1) Option.bind.simps by (simp only: forget_packet)
qed

text \<open>
  The packets of one unit: fragments, each with its RTP header; the first carries the start mark, the last
  the end mark. \<open>pre\<close> is what comes before the fragment header, one byte for H.264, two for H.265.
\<close>

fun fragments :: "bytes \<Rightarrow> u8 \<Rightarrow> bool \<Rightarrow> (bytes \<times> bytes) list \<Rightarrow> bytes list" where
  "fragments pre t s [] = []"
| "fragments pre t s [(hdr, piece)] = [hdr @ pre @ fu_byte s True t # piece]"
| "fragments pre t s ((hdr, piece) # f # fs) =
     (hdr @ pre @ fu_byte s False t # piece) # fragments pre t False (f # fs)"

text \<open>The RTP headers have twelve bytes and only the one of the last packet is marked.\<close>

fun headers_ok :: "(bytes \<times> bytes) list \<Rightarrow> bool" where
  "headers_ok [] \<longleftrightarrow> True"
| "headers_ok [(hdr, piece)] \<longleftrightarrow> length hdr = 12 \<and> marked hdr"
| "headers_ok ((hdr, piece) # f # fs) \<longleftrightarrow> length hdr = 12 \<and> \<not> marked hdr \<and> headers_ok (f # fs)"

lemma frame_type_simps:
  "\<not> marked hdr \<Longrightarrow> frame_type hdr t = 0" "marked hdr \<Longrightarrow> t = 1 \<or> t = 5 \<Longrightarrow> frame_type hdr t = t"
  by (auto simp: frame_type_def)

lemma receive_rest_fua:
  assumes "headers_ok fs" "fs \<noteq> []" "fi AND 0x1F = 28" "t AND 0x1F = 1 \<or> t AND 0x1F = 5"
  shows "\<exists>b'. receive_all False e (fragments [fi] t False fs) b =
      Some (replicate (length fs - 1) 0 @ [t AND 0x1F], b') \<and> vec b' = vec b @ concat (map snd fs)"
  using assms
proof (induction "[fi]" t False fs arbitrary: b rule: fragments.induct)
  case (2 t hdr piece)
  then show ?case
    by (simp add: receive_fua frame_type_simps)
next
  case (3 t hdr piece f fs)
  have "receive False e (hdr @ [fi] @ fu_byte False False t # piece) b = Some (0, buf_append piece b)"
    using "3.prems" by (simp add: receive_fua frame_type_simps)
  with "3.hyps"[of "buf_append piece b"] "3.prems" show ?case
    by auto
qed simp

text \<open>C3. An H.264 slice or IDR unit sent in two or more FU-A packets: feeding the packets in order to \<open>Unmarshal\<close> and
  \<open>Decode\<close> appends exactly one Annex-B unit to the frame buffer (start code, header byte rebuilt from the type,
  the pieces in order), preceded by the parameter sets when it is an IDR unit and the buffer is empty;
  the frame is announced by the last packet only, with its type.\<close>

theorem fua_reassembly:
  assumes "headers_ok (f # g # fs)" "fi AND 0x1F = 28" "t AND 0x1F = 1 \<or> t AND 0x1F = 5"
  shows "\<exists>b'. receive_all False e (fragments [fi] t True (f # g # fs)) b =
      Some (replicate (length fs + 1) 0 @ [t AND 0x1F], b') \<and>
    vec b' = vec b @ (if t AND 0x1F = 5 \<and> vec b = [] then e else []) @
      nalu_header @ [(t AND 0x1F) OR 0x60] @ concat (map snd (f # g # fs))"
proof -
  obtain hdr piece where f: "f = (hdr, piece)" by (cases f)
  define c where "c = buf_append piece (open_unit e [(t AND 0x1F) OR 0x60] (t AND 0x1F = 5) b)"
  have "receive False e (hdr @ [fi] @ fu_byte True False t # piece) b = Some (0, c)"
    using assms by (simp add: f receive_fua frame_type_simps c_def)
  moreover obtain b' where "receive_all False e (fragments [fi] t False (g # fs)) c =
      Some (replicate (length fs) 0 @ [t AND 0x1F], b')" "vec b' = vec c @ concat (map snd (g # fs))"
    using receive_rest_fua[of "g # fs" fi t e c] assms f by auto
  moreover have "vec c = vec b @ (if t AND 0x1F = 5 \<and> vec b = [] then e else []) @
      nalu_header @ [(t AND 0x1F) OR 0x60] @ piece"
    by (simp add: c_def open_unit_def Empty_def)
  ultimately show ?thesis
    by (auto simp: f)
qed

lemma fua_reassembly_witness:
  "\<exists>b'. receive_all False [9, 9] (fragments [0x7C] 5 True
        [(0x80 # 96 # replicate 10 0, [1, 2]), (0x80 # 96 # replicate 10 0, [3]), (0x80 # 224 # replicate 10 0, [4])])
      Buffer = Some ([0, 0, 5], b') \<and>
    vec b' = [9, 9, 0, 0, 0, 1, 0x65, 1, 2, 3, 4]"
  using fua_reassembly[of "(0x80 # 96 # replicate 10 0, [1, 2])" "(0x80 # 96 # replicate 10 0, [3])"
      "[(0x80 # 224 # replicate 10 0, [4])]" "0x7C" 5 "[9, 9]" Buffer]
  by (simp add: marked_def Buffer_def nalu_header_def)

lemma Bytes_nonempty: "buf_ok b \<Longrightarrow> vec b \<noteq> [] \<Longrightarrow> Bytes b = Some (vec b)"
  by (cases "vec b") (auto simp: Bytes_def buf_ok_def)

lemma receive_rest_fuh:
  assumes "headers_ok fs" "fs \<noteq> []" "drop_bit 1 d0 = (49 :: u8)" "buf_ok b" "5 \<le> length (vec b)"
  shows "\<exists>b'. receive_all True e (fragments [d0, d1] t False fs) b =
      Some (replicate (length fs - 1) 0 @ [drop_bit 1 (vec b' ! 4 AND 0x7E)], b') \<and>
    vec b' = vec b @ concat (map snd fs)"
  using assms
proof (induction "[d0, d1]" t False fs arbitrary: b rule: fragments.induct)
  case (2 t hdr piece)
  let ?c = "buf_append piece b"
  have "Bytes ?c = Some (vec ?c)" "mem_read (vec ?c) 4 = Some (vec ?c ! 4)"
    using "2.prems" Bytes_nonempty[of ?c] buf_append_ok[of b piece]
    by (cases "vec b"; force simp: mem_read_def)+
  then have "receive True e (hdr @ d0 # d1 # fu_byte False True t # piece) b =
      Some (drop_bit 1 (vec ?c ! 4 AND 0x7E), ?c)"
    using "2.prems" by (subst receive_fuh[OF _ _ refl refl]) simp_all
  then show ?case
    by simp
next
  case (3 t hdr piece f fs)
  have "receive True e (hdr @ [d0, d1] @ fu_byte False False t # piece) b = Some (0, buf_append piece b)"
    using "3.prems" receive_fuh[OF _ _ refl refl, of hdr d0 e d1 False False t piece b] by simp
  with "3.hyps"[of "buf_append piece b"] "3.prems" show ?case
    by (auto simp: buf_append_ok)
qed simp



text \<open>An H.265 unit that fits one packet is stored but never announced, whatever its marker says.\<close>

lemma receive_hevc_single:
  assumes "drop_bit 1 d0 \<noteq> (49 :: u8)" "length hdr = 12"
  shows "\<exists>b'. receive True e (hdr @ d0 # rest) b = Some (0, b') \<and> vec b' = vec b @ nalu_header @ d0 # rest"
proof -
  let ?m = "hdr @ d0 # rest"
  obtain p where p: "Unmarshal ?m (int (length ?m)) = Some p" "mem p = ?m" "p_data p = 12"
    "p_size p = int (length ?m) - 12"
    using Unmarshal_Some[of ?m "int (length ?m)"] assms by auto
  have d: "data_at p 0 = Some d0"
    using p assms by (simp add: data_at_def mem_read_def nth_append)
  have w: "write_data p c = Some (buf_append (d0 # rest) c)" for c
    using write_data_eq[of p c] p assms by simp
  have "Decode p e b True = Some (0, p, buf_append (d0 # rest) (buf_append nalu_header b))"
    unfolding Decode_def UnmarshalHVC_def Let_def using assms by (simp add: d w write_bytes_eq)
  then show ?thesis
    unfolding receive_def p(1) by simp
qed

end
