(* ===== verification/Mp4_Box.thy ===== *)
theory Mp4_Box
  imports Sps
begin

section \<open>MP4 boxes and tracks: src/stream/mp4box.hpp\<close>

text \<open>
  Each packed struct is a record with the fields of the source in their order, its zero value
  (the struct initialised with braces), and its layout in memory (\<open>_bytes\<close>), integers little-endian
  as the hosts lay them out. Big-endian file fields arise, as in the source, by swapping the value with
  \<open>HTOBE32\<close> before it is stored. An array member of \<open>n\<close> cells occupies \<open>n\<close> cells whatever the list.
\<close>

named_theorems layout \<open>memory layouts of the structs\<close>
named_theorems marshal_defs \<open>definitions of the Marshal functions\<close>

definition HTOBE32 :: "u32 \<Rightarrow> u32" where
  "HTOBE32 v =
     push_bit 24 (v AND 0xFF) OR push_bit 8 (v AND 0xFF00) OR (drop_bit 8 v AND 0xFF00) OR
     (drop_bit 24 v AND 0xFF)"

text \<open>\<open>LE32TYPE\<close> reads four signed \<open>char\<close>s.\<close>

definition chr :: "string \<Rightarrow> nat \<Rightarrow> u32" where
  "chr b i = scast (of_char (b ! i) :: u8)"

definition LE32TYPE :: "string \<Rightarrow> u32" where
  "LE32TYPE b = chr b 0 OR push_bit 8 (chr b 1) OR push_bit 16 (chr b 2) OR push_bit 24 (chr b 3)"

definition Matrix :: "u32 list \<Rightarrow> u32 list" where
  "Matrix m = m[0 := HTOBE32 0x00010000, 4 := HTOBE32 0x00010000, 8 := HTOBE32 0x40000000]"

definition BESIZEOF :: "nat \<Rightarrow> u32" where
  "BESIZEOF n = HTOBE32 (word_of_nat n)"

definition u16_of :: "u32 \<Rightarrow> u16" where
  "u16_of w = ucast w"

definition cells :: "nat \<Rightarrow> 'a::zero list \<Rightarrow> 'a list" where
  "cells n xs = take n (xs @ replicate n 0)"

lemma length_cells [simp]: "length (cells n xs) = n"
  by (simp add: cells_def)

lemma cells_id [simp]: "length xs = n \<Longrightarrow> cells n xs = xs"
  by (simp add: cells_def)

lemma length_concat_le32 [simp]: "length (concat (map le32 xs)) = 4 * length xs"
  by (induction xs) simp_all

subsection \<open>The structs\<close>

record ftyp =
  ft_size :: u32
  ft_type :: u32
  ft_brand :: u32
  ft_version :: u32
  ft_compat1 :: u32
  ft_compat2 :: u32
  ft_compat3 :: u32

definition ftyp_zero :: ftyp where
  "ftyp_zero = \<lparr>
    ft_size = 0, ft_type = 0, ft_brand = 0, ft_version = 0, ft_compat1 = 0, ft_compat2 = 0,
    ft_compat3 = 0\<rparr>"

definition ftyp_bytes :: "ftyp \<Rightarrow> bytes" where [layout]:
  "ftyp_bytes x =
     le32 (ft_size x) @ le32 (ft_type x) @ le32 (ft_brand x) @ le32 (ft_version x) @
     le32 (ft_compat1 x) @ le32 (ft_compat2 x) @ le32 (ft_compat3 x)"

abbreviation (input) sizeof_ftyp :: nat where
  "sizeof_ftyp \<equiv> 28"

lemma length_ftyp_bytes [simp]: "length (ftyp_bytes x) = sizeof_ftyp"
  by (simp add: ftyp_bytes_def)

record avc1 =
  av_size :: u32
  av_type :: u32
  av_reserved1 :: "u8 list"
  av_data_refidx :: u16
  av_predefined1 :: u16
  av_reserved2 :: u16
  av_predefined2 :: "u32 list"
  av_width :: u16
  av_height :: u16
  av_horiz_res :: u32
  av_vert_res :: u32
  av_reserved3 :: u32
  av_frame_count :: u16
  av_compressor :: "u8 list"
  av_depth :: u16
  av_predefined :: u16

definition avc1_zero :: avc1 where
  "avc1_zero = \<lparr>
    av_size = 0, av_type = 0, av_reserved1 = replicate 6 0, av_data_refidx = 0,
    av_predefined1 = 0, av_reserved2 = 0, av_predefined2 = replicate 3 0, av_width = 0,
    av_height = 0, av_horiz_res = 0, av_vert_res = 0, av_reserved3 = 0, av_frame_count = 0,
    av_compressor = replicate 32 0, av_depth = 0, av_predefined = 0\<rparr>"

definition avc1_bytes :: "avc1 \<Rightarrow> bytes" where [layout]:
  "avc1_bytes x =
     le32 (av_size x) @ le32 (av_type x) @ cells 6 (av_reserved1 x) @ le16 (av_data_refidx x) @
     le16 (av_predefined1 x) @ le16 (av_reserved2 x) @
     concat (map le32 (cells 3 (av_predefined2 x))) @ le16 (av_width x) @ le16 (av_height x) @
     le32 (av_horiz_res x) @ le32 (av_vert_res x) @ le32 (av_reserved3 x) @
     le16 (av_frame_count x) @ cells 32 (av_compressor x) @ le16 (av_depth x) @
     le16 (av_predefined x)"

abbreviation (input) sizeof_avc1 :: nat where
  "sizeof_avc1 \<equiv> 86"

lemma length_avc1_bytes [simp]: "length (avc1_bytes x) = sizeof_avc1"
  by (simp add: avc1_bytes_def)

record stsdv =
  sv_size :: u32
  sv_type :: u32
  sv_version :: u8
  sv_flags :: "u8 list"
  sv_entry_count :: u32
  sv_avc1 :: avc1

definition stsdv_zero :: stsdv where
  "stsdv_zero = \<lparr>
    sv_size = 0, sv_type = 0, sv_version = 0, sv_flags = replicate 3 0, sv_entry_count = 0,
    sv_avc1 = avc1_zero\<rparr>"

definition stsdv_bytes :: "stsdv \<Rightarrow> bytes" where [layout]:
  "stsdv_bytes x =
     le32 (sv_size x) @ le32 (sv_type x) @ [sv_version x] @ cells 3 (sv_flags x) @
     le32 (sv_entry_count x) @ avc1_bytes (sv_avc1 x)"

abbreviation (input) sizeof_stsdv :: nat where
  "sizeof_stsdv \<equiv> 102"

lemma length_stsdv_bytes [simp]: "length (stsdv_bytes x) = sizeof_stsdv"
  by (simp add: stsdv_bytes_def)

record esds =
  es_size :: u32
  es_type :: u32
  es_version :: u8
  es_flags :: "u8 list"
  es_esdesc_tag :: u8
  es_esdesc_len :: u8
  es_esdesc_id :: u16
  es_esdesc_flags :: u8
  es_deccfg_tag :: u8
  es_deccfg_len :: u8
  es_deccfg_object :: u8
  es_deccfg_stream :: u8
  es_deccfg_buffer_size :: "u8 list"
  es_deccfg_max_bitrate :: u32
  es_deccfg_avg_bitrate :: u32
  es_decspec_tag :: u8
  es_decspec_len :: u8
  es_decspec_info :: u16
  es_slcfg_tag :: u8
  es_slcfg_len :: u8
  es_slcfg_reserved :: u8

definition esds_zero :: esds where
  "esds_zero = \<lparr>
    es_size = 0, es_type = 0, es_version = 0, es_flags = replicate 3 0, es_esdesc_tag = 0,
    es_esdesc_len = 0, es_esdesc_id = 0, es_esdesc_flags = 0, es_deccfg_tag = 0,
    es_deccfg_len = 0, es_deccfg_object = 0, es_deccfg_stream = 0,
    es_deccfg_buffer_size = replicate 3 0, es_deccfg_max_bitrate = 0, es_deccfg_avg_bitrate = 0,
    es_decspec_tag = 0, es_decspec_len = 0, es_decspec_info = 0, es_slcfg_tag = 0,
    es_slcfg_len = 0, es_slcfg_reserved = 0\<rparr>"

definition esds_bytes :: "esds \<Rightarrow> bytes" where [layout]:
  "esds_bytes x =
     le32 (es_size x) @ le32 (es_type x) @ [es_version x] @ cells 3 (es_flags x) @
     [es_esdesc_tag x] @ [es_esdesc_len x] @ le16 (es_esdesc_id x) @ [es_esdesc_flags x] @
     [es_deccfg_tag x] @ [es_deccfg_len x] @ [es_deccfg_object x] @ [es_deccfg_stream x] @
     cells 3 (es_deccfg_buffer_size x) @ le32 (es_deccfg_max_bitrate x) @
     le32 (es_deccfg_avg_bitrate x) @ [es_decspec_tag x] @ [es_decspec_len x] @
     le16 (es_decspec_info x) @ [es_slcfg_tag x] @ [es_slcfg_len x] @ [es_slcfg_reserved x]"

abbreviation (input) sizeof_esds :: nat where
  "sizeof_esds \<equiv> 39"

lemma length_esds_bytes [simp]: "length (esds_bytes x) = sizeof_esds"
  by (simp add: esds_bytes_def)

record mp4a =
  ma_size :: u32
  ma_type :: u32
  ma_reserved1 :: "u8 list"
  ma_data_refidx :: u16
  ma_reserved2 :: "u32 list"
  ma_channel_num :: u16
  ma_sample_size :: u16
  ma_predefined1 :: u16
  ma_reserved3 :: u16
  ma_sample_rate :: u32
  ma_esds :: esds

definition mp4a_zero :: mp4a where
  "mp4a_zero = \<lparr>
    ma_size = 0, ma_type = 0, ma_reserved1 = replicate 6 0, ma_data_refidx = 0,
    ma_reserved2 = replicate 2 0, ma_channel_num = 0, ma_sample_size = 0, ma_predefined1 = 0,
    ma_reserved3 = 0, ma_sample_rate = 0, ma_esds = esds_zero\<rparr>"

definition mp4a_bytes :: "mp4a \<Rightarrow> bytes" where [layout]:
  "mp4a_bytes x =
     le32 (ma_size x) @ le32 (ma_type x) @ cells 6 (ma_reserved1 x) @ le16 (ma_data_refidx x) @
     concat (map le32 (cells 2 (ma_reserved2 x))) @ le16 (ma_channel_num x) @
     le16 (ma_sample_size x) @ le16 (ma_predefined1 x) @ le16 (ma_reserved3 x) @
     le32 (ma_sample_rate x) @ esds_bytes (ma_esds x)"

abbreviation (input) sizeof_mp4a :: nat where
  "sizeof_mp4a \<equiv> 75"

lemma length_mp4a_bytes [simp]: "length (mp4a_bytes x) = sizeof_mp4a"
  by (simp add: mp4a_bytes_def)

record stsda =
  sa_size :: u32
  sa_type :: u32
  sa_version :: u8
  sa_flags :: "u8 list"
  sa_entry_count :: u32
  sa_mp4a :: mp4a

definition stsda_zero :: stsda where
  "stsda_zero = \<lparr>
    sa_size = 0, sa_type = 0, sa_version = 0, sa_flags = replicate 3 0, sa_entry_count = 0,
    sa_mp4a = mp4a_zero\<rparr>"

definition stsda_bytes :: "stsda \<Rightarrow> bytes" where [layout]:
  "stsda_bytes x =
     le32 (sa_size x) @ le32 (sa_type x) @ [sa_version x] @ cells 3 (sa_flags x) @
     le32 (sa_entry_count x) @ mp4a_bytes (sa_mp4a x)"

abbreviation (input) sizeof_stsda :: nat where
  "sizeof_stsda \<equiv> 91"

lemma length_stsda_bytes [simp]: "length (stsda_bytes x) = sizeof_stsda"
  by (simp add: stsda_bytes_def)

record stts =
  tts_size :: u32
  tts_type :: u32
  tts_version :: u8
  tts_flags :: "u8 list"
  tts_count :: u32
  tts_sample_counts :: u32
  tts_sample_deltas :: u32

definition stts_zero :: stts where
  "stts_zero = \<lparr>
    tts_size = 0, tts_type = 0, tts_version = 0, tts_flags = replicate 3 0, tts_count = 0,
    tts_sample_counts = 0, tts_sample_deltas = 0\<rparr>"

definition stts_bytes :: "stts \<Rightarrow> bytes" where [layout]:
  "stts_bytes x =
     le32 (tts_size x) @ le32 (tts_type x) @ [tts_version x] @ cells 3 (tts_flags x) @
     le32 (tts_count x) @ le32 (tts_sample_counts x) @ le32 (tts_sample_deltas x)"

abbreviation (input) sizeof_stts :: nat where
  "sizeof_stts \<equiv> 24"

lemma length_stts_bytes [simp]: "length (stts_bytes x) = sizeof_stts"
  by (simp add: stts_bytes_def)

record stss =
  tss_size :: u32
  tss_type :: u32
  tss_version :: u8
  tss_flags :: "u8 list"
  tss_count :: u32

definition stss_zero :: stss where
  "stss_zero = \<lparr>
    tss_size = 0, tss_type = 0, tss_version = 0, tss_flags = replicate 3 0, tss_count = 0\<rparr>"

definition stss_bytes :: "stss \<Rightarrow> bytes" where [layout]:
  "stss_bytes x =
     le32 (tss_size x) @ le32 (tss_type x) @ [tss_version x] @ cells 3 (tss_flags x) @
     le32 (tss_count x)"

abbreviation (input) sizeof_stss :: nat where
  "sizeof_stss \<equiv> 16"

lemma length_stss_bytes [simp]: "length (stss_bytes x) = sizeof_stss"
  by (simp add: stss_bytes_def)

record stsc =
  tsc_size :: u32
  tsc_type :: u32
  tsc_version :: u8
  tsc_flags :: "u8 list"
  tsc_count :: u32
  tsc_first_chunk :: u32
  tsc_samp_per_chunk :: u32
  tsc_samp_desc_id :: u32

definition stsc_zero :: stsc where
  "stsc_zero = \<lparr>
    tsc_size = 0, tsc_type = 0, tsc_version = 0, tsc_flags = replicate 3 0, tsc_count = 0,
    tsc_first_chunk = 0, tsc_samp_per_chunk = 0, tsc_samp_desc_id = 0\<rparr>"

definition stsc_bytes :: "stsc \<Rightarrow> bytes" where [layout]:
  "stsc_bytes x =
     le32 (tsc_size x) @ le32 (tsc_type x) @ [tsc_version x] @ cells 3 (tsc_flags x) @
     le32 (tsc_count x) @ le32 (tsc_first_chunk x) @ le32 (tsc_samp_per_chunk x) @
     le32 (tsc_samp_desc_id x)"

abbreviation (input) sizeof_stsc :: nat where
  "sizeof_stsc \<equiv> 28"

lemma length_stsc_bytes [simp]: "length (stsc_bytes x) = sizeof_stsc"
  by (simp add: stsc_bytes_def)

record stsz =
  tsz_size :: u32
  tsz_type :: u32
  tsz_version :: u8
  tsz_flags :: "u8 list"
  tsz_sample_size :: u32
  tsz_count :: u32

definition stsz_zero :: stsz where
  "stsz_zero = \<lparr>
    tsz_size = 0, tsz_type = 0, tsz_version = 0, tsz_flags = replicate 3 0, tsz_sample_size = 0,
    tsz_count = 0\<rparr>"

definition stsz_bytes :: "stsz \<Rightarrow> bytes" where [layout]:
  "stsz_bytes x =
     le32 (tsz_size x) @ le32 (tsz_type x) @ [tsz_version x] @ cells 3 (tsz_flags x) @
     le32 (tsz_sample_size x) @ le32 (tsz_count x)"

abbreviation (input) sizeof_stsz :: nat where
  "sizeof_stsz \<equiv> 20"

lemma length_stsz_bytes [simp]: "length (stsz_bytes x) = sizeof_stsz"
  by (simp add: stsz_bytes_def)

record stco =
  tco_size :: u32
  tco_type :: u32
  tco_version :: u8
  tco_flags :: "u8 list"
  tco_count :: u32

definition stco_zero :: stco where
  "stco_zero = \<lparr>
    tco_size = 0, tco_type = 0, tco_version = 0, tco_flags = replicate 3 0, tco_count = 0\<rparr>"

definition stco_bytes :: "stco \<Rightarrow> bytes" where [layout]:
  "stco_bytes x =
     le32 (tco_size x) @ le32 (tco_type x) @ [tco_version x] @ cells 3 (tco_flags x) @
     le32 (tco_count x)"

abbreviation (input) sizeof_stco :: nat where
  "sizeof_stco \<equiv> 16"

lemma length_stco_bytes [simp]: "length (stco_bytes x) = sizeof_stco"
  by (simp add: stco_bytes_def)

record tkhd =
  tk_size :: u32
  tk_type :: u32
  tk_version :: u8
  tk_flags :: "u8 list"
  tk_create_time :: u32
  tk_modify_time :: u32
  tk_trackid :: u32
  tk_reserved1 :: u32
  tk_duration :: u32
  tk_reserved2 :: u32
  tk_reserved3 :: u32
  tk_layer :: u16
  tk_alternate_group :: u16
  tk_volume :: u16
  tk_reserved4 :: u16
  tk_matrix :: "u32 list"
  tk_width :: u32
  tk_height :: u32

definition tkhd_zero :: tkhd where
  "tkhd_zero = \<lparr>
    tk_size = 0, tk_type = 0, tk_version = 0, tk_flags = replicate 3 0, tk_create_time = 0,
    tk_modify_time = 0, tk_trackid = 0, tk_reserved1 = 0, tk_duration = 0, tk_reserved2 = 0,
    tk_reserved3 = 0, tk_layer = 0, tk_alternate_group = 0, tk_volume = 0, tk_reserved4 = 0,
    tk_matrix = replicate 9 0, tk_width = 0, tk_height = 0\<rparr>"

definition tkhd_bytes :: "tkhd \<Rightarrow> bytes" where [layout]:
  "tkhd_bytes x =
     le32 (tk_size x) @ le32 (tk_type x) @ [tk_version x] @ cells 3 (tk_flags x) @
     le32 (tk_create_time x) @ le32 (tk_modify_time x) @ le32 (tk_trackid x) @
     le32 (tk_reserved1 x) @ le32 (tk_duration x) @ le32 (tk_reserved2 x) @
     le32 (tk_reserved3 x) @ le16 (tk_layer x) @ le16 (tk_alternate_group x) @
     le16 (tk_volume x) @ le16 (tk_reserved4 x) @ concat (map le32 (cells 9 (tk_matrix x))) @
     le32 (tk_width x) @ le32 (tk_height x)"

abbreviation (input) sizeof_tkhd :: nat where
  "sizeof_tkhd \<equiv> 92"

lemma length_tkhd_bytes [simp]: "length (tkhd_bytes x) = sizeof_tkhd"
  by (simp add: tkhd_bytes_def)

record mdhd =
  md_size :: u32
  md_type :: u32
  md_version :: u8
  md_flags :: "u8 list"
  md_create_time :: u32
  md_modify_time :: u32
  md_timescale :: u32
  md_duration :: u32
  md_language :: u16
  md_predefined :: u16

definition mdhd_zero :: mdhd where
  "mdhd_zero = \<lparr>
    md_size = 0, md_type = 0, md_version = 0, md_flags = replicate 3 0, md_create_time = 0,
    md_modify_time = 0, md_timescale = 0, md_duration = 0, md_language = 0, md_predefined = 0\<rparr>"

definition mdhd_bytes :: "mdhd \<Rightarrow> bytes" where [layout]:
  "mdhd_bytes x =
     le32 (md_size x) @ le32 (md_type x) @ [md_version x] @ cells 3 (md_flags x) @
     le32 (md_create_time x) @ le32 (md_modify_time x) @ le32 (md_timescale x) @
     le32 (md_duration x) @ le16 (md_language x) @ le16 (md_predefined x)"

abbreviation (input) sizeof_mdhd :: nat where
  "sizeof_mdhd \<equiv> 32"

lemma length_mdhd_bytes [simp]: "length (mdhd_bytes x) = sizeof_mdhd"
  by (simp add: mdhd_bytes_def)

record hdlr =
  hd_size :: u32
  hd_type :: u32
  hd_version :: u8
  hd_flags :: "u8 list"
  hd_predefined :: "u8 list"
  hd_handler_type :: u32
  hd_reserved :: "u8 list"
  hd_name :: "u8 list"

definition hdlr_zero :: hdlr where
  "hdlr_zero = \<lparr>
    hd_size = 0, hd_type = 0, hd_version = 0, hd_flags = replicate 3 0,
    hd_predefined = replicate 4 0, hd_handler_type = 0, hd_reserved = replicate 12 0,
    hd_name = replicate 16 0\<rparr>"

definition hdlr_bytes :: "hdlr \<Rightarrow> bytes" where [layout]:
  "hdlr_bytes x =
     le32 (hd_size x) @ le32 (hd_type x) @ [hd_version x] @ cells 3 (hd_flags x) @
     cells 4 (hd_predefined x) @ le32 (hd_handler_type x) @ cells 12 (hd_reserved x) @
     cells 16 (hd_name x)"

abbreviation (input) sizeof_hdlr :: nat where
  "sizeof_hdlr \<equiv> 48"

lemma length_hdlr_bytes [simp]: "length (hdlr_bytes x) = sizeof_hdlr"
  by (simp add: hdlr_bytes_def)

record vmhd =
  vm_size :: u32
  vm_type :: u32
  vm_version :: u8
  vm_flags :: "u8 list"
  vm_graph_mode :: u32
  vm_opcolor :: u32

definition vmhd_zero :: vmhd where
  "vmhd_zero = \<lparr>
    vm_size = 0, vm_type = 0, vm_version = 0, vm_flags = replicate 3 0, vm_graph_mode = 0,
    vm_opcolor = 0\<rparr>"

definition vmhd_bytes :: "vmhd \<Rightarrow> bytes" where [layout]:
  "vmhd_bytes x =
     le32 (vm_size x) @ le32 (vm_type x) @ [vm_version x] @ cells 3 (vm_flags x) @
     le32 (vm_graph_mode x) @ le32 (vm_opcolor x)"

abbreviation (input) sizeof_vmhd :: nat where
  "sizeof_vmhd \<equiv> 20"

lemma length_vmhd_bytes [simp]: "length (vmhd_bytes x) = sizeof_vmhd"
  by (simp add: vmhd_bytes_def)

record url_box =
  ur_size :: u32
  ur_type :: u32
  ur_version :: u8
  ur_flags :: "u8 list"

definition url_box_zero :: url_box where
  "url_box_zero = \<lparr>
    ur_size = 0, ur_type = 0, ur_version = 0, ur_flags = replicate 3 0\<rparr>"

definition url_box_bytes :: "url_box \<Rightarrow> bytes" where [layout]:
  "url_box_bytes x =
     le32 (ur_size x) @ le32 (ur_type x) @ [ur_version x] @ cells 3 (ur_flags x)"

abbreviation (input) sizeof_url_box :: nat where
  "sizeof_url_box \<equiv> 12"

lemma length_url_box_bytes [simp]: "length (url_box_bytes x) = sizeof_url_box"
  by (simp add: url_box_bytes_def)

record dref =
  dr_size :: u32
  dr_type :: u32
  dr_version :: u8
  dr_flags :: "u8 list"
  dr_entry_count :: u32
  dr_url :: url_box

definition dref_zero :: dref where
  "dref_zero = \<lparr>
    dr_size = 0, dr_type = 0, dr_version = 0, dr_flags = replicate 3 0, dr_entry_count = 0,
    dr_url = url_box_zero\<rparr>"

definition dref_bytes :: "dref \<Rightarrow> bytes" where [layout]:
  "dref_bytes x =
     le32 (dr_size x) @ le32 (dr_type x) @ [dr_version x] @ cells 3 (dr_flags x) @
     le32 (dr_entry_count x) @ url_box_bytes (dr_url x)"

abbreviation (input) sizeof_dref :: nat where
  "sizeof_dref \<equiv> 28"

lemma length_dref_bytes [simp]: "length (dref_bytes x) = sizeof_dref"
  by (simp add: dref_bytes_def)

record dinf =
  di_size :: u32
  di_type :: u32
  di_dref :: dref

definition dinf_zero :: dinf where
  "dinf_zero = \<lparr>
    di_size = 0, di_type = 0, di_dref = dref_zero\<rparr>"

definition dinf_bytes :: "dinf \<Rightarrow> bytes" where [layout]:
  "dinf_bytes x =
     le32 (di_size x) @ le32 (di_type x) @ dref_bytes (di_dref x)"

abbreviation (input) sizeof_dinf :: nat where
  "sizeof_dinf \<equiv> 36"

lemma length_dinf_bytes [simp]: "length (dinf_bytes x) = sizeof_dinf"
  by (simp add: dinf_bytes_def)

record stbl =
  sb_size :: u32
  sb_type :: u32

definition stbl_zero :: stbl where
  "stbl_zero = \<lparr>
    sb_size = 0, sb_type = 0\<rparr>"

definition stbl_bytes :: "stbl \<Rightarrow> bytes" where [layout]:
  "stbl_bytes x =
     le32 (sb_size x) @ le32 (sb_type x)"

abbreviation (input) sizeof_stbl :: nat where
  "sizeof_stbl \<equiv> 8"

lemma length_stbl_bytes [simp]: "length (stbl_bytes x) = sizeof_stbl"
  by (simp add: stbl_bytes_def)

record minf =
  mi_size :: u32
  mi_type :: u32
  mi_vmhd :: vmhd
  mi_dinf :: dinf
  mi_stbl :: stbl

definition minf_zero :: minf where
  "minf_zero = \<lparr>
    mi_size = 0, mi_type = 0, mi_vmhd = vmhd_zero, mi_dinf = dinf_zero, mi_stbl = stbl_zero\<rparr>"

definition minf_bytes :: "minf \<Rightarrow> bytes" where [layout]:
  "minf_bytes x =
     le32 (mi_size x) @ le32 (mi_type x) @ vmhd_bytes (mi_vmhd x) @ dinf_bytes (mi_dinf x) @
     stbl_bytes (mi_stbl x)"

abbreviation (input) sizeof_minf :: nat where
  "sizeof_minf \<equiv> 72"

lemma length_minf_bytes [simp]: "length (minf_bytes x) = sizeof_minf"
  by (simp add: minf_bytes_def)

record mdia =
  me_size :: u32
  me_type :: u32
  me_mdhd :: mdhd
  me_hdlr :: hdlr
  me_minf :: minf

definition mdia_zero :: mdia where
  "mdia_zero = \<lparr>
    me_size = 0, me_type = 0, me_mdhd = mdhd_zero, me_hdlr = hdlr_zero, me_minf = minf_zero\<rparr>"

definition mdia_bytes :: "mdia \<Rightarrow> bytes" where [layout]:
  "mdia_bytes x =
     le32 (me_size x) @ le32 (me_type x) @ mdhd_bytes (me_mdhd x) @ hdlr_bytes (me_hdlr x) @
     minf_bytes (me_minf x)"

abbreviation (input) sizeof_mdia :: nat where
  "sizeof_mdia \<equiv> 160"

lemma length_mdia_bytes [simp]: "length (mdia_bytes x) = sizeof_mdia"
  by (simp add: mdia_bytes_def)

record trak =
  tr_size :: u32
  tr_type :: u32
  tr_tkhd :: tkhd
  tr_mdia :: mdia

definition trak_zero :: trak where
  "trak_zero = \<lparr>
    tr_size = 0, tr_type = 0, tr_tkhd = tkhd_zero, tr_mdia = mdia_zero\<rparr>"

definition trak_bytes :: "trak \<Rightarrow> bytes" where [layout]:
  "trak_bytes x =
     le32 (tr_size x) @ le32 (tr_type x) @ tkhd_bytes (tr_tkhd x) @ mdia_bytes (tr_mdia x)"

abbreviation (input) sizeof_trak :: nat where
  "sizeof_trak \<equiv> 260"

lemma length_trak_bytes [simp]: "length (trak_bytes x) = sizeof_trak"
  by (simp add: trak_bytes_def)

record mvhd =
  mv_size :: u32
  mv_type :: u32
  mv_version :: u8
  mv_flags :: "u8 list"
  mv_create_time :: u32
  mv_modify_time :: u32
  mv_timescale :: u32
  mv_duration :: u32
  mv_playrate :: u32
  mv_volume :: u16
  mv_reserved :: "u8 list"
  mv_matrix :: "u32 list"
  mv_predefined :: "u8 list"
  mv_next_trackid :: u32

definition mvhd_zero :: mvhd where
  "mvhd_zero = \<lparr>
    mv_size = 0, mv_type = 0, mv_version = 0, mv_flags = replicate 3 0, mv_create_time = 0,
    mv_modify_time = 0, mv_timescale = 0, mv_duration = 0, mv_playrate = 0, mv_volume = 0,
    mv_reserved = replicate 10 0, mv_matrix = replicate 9 0, mv_predefined = replicate 24 0,
    mv_next_trackid = 0\<rparr>"

definition mvhd_bytes :: "mvhd \<Rightarrow> bytes" where [layout]:
  "mvhd_bytes x =
     le32 (mv_size x) @ le32 (mv_type x) @ [mv_version x] @ cells 3 (mv_flags x) @
     le32 (mv_create_time x) @ le32 (mv_modify_time x) @ le32 (mv_timescale x) @
     le32 (mv_duration x) @ le32 (mv_playrate x) @ le16 (mv_volume x) @
     cells 10 (mv_reserved x) @ concat (map le32 (cells 9 (mv_matrix x))) @
     cells 24 (mv_predefined x) @ le32 (mv_next_trackid x)"

abbreviation (input) sizeof_mvhd :: nat where
  "sizeof_mvhd \<equiv> 108"

lemma length_mvhd_bytes [simp]: "length (mvhd_bytes x) = sizeof_mvhd"
  by (simp add: mvhd_bytes_def)

record moov =
  mo_size :: u32
  mo_type :: u32
  mo_mvhd :: mvhd

definition moov_zero :: moov where
  "moov_zero = \<lparr>
    mo_size = 0, mo_type = 0, mo_mvhd = mvhd_zero\<rparr>"

definition moov_bytes :: "moov \<Rightarrow> bytes" where [layout]:
  "moov_bytes x =
     le32 (mo_size x) @ le32 (mo_type x) @ mvhd_bytes (mo_mvhd x)"

abbreviation (input) sizeof_moov :: nat where
  "sizeof_moov \<equiv> 116"

lemma length_moov_bytes [simp]: "length (moov_bytes x) = sizeof_moov"
  by (simp add: moov_bytes_def)

record mdat =
  da_size :: u32
  da_type :: u32

definition mdat_zero :: mdat where
  "mdat_zero = \<lparr>
    da_size = 0, da_type = 0\<rparr>"

definition mdat_bytes :: "mdat \<Rightarrow> bytes" where [layout]:
  "mdat_bytes x =
     le32 (da_size x) @ le32 (da_type x)"

abbreviation (input) sizeof_mdat :: nat where
  "sizeof_mdat \<equiv> 8"

lemma length_mdat_bytes [simp]: "length (mdat_bytes x) = sizeof_mdat"
  by (simp add: mdat_bytes_def)

subsection \<open>Marshal functions\<close>

definition ftyp_Marshal :: "ftyp \<Rightarrow> ftyp" where [marshal_defs]:
  "ftyp_Marshal b = b\<lparr>
     ft_size := BESIZEOF sizeof_ftyp,
     ft_type := LE32TYPE ''ftyp'',
     ft_brand := LE32TYPE ''isom'',
     ft_version := HTOBE32 512,
     ft_compat1 := LE32TYPE ''isom'',
     ft_compat2 := LE32TYPE ''iso2'',
     ft_compat3 := LE32TYPE ''mp41''\<rparr>"

definition stsdv_Marshal :: "u32 \<Rightarrow> stsdv \<Rightarrow> stsdv" where [marshal_defs]:
  "stsdv_Marshal n b = b\<lparr>
     sv_type := LE32TYPE ''stsd'',
     sv_entry_count := HTOBE32 1,
     sv_avc1 := (sv_avc1 b)\<lparr>
       av_data_refidx := u16_of (drop_bit 16 (HTOBE32 1)),
       av_width := u16_of (drop_bit 16 (HTOBE32 (ucast (av_width (sv_avc1 b))))),
       av_height := u16_of (drop_bit 16 (HTOBE32 (ucast (av_height (sv_avc1 b))))),
       av_horiz_res := HTOBE32 0x480000,
       av_vert_res := HTOBE32 0x480000,
       av_frame_count := u16_of (drop_bit 16 (HTOBE32 1)),
       av_depth := u16_of (drop_bit 16 (HTOBE32 24)),
       av_predefined := 0xFFFF,
       av_size := HTOBE32 (n + word_of_nat sizeof_avc1)\<rparr>,
     sv_size := HTOBE32 (n + word_of_nat sizeof_stsdv)\<rparr>"

definition stsda_Marshal :: "stsda \<Rightarrow> stsda" where [marshal_defs]:
  "stsda_Marshal b = b\<lparr>
     sa_size := BESIZEOF sizeof_stsda,
     sa_type := LE32TYPE ''stsd'',
     sa_entry_count := HTOBE32 1,
     sa_mp4a := (sa_mp4a b)\<lparr>
       ma_size := BESIZEOF sizeof_mp4a,
       ma_type := LE32TYPE ''mp4a'',
       ma_data_refidx := u16_of (drop_bit 16 (HTOBE32 1)),
       ma_channel_num := u16_of (drop_bit 16 (HTOBE32 1)),
       ma_sample_size := u16_of (drop_bit 16 (HTOBE32 16)),
       ma_sample_rate := HTOBE32 (push_bit 16 8000),
       ma_esds := (ma_esds (sa_mp4a b))\<lparr>
         es_size := BESIZEOF sizeof_esds,
         es_type := LE32TYPE ''esds'',
         es_esdesc_tag := 0x03,
         es_esdesc_len := 25,
         es_esdesc_id := 0x0200,
         es_esdesc_flags := 0x00,
         es_deccfg_tag := 0x04,
         es_deccfg_len := 17,
         es_deccfg_object := 0x40,
         es_deccfg_stream := 0x15,
         es_decspec_tag := 0x05,
         es_decspec_len := 2,
         es_decspec_info := 0x9015,
         es_slcfg_tag := 0x06,
         es_slcfg_len := 1,
         es_slcfg_reserved := 0x02\<rparr>\<rparr>\<rparr>"

definition stts_Marshal :: "u32 \<Rightarrow> u32 \<Rightarrow> stts \<Rightarrow> stts" where [marshal_defs]:
  "stts_Marshal num dur b = b\<lparr>
     tts_size := BESIZEOF sizeof_stts,
     tts_type := LE32TYPE ''stts'',
     tts_count := HTOBE32 1,
     tts_sample_counts := HTOBE32 num,
     tts_sample_deltas := (if num > 0 then HTOBE32 (dur div num) else tts_sample_deltas b)\<rparr>"

definition stss_Marshal :: "u32 \<Rightarrow> stss \<Rightarrow> stss" where [marshal_defs]:
  "stss_Marshal num b = b\<lparr>
     tss_size := HTOBE32 (word_of_nat sizeof_stss + num * 4),
     tss_type := LE32TYPE ''stss'',
     tss_count := HTOBE32 num\<rparr>"

definition stsc_Marshal :: "stsc \<Rightarrow> stsc" where [marshal_defs]:
  "stsc_Marshal b = b\<lparr>
     tsc_size := HTOBE32 (word_of_nat sizeof_stsc),
     tsc_type := LE32TYPE ''stsc'',
     tsc_count := HTOBE32 1,
     tsc_first_chunk := HTOBE32 1,
     tsc_samp_per_chunk := HTOBE32 1,
     tsc_samp_desc_id := HTOBE32 1\<rparr>"

definition stsz_Marshal :: "u32 \<Rightarrow> stsz \<Rightarrow> stsz" where [marshal_defs]:
  "stsz_Marshal num b = b\<lparr>
     tsz_size := HTOBE32 (word_of_nat sizeof_stsz + num * 4),
     tsz_type := LE32TYPE ''stsz'',
     tsz_count := HTOBE32 num\<rparr>"

definition stco_Marshal :: "u32 \<Rightarrow> stco \<Rightarrow> stco" where [marshal_defs]:
  "stco_Marshal num b = b\<lparr>
     tco_size := HTOBE32 (word_of_nat sizeof_stco + num * 4),
     tco_type := LE32TYPE ''stco'',
     tco_count := HTOBE32 num\<rparr>"

text \<open>\<open>strcpy\<close> into an array of cells: the string, its zero, then what was there.\<close>

definition strcpy :: "bytes \<Rightarrow> bytes \<Rightarrow> bytes" where
  "strcpy dst s = s @ [0] @ drop (length s + 1) dst"

definition asc :: "string \<Rightarrow> bytes" where
  "asc s = map of_char s"

definition tkhd_Marshal :: "u32 \<Rightarrow> tkhd \<Rightarrow> tkhd" where [marshal_defs]:
  "tkhd_Marshal tid b = b\<lparr>
     tk_size := BESIZEOF sizeof_tkhd,
     tk_type := LE32TYPE ''tkhd'',
     tk_flags := (tk_flags b)[2 := 0xF],
     tk_trackid := HTOBE32 tid,
     tk_matrix := Matrix (tk_matrix b),
     tk_width := HTOBE32 (push_bit 16 (tk_width b)),
     tk_height := HTOBE32 (push_bit 16 (tk_height b))\<rparr>"

definition mdhd_Marshal :: "mdhd \<Rightarrow> mdhd" where [marshal_defs]:
  "mdhd_Marshal b = b\<lparr>
     md_size := BESIZEOF sizeof_mdhd,
     md_type := LE32TYPE ''mdhd'',
     md_language := 0xc455,
     md_timescale := HTOBE32 1000\<rparr>"

definition hdlr_Marshal :: "u32 \<Rightarrow> hdlr \<Rightarrow> hdlr" where [marshal_defs]:
  "hdlr_Marshal tid b = b\<lparr>
     hd_size := BESIZEOF sizeof_hdlr,
     hd_type := LE32TYPE ''hdlr'',
     hd_handler_type := (if tid = 1 then LE32TYPE ''vide'' else LE32TYPE ''soun''),
     hd_name := strcpy (hd_name b) (asc (if tid = 1 then ''VideoHandler'' else ''SoundHandler''))\<rparr>"

definition vmhd_Marshal :: "u32 \<Rightarrow> vmhd \<Rightarrow> vmhd" where [marshal_defs]:
  "vmhd_Marshal tid b = b\<lparr>
     vm_type := (if tid = 1 then LE32TYPE ''vmhd'' else LE32TYPE ''smhd''),
     vm_size := BESIZEOF sizeof_vmhd,
     vm_flags := (vm_flags b)[2 := 1]\<rparr>"

definition dinf_Marshal :: "dinf \<Rightarrow> dinf" where [marshal_defs]:
  "dinf_Marshal b = b\<lparr>
     di_size := BESIZEOF sizeof_dinf,
     di_type := LE32TYPE ''dinf'',
     di_dref := (di_dref b)\<lparr>
       dr_url := (dr_url (di_dref b))\<lparr>
         ur_size := BESIZEOF sizeof_url_box,
         ur_type := LE32TYPE ''url '',
         ur_flags := (ur_flags (dr_url (di_dref b)))[2 := 1]\<rparr>,
       dr_size := BESIZEOF sizeof_dref,
       dr_type := LE32TYPE ''dref'',
       dr_entry_count := HTOBE32 1\<rparr>\<rparr>"

definition minf_Marshal :: "u32 \<Rightarrow> u32 \<Rightarrow> minf \<Rightarrow> minf" where [marshal_defs]:
  "minf_Marshal tid len b = b\<lparr>
     mi_vmhd := vmhd_Marshal tid (mi_vmhd b),
     mi_dinf := dinf_Marshal (mi_dinf b),
     mi_size := HTOBE32 (word_of_nat sizeof_minf + len),
     mi_type := LE32TYPE ''minf'',
     mi_stbl := (mi_stbl b)\<lparr>
       sb_size := HTOBE32 (word_of_nat sizeof_stbl + len),
       sb_type := LE32TYPE ''stbl''\<rparr>\<rparr>"

definition trak_Marshal :: "u32 \<Rightarrow> u32 \<Rightarrow> trak \<Rightarrow> trak" where [marshal_defs]:
  "trak_Marshal tid len b = b\<lparr>
     tr_tkhd := tkhd_Marshal tid (tr_tkhd b),
     tr_mdia := (tr_mdia b)\<lparr>
       me_mdhd := mdhd_Marshal (me_mdhd (tr_mdia b)),
       me_hdlr := hdlr_Marshal tid (me_hdlr (tr_mdia b)),
       me_minf := minf_Marshal tid len (me_minf (tr_mdia b)),
       me_size := HTOBE32 (word_of_nat sizeof_mdia + len),
       me_type := LE32TYPE ''mdia''\<rparr>,
     tr_size := HTOBE32 (word_of_nat sizeof_trak + len),
     tr_type := LE32TYPE ''trak''\<rparr>"

text \<open>\<open>now\<close> is the value of \<open>time(NULL)\<close>.\<close>

definition moov_Marshal :: "u32 \<Rightarrow> u32 \<Rightarrow> u32 \<Rightarrow> moov \<Rightarrow> moov" where [marshal_defs]:
  "moov_Marshal now len1 len2 b = b\<lparr>
     mo_size := HTOBE32 (word_of_nat sizeof_moov + len1 + len2),
     mo_type := LE32TYPE ''moov'',
     mo_mvhd := (mo_mvhd b)\<lparr>
       mv_size := BESIZEOF sizeof_mvhd,
       mv_type := LE32TYPE ''mvhd'',
       mv_create_time := HTOBE32 now,
       mv_modify_time := HTOBE32 now,
       mv_timescale := HTOBE32 1000,
       mv_playrate := HTOBE32 0x00010000,
       mv_volume := u16_of (HTOBE32 1),
       mv_matrix := Matrix (mv_matrix (mo_mvhd b)),
       mv_next_trackid := (if len2 > 0 then HTOBE32 3 else HTOBE32 2)\<rparr>\<rparr>"

subsection \<open>Byte order and type words\<close>

lemma mask_FF00: "v AND 0xFF00 = push_bit 8 (take_bit 8 (drop_bit 8 v))" for v :: u32
proof -
  have "(0xFF00 :: u32) = push_bit 8 (mask 8)"
    by (simp add: mask_eq_exp_minus_1)
  then have "v AND 0xFF00 = v AND push_bit 8 (mask 8)"
    by (rule arg_cong)
  also have "\<dots> = push_bit 8 (take_bit 8 (drop_bit 8 v))"
    by (rule bit_word_eqI) (auto simp: bit_and_iff bit_push_bit_iff bit_mask_iff bit_take_bit_iff bit_drop_bit_eq)
  finally show ?thesis .
qed

lemma HTOBE32_alt:
  "HTOBE32 v = push_bit 24 (take_bit 8 v) OR push_bit 16 (take_bit 8 (drop_bit 8 v)) OR
     push_bit 8 (take_bit 8 (drop_bit 16 v)) OR take_bit 8 (drop_bit 24 v)"
  by (simp add: HTOBE32_def mask_FF00 and_0xff push_bit_push_bit drop_bit_drop_bit)

lemma le32_HTOBE32 [simp]: "le32 (HTOBE32 v) = be32 v"
proof -
  have "ucast (HTOBE32 v) = (ucast (drop_bit 24 v) :: u8)"
    "ucast (drop_bit 8 (HTOBE32 v)) = (ucast (drop_bit 16 v) :: u8)"
    "ucast (drop_bit 16 (HTOBE32 v)) = (ucast (drop_bit 8 v) :: u8)"
    "ucast (drop_bit 24 (HTOBE32 v)) = (ucast v :: u8)"
    unfolding HTOBE32_alt by (rule bit_word_eqI, auto simp: bit_simps)+
  then show ?thesis
    by (simp add: be32_def le32_def)
qed

text \<open>Swapping twice changes nothing, so every field can be read back with the function that wrote it.\<close>

lemma HTOBE32_involution [simp]: "HTOBE32 (HTOBE32 v) = v"
proof -
  have "le32 (HTOBE32 (HTOBE32 v)) = rev (le32 (HTOBE32 v))"
    by (simp add: be32_def)
  also have "\<dots> = le32 v"
    by (simp add: be32_def)
  finally show ?thesis
    by (simp only: le32_inject)
qed

lemma le16_swapped: "le16 (u16_of (drop_bit 16 (HTOBE32 w))) = be16 (ucast w)"
proof -
  have "ucast (u16_of (drop_bit 16 (HTOBE32 w))) = (ucast (drop_bit 8 (ucast w :: u16)) :: u8)"
    "ucast (drop_bit 8 (u16_of (drop_bit 16 (HTOBE32 w)))) = (ucast (ucast w :: u16) :: u8)"
    unfolding HTOBE32_alt u16_of_def by (rule bit_word_eqI, auto simp: bit_simps)+
  then show ?thesis
    by (simp add: be16_def le16_def)
qed

lemma le32_LE32TYPE [simp]:
  "le32 (LE32TYPE ''ftyp'') = asc ''ftyp''" "le32 (LE32TYPE ''stsd'') = asc ''stsd''"
  "le32 (LE32TYPE ''stts'') = asc ''stts''" "le32 (LE32TYPE ''stss'') = asc ''stss''"
  "le32 (LE32TYPE ''stsc'') = asc ''stsc''" "le32 (LE32TYPE ''stsz'') = asc ''stsz''"
  "le32 (LE32TYPE ''stco'') = asc ''stco''" "le32 (LE32TYPE ''tkhd'') = asc ''tkhd''"
  "le32 (LE32TYPE ''mdhd'') = asc ''mdhd''" "le32 (LE32TYPE ''hdlr'') = asc ''hdlr''"
  "le32 (LE32TYPE ''vmhd'') = asc ''vmhd''" "le32 (LE32TYPE ''smhd'') = asc ''smhd''"
  "le32 (LE32TYPE ''dinf'') = asc ''dinf''" "le32 (LE32TYPE ''dref'') = asc ''dref''"
  "le32 (LE32TYPE ''url '') = asc ''url ''" "le32 (LE32TYPE ''minf'') = asc ''minf''"
  "le32 (LE32TYPE ''stbl'') = asc ''stbl''" "le32 (LE32TYPE ''mdia'') = asc ''mdia''"
  "le32 (LE32TYPE ''trak'') = asc ''trak''" "le32 (LE32TYPE ''moov'') = asc ''moov''"
  "le32 (LE32TYPE ''mvhd'') = asc ''mvhd''" "le32 (LE32TYPE ''mdat'') = asc ''mdat''"
  "le32 (LE32TYPE ''avc1'') = asc ''avc1''" "le32 (LE32TYPE ''hvc1'') = asc ''hvc1''"
  "le32 (LE32TYPE ''avcC'') = asc ''avcC''" "le32 (LE32TYPE ''hvcC'') = asc ''hvcC''"
  "le32 (LE32TYPE ''mp4a'') = asc ''mp4a''" "le32 (LE32TYPE ''esds'') = asc ''esds''"
  by (code_simp)+

lemma length_asc [simp]: "length (asc s) = length s"
  by (simp add: asc_def)

subsection \<open>The box format\<close>

text \<open>
  The specification of an ISO box: its size in bytes, big-endian, its type, its body; a reader that
  splits a byte string into boxes by their sizes recovers types and bodies.
\<close>

definition box :: "string \<Rightarrow> bytes \<Rightarrow> bytes" where
  "box t body = be32 (word_of_nat (8 + length body)) @ asc t @ body"

function boxes :: "bytes \<Rightarrow> (bytes \<times> bytes) list option" where
  "boxes bs =
     (if bs = [] then Some []
      else let n = unat (of_le (rev (take 4 bs)) :: u32) in
        if n < 8 \<or> length bs < n then None
        else map_option (Cons (take 4 (drop 4 bs), drop 8 (take n bs))) (boxes (drop n bs)))"
  by pat_completeness auto
termination
  by (relation "measure length") auto

declare boxes.simps [simp del]

lemma boxes_Nil [simp]: "boxes [] = Some []"
  by (simp add: boxes.simps)

lemma length_box [simp]: "length t = 4 \<Longrightarrow> length (box t body) = 8 + length body"
  by (simp add: box_def)

lemma boxes_box:
  assumes "length t = 4" "8 + length body < 2 ^ 32"
  shows "boxes (box t body @ rest) = map_option (Cons (asc t, body)) (boxes rest)"
proof -
  let ?bs = "box t body @ rest"
  have ne: "box t body \<noteq> []"
    using assms(1) by (auto simp: box_def asc_def)
  have n: "unat (of_le (rev (take 4 (box t body))) :: u32) = 8 + length body"
    using assms(2) by (simp add: box_def of_be32 unsigned_of_nat take_bit_nat_eq_self del: of_nat_add)
  have "length (box t body) = 8 + length body"
    using assms(1) by simp
  moreover have "take 4 (drop 4 ?bs) = asc t" "drop 8 (box t body) = body"
    using assms(1) by (simp_all add: box_def)
  ultimately show ?thesis
    by (subst boxes.simps) (simp add: ne n Let_def)
qed

lemma boxI: "bs = be32 w @ asc t @ r \<Longrightarrow> w = word_of_nat (8 + length r) \<Longrightarrow> bs = box t r"
  by (simp add: box_def)

lemma is_boxI:
  assumes "length t = 4" "take 8 bs = be32 (word_of_nat (length bs)) @ asc t"
  shows "bs = box t (drop 8 bs)"
proof -
  have "length (take 8 bs) = 8"
    using assms by simp
  then have "length bs = 8 + length (drop 8 bs)"
    by simp
  then show ?thesis
    using assms(2) unfolding box_def by (metis append_assoc append_take_drop_id)
qed

text \<open>Every struct that marshals its own size is a box, whatever the other fields hold.\<close>

lemma ftyp_box: "\<exists>r. ftyp_bytes (ftyp_Marshal b) = box ''ftyp'' r"
  by (intro exI, rule is_boxI) (simp_all add: ftyp_bytes_def ftyp_Marshal_def BESIZEOF_def)

lemma tkhd_box: "\<exists>r. tkhd_bytes (tkhd_Marshal i b) = box ''tkhd'' r"
  by (intro exI, rule is_boxI) (simp_all add: tkhd_bytes_def tkhd_Marshal_def BESIZEOF_def)

lemma mdhd_box: "\<exists>r. mdhd_bytes (mdhd_Marshal b) = box ''mdhd'' r"
  by (intro exI, rule is_boxI) (simp_all add: mdhd_bytes_def mdhd_Marshal_def BESIZEOF_def)

lemma hdlr_box: "\<exists>r. hdlr_bytes (hdlr_Marshal i b) = box ''hdlr'' r"
  by (intro exI, rule is_boxI) (simp_all add: hdlr_bytes_def hdlr_Marshal_def BESIZEOF_def)

lemma vmhd_box: "\<exists>r. vmhd_bytes (vmhd_Marshal i b) = box (if i = 1 then ''vmhd'' else ''smhd'') r"
  by (intro exI, rule is_boxI) (simp_all add: vmhd_bytes_def vmhd_Marshal_def BESIZEOF_def)

lemma stsda_box: "\<exists>r. stsda_bytes (stsda_Marshal b) = box ''stsd'' r"
  by (intro exI, rule is_boxI) (simp_all add: stsda_bytes_def stsda_Marshal_def BESIZEOF_def)

lemma stts_box: "\<exists>r. stts_bytes (stts_Marshal n d b) = box ''stts'' r"
  by (intro exI, rule is_boxI) (simp_all add: stts_bytes_def stts_Marshal_def BESIZEOF_def)

lemma stsc_box: "\<exists>r. stsc_bytes (stsc_Marshal b) = box ''stsc'' r"
  by (intro exI, rule is_boxI) (simp_all add: stsc_bytes_def stsc_Marshal_def BESIZEOF_def)

lemma mvhd_box: "\<exists>r. mvhd_bytes (mo_mvhd (moov_Marshal now l1 l2 b)) = box ''mvhd'' r"
  by (intro exI, rule is_boxI) (simp_all add: mvhd_bytes_def moov_Marshal_def BESIZEOF_def)

text \<open>The tables of a track are boxes together with the entries written after them.\<close>

lemma stsz_box:
  "length xs = n \<Longrightarrow> \<exists>r. stsz_bytes (stsz_Marshal (word_of_nat n) b) @ concat (map le32 xs) = box ''stsz'' r"
  by (intro exI, rule is_boxI) (auto simp: stsz_bytes_def stsz_Marshal_def mult.commute)

lemma stco_box:
  "length xs = n \<Longrightarrow> \<exists>r. stco_bytes (stco_Marshal (word_of_nat n) b) @ concat (map le32 xs) = box ''stco'' r"
  by (intro exI, rule is_boxI) (auto simp: stco_bytes_def stco_Marshal_def mult.commute)

lemma stss_box:
  "length xs = n \<Longrightarrow> \<exists>r. stss_bytes (stss_Marshal (word_of_nat n) b) @ concat (map le32 xs) = box ''stss'' r"
  by (intro exI, rule is_boxI) (auto simp: stss_bytes_def stss_Marshal_def mult.commute)

lemma dinf_box: "\<exists>r u. dinf_bytes (dinf_Marshal b) = box ''dinf'' (box ''dref'' (r @ box ''url '' u))"
proof -
  obtain v f where e: "dinf_bytes (dinf_Marshal b) =
      be32 36 @ asc ''dinf'' @ be32 28 @ asc ''dref'' @ (v # cells 3 f @ be32 1) @
      be32 12 @ asc ''url '' @ ur_version (dr_url (di_dref b)) # cells 3 ((ur_flags (dr_url (di_dref b)))[2 := 1])"
    by (auto simp: dinf_bytes_def dinf_Marshal_def dref_bytes_def url_box_bytes_def BESIZEOF_def)
  show ?thesis
    unfolding e
    by (intro exI[of _ "v # cells 3 f @ be32 1"]
        exI[of _ "ur_version (dr_url (di_dref b)) # cells 3 ((ur_flags (dr_url (di_dref b)))[2 := 1])"])
      (simp add: box_def)
qed

lemma minf_box:
  assumes "length rest = n"
  shows "\<exists>a d. minf_bytes (minf_Marshal i (word_of_nat n) b) @ rest =
    box ''minf'' (box (if i = 1 then ''vmhd'' else ''smhd'') a @ box ''dinf'' d @ box ''stbl'' rest)"
proof -
  obtain a where a: "vmhd_bytes (vmhd_Marshal i (mi_vmhd b)) = box (if i = 1 then ''vmhd'' else ''smhd'') a"
    using vmhd_box by blast
  have la: "length a = 12"
    using arg_cong[OF a, of length] by (simp split: if_splits)
  obtain d where d: "dinf_bytes (dinf_Marshal (mi_dinf b)) = box ''dinf'' d"
    using dinf_box by blast
  have ld: "length d = 28"
    using arg_cong[OF d, of length] by simp
  show ?thesis
    using assms by (intro exI[of _ a] exI[of _ d])
      (simp add: minf_bytes_def minf_Marshal_def a d box_def stbl_bytes_def la ld add.commute)
qed

text \<open>The nesting of a track: every size field counts exactly the bytes of its box.\<close>

lemma trak_box:
  assumes "length rest = n"
  shows "\<exists>k m h a d. trak_bytes (trak_Marshal i (word_of_nat n) b) @ rest =
    box ''trak'' (box ''tkhd'' k @ box ''mdia'' (box ''mdhd'' m @ box ''hdlr'' h @
      box ''minf'' (box (if i = 1 then ''vmhd'' else ''smhd'') a @ box ''dinf'' d @ box ''stbl'' rest)))"
proof -
  obtain k where k: "tkhd_bytes (tkhd_Marshal i (tr_tkhd b)) = box ''tkhd'' k"
    using tkhd_box by blast
  have lk: "length k = 84" using arg_cong[OF k, of length] by simp
  obtain m where m: "mdhd_bytes (mdhd_Marshal (me_mdhd (tr_mdia b))) = box ''mdhd'' m"
    using mdhd_box by blast
  have lm: "length m = 24" using arg_cong[OF m, of length] by simp
  obtain h where h: "hdlr_bytes (hdlr_Marshal i (me_hdlr (tr_mdia b))) = box ''hdlr'' h"
    using hdlr_box by blast
  have lh: "length h = 40" using arg_cong[OF h, of length] by simp
  obtain F a d where f: "minf_bytes (minf_Marshal i (word_of_nat n) (me_minf (tr_mdia b))) @ rest = box ''minf'' F"
    and F: "F = box (if i = 1 then ''vmhd'' else ''smhd'') a @ box ''dinf'' d @ box ''stbl'' rest"
    using minf_box[OF assms] by blast
  have lf: "length F = 64 + n" using arg_cong[OF f, of length] assms by simp
  have "trak_bytes (trak_Marshal i (word_of_nat n) b) @ rest =
    be32 (word_of_nat (260 + n)) @ asc ''trak'' @ box ''tkhd'' k @ be32 (word_of_nat (160 + n)) @ asc ''mdia'' @
      box ''mdhd'' m @ box ''hdlr'' h @ box ''minf'' F"
    by (simp add: trak_bytes_def trak_Marshal_def mdia_bytes_def k m h f)
  also have "\<dots> = box ''trak'' (box ''tkhd'' k @ box ''mdia'' (box ''mdhd'' m @ box ''hdlr'' h @ box ''minf'' F))"
    by (simp add: box_def[of "''trak''"] box_def[of "''mdia''"] lk lm lh lf add.commute)
  finally show ?thesis
    using F by blast
qed

end
