(* ===== verification/Mp4_Trak.thy ===== *)
theory Mp4_Trak
  imports Mp4_Box
begin

section \<open>Codec configuration and tracks: AvccMarshal, HvccMarshal, Trak (src/stream/mp4box.hpp)\<close>

text \<open>
  \<open>m\<close> is the memory the units point into. The configuration boxes are assembled in a caller's array
  (\<open>char buf[256]\<close>): a write behind its end is a fault. Copying zero bytes is allowed from any pointer.
\<close>

definition emit :: "bytes \<Rightarrow> nat \<Rightarrow> bytes \<Rightarrow> (bytes \<times> nat) option" where
  "emit buf i bs = map_option (\<lambda>b. (b, i + length bs)) (mem_write buf i bs)"

definition unit_copy :: "bytes \<Rightarrow> unit_t \<Rightarrow> bytes option" where
  "unit_copy m u =
     (if u_size u < 0 then None else if u_size u = 0 then Some [] else unit_bytes m u)"

definition unit_byte :: "bytes \<Rightarrow> unit_t \<Rightarrow> nat \<Rightarrow> u8 option" where
  "unit_byte m u k =
     (if int k < u_size u then (case u_data u of None \<Rightarrow> None | Some d \<Rightarrow> mem_read m (d + k)) else Some 0)"

text \<open>The bytes \<open>size & 0xff\<close>, \<open>(size >> 8) & 0xff\<close> and \<open>(size << 8) & 0xff\<close> of an \<open>int\<close>.\<close>

definition size_lo :: "unit_t \<Rightarrow> u8" where
  "size_lo u = ucast ((word_of_int (u_size u) :: u32) AND 0xff)"

definition size_hi :: "unit_t \<Rightarrow> u8" where
  "size_hi u = ucast (drop_bit 8 (word_of_int (u_size u) :: u32) AND 0xff)"

definition size_shl :: "unit_t \<Rightarrow> u8" where
  "size_shl u = ucast (push_bit 8 (word_of_int (u_size u) :: u32) AND 0xff)"

definition AvccMarshal :: "bytes \<Rightarrow> bytes \<Rightarrow> unit_t list \<Rightarrow> (nat \<times> bytes) option" where
  "AvccMarshal m buf nalus = do {
     n0 \<leftarrow> mem_read nalus 0;
     n1 \<leftarrow> mem_read nalus 1;
     profile \<leftarrow> unit_byte m n0 1;
     compat \<leftarrow> unit_byte m n0 2;
     level \<leftarrow> unit_byte m n0 3;
     buf \<leftarrow> mem_write buf 4 (le32 (LE32TYPE ''avcC'') @ [1, profile, compat, level, 0xFF]);
     (buf, i) \<leftarrow> emit buf 13 [0xE1, size_shl n0, size_lo n0];
     sps \<leftarrow> unit_copy m n0;
     (buf, i) \<leftarrow> emit buf i sps;
     (buf, i) \<leftarrow> emit buf i [1, size_shl n1, size_lo n1];
     pps \<leftarrow> unit_copy m n1;
     (buf, i) \<leftarrow> emit buf i pps;
     buf \<leftarrow> mem_write buf 0 (le32 (HTOBE32 (word_of_nat i)));
     Some (i, buf)
   }"

text \<open>One array of the HEVC configuration: its type, one unit, its size and bytes.\<close>

definition hvcc_array :: "bytes \<Rightarrow> u8 \<Rightarrow> unit_t \<Rightarrow> bytes \<times> nat \<Rightarrow> (bytes \<times> nat) option" where
  "hvcc_array m t u = (\<lambda>(buf, i). do {
     (buf, i) \<leftarrow> emit buf i [t, 0x00, 0x01, size_hi u, size_lo u];
     bs \<leftarrow> unit_copy m u;
     emit buf i bs
   })"

text \<open>
  The bit-fields share bytes 9 and 29: the fields not assigned keep their bits; \<open>avgFrameRate\<close>
  (bytes 27 and 28) is not assigned.
\<close>

definition HvccMarshal :: "bytes \<Rightarrow> bytes \<Rightarrow> unit_t list \<Rightarrow> (nat \<times> bytes) option" where
  "HvccMarshal m buf nalus = do {
     n0 \<leftarrow> mem_read nalus 0;
     n1 \<leftarrow> mem_read nalus 1;
     n2 \<leftarrow> mem_read nalus 2;
     b9 \<leftarrow> mem_read buf 9;
     b29 \<leftarrow> mem_read buf 29;
     buf \<leftarrow> mem_write buf 4 (le32 (LE32TYPE ''hvcC'') @ [1, (b9 AND 0xE0) OR 1]
              @ le32 0x60 @ le32 0 @ le16 0 @ [0] @ le16 0 @ [0, 0, 0, 0]);
     buf \<leftarrow> mem_write buf 29 [(b29 AND 0xC0) OR 3, 3];
     a \<leftarrow> hvcc_array m 32 n2 (buf, 31);
     a \<leftarrow> hvcc_array m 33 n0 a;
     (buf, i) \<leftarrow> hvcc_array m 34 n1 a;
     buf \<leftarrow> mem_write buf 0 (le32 (HTOBE32 (word_of_nat i)));
     Some (i, buf)
   }"

subsection \<open>The track\<close>

record track =
  t_id :: u32
  t_trak :: trak
  t_stts :: stts
  t_stss :: stss
  t_stsc :: stsc
  t_stsz :: stsz
  t_stco :: stco
  t_firts :: int
  t_lsts :: int
  t_stsdv :: bytes
  t_sizes :: "u32 list"
  t_offsets :: "u32 list"
  t_keys :: "u32 list"

definition Trak :: track where
  "Trak = \<lparr>t_id = 0, t_trak = trak_zero, t_stts = stts_zero, t_stss = stss_zero, t_stsc = stsc_zero,
     t_stsz = stsz_zero, t_stco = stco_zero, t_firts = 0, t_lsts = 0, t_stsdv = [],
     t_sizes = [], t_offsets = [], t_keys = []\<rparr>"

text \<open>\<open>offset\<close> is a reference: the new value is returned.\<close>

definition AppendSample :: "int \<Rightarrow> u32 \<Rightarrow> u32 \<Rightarrow> bool \<Rightarrow> track \<Rightarrow> u32 \<times> track" where
  "AppendSample ts offset len bKey t =
     (let t = t\<lparr>t_lsts := ts\<rparr>;
          t = (if t_firts t = 0 then t\<lparr>t_firts := ts\<rparr> else t);
          t = t\<lparr>t_sizes := t_sizes t @ [HTOBE32 len], t_offsets := t_offsets t @ [HTOBE32 offset]\<rparr>;
          t = (if bKey then t\<lparr>t_keys := t_keys t @ [HTOBE32 (word_of_nat (length (t_sizes t)))]\<rparr> else t)
      in (offset + len, t))"

definition duration_of :: "track \<Rightarrow> u32" where
  "duration_of t = word_of_int (t_lsts t - t_firts t)"

text \<open>The sample tables, as they follow the sample description.\<close>

definition table_bytes :: "track \<Rightarrow> bytes" where
  "table_bytes t =
     (let count = word_of_nat (length (t_sizes t)) in
      stts_bytes (stts_Marshal count (duration_of t) (t_stts t)) @
      stsc_bytes (stsc_Marshal (t_stsc t)) @
      stsz_bytes (stsz_Marshal count (t_stsz t)) @
      concat (map le32 (t_sizes t)) @
      stco_bytes (stco_Marshal count (t_stco t)) @
      concat (map le32 (t_offsets t)) @
      (if t_id t = 1 then
         stss_bytes (stss_Marshal (word_of_nat (length (t_keys t))) (t_stss t)) @
         concat (map le32 (t_keys t))
       else []))"

text \<open>
  \<open>Marshal\<close> returns the length, the duration for the movie header (already swapped) and the
  track with its members as the nested calls leave them.
\<close>

definition Trak_Marshal :: "track \<Rightarrow> nat \<times> u32 \<times> track" where
  "Trak_Marshal t =
     (let rdur = duration_of t;
          tr = t_trak t;
          tr = tr\<lparr>tr_tkhd := (tr_tkhd tr)\<lparr>tk_duration := HTOBE32 rdur\<rparr>,
                  tr_mdia := (tr_mdia tr)\<lparr>me_mdhd := (me_mdhd (tr_mdia tr))\<lparr>md_duration := HTOBE32 rdur\<rparr>\<rparr>\<rparr>;
          count = word_of_nat (length (t_sizes t));
          str = table_bytes t;
          size = word_of_nat (length (t_stsdv t) + length str);
          tr = trak_Marshal (t_id t) size tr
      in (unat size + sizeof_trak, HTOBE32 rdur,
          t\<lparr>t_trak := tr,
            t_stts := stts_Marshal count rdur (t_stts t),
            t_stsc := stsc_Marshal (t_stsc t),
            t_stsz := stsz_Marshal count (t_stsz t),
            t_stco := stco_Marshal count (t_stco t),
            t_stss := (if t_id t = 1 then stss_Marshal (word_of_nat (length (t_keys t))) (t_stss t) else t_stss t),
            t_stsdv := trak_bytes tr @ t_stsdv t @ str\<rparr>))"

definition MakeVideo :: "bytes \<Rightarrow> unit_t list \<Rightarrow> track \<Rightarrow> track option" where
  "MakeVideo m nalus t = do {
     units \<leftarrow> Sort nalus;
     u0 \<leftarrow> mem_read units 0;
     sps \<leftarrow> unit_copy m u0;
     (ok, v) \<leftarrow> Unit_decode_sps (u_type u0) sps
        \<lparr>width = unat (tk_width (tr_tkhd (t_trak t))), height = unat (tk_height (tr_tkhd (t_trak t))), fps = 0\<rparr>;
     let w = word_of_nat (width v);
     let h = word_of_nat (height v);
     (n, buf) \<leftarrow> (if length units = 2 then AvccMarshal m (replicate 256 0) units
                 else HvccMarshal m (replicate 256 0) units);
     let a = avc1_zero\<lparr>av_type := (if length units = 2 then LE32TYPE ''avc1'' else LE32TYPE ''hvc1''),
                       av_width := u16_of w, av_height := u16_of h\<rparr>;
     let stsd = stsdv_Marshal (word_of_nat n) (stsdv_zero\<lparr>sv_avc1 := a\<rparr>);
     Some (t\<lparr>t_id := 1,
             t_trak := (t_trak t)\<lparr>tr_tkhd := (tr_tkhd (t_trak t))\<lparr>tk_width := w, tk_height := h\<rparr>\<rparr>,
             t_stsdv := stsdv_bytes stsd @ take n buf\<rparr>)
   }"

definition MakeAudio :: "track \<Rightarrow> track" where
  "MakeAudio t = t\<lparr>t_id := 2, t_stsdv := t_stsdv t @ stsda_bytes (stsda_Marshal stsda_zero)\<rparr>"

subsection \<open>The sample tables as boxes\<close>

text \<open>What the tables record, as numbers: the entries are stored swapped.\<close>

definition sizes_of :: "track \<Rightarrow> u32 list" where
  "sizes_of t = map HTOBE32 (t_sizes t)"

definition offsets_of :: "track \<Rightarrow> u32 list" where
  "offsets_of t = map HTOBE32 (t_offsets t)"

definition keys_of :: "track \<Rightarrow> u32 list" where
  "keys_of t = map HTOBE32 (t_keys t)"

definition be32s :: "u32 list \<Rightarrow> bytes" where
  "be32s ws = concat (map be32 ws)"

lemma concat_le32_swapped: "concat (map le32 xs) = be32s (map HTOBE32 xs)"
proof -
  have "le32 x = be32 (HTOBE32 x)" for x
    by (metis HTOBE32_involution le32_HTOBE32)
  then show ?thesis
    by (simp add: be32s_def comp_def cong: map_cong)
qed

lemma length_be32s [simp]: "length (be32s ws) = 4 * length ws"
  by (induction ws) (simp_all add: be32s_def)

lemma AppendSample_tables:
  assumes "AppendSample ts off len key t = (off', t')"
  shows "off' = off + len" "sizes_of t' = sizes_of t @ [len]" "offsets_of t' = offsets_of t @ [off]"
    "keys_of t' = keys_of t @ (if key then [word_of_nat (length (sizes_of t) + 1)] else [])"
    "t_id t' = t_id t" "t_stsdv t' = t_stsdv t" "t_trak t' = t_trak t" "t_stts t' = t_stts t"
    "t_stsc t' = t_stsc t" "t_stsz t' = t_stsz t" "t_stco t' = t_stco t" "t_stss t' = t_stss t"
  using assms by (auto simp: AppendSample_def Let_def sizes_of_def offsets_of_def keys_of_def)

definition fresh_tables :: "track \<Rightarrow> bool" where
  "fresh_tables t \<longleftrightarrow> t_stts t = stts_zero \<and> t_stsc t = stsc_zero \<and> t_stsz t = stsz_zero \<and>
     t_stco t = stco_zero \<and> t_stss t = stss_zero"

definition zeros :: "nat \<Rightarrow> bytes" where
  "zeros n = replicate n 0"

lemma length_zeros [simp]: "length (zeros n) = n"
  by (simp add: zeros_def)

lemma replicate_num: "replicate (numeral k) x = x # replicate (pred_numeral k) x"
  by (simp add: numeral_eq_Suc)

lemma le_0: "le32 0 = [0, 0, 0, 0]" "be32 0 = [0, 0, 0, 0]"
  by (simp_all add: le32_def be32_def)

lemmas zero_layout = zeros_def replicate_num le_0 BESIZEOF_def box_def

lemma stts_zero_box:
  "stts_bytes (stts_Marshal n d stts_zero) =
     box ''stts'' (zeros 4 @ be32 1 @ be32 n @ be32 (if n > 0 then d div n else 0))"
  by (simp add: stts_bytes_def stts_Marshal_def stts_zero_def zero_layout)

lemma stsc_zero_box:
  "stsc_bytes (stsc_Marshal stsc_zero) = box ''stsc'' (zeros 4 @ be32 1 @ be32 1 @ be32 1 @ be32 1)"
  by (simp add: stsc_bytes_def stsc_Marshal_def stsc_zero_def zero_layout)

lemma stsz_zero_box:
  "length ws = n \<Longrightarrow> stsz_bytes (stsz_Marshal (word_of_nat n) stsz_zero) @ be32s ws =
     box ''stsz'' (zeros 8 @ be32 (word_of_nat n) @ be32s ws)"
  by (simp add: stsz_bytes_def stsz_Marshal_def stsz_zero_def zero_layout mult.commute)

lemma stco_zero_box:
  "length ws = n \<Longrightarrow> stco_bytes (stco_Marshal (word_of_nat n) stco_zero) @ be32s ws =
     box ''stco'' (zeros 4 @ be32 (word_of_nat n) @ be32s ws)"
  by (simp add: stco_bytes_def stco_Marshal_def stco_zero_def zero_layout mult.commute)

lemma stss_zero_box:
  "length ws = n \<Longrightarrow> stss_bytes (stss_Marshal (word_of_nat n) stss_zero) @ be32s ws =
     box ''stss'' (zeros 4 @ be32 (word_of_nat n) @ be32s ws)"
  by (simp add: stss_bytes_def stss_Marshal_def stss_zero_def zero_layout mult.commute)

definition table_boxes :: "track \<Rightarrow> bytes" where
  "table_boxes t =
     (let n = word_of_nat (length (sizes_of t)); k = word_of_nat (length (keys_of t)) in
      box ''stts'' (zeros 4 @ be32 1 @ be32 n @ be32 (if n > 0 then duration_of t div n else 0)) @
      box ''stsc'' (zeros 4 @ be32 1 @ be32 1 @ be32 1 @ be32 1) @
      box ''stsz'' (zeros 8 @ be32 n @ be32s (sizes_of t)) @
      box ''stco'' (zeros 4 @ be32 n @ be32s (offsets_of t)) @
      (if t_id t = 1 then box ''stss'' (zeros 4 @ be32 k @ be32s (keys_of t)) else []))"

lemma table_bytes_boxes:
  assumes "fresh_tables t" "length (t_offsets t) = length (t_sizes t)"
  shows "table_bytes t = table_boxes t"
proof -
  have l: "length (t_sizes t) = length (sizes_of t)" "length (t_keys t) = length (keys_of t)"
    "length (offsets_of t) = length (sizes_of t)"
    using assms(2) by (simp_all add: sizes_of_def keys_of_def offsets_of_def)
  show ?thesis
    using assms(1) unfolding table_bytes_def table_boxes_def Let_def concat_le32_swapped fresh_tables_def
    by (simp add: l stts_zero_box stsc_zero_box flip: sizes_of_def offsets_of_def keys_of_def
        stsz_zero_box [of "sizes_of t", OF refl] stco_zero_box [of "offsets_of t" "length (sizes_of t)", OF l(3)]
        stss_zero_box [of "keys_of t", OF refl])
qed

text \<open>The shape of a track: \<open>k\<close> names the media header box, \<open>rest\<close> is what its sample table box holds.\<close>

definition trak_shape :: "string \<Rightarrow> bytes \<Rightarrow> bytes \<Rightarrow> bool" where
  "trak_shape k rest bs \<longleftrightarrow> (\<exists>t m h a d. bs =
     box ''trak'' (box ''tkhd'' t @ box ''mdia'' (box ''mdhd'' m @ box ''hdlr'' h @
       box ''minf'' (box k a @ box ''dinf'' d @ box ''stbl'' rest))))"

text \<open>
  \<open>Trak::Marshal\<close> on a track with a sample description: its bytes are one \<open>trak\<close> box whose nesting and
  sizes are right at every level, the tables inside it hold the sizes, offsets and key frames of the samples
  appended, and the length returned is the number of bytes.
\<close>

lemma Trak_Marshal_shape:
  assumes fresh: "fresh_tables t" and tables: "length (t_offsets t) = length (t_sizes t)"
    and room: "length (t_stsdv t) + length (table_bytes t) + 260 < 2 ^ 32"
  shows "trak_shape (if t_id t = 1 then ''vmhd'' else ''smhd'') (t_stsdv t @ table_boxes t)
      (t_stsdv (snd (snd (Trak_Marshal t))))
    \<and> fst (Trak_Marshal t) = length (t_stsdv (snd (snd (Trak_Marshal t))))"
proof -
  define n where "n = length (t_stsdv t @ table_bytes t)"
  define tr where "tr = (t_trak t)\<lparr>tr_tkhd := (tr_tkhd (t_trak t))\<lparr>tk_duration := HTOBE32 (duration_of t)\<rparr>,
      tr_mdia := (tr_mdia (t_trak t))\<lparr>me_mdhd := (me_mdhd (tr_mdia (t_trak t)))\<lparr>md_duration := HTOBE32 (duration_of t)\<rparr>\<rparr>\<rparr>"
  have bytes: "t_stsdv (snd (snd (Trak_Marshal t))) =
      trak_bytes (trak_Marshal (t_id t) (word_of_nat n) tr) @ t_stsdv t @ table_bytes t"
    by (simp add: Trak_Marshal_def Let_def tr_def n_def)
  obtain k m h a d where "trak_bytes (trak_Marshal (t_id t) (word_of_nat n) tr) @ t_stsdv t @ table_bytes t =
    box ''trak'' (box ''tkhd'' k @ box ''mdia'' (box ''mdhd'' m @ box ''hdlr'' h @
      box ''minf'' (box (if t_id t = 1 then ''vmhd'' else ''smhd'') a @ box ''dinf'' d @
        box ''stbl'' (t_stsdv t @ table_bytes t))))"
    using trak_box[OF n_def[symmetric]] by blast
  moreover have "fst (Trak_Marshal t) = n + 260"
    using room by (simp add: Trak_Marshal_def Let_def n_def unsigned_of_nat take_bit_nat_eq_self flip: of_nat_add)
  moreover have "length (t_stsdv (snd (snd (Trak_Marshal t)))) = n + 260"
    unfolding bytes by (simp add: n_def)
  ultimately show ?thesis
    using bytes table_bytes_boxes[OF fresh tables] unfolding trak_shape_def by metis
qed

lemma fresh_Trak: "fresh_tables Trak" "t_offsets Trak = []" "t_sizes Trak = []" "t_id Trak = 0" "t_stsdv Trak = []"
  by (simp_all add: fresh_tables_def Trak_def)

lemma fresh_MakeAudio [simp]: "fresh_tables (MakeAudio t) = fresh_tables t"
  by (simp add: fresh_tables_def MakeAudio_def)

lemma MakeAudio_simps [simp]:
  "t_id (MakeAudio t) = 2" "t_sizes (MakeAudio t) = t_sizes t" "t_offsets (MakeAudio t) = t_offsets t"
  by (simp_all add: MakeAudio_def)

lemma length_table_boxes:
  "length (t_offsets t) = length (t_sizes t) \<Longrightarrow>
   length (table_boxes t) = 88 + 8 * length (t_sizes t) + (if t_id t = 1 then 16 + 4 * length (t_keys t) else 0)"
  by (simp add: table_boxes_def Let_def sizes_of_def offsets_of_def keys_of_def)

subsection \<open>The H.264 configuration box\<close>

lemma emit_length: "emit buf i bs = Some (buf', i') \<Longrightarrow> length buf' = length buf"
  by (auto simp: emit_def mem_write_length)

lemma AvccMarshal_length: "AvccMarshal m buf ns = Some (n, buf') \<Longrightarrow> length buf' = length buf"
proof -
  have "returns (AvccMarshal m buf ns) (\<lambda>(n, b). length b = length buf)"
    unfolding AvccMarshal_def by (intro returns_intros) (simp add: emit_length mem_write_length)
  then show "AvccMarshal m buf ns = Some (n, buf') \<Longrightarrow> length buf' = length buf"
    by (auto dest: returnsD)
qed

lemma hvcc_array_length: "hvcc_array m t u (buf, i) = Some (buf', i') \<Longrightarrow> length buf' = length buf"
  by (auto simp: hvcc_array_def bind_eq_Some_conv emit_length)

lemma HvccMarshal_length: "HvccMarshal m buf ns = Some (n, buf') \<Longrightarrow> length buf' = length buf"
proof -
  have "returns (HvccMarshal m buf ns) (\<lambda>(n, b). length b = length buf)"
    unfolding HvccMarshal_def
  proof (intro returns_intros, goal_cases)
    case (1 a b c d e f g x y z w)
    then show ?case
      by (cases x; cases y) (simp add: hvcc_array_length mem_write_length)
  qed
  then show "HvccMarshal m buf ns = Some (n, buf') \<Longrightarrow> length buf' = length buf"
    by (auto dest: returnsD)
qed

lemma MakeVideo_stsdv: "MakeVideo m nalus t = Some t' \<Longrightarrow> length (t_stsdv t') \<le> 358"
proof -
  have "returns (MakeVideo m nalus t) (\<lambda>t'. length (t_stsdv t') \<le> 358)"
    unfolding MakeVideo_def Let_def
    by (intro returns_intros) (auto split: if_splits dest!: AvccMarshal_length HvccMarshal_length)
  then show "MakeVideo m nalus t = Some t' \<Longrightarrow> length (t_stsdv t') \<le> 358"
    by (rule returnsD)
qed

lemma emit_zeros:
  "emit (pre @ zeros k) (length pre) bs =
     (if length bs \<le> k then Some ((pre @ bs) @ zeros (k - length bs), length (pre @ bs)) else None)"
  by (auto simp: emit_def mem_write_def zeros_def)

lemma mem_write_front: "length w = 4 \<Longrightarrow> mem_write (zeros 4 @ r) 0 w = Some (w @ r)"
  by (simp add: mem_write_def)

lemma unit_copy_length: "unit_copy m u = Some bs \<Longrightarrow> u_size u = int (length bs)"
  by (auto simp: unit_copy_def unit_bytes_def mem_simps split: if_splits option.splits)

lemma unit_copy_byte:
  assumes "unit_copy m u = Some bs" "k < length bs"
  shows "unit_byte m u k = Some (bs ! k)"
proof -
  have s: "u_size u = int (length bs)" by (rule unit_copy_length[OF assms(1)])
  have ne: "length bs \<noteq> 0" using assms(2) by linarith
  then have "unit_bytes m u = Some bs"
    using assms(1) s by (simp add: unit_copy_def)
  then obtain d where "u_data u = Some d" "mem_slice m d (length bs) = Some bs"
    using s by (cases "u_data u") (simp_all add: unit_bytes_def)
  moreover from this(2) have "mem_read m (d + k) = Some (bs ! k)"
    using assms(2) by (rule mem_slice_nth)
  ultimately show ?thesis
    using assms(2) s by (simp add: unit_byte_def)
qed

lemma size_bytes:
  assumes "u_size u = int n" "n < 256"
  shows "size_lo u = word_of_nat n" "size_shl u = 0" "size_hi u = 0"
proof -
  show "size_lo u = word_of_nat n"
    using assms(1) unfolding size_lo_def by (simp, intro bit_word_eqI) (auto simp: bit_simps)
  show "size_shl u = 0"
    unfolding size_shl_def and_0xff by (rule bit_word_eqI) (auto simp: bit_simps)
  have "(word_of_nat n :: u32) = take_bit 8 (word_of_nat n)"
    using assms(2) by (simp add: take_bit_of_nat take_bit_nat_eq_self)
  then have "drop_bit 8 (word_of_nat n :: u32) = drop_bit 8 (take_bit 8 (word_of_nat n))"
    by (rule arg_cong)
  also have "\<dots> = 0"
    by (simp add: drop_bit_take_bit)
  finally show "size_hi u = 0"
    using assms(1) by (simp add: size_hi_def)
qed

text \<open>C23. \<open>AvccMarshal\<close> on the zeroed 256-byte array of its caller: for a sequence parameter set of more than
  three bytes it yields exactly the \<open>avcC\<close> box of ISO 14496-15 (profile bytes of the SPS, 4-byte lengths, one SPS, one
  PPS) when the box fits 256 bytes, and writes behind the array when it does not.\<close>

theorem AvccMarshal_box:
  assumes sps: "unit_copy m n0 = Some sps" "3 < length sps" and pps: "unit_copy m n1 = Some pps"
  shows "if 19 + length sps + length pps \<le> 256
    then \<exists>buf. AvccMarshal m (replicate 256 0) (n0 # n1 # ns) = Some (19 + length sps + length pps, buf) \<and>
      take (19 + length sps + length pps) buf =
        box ''avcC'' ([1, sps ! 1, sps ! 2, sps ! 3, 0xFF, 0xE1, 0, word_of_nat (length sps)] @ sps @
          [1, 0, word_of_nat (length pps)] @ pps)
    else AvccMarshal m (replicate 256 0) (n0 # n1 # ns) = None"
proof -
  have b: "unit_byte m n0 1 = Some (sps ! 1)" "unit_byte m n0 2 = Some (sps ! 2)" "unit_byte m n0 3 = Some (sps ! 3)"
    using sps unit_copy_byte by auto
  define h where "h = asc ''avcC'' @ [1, sps ! 1, sps ! 2, sps ! 3, 0xFF]"
  have w0: "mem_write (replicate 256 0) 4 h = Some ((zeros 4 @ h) @ zeros 243)"
    by (simp add: mem_write_def h_def zeros_def asc_def)
  have lh: "length (zeros 4 @ h) = 13"
    by (simp add: h_def)
  define p1 where "p1 = zeros 4 @ h"
  define p2 where "p2 = p1 @ [0xE1, size_shl n0, size_lo n0]"
  define p3 where "p3 = p2 @ sps"
  define p4 where "p4 = p3 @ [1, size_shl n1, size_lo n1]"
  define p5 where "p5 = p4 @ pps"
  have l: "length p1 = 13" "length p2 = 16" "length p3 = 16 + length sps" "length p4 = 19 + length sps"
    "length p5 = 19 + length sps + length pps"
    using lh by (simp_all add: p5_def p4_def p3_def p2_def p1_def)
  have w0': "mem_write (replicate 256 0) 4 (asc ''avcC'' @ [1, sps ! 1, sps ! 2, sps ! 3, 0xFF]) = Some (p1 @ zeros 243)"
    using w0 by (simp only: p1_def h_def)
  have e1: "emit (p1 @ zeros 243) 13 [0xE1, size_shl n0, size_lo n0] = Some (p2 @ zeros 240, 16)"
    using emit_zeros[of p1 243 "[0xE1, size_shl n0, size_lo n0]"] by (simp add: p2_def l)
  have e2: "emit (p2 @ zeros 240) 16 sps =
      (if length sps \<le> 240 then Some (p3 @ zeros (240 - length sps), 16 + length sps) else None)"
    using emit_zeros[of p2 240 sps] by (simp add: p3_def l)
  have e3: "emit (p3 @ zeros k) (16 + length sps) [1, size_shl n1, size_lo n1] =
      (if 3 \<le> k then Some (p4 @ zeros (k - 3), 19 + length sps) else None)" for k
    using emit_zeros[of p3 k "[1, size_shl n1, size_lo n1]"] by (simp add: p4_def l numeral_3_eq_3)
  have e4: "emit (p4 @ zeros k) (19 + length sps) pps =
      (if length pps \<le> k then Some (p5 @ zeros (k - length pps), 19 + length sps + length pps) else None)" for k
    using emit_zeros[of p4 k pps] by (simp add: p5_def l)
  let ?n = "19 + length sps + length pps"
  have p5: "p5 = zeros 4 @ drop 4 p5"
    by (simp add: p5_def p4_def p3_def p2_def p1_def)
  have w: "mem_write (p5 @ r) 0 (be32 (word_of_nat ?n)) = Some (be32 (word_of_nat ?n) @ drop 4 p5 @ r)" for r
    by (subst p5) (simp add: mem_write_front)
  have call: "AvccMarshal m (replicate 256 0) (n0 # n1 # ns) =
      (if ?n \<le> 256 then Some (?n, be32 (word_of_nat ?n) @ drop 4 p5 @ zeros (256 - ?n)) else None)"
    unfolding AvccMarshal_def
    by (auto simp: mem_read_def b[unfolded One_nat_def] sps pps w0'[unfolded One_nat_def] e1 e2 e3 e4 w
        simp del: of_nat_add)
  show ?thesis
  proof (cases "?n \<le> 256")
    case True
    then have sz: "size_lo n0 = word_of_nat (length sps)" "size_shl n0 = 0"
      "size_lo n1 = word_of_nat (length pps)" "size_shl n1 = 0"
      using size_bytes[OF unit_copy_length[OF sps(1)]] size_bytes[OF unit_copy_length[OF pps]] by simp_all
    have "be32 (word_of_nat ?n) @ drop 4 p5 =
        box ''avcC'' ([1, sps ! 1, sps ! 2, sps ! 3, 0xFF, 0xE1, 0, word_of_nat (length sps)] @ sps @
          [1, 0, word_of_nat (length pps)] @ pps)"
      by (simp add: box_def p5_def p4_def p3_def p2_def p1_def h_def sz add.commute)
    moreover have "take ?n (be32 (word_of_nat ?n) @ drop 4 p5 @ r) = be32 (word_of_nat ?n) @ drop 4 p5" for r
      using l by simp
    ultimately show ?thesis
      using True call by simp
  next
    case False
    then show ?thesis using call by simp
  qed
qed

lemma AvccMarshal_box_witness:
  "\<exists>buf. AvccMarshal [0x67, 66, 0, 30, 0x68, 0xCE] (replicate 256 0)
      (\<lparr>u_type = 0x67, u_size = 4, u_data = Some 0\<rparr> # \<lparr>u_type = 0x68, u_size = 2, u_data = Some 4\<rparr> # []) = Some (25, buf) \<and>
    take 25 buf = box ''avcC'' [1, 66, 0, 30, 0xFF, 0xE1, 0, 4, 0x67, 66, 0, 30, 1, 0, 2, 0x68, 0xCE]"
  using AvccMarshal_box [of "[0x67, 66, 0, 30, 0x68, 0xCE]" "\<lparr>u_type = 0x67, u_size = 4, u_data = Some 0\<rparr>"
      "[0x67, 66, 0, 30]" "\<lparr>u_type = 0x68, u_size = 2, u_data = Some 4\<rparr>" "[0x68, 0xCE]" "[]"]
  by (simp add: unit_copy_def unit_bytes_def mem_slice_def eval_nat_numeral)

end
