(* ===== verification/Mp4_Writer.thy ===== *)
theory Mp4_Writer
  imports Mp4_Trak
begin

section \<open>libfile::Mp4: writing an MP4 file (src/stream/mp4.hpp)\<close>

text \<open>
  A stdio stream opened with \<open>wb+\<close> is its contents and its position; writes succeed. A frame is the
  array \<open>m\<close> at the pointer \<open>data\<close>, of which \<open>len\<close> bytes are the frame.
\<close>

record stdio =
  f_data :: bytes
  f_pos :: nat

definition fopen_wb :: stdio where
  "fopen_wb = \<lparr>f_data = [], f_pos = 0\<rparr>"

definition fwrite :: "bytes \<Rightarrow> stdio \<Rightarrow> stdio" where
  "fwrite bs f =
     (let d = f_data f @ replicate (f_pos f - length (f_data f)) 0
      in f\<lparr>f_data := take (f_pos f) d @ bs @ drop (f_pos f + length bs) d, f_pos := f_pos f + length bs\<rparr>)"

definition fseek_set :: "nat \<Rightarrow> stdio \<Rightarrow> stdio" where
  "fseek_set n f = f\<lparr>f_pos := n\<rparr>"

text \<open>\<open>fwrite(p, n, 1, f)\<close> returns the number of items written: none for an empty item.\<close>

definition items :: "bytes \<Rightarrow> int" where
  "items bs = (if bs = [] then 0 else 1)"

record mp4 =
  mp_file :: "stdio option"
  mp_mdat :: mdat
  mp_trakv :: track
  mp_traka :: track

definition Mp4 :: mp4 where
  "Mp4 = \<lparr>mp_file = None, mp_mdat = mdat_zero, mp_trakv = Trak, mp_traka = Trak\<rparr>"

definition Mp4_Open :: "bool \<Rightarrow> mp4 \<Rightarrow> bool \<times> mp4" where
  "Mp4_Open ok s = (ok, s\<lparr>mp_file := (if ok then Some fopen_wb else None)\<rparr>)"

definition WriteFtyp :: "stdio \<Rightarrow> mp4 \<Rightarrow> mp4" where
  "WriteFtyp f s =
     (let md = (mp_mdat s)\<lparr>da_type := LE32TYPE ''mdat'', da_size := word_of_nat (sizeof_ftyp + sizeof_mdat)\<rparr>;
          f = fwrite (ftyp_bytes (ftyp_Marshal ftyp_zero)) f;
          f = fwrite (mdat_bytes md) f
      in s\<lparr>mp_mdat := md, mp_file := Some f\<rparr>)"

definition WriteMoov :: "u32 \<Rightarrow> stdio \<Rightarrow> mp4 \<Rightarrow> (stdio \<times> mp4) option" where
  "WriteMoov now f s =
     (let (len, dur, tv) = Trak_Marshal (mp_trakv s);
          (len1, dur1, ta) = Trak_Marshal (MakeAudio (mp_traka s));
          moov = moov_zero\<lparr>mo_mvhd := mvhd_zero\<lparr>mv_duration := dur\<rparr>\<rparr>;
          md = (mp_mdat s)\<lparr>da_size := HTOBE32 (da_size (mp_mdat s) - word_of_nat sizeof_ftyp)\<rparr>
      in do {
        bv \<leftarrow> mem_slice (t_stsdv tv) 0 len;
        ba \<leftarrow> mem_slice (t_stsdv ta) 0 len1;
        let f = fwrite (moov_bytes (moov_Marshal now (word_of_nat len) (word_of_nat len1) moov)) f;
        let f = fwrite bv f;
        let f = fwrite ba f;
        let f = fseek_set sizeof_ftyp f;
        let f = fwrite (mdat_bytes md) f;
        Some (f, s\<lparr>mp_trakv := tv, mp_traka := ta, mp_mdat := md\<rparr>)
      })"

text \<open>\<open>Close\<close> also returns what the closed file holds.\<close>

definition Mp4_Close :: "u32 \<Rightarrow> mp4 \<Rightarrow> (bytes option \<times> mp4) option" where
  "Mp4_Close now s =
     (case mp_file s of
        None \<Rightarrow> Some (None, s)
      | Some f \<Rightarrow> do {
          (f, s) \<leftarrow> WriteMoov now f s;
          Some (Some (f_data f), s\<lparr>mp_file := None\<rparr>)
        })"

text \<open>\<open>WriteFrame\<close> in its two parts: splitting the frame, with the headers before the first key frame, and storing
  the sample. An empty item may be written from any pointer.\<close>

definition Mp4_start :: "u8 \<Rightarrow> bytes \<Rightarrow> nat \<Rightarrow> stdio \<Rightarrow> mp4 \<Rightarrow> (nat option \<times> nat \<times> mp4) option" where
  "Mp4_start ftype m len f s =
     (if ftype < 3 then do {
        (data, len, nalus) \<leftarrow> Split_nalu m 0 len [];
        if da_type (mp_mdat s) = 0 \<and> ftype = 1 then do {
          tv \<leftarrow> MakeVideo m nalus (mp_trakv s);
          Some (data, len, WriteFtyp f (s\<lparr>mp_trakv := tv\<rparr>))
        } else Some (data, len, s)
      } else Some (Some 0, len, s))"

definition item_at :: "bytes \<Rightarrow> nat option \<Rightarrow> nat \<Rightarrow> bytes option" where
  "item_at m data len =
     (case data of None \<Rightarrow> (if len = 0 then Some [] else None) | Some d \<Rightarrow> mem_slice m d len)"

definition Mp4_store :: "int \<Rightarrow> u8 \<Rightarrow> bytes \<Rightarrow> nat option \<Rightarrow> nat \<Rightarrow> mp4 \<Rightarrow> (int \<times> mp4) option" where
  "Mp4_store ts ftype m data len s =
     (if da_type (mp_mdat s) = 0 then Some (0, s)
      else do {
        f \<leftarrow> mp_file s;
        bs \<leftarrow> item_at m data len;
        if ftype = 3 then do {
          let (off, t) = AppendSample ts (da_size (mp_mdat s)) (word_of_nat len) False (mp_traka s);
          Some (items bs, s\<lparr>mp_traka := t, mp_mdat := (mp_mdat s)\<lparr>da_size := off\<rparr>, mp_file := Some (fwrite bs f)\<rparr>)
        } else do {
          let (off, t) = AppendSample ts (da_size (mp_mdat s)) (word_of_nat (len + 4)) (ftype = 1) (mp_trakv s);
          let f = fwrite (le32 (HTOBE32 (word_of_nat len))) f;
          Some (items bs, s\<lparr>mp_trakv := t, mp_mdat := (mp_mdat s)\<lparr>da_size := off\<rparr>, mp_file := Some (fwrite bs f)\<rparr>)
        }
      })"

definition Mp4_WriteFrame :: "int \<Rightarrow> u8 \<Rightarrow> bytes \<Rightarrow> nat \<Rightarrow> mp4 \<Rightarrow> (int \<times> mp4) option" where
  "Mp4_WriteFrame ts ftype m len s =
     (case mp_file s of
        None \<Rightarrow> Some (-1, s)
      | Some f \<Rightarrow> do {
          (data, len, s) \<leftarrow> Mp4_start ftype m len f s;
          Mp4_store ts ftype m data len s
        })"

subsection \<open>Samples and their place in the file\<close>

lemma fwrite_end: "f_pos f = length (f_data f) \<Longrightarrow>
    fwrite bs f = f\<lparr>f_data := f_data f @ bs, f_pos := length (f_data f) + length bs\<rparr>"
  by (simp add: fwrite_def Let_def)

text \<open>The tables of a track locate the samples \<open>cs\<close> in the contents \<open>d\<close>.\<close>

definition located :: "bytes \<Rightarrow> track \<Rightarrow> bytes list \<Rightarrow> bool" where
  "located d t cs \<longleftrightarrow>
     length (sizes_of t) = length cs \<and> length (offsets_of t) = length cs \<and>
     (\<forall>i < length cs. 36 \<le> unat (offsets_of t ! i) \<and>
        mem_slice d (unat (offsets_of t ! i)) (unat (sizes_of t ! i)) = Some (cs ! i))"

lemma mem_slice_append1: "mem_slice d i n = Some x \<Longrightarrow> mem_slice (d @ e) i n = Some x"
  by (auto simp: mem_slice_def split: if_splits)

lemma located_grow: "located d t cs \<Longrightarrow> located (d @ e) t cs"
  by (auto simp: located_def intro: mem_slice_append1)

lemma located_append:
  assumes "located d t cs" "AppendSample ts (word_of_nat (length d)) (word_of_nat (length c)) key t = (off, t')"
    and "length d + length c < 2 ^ 32" "36 \<le> length d"
  shows "located (d @ c) t' (cs @ [c])" "off = word_of_nat (length d + length c)"
proof -
  note a = AppendSample_tables[OF assms(2)]
  have u: "unat (word_of_nat (length d) :: u32) = length d" "unat (word_of_nat (length c) :: u32) = length c"
    using assms(3) by (simp_all add: unsigned_of_nat take_bit_nat_eq_self)
  have "mem_slice (d @ c) (length d) (length c) = Some c"
    by (simp add: mem_slice_def)
  then show "located (d @ c) t' (cs @ [c])"
    using assms(1,4) u by (auto simp: located_def a nth_append less_Suc_eq intro: mem_slice_append1)
  show "off = word_of_nat (length d + length c)"
    using a(1) by simp
qed

text \<open>What a frame contributes: its last unit, with its length in front unless it is audio.\<close>

definition sample_of :: "u8 \<Rightarrow> bytes \<Rightarrow> nat \<Rightarrow> bytes option" where
  "sample_of ftype m len = do {
     (data, len, nalus) \<leftarrow> (if ftype < 3 then Split_nalu m 0 len [] else Some (Some 0, len, []));
     bs \<leftarrow> item_at m data len;
     Some (if ftype = 3 then bs else be32 (word_of_nat len) @ bs)
   }"

definition mdat_open :: "nat \<Rightarrow> mdat" where
  "mdat_open n = \<lparr>da_size = word_of_nat n, da_type = LE32TYPE ''mdat''\<rparr>"

text \<open>
  The invariant: nothing is written before the first key frame; afterwards the file is the type box, the
  eight bytes of the data box and the samples, the running size is the position, and the tables of both tracks locate
  their samples.
\<close>

definition mp4_inv :: "mp4 \<Rightarrow> bytes list \<Rightarrow> bytes list \<Rightarrow> bool" where
  "mp4_inv s vs as \<longleftrightarrow>
     fresh_tables (mp_trakv s) \<and> fresh_tables (mp_traka s) \<and> t_stsdv (mp_traka s) = [] \<and>
     (\<exists>f. mp_file s = Some f \<and> f_pos f = length (f_data f) \<and>
       (if da_type (mp_mdat s) = 0
        then f_data f = [] \<and> vs = [] \<and> as = [] \<and> mp_mdat s = mdat_zero \<and>
          sizes_of (mp_trakv s) = [] \<and> offsets_of (mp_trakv s) = [] \<and> sizes_of (mp_traka s) = [] \<and>
          offsets_of (mp_traka s) = [] \<and> keys_of (mp_trakv s) = []
        else t_id (mp_trakv s) = 1 \<and> length (t_stsdv (mp_trakv s)) \<le> 358 \<and>
          length (keys_of (mp_trakv s)) \<le> length vs \<and>
          (\<exists>payload. f_data f = ftyp_bytes (ftyp_Marshal ftyp_zero) @ mdat_bytes (mdat_open 36) @ payload) \<and>
          length (f_data f) < 2 ^ 32 \<and> mp_mdat s = mdat_open (length (f_data f)) \<and>
          located (f_data f) (mp_trakv s) vs \<and> located (f_data f) (mp_traka s) as))"

text \<open>The runs from a freshly opened file, with the samples of the two tracks as they are written.\<close>

inductive mp4_run :: "mp4 \<Rightarrow> bytes list \<Rightarrow> bytes list \<Rightarrow> bool" where
  opened: "mp4_run (snd (Mp4_Open True Mp4)) [] []"
| waiting: "mp4_run s vs as \<Longrightarrow> Mp4_WriteFrame ts ftype m len s = Some (r, s') \<Longrightarrow>
    da_type (mp_mdat s') = 0 \<Longrightarrow> mp4_run s' vs as"
| video: "mp4_run s vs as \<Longrightarrow> Mp4_WriteFrame ts ftype m len s = Some (r, s') \<Longrightarrow>
    da_type (mp_mdat s') \<noteq> 0 \<Longrightarrow> ftype \<noteq> 3 \<Longrightarrow> sample_of ftype m len = Some c \<Longrightarrow>
    (\<exists>f. mp_file s' = Some f \<and> length (f_data f) < 2 ^ 32) \<Longrightarrow> mp4_run s' (vs @ [c]) as"
| audio: "mp4_run s vs as \<Longrightarrow> Mp4_WriteFrame ts 3 m len s = Some (r, s') \<Longrightarrow>
    da_type (mp_mdat s') \<noteq> 0 \<Longrightarrow> sample_of 3 m len = Some c \<Longrightarrow>
    (\<exists>f. mp_file s' = Some f \<and> length (f_data f) < 2 ^ 32) \<Longrightarrow> mp4_run s' vs (as @ [c])"

inductive_cases mp4_runE: "mp4_run s vs as"

lemma MakeVideo_tables:
  assumes "MakeVideo m nalus t = Some t'"
  shows "t_id t' = 1" "fresh_tables t' = fresh_tables t" "sizes_of t' = sizes_of t" "offsets_of t' = offsets_of t"
    "keys_of t' = keys_of t" "length (t_stsdv t') \<le> 358"
proof -
  have "returns (MakeVideo m nalus t) (\<lambda>t'. t_id t' = 1 \<and> fresh_tables t' = fresh_tables t \<and>
      sizes_of t' = sizes_of t \<and> offsets_of t' = offsets_of t \<and> keys_of t' = keys_of t)"
    unfolding MakeVideo_def Let_def
    by (intro returns_intros) (simp_all add: fresh_tables_def sizes_of_def offsets_of_def keys_of_def)
  from returnsD[OF this assms] MakeVideo_stsdv[OF assms]
  show "t_id t' = 1" "fresh_tables t' = fresh_tables t" "sizes_of t' = sizes_of t" "offsets_of t' = offsets_of t"
    "keys_of t' = keys_of t" "length (t_stsdv t') \<le> 358"
    by simp_all
qed

lemma mdat_type_nonzero [simp]: "LE32TYPE ''mdat'' \<noteq> 0"
  by code_simp

lemma WriteFtyp_inv:
  assumes "mp4_inv s vs as" "da_type (mp_mdat s) = 0" "mp_file s = Some f" "MakeVideo m nalus (mp_trakv s) = Some tv"
  shows "mp4_inv (WriteFtyp f (s\<lparr>mp_trakv := tv\<rparr>)) vs as"
proof -
  have f: "f = \<lparr>f_data = [], f_pos = 0\<rparr>" "vs = []" "as = []" "mp_mdat s = mdat_zero"
    using assms by (cases f; simp add: mp4_inv_def)+
  have md: "mdat_zero\<lparr>da_type := LE32TYPE ''mdat'', da_size := 36\<rparr> = mdat_open 36"
    by (simp add: mdat_zero_def mdat_open_def)
  show ?thesis
    using assms(1,2) MakeVideo_tables[OF assms(4)]
    by (auto simp: mp4_inv_def WriteFtyp_def Let_def fwrite_end f md located_def)
      (auto simp: mdat_open_def)
qed

lemma Mp4_start_inv:
  assumes "mp4_inv s vs as" "mp_file s = Some f" "Mp4_start ftype m len f s = Some (data, n, s')"
  shows "mp4_inv s' vs as"
    and "\<exists>us. (if ftype < 3 then Split_nalu m 0 len [] else Some (Some 0, len, [])) = Some (data, n, us)"
  using assms WriteFtyp_inv[OF assms(1) _ assms(2)]
  by (auto simp: Mp4_start_def bind_eq_Some_conv split: if_splits)

lemma Mp4_store_inv:
  assumes inv: "mp4_inv s vs as" and started: "da_type (mp_mdat s) \<noteq> 0"
    and st: "Mp4_store ts ftype m data len s = Some (r, s')"
    and room: "\<And>f. mp_file s' = Some f \<Longrightarrow> length (f_data f) < 2 ^ 32"
  shows "\<exists>bs. item_at m data len = Some bs \<and>
    (if ftype = 3 then mp4_inv s' vs (as @ [bs]) else mp4_inv s' (vs @ [be32 (word_of_nat len) @ bs]) as)"
proof -
  obtain f payload where f: "mp_file s = Some f" "f_pos f = length (f_data f)"
    "f_data f = ftyp_bytes (ftyp_Marshal ftyp_zero) @ mdat_bytes (mdat_open 36) @ payload"
    "mp_mdat s = mdat_open (length (f_data f))"
    and loc: "located (f_data f) (mp_trakv s) vs" "located (f_data f) (mp_traka s) as"
    using inv started by (auto simp: mp4_inv_def)
  obtain bs where bs: "item_at m data len = Some bs"
    using st started f by (auto simp: Mp4_store_def bind_eq_Some_conv)
  have lb: "length bs = len"
    using bs by (auto simp: item_at_def mem_simps split: option.splits if_splits)
  show ?thesis
  proof (cases "ftype = 3")
    case True
    obtain off t where a: "AppendSample ts (word_of_nat (length (f_data f))) (word_of_nat len) False (mp_traka s) = (off, t)"
      by (cases "AppendSample ts (word_of_nat (length (f_data f))) (word_of_nat len) False (mp_traka s)")
    have s': "s' = s\<lparr>mp_traka := t, mp_mdat := (mp_mdat s)\<lparr>da_size := off\<rparr>, mp_file := Some (fwrite bs f)\<rparr>"
      using st started f bs True a by (simp add: Mp4_store_def mdat_open_def)
    have r: "length (f_data f) + length bs < 2 ^ 32"
      using room[of "fwrite bs f"] f by (simp add: s' fwrite_end)
    note l = located_append[OF loc(2) a[folded lb] r]
    show ?thesis
      using inv started f bs True l located_grow[OF loc(1), of bs] r AppendSample_tables(4-)[OF a]
      by (auto simp: mp4_inv_def s' fwrite_end mdat_open_def fresh_tables_def)
  next
    case False
    let ?c = "be32 (word_of_nat len) @ bs"
    obtain off t where a: "AppendSample ts (word_of_nat (length (f_data f))) (word_of_nat (len + 4)) (ftype = 1) (mp_trakv s) = (off, t)"
      by (cases "AppendSample ts (word_of_nat (length (f_data f))) (word_of_nat (len + 4)) (ftype = 1) (mp_trakv s)")
    have s': "s' = s\<lparr>mp_trakv := t, mp_mdat := (mp_mdat s)\<lparr>da_size := off\<rparr>,
        mp_file := Some (fwrite bs (fwrite (be32 (word_of_nat len)) f))\<rparr>"
      using st started f bs False a by (simp add: Mp4_store_def mdat_open_def)
    have r: "length (f_data f) + length ?c < 2 ^ 32"
      using room[of "fwrite bs (fwrite (be32 (word_of_nat len)) f)"] f by (simp add: s' fwrite_end)
    have "len + 4 = length ?c" using lb by simp
    note l = located_append[OF loc(1) a[unfolded this] r]
    show ?thesis
      using inv started f bs False l located_grow[OF loc(2), of ?c] r AppendSample_tables(4-)[OF a]
      by (auto simp: mp4_inv_def s' fwrite_end mdat_open_def fresh_tables_def)
  qed
qed

lemma mp4_run_inv: "mp4_run s vs as \<Longrightarrow> mp4_inv s vs as"
proof (induction rule: mp4_run.induct)
  case opened
  show ?case
    by (simp add: mp4_inv_def Mp4_Open_def Mp4_def fopen_wb_def mdat_zero_def fresh_Trak sizes_of_def offsets_of_def keys_of_def)
    (simp add: Trak_def)
next
  case (waiting s vs as ts ftype m len r s')
  obtain f where f: "mp_file s = Some f" using waiting.IH by (auto simp: mp4_inv_def)
  obtain data n s1 where s1: "Mp4_start ftype m len f s = Some (data, n, s1)"
    "Mp4_store ts ftype m data n s1 = Some (r, s')"
    using waiting.hyps(2) f by (auto simp: Mp4_WriteFrame_def bind_eq_Some_conv)
  have "da_type (mp_mdat s1) = 0"
    using s1(2) waiting.hyps(3) by (auto simp: Mp4_store_def bind_eq_Some_conv split: if_splits prod.splits)
  with s1(2) have "s' = s1" by (simp add: Mp4_store_def)
  then show ?case
    using Mp4_start_inv(1)[OF waiting.IH f s1(1)] by simp
next
  case (video s vs as ts ftype m len r s' c)
  obtain f where f: "mp_file s = Some f" using video.IH by (auto simp: mp4_inv_def)
  obtain data n s1 where s1: "Mp4_start ftype m len f s = Some (data, n, s1)"
    "Mp4_store ts ftype m data n s1 = Some (r, s')"
    using video.hyps(2) f by (auto simp: Mp4_WriteFrame_def bind_eq_Some_conv)
  have "da_type (mp_mdat s1) \<noteq> 0"
    using s1(2) video.hyps(3) by (auto simp: Mp4_store_def)
  then obtain bs where bs: "item_at m data n = Some bs" "mp4_inv s' (vs @ [be32 (word_of_nat n) @ bs]) as"
    using Mp4_store_inv[OF Mp4_start_inv(1)[OF video.IH f s1(1)] _ s1(2)] video.hyps by auto
  have "sample_of ftype m len = Some (be32 (word_of_nat n) @ bs)"
    using Mp4_start_inv(2)[OF video.IH f s1(1)] bs(1) video.hyps(4) by (auto simp: sample_of_def)
  with bs(2) video.hyps(5) show ?case by simp
next
  case (audio s vs as ts m len r s' c)
  obtain f where f: "mp_file s = Some f" using audio.IH by (auto simp: mp4_inv_def)
  obtain data n s1 where s1: "Mp4_start 3 m len f s = Some (data, n, s1)"
    "Mp4_store ts 3 m data n s1 = Some (r, s')"
    using audio.hyps(2) f by (auto simp: Mp4_WriteFrame_def bind_eq_Some_conv)
  have "da_type (mp_mdat s1) \<noteq> 0"
    using s1(2) audio.hyps(3) by (auto simp: Mp4_store_def)
  then obtain bs where bs: "item_at m data n = Some bs" "mp4_inv s' vs (as @ [bs])"
    using Mp4_store_inv[OF Mp4_start_inv(1)[OF audio.IH f s1(1)] _ s1(2)] audio.hyps by auto
  have "sample_of 3 m len = Some bs"
    using Mp4_start_inv(2)[OF audio.IH f s1(1)] bs(1) by (auto simp: sample_of_def)
  with bs(2) audio.hyps(4) show ?case by simp
qed

subsection \<open>Closing\<close>

lemma located_header:
  assumes "located (h @ p) t cs" "length h = 36" "length h' = 36"
  shows "located (h' @ p @ q) t cs"
proof -
  have "mem_slice (h' @ p @ q) i n = Some x" if "mem_slice (h @ p) i n = Some x" "36 \<le> i" for i n x
    using that assms(2,3) by (auto simp: mem_simps)
  then show ?thesis
    using assms(1) by (auto simp: located_def)
qed

lemma moov_box:
  assumes "length rest = a + b" "116 + a + b < 2 ^ 32"
  shows "\<exists>mv. moov_bytes (moov_Marshal now (word_of_nat a) (word_of_nat b) moov) @ rest =
    box ''moov'' (box ''mvhd'' mv @ rest)"
proof -
  obtain mv where mv: "mvhd_bytes (mo_mvhd (moov_Marshal now (word_of_nat a) (word_of_nat b) moov)) = box ''mvhd'' mv"
    using mvhd_box by blast
  have "length mv = 100"
    using arg_cong[OF mv, of length] by simp
  then show ?thesis
    using assms(1) by (intro exI[of _ mv]) (simp add: moov_bytes_def mv, simp add: moov_Marshal_def box_def[of "''moov''"])
qed

text \<open>
  C1. An MP4 file written by any sequence of frames and closed. Once a key frame has been written, the file is
  exactly three boxes with right sizes, \<open>ftyp\<close>, \<open>mdat\<close> and \<open>moov\<close>, the last holding a movie header and the two tracks;
  and every entry of their offset and size tables points at the bytes of its sample in the file.
\<close>

theorem mp4_file_layout:
  assumes run: "mp4_run s vs as" and started: "da_type (mp_mdat s) \<noteq> 0"
    and room: "length vs < 2 ^ 26" "length as < 2 ^ 26"
  shows "\<exists>d s' t p mv tv ta. Mp4_Close now s = Some (Some d, s') \<and>
    d = box ''ftyp'' t @ box ''mdat'' p @ box ''moov'' (box ''mvhd'' mv @ tv @ ta) \<and>
    trak_shape ''vmhd'' (t_stsdv (mp_trakv s) @ table_boxes (mp_trakv s)) tv \<and>
    trak_shape ''smhd'' (stsda_bytes (stsda_Marshal stsda_zero) @ table_boxes (MakeAudio (mp_traka s))) ta \<and>
    located d (mp_trakv s) vs \<and> located d (mp_traka s) as"
proof -
  have inv: "mp4_inv s vs as" by (rule mp4_run_inv[OF run])
  then obtain f p where f: "mp_file s = Some f" "f_pos f = length (f_data f)"
    and fd: "f_data f = ftyp_bytes (ftyp_Marshal ftyp_zero) @ mdat_bytes (mdat_open 36) @ p"
    and md: "mp_mdat s = mdat_open (length (f_data f))" and small: "length (f_data f) < 2 ^ 32"
    and loc: "located (f_data f) (mp_trakv s) vs" "located (f_data f) (mp_traka s) as"
    and fr: "fresh_tables (mp_trakv s)" "fresh_tables (MakeAudio (mp_traka s))"
    and id1: "t_id (mp_trakv s) = 1" and no_stsd: "t_stsdv (mp_traka s) = []"
    and small_stsd: "length (t_stsdv (mp_trakv s)) \<le> 358" "length (keys_of (mp_trakv s)) \<le> length vs"
    using started by (auto simp: mp4_inv_def)
  obtain lv dur tv where v: "Trak_Marshal (mp_trakv s) = (lv, dur, tv)" by (cases "Trak_Marshal (mp_trakv s)")
  obtain la dura ta where a: "Trak_Marshal (MakeAudio (mp_traka s)) = (la, dura, ta)"
    by (cases "Trak_Marshal (MakeAudio (mp_traka s))")
  have tables: "length (t_offsets (mp_trakv s)) = length (t_sizes (mp_trakv s))"
    "length (t_offsets (MakeAudio (mp_traka s))) = length (t_sizes (MakeAudio (mp_traka s)))"
    using loc by (simp_all add: located_def sizes_of_def offsets_of_def)
  have lens: "length (t_sizes (mp_trakv s)) = length vs" "length (t_keys (mp_trakv s)) \<le> length vs"
    "length (t_sizes (MakeAudio (mp_traka s))) = length as"
    using loc small_stsd(2) by (simp_all add: located_def sizes_of_def keys_of_def)
  have room': "length (t_stsdv (mp_trakv s)) + length (table_bytes (mp_trakv s)) < 2 ^ 30"
    "length (table_bytes (MakeAudio (mp_traka s))) < 2 ^ 30"
    using room lens small_stsd(1) unfolding table_bytes_boxes[OF fr(1) tables(1)] table_bytes_boxes[OF fr(2) tables(2)]
      length_table_boxes[OF tables(1)] length_table_boxes[OF tables(2)] by auto
  have sv: "trak_shape ''vmhd'' (t_stsdv (mp_trakv s) @ table_boxes (mp_trakv s)) (t_stsdv tv)"
    and lv: "lv = length (t_stsdv tv)"
    using Trak_Marshal_shape[OF fr(1) tables(1)] room' id1 v by auto
  have stsd: "t_stsdv (MakeAudio (mp_traka s)) = stsda_bytes (stsda_Marshal stsda_zero)"
    using no_stsd by (simp add: MakeAudio_def)
  have sa: "trak_shape ''smhd'' (stsda_bytes (stsda_Marshal stsda_zero) @ table_boxes (MakeAudio (mp_traka s))) (t_stsdv ta)"
    and la: "la = length (t_stsdv ta)"
    using Trak_Marshal_shape[OF fr(2) tables(2)] room'(2) a stsd by auto
  have bv: "length (t_stsdv tv) = 260 + length (t_stsdv (mp_trakv s)) + length (table_bytes (mp_trakv s))"
    using arg_cong[OF v, of "\<lambda>x. length (t_stsdv (snd (snd x)))"] by (simp add: Trak_Marshal_def Let_def)
  have ba: "length (t_stsdv ta) = 351 + length (table_bytes (MakeAudio (mp_traka s)))"
    using arg_cong[OF a, of "\<lambda>x. length (t_stsdv (snd (snd x)))"] stsd by (simp add: Trak_Marshal_def Let_def)
  define mo where "mo = moov_bytes (moov_Marshal now (word_of_nat lv) (word_of_nat la)
      (moov_zero\<lparr>mo_mvhd := mvhd_zero\<lparr>mv_duration := dur\<rparr>\<rparr>)) @ t_stsdv tv @ t_stsdv ta"
  obtain mv where mv: "mo = box ''moov'' (box ''mvhd'' mv @ t_stsdv tv @ t_stsdv ta)"
    using moov_box[of "t_stsdv tv @ t_stsdv ta" lv la] room' lv la bv ba unfolding mo_def by auto
  have sz: "da_size (mdat_open (36 + length p)) - 28 = 8 + word_of_nat (length p)"
    by (simp add: mdat_open_def)
  define d where "d = ftyp_bytes (ftyp_Marshal ftyp_zero) @
      (mdat_bytes ((mdat_open (length (f_data f)))\<lparr>da_size := HTOBE32 (word_of_nat (8 + length p))\<rparr>) @ p) @ mo"
  have close: "\<exists>s'. Mp4_Close now s = Some (Some d, s')"
    using f by (auto simp: Mp4_Close_def WriteMoov_def v a md sz mem_slice_def lv la fwrite_def fseek_set_def
        fd mo_def Let_def d_def)
  note d_def
  also have "mdat_bytes ((mdat_open (length (f_data f)))\<lparr>da_size := HTOBE32 (word_of_nat (8 + length p))\<rparr>) @ p = box ''mdat'' p"
    by (simp add: mdat_bytes_def mdat_open_def box_def)
  finally have d: "d = ftyp_bytes (ftyp_Marshal ftyp_zero) @ box ''mdat'' p @ mo" .
  obtain t where t: "ftyp_bytes (ftyp_Marshal ftyp_zero) = box ''ftyp'' t"
    using ftyp_box by blast
  have "located d (mp_trakv s) vs" "located d (mp_traka s) as"
  proof -
    have h: "d = (ftyp_bytes (ftyp_Marshal ftyp_zero) @ be32 (word_of_nat (8 + length p)) @ asc ''mdat'') @ p @ mo"
      by (simp add: d box_def)
    have fd': "f_data f = (ftyp_bytes (ftyp_Marshal ftyp_zero) @ mdat_bytes (mdat_open 36)) @ p"
      by (simp add: fd)
    show "located d (mp_trakv s) vs" "located d (mp_traka s) as"
      unfolding h
      by (rule located_header[OF loc(1)[unfolded fd']] located_header[OF loc(2)[unfolded fd']]; simp)+
  qed
  then show ?thesis
    using close sv sa d t mv by blast
qed

text \<open>A run of one frame: a picture parameter set and an IDR unit (no sequence parameter set).\<close>

definition example_frame :: bytes where
  "example_frame = [0, 0, 0, 1, 0x68, 0xCE, 0, 0, 0, 1, 0x65, 0x88, 1, 1, 1]"

lemma example_split:
  "Split_nalu example_frame 0 12 [] = Some (Some 10, 2, [\<lparr>u_type = 0x68, u_size = 2, u_data = Some 4\<rparr>])"
  unfolding example_frame_def by code_simp

lemma example_video:
  "\<exists>tv. MakeVideo example_frame [\<lparr>u_type = 0x68, u_size = 2, u_data = Some 4\<rparr>] Trak = Some tv"
proof -
  have "AvccMarshal example_frame (replicate 256 0) [unit_zero, \<lparr>u_type = 0x68, u_size = 2, u_data = Some 4\<rparr>] \<noteq> None"
    by code_simp
  then obtain n buf where "AvccMarshal example_frame (replicate 256 0)
      [unit_zero, \<lparr>u_type = 0x68, u_size = 2, u_data = Some 4\<rparr>] = Some (n, buf)"
    by auto
  moreover have "Sort [\<lparr>u_type = 0x68, u_size = 2, u_data = Some 4\<rparr>] =
      Some [unit_zero, \<lparr>u_type = 0x68, u_size = 2, u_data = Some 4\<rparr>]"
    by code_simp
  ultimately show ?thesis
    by (simp add: MakeVideo_def mem_read_def unit_copy_def unit_zero_def Unit_decode_sps_def IsH264_def
        hevc_decode_sps_def Let_def)
qed

lemma mp4_file_layout_witness:
  "\<exists>s d s' t p mv tv ta. mp4_run s [be32 2 @ [0x65, 0x88]] [] \<and> Mp4_Close 0 s = Some (Some d, s') \<and>
    d = box ''ftyp'' t @ box ''mdat'' p @ box ''moov'' (box ''mvhd'' mv @ tv @ ta) \<and>
    located d (mp_trakv s) [be32 2 @ [0x65, 0x88]]"
proof -
  obtain tv where tv: "MakeVideo example_frame [\<lparr>u_type = 0x68, u_size = 2, u_data = Some 4\<rparr>] Trak = Some tv"
    using example_video by blast
  let ?s0 = "snd (Mp4_Open True Mp4)"
  have sl: "mem_slice example_frame 10 2 = Some [0x65, 0x88]"
    by (simp add: example_frame_def mem_slice_def)
  obtain off t where ap: "AppendSample 1 (word_of_nat 36) (word_of_nat (2 + 4)) True tv = (off, t)"
    by (cases "AppendSample 1 (word_of_nat 36) (word_of_nat (2 + 4)) True tv")
  obtain r s where w: "Mp4_WriteFrame 1 1 example_frame 12 ?s0 = Some (r, s)"
    and s: "da_type (mp_mdat s) \<noteq> 0" "\<exists>f. mp_file s = Some f \<and> length (f_data f) < 2 ^ 32"
    using ap by (simp add: Mp4_WriteFrame_def Mp4_start_def Mp4_store_def Mp4_Open_def Mp4_def example_split tv
        WriteFtyp_def Let_def item_at_def sl mdat_zero_def fopen_wb_def fwrite_def)
  have "sample_of 1 example_frame 12 = Some (be32 2 @ [0x65, 0x88])"
    by (simp add: sample_of_def example_split item_at_def sl)
  from mp4_run.video[OF mp4_run.opened w s(1) _ this s(2)]
  have run: "mp4_run s [be32 2 @ [0x65, 0x88]] []" by simp
  show ?thesis
    using mp4_file_layout[OF run s(1), of 0] run by (force intro!: exI[of _ s])
qed

end
