(* ===== verification/Fmp4_Writer.thy ===== *)
theory Fmp4_Writer
  imports Mp4_Writer
begin

section \<open>libfile::FMp4: writing a fragmented MP4 file (src/stream/fmp4.hpp)\<close>

text \<open>
  After the headers every frame is one fragment: the members of \<open>moof_\<close> that depend on the frame are
  updated, then the struct (which ends with the header of the data box) and the sample are written.
\<close>

definition version_flag :: "u32 \<Rightarrow> u32 \<Rightarrow> u32" where
  "version_flag v f = push_bit 24 v OR f"

subsection \<open>The structs\<close>

record trex =
  tx_size :: u32
  tx_type :: u32
  tx_verflags :: u32
  tx_track_id :: u32
  tx_default_sample_descriptionIndex :: u32
  tx_default_sample_duration :: u32
  tx_default_sample_size :: u32
  tx_default_sample_flags :: u32

definition trex_zero :: trex where
  "trex_zero = \<lparr>
    tx_size = 0, tx_type = 0, tx_verflags = 0, tx_track_id = 0,
    tx_default_sample_descriptionIndex = 0, tx_default_sample_duration = 0,
    tx_default_sample_size = 0, tx_default_sample_flags = 0\<rparr>"

definition trex_bytes :: "trex \<Rightarrow> bytes" where [layout]:
  "trex_bytes x =
     le32 (tx_size x) @ le32 (tx_type x) @ le32 (tx_verflags x) @ le32 (tx_track_id x) @
     le32 (tx_default_sample_descriptionIndex x) @ le32 (tx_default_sample_duration x) @
     le32 (tx_default_sample_size x) @ le32 (tx_default_sample_flags x)"

abbreviation (input) sizeof_trex :: nat where
  "sizeof_trex \<equiv> 32"

lemma length_trex_bytes [simp]: "length (trex_bytes x) = sizeof_trex"
  by (simp add: trex_bytes_def)

record mvex =
  mx_size :: u32
  mx_type :: u32
  mx_trex :: trex
  mx_trex2 :: trex

definition mvex_zero :: mvex where
  "mvex_zero = \<lparr>
    mx_size = 0, mx_type = 0, mx_trex = trex_zero, mx_trex2 = trex_zero\<rparr>"

definition mvex_bytes :: "mvex \<Rightarrow> bytes" where [layout]:
  "mvex_bytes x =
     le32 (mx_size x) @ le32 (mx_type x) @ trex_bytes (mx_trex x) @ trex_bytes (mx_trex2 x)"

abbreviation (input) sizeof_mvex :: nat where
  "sizeof_mvex \<equiv> 72"

lemma length_mvex_bytes [simp]: "length (mvex_bytes x) = sizeof_mvex"
  by (simp add: mvex_bytes_def)

record mfhd =
  mf_size :: u32
  mf_type :: u32
  mf_verflags :: u32
  mf_sequenceNumber :: u32

definition mfhd_zero :: mfhd where
  "mfhd_zero = \<lparr>
    mf_size = 0, mf_type = 0, mf_verflags = 0, mf_sequenceNumber = 0\<rparr>"

definition mfhd_bytes :: "mfhd \<Rightarrow> bytes" where [layout]:
  "mfhd_bytes x =
     le32 (mf_size x) @ le32 (mf_type x) @ le32 (mf_verflags x) @ le32 (mf_sequenceNumber x)"

abbreviation (input) sizeof_mfhd :: nat where
  "sizeof_mfhd \<equiv> 16"

lemma length_mfhd_bytes [simp]: "length (mfhd_bytes x) = sizeof_mfhd"
  by (simp add: mfhd_bytes_def)

record tfhd =
  fh_size :: u32
  fh_type :: u32
  fh_verflags :: u32
  fh_trackId :: u32

definition tfhd_zero :: tfhd where
  "tfhd_zero = \<lparr>
    fh_size = 0, fh_type = 0, fh_verflags = 0, fh_trackId = 0\<rparr>"

definition tfhd_bytes :: "tfhd \<Rightarrow> bytes" where [layout]:
  "tfhd_bytes x =
     le32 (fh_size x) @ le32 (fh_type x) @ le32 (fh_verflags x) @ le32 (fh_trackId x)"

abbreviation (input) sizeof_tfhd :: nat where
  "sizeof_tfhd \<equiv> 16"

lemma length_tfhd_bytes [simp]: "length (tfhd_bytes x) = sizeof_tfhd"
  by (simp add: tfhd_bytes_def)

record tfdt =
  fd_size :: u32
  fd_type :: u32
  fd_verflags :: u32
  fd_decode_time :: u32

definition tfdt_zero :: tfdt where
  "tfdt_zero = \<lparr>
    fd_size = 0, fd_type = 0, fd_verflags = 0, fd_decode_time = 0\<rparr>"

definition tfdt_bytes :: "tfdt \<Rightarrow> bytes" where [layout]:
  "tfdt_bytes x =
     le32 (fd_size x) @ le32 (fd_type x) @ le32 (fd_verflags x) @ le32 (fd_decode_time x)"

abbreviation (input) sizeof_tfdt :: nat where
  "sizeof_tfdt \<equiv> 16"

lemma length_tfdt_bytes [simp]: "length (tfdt_bytes x) = sizeof_tfdt"
  by (simp add: tfdt_bytes_def)

record trun_sample =
  ts_duration :: u32
  ts_size :: u32
  ts_flags :: u32
  ts_time_offset :: u32

definition trun_sample_zero :: trun_sample where
  "trun_sample_zero = \<lparr>
    ts_duration = 0, ts_size = 0, ts_flags = 0, ts_time_offset = 0\<rparr>"

definition trun_sample_bytes :: "trun_sample \<Rightarrow> bytes" where [layout]:
  "trun_sample_bytes x =
     le32 (ts_duration x) @ le32 (ts_size x) @ le32 (ts_flags x) @ le32 (ts_time_offset x)"

abbreviation (input) sizeof_trun_sample :: nat where
  "sizeof_trun_sample \<equiv> 16"

lemma length_trun_sample_bytes [simp]: "length (trun_sample_bytes x) = sizeof_trun_sample"
  by (simp add: trun_sample_bytes_def)

record trun =
  tn_size :: u32
  tn_type :: u32
  tn_verflags :: u32
  tn_sample_count :: u32
  tn_data_offset :: u32
  tn_sample :: trun_sample

definition trun_zero :: trun where
  "trun_zero = \<lparr>
    tn_size = 0, tn_type = 0, tn_verflags = 0, tn_sample_count = 0, tn_data_offset = 0,
    tn_sample = trun_sample_zero\<rparr>"

definition trun_bytes :: "trun \<Rightarrow> bytes" where [layout]:
  "trun_bytes x =
     le32 (tn_size x) @ le32 (tn_type x) @ le32 (tn_verflags x) @ le32 (tn_sample_count x) @
     le32 (tn_data_offset x) @ trun_sample_bytes (tn_sample x)"

abbreviation (input) sizeof_trun :: nat where
  "sizeof_trun \<equiv> 36"

lemma length_trun_bytes [simp]: "length (trun_bytes x) = sizeof_trun"
  by (simp add: trun_bytes_def)

record traf =
  ta_size :: u32
  ta_type :: u32
  ta_tfhd :: tfhd
  ta_tfdt :: tfdt
  ta_trun :: trun

definition traf_zero :: traf where
  "traf_zero = \<lparr>
    ta_size = 0, ta_type = 0, ta_tfhd = tfhd_zero, ta_tfdt = tfdt_zero, ta_trun = trun_zero\<rparr>"

definition traf_bytes :: "traf \<Rightarrow> bytes" where [layout]:
  "traf_bytes x =
     le32 (ta_size x) @ le32 (ta_type x) @ tfhd_bytes (ta_tfhd x) @ tfdt_bytes (ta_tfdt x) @
     trun_bytes (ta_trun x)"

abbreviation (input) sizeof_traf :: nat where
  "sizeof_traf \<equiv> 76"

lemma length_traf_bytes [simp]: "length (traf_bytes x) = sizeof_traf"
  by (simp add: traf_bytes_def)

record moof =
  mh_size :: u32
  mh_type :: u32
  mh_mfhd :: mfhd
  mh_traf :: traf
  mh_mdat :: mdat

definition moof_zero :: moof where
  "moof_zero = \<lparr>
    mh_size = 0, mh_type = 0, mh_mfhd = mfhd_zero, mh_traf = traf_zero, mh_mdat = mdat_zero\<rparr>"

definition moof_bytes :: "moof \<Rightarrow> bytes" where [layout]:
  "moof_bytes x =
     le32 (mh_size x) @ le32 (mh_type x) @ mfhd_bytes (mh_mfhd x) @ traf_bytes (mh_traf x) @
     mdat_bytes (mh_mdat x)"

abbreviation (input) sizeof_moof :: nat where
  "sizeof_moof \<equiv> 108"

lemma length_moof_bytes [simp]: "length (moof_bytes x) = sizeof_moof"
  by (simp add: moof_bytes_def)

subsection \<open>Marshal functions\<close>

definition mvex_Marshal :: "mvex \<Rightarrow> mvex" where [marshal_defs]:
  "mvex_Marshal b = b\<lparr>
     mx_size := BESIZEOF sizeof_mvex,
     mx_type := LE32TYPE ''mvex'',
     mx_trex := (mx_trex b)\<lparr>
       tx_size := BESIZEOF sizeof_trex,
       tx_type := LE32TYPE ''trex'',
       tx_verflags := HTOBE32 (version_flag 0 0),
       tx_track_id := HTOBE32 1,
       tx_default_sample_descriptionIndex := HTOBE32 1\<rparr>,
     mx_trex2 := (mx_trex2 b)\<lparr>
       tx_size := BESIZEOF sizeof_trex,
       tx_type := LE32TYPE ''trex'',
       tx_verflags := HTOBE32 (version_flag 0 0),
       tx_track_id := HTOBE32 2,
       tx_default_sample_descriptionIndex := HTOBE32 1\<rparr>\<rparr>"

definition moof_Marshal :: "moof \<Rightarrow> moof" where [marshal_defs]:
  "moof_Marshal b = b\<lparr>
     mh_size := HTOBE32 (word_of_nat (sizeof_moof - sizeof_mdat)),
     mh_type := LE32TYPE ''moof'',
     mh_mfhd := (mh_mfhd b)\<lparr>
       mf_size := BESIZEOF sizeof_mfhd,
       mf_type := LE32TYPE ''mfhd'',
       mf_verflags := HTOBE32 (version_flag 0 0)\<rparr>,
     mh_traf := (mh_traf b)\<lparr>
       ta_size := BESIZEOF sizeof_traf,
       ta_type := LE32TYPE ''traf'',
       ta_tfhd := (ta_tfhd (mh_traf b))\<lparr>
         fh_size := BESIZEOF sizeof_tfhd,
         fh_type := LE32TYPE ''tfhd'',
         fh_verflags := HTOBE32 (version_flag 0 0x020000)\<rparr>,
       ta_tfdt := (ta_tfdt (mh_traf b))\<lparr>
         fd_size := BESIZEOF sizeof_tfdt,
         fd_type := LE32TYPE ''tfdt'',
         fd_verflags := HTOBE32 (version_flag 0 0)\<rparr>,
       ta_trun := (ta_trun (mh_traf b))\<lparr>
         tn_size := BESIZEOF sizeof_trun,
         tn_type := LE32TYPE ''trun'',
         tn_verflags := HTOBE32 (version_flag 1 0xf01),
         tn_data_offset := BESIZEOF sizeof_moof,
         tn_sample_count := HTOBE32 1,
         tn_sample := (tn_sample (ta_trun (mh_traf b)))\<lparr>ts_time_offset := 0\<rparr>\<rparr>\<rparr>,
     mh_mdat := (mh_mdat b)\<lparr>da_type := LE32TYPE ''mdat''\<rparr>\<rparr>"

subsection \<open>The writer\<close>

record fmp4 =
  fm_file :: "stdio option"
  fm_firts :: int
  fm_lsts :: int
  fm_seq :: u32
  fm_moof :: moof

definition FMp4 :: fmp4 where
  "FMp4 = \<lparr>fm_file = None, fm_firts = 0, fm_lsts = 0, fm_seq = 0, fm_moof = moof_zero\<rparr>"

definition FMp4_Open :: "bool \<Rightarrow> fmp4 \<Rightarrow> bool \<times> fmp4" where
  "FMp4_Open ok s = (ok, s\<lparr>fm_file := (if ok then Some fopen_wb else None)\<rparr>)"

definition WriteFtypMoov :: "u32 \<Rightarrow> bytes \<Rightarrow> unit_t list \<Rightarrow> stdio \<Rightarrow> stdio option" where
  "WriteFtypMoov now m nalus f = do {
     trakv \<leftarrow> MakeVideo m nalus Trak;
     let (vlen, dv, trakv) = Trak_Marshal trakv;
     let (alen, da, traka) = Trak_Marshal (MakeAudio Trak);
     bv \<leftarrow> mem_slice (t_stsdv trakv) 0 vlen;
     ba \<leftarrow> mem_slice (t_stsdv traka) 0 alen;
     let f = fwrite (ftyp_bytes (ftyp_Marshal ftyp_zero)) f;
     let f = fwrite (moov_bytes (moov_Marshal now (word_of_nat (vlen + sizeof_mvex)) (word_of_nat alen) moov_zero)) f;
     let f = fwrite (mvex_bytes (mvex_Marshal mvex_zero)) f;
     let f = fwrite bv f;
     Some (fwrite ba f)
   }"

definition FMp4_Close :: "fmp4 \<Rightarrow> bytes option \<times> fmp4" where
  "FMp4_Close s =
     (case fm_file s of
        None \<Rightarrow> (None, s)
      | Some f \<Rightarrow>
          (let dur = HTOBE32 (word_of_int (fm_lsts s - fm_firts s));
               f = fseek_set (sizeof_ftyp + 32) f;
               f = fwrite (le32 dur) f
           in (Some (f_data f), s\<lparr>fm_file := None\<rparr>)))"

text \<open>\<open>WriteFrame\<close> in two parts: splitting the frame with the headers, and the fragment.\<close>

definition FMp4_start :: "u32 \<Rightarrow> int \<Rightarrow> u8 \<Rightarrow> bytes \<Rightarrow> nat \<Rightarrow> stdio \<Rightarrow> fmp4 \<Rightarrow> (nat option \<times> nat \<times> fmp4) option" where
  "FMp4_start now ts ftype m len f s =
     (if ftype < 3 then do {
        (data, len, nalus) \<leftarrow> Split_nalu m 0 len [];
        if fm_firts s = 0 \<and> ftype = 1 then do {
          f \<leftarrow> WriteFtypMoov now m nalus f;
          Some (data, len, s\<lparr>fm_file := Some f, fm_moof := moof_Marshal (fm_moof s), fm_firts := ts, fm_lsts := ts\<rparr>)
        } else Some (data, len, s)
      } else Some (Some 0, len, s))"

definition fragment_header :: "int \<Rightarrow> u8 \<Rightarrow> nat \<Rightarrow> fmp4 \<Rightarrow> moof" where
  "fragment_header ts ftype len s =
     (let b = fm_moof s;
          video = ftype < 3;
          b = b\<lparr>mh_mfhd := (mh_mfhd b)\<lparr>mf_sequenceNumber := HTOBE32 (fm_seq s)\<rparr>\<rparr>;
          ssize = (if video then HTOBE32 (word_of_nat (len + 4)) else HTOBE32 (word_of_nat len));
          flags = (if video then HTOBE32 (if ftype = 1 then 0x02000000 else 0x00010000) else 0);
          msize = (if video then HTOBE32 (word_of_nat (len + sizeof_mdat + 4)) else HTOBE32 (word_of_nat (len + sizeof_mdat)));
          tr = mh_traf b;
          tr = tr\<lparr>ta_tfhd := (ta_tfhd tr)\<lparr>fh_trackId := (if video then HTOBE32 1 else HTOBE32 2)\<rparr>,
                  ta_tfdt := (ta_tfdt tr)\<lparr>fd_decode_time := HTOBE32 (word_of_int (ts - fm_firts s))\<rparr>,
                  ta_trun := (ta_trun tr)\<lparr>tn_sample := (tn_sample (ta_trun tr))
                    \<lparr>ts_duration := HTOBE32 (word_of_int (ts - fm_lsts s)), ts_size := ssize, ts_flags := flags\<rparr>\<rparr>\<rparr>
      in b\<lparr>mh_traf := tr, mh_mdat := (mh_mdat b)\<lparr>da_size := msize\<rparr>\<rparr>)"

definition FMp4_store :: "int \<Rightarrow> u8 \<Rightarrow> bytes \<Rightarrow> nat option \<Rightarrow> nat \<Rightarrow> fmp4 \<Rightarrow> (int \<times> fmp4) option" where
  "FMp4_store ts ftype m data len s =
     (if fm_firts s = 0 then Some (0, s)
      else do {
        f \<leftarrow> fm_file s;
        bs \<leftarrow> item_at m data len;
        let b = fragment_header ts ftype len s;
        let f = fwrite (moof_bytes b) f;
        let f = (if ftype = 3 then f else fwrite (le32 (HTOBE32 (word_of_nat len))) f);
        Some (items bs, s\<lparr>fm_seq := fm_seq s + 1, fm_moof := b, fm_lsts := ts, fm_file := Some (fwrite bs f)\<rparr>)
      })"

definition FMp4_WriteFrame :: "u32 \<Rightarrow> int \<Rightarrow> u8 \<Rightarrow> bytes \<Rightarrow> nat \<Rightarrow> fmp4 \<Rightarrow> (int \<times> fmp4) option" where
  "FMp4_WriteFrame now ts ftype m len s =
     (case fm_file s of
        None \<Rightarrow> Some (-1, s)
      | Some f \<Rightarrow> do {
          (data, len, s) \<leftarrow> FMp4_start now ts ftype m len f s;
          FMp4_store ts ftype m data len s
        })"

subsection \<open>One fragment\<close>

text \<open>The specification of a fragment: sequence number, track, decode time, duration, flags and sample.\<close>

definition fragment :: "u32 \<Rightarrow> u32 \<Rightarrow> u32 \<Rightarrow> u32 \<Rightarrow> u32 \<Rightarrow> bytes \<Rightarrow> bytes" where
  "fragment sq tid dt dur fl c =
     box ''moof'' (box ''mfhd'' (be32 0 @ be32 sq) @
       box ''traf'' (box ''tfhd'' (be32 0x20000 @ be32 tid) @ box ''tfdt'' (be32 0 @ be32 dt) @
         box ''trun'' (be32 0x01000f01 @ be32 1 @ be32 108 @
           be32 dur @ be32 (word_of_nat (length c)) @ be32 fl @ be32 0))) @
     box ''mdat'' c"

lemma le32_types [simp]:
  "le32 (LE32TYPE ''moof'') = asc ''moof''" "le32 (LE32TYPE ''mfhd'') = asc ''mfhd''"
  "le32 (LE32TYPE ''traf'') = asc ''traf''" "le32 (LE32TYPE ''tfhd'') = asc ''tfhd''"
  "le32 (LE32TYPE ''tfdt'') = asc ''tfdt''" "le32 (LE32TYPE ''trun'') = asc ''trun''"
  "le32 (LE32TYPE ''mvex'') = asc ''mvex''" "le32 (LE32TYPE ''trex'') = asc ''trex''"
  by code_simp+

text \<open>The struct between two frames: marshalled, with the members of the last frame.\<close>

definition moof_with :: "u32 \<Rightarrow> u32 \<Rightarrow> u32 \<Rightarrow> u32 \<Rightarrow> u32 \<Rightarrow> u32 \<Rightarrow> u32 \<Rightarrow> moof" where
  "moof_with sq tid dt dur sz fl msz =
     (let b = moof_Marshal moof_zero; tr = mh_traf b in
      b\<lparr>mh_mfhd := (mh_mfhd b)\<lparr>mf_sequenceNumber := sq\<rparr>,
        mh_traf := tr\<lparr>ta_tfhd := (ta_tfhd tr)\<lparr>fh_trackId := tid\<rparr>,
          ta_tfdt := (ta_tfdt tr)\<lparr>fd_decode_time := dt\<rparr>,
          ta_trun := (ta_trun tr)\<lparr>tn_sample := (tn_sample (ta_trun tr))
            \<lparr>ts_duration := dur, ts_size := sz, ts_flags := fl\<rparr>\<rparr>\<rparr>,
        mh_mdat := (mh_mdat b)\<lparr>da_size := msz\<rparr>\<rparr>)"

definition marshalled :: "moof \<Rightarrow> bool" where
  "marshalled b \<longleftrightarrow> (\<exists>sq tid dt dur sz fl msz. b = moof_with sq tid dt dur sz fl msz)"

lemma marshalled_init: "marshalled (moof_Marshal moof_zero)"
  unfolding marshalled_def
  by (rule exI[of _ 0], rule exI[of _ 0], rule exI[of _ 0], rule exI[of _ 0], rule exI[of _ 0], rule exI[of _ 0],
      rule exI[of _ 0])
    (simp add: moof_with_def moof_Marshal_def moof_zero_def mfhd_zero_def traf_zero_def tfhd_zero_def
      tfdt_zero_def trun_zero_def trun_sample_zero_def mdat_zero_def Let_def)

lemma fragment_header_with:
  assumes "marshalled (fm_moof s)"
  shows "fragment_header ts ftype len s =
    moof_with (HTOBE32 (fm_seq s)) (HTOBE32 (if ftype < 3 then 1 else 2)) (HTOBE32 (word_of_int (ts - fm_firts s)))
      (HTOBE32 (word_of_int (ts - fm_lsts s))) (HTOBE32 (word_of_nat (if ftype < 3 then len + 4 else len)))
      (HTOBE32 (if ftype < 3 then if ftype = 1 then 0x02000000 else 0x00010000 else 0))
      (HTOBE32 (word_of_nat (if ftype < 3 then len + 12 else len + 8)))"
proof -
  have z: "HTOBE32 0 = 0" by code_simp
  show ?thesis
    using assms unfolding marshalled_def
    by (elim exE) (auto simp: fragment_header_def moof_with_def Let_def z moof_Marshal_def moof_zero_def
      mfhd_zero_def traf_zero_def tfhd_zero_def tfdt_zero_def trun_zero_def trun_sample_zero_def mdat_zero_def
      add.commute [of 12])
qed

lemma moof_with_bytes:
  assumes "length c < 2 ^ 32 - 8"
  shows "moof_bytes (moof_with (HTOBE32 sq) (HTOBE32 tid) (HTOBE32 dt) (HTOBE32 dur) (HTOBE32 (word_of_nat (length c)))
      (HTOBE32 fl) (HTOBE32 (word_of_nat (length c + 8)))) @ c = fragment sq tid dt dur fl c"
proof -
  have v: "version_flag 0 0 = 0" "version_flag 0 0x020000 = 0x20000" "version_flag 1 0xf01 = 0x01000f01"
    by (simp_all add: version_flag_def)
  show ?thesis
    by (simp add: moof_with_def moof_bytes_def Let_def moof_Marshal_def fragment_def box_def BESIZEOF_def
        mfhd_bytes_def traf_bytes_def tfhd_bytes_def tfdt_bytes_def trun_bytes_def trun_sample_bytes_def
        mdat_bytes_def v add.commute) (simp add: le_0)
qed

lemma fragment_written:
  assumes "marshalled (fm_moof s)" "length bs = len" "ftype \<le> 3" "len < 2 ^ 32 - 16"
    and "c = (if ftype = 3 then bs else be32 (word_of_nat len) @ bs)"
  shows "\<exists>tid dt dur fl. moof_bytes (fragment_header ts ftype len s) @ c = fragment (fm_seq s) tid dt dur fl c"
proof -
  have l: "(if ftype < 3 then len + 4 else len) = length c" and small: "length c < 2 ^ 32 - 8"
    using assms(2-5) by (auto simp: not_less)
  then have l8: "(if ftype < 3 then len + 12 else len + 8) = length c + 8"
    by (simp split: if_splits)
  show ?thesis
    unfolding fragment_header_with[OF assms(1)] l l8 moof_with_bytes[OF small] by blast
qed

subsection \<open>The file\<close>

lemma mvex_box: "\<exists>a b. mvex_bytes (mvex_Marshal v) = box ''mvex'' (box ''trex'' a @ box ''trex'' b)"
proof -
  have t: "\<exists>a. trex_bytes (x\<lparr>tx_size := BESIZEOF 32, tx_type := LE32TYPE ''trex'', tx_verflags := f, tx_track_id := i,
      tx_default_sample_descriptionIndex := d\<rparr>) = box ''trex'' a" for x f i d
    by (intro exI, rule is_boxI) (simp_all add: trex_bytes_def BESIZEOF_def)
  obtain a b where ab: "trex_bytes (mx_trex (mvex_Marshal v)) = box ''trex'' a"
    "trex_bytes (mx_trex2 (mvex_Marshal v)) = box ''trex'' b"
    using t by (fastforce simp: mvex_Marshal_def)
  have l: "length a = 24" "length b = 24"
    using arg_cong[OF ab(1), of length] arg_cong[OF ab(2), of length] by simp_all
  show ?thesis
    by (intro exI[of _ a] exI[of _ b])
      (simp add: mvex_bytes_def ab, simp add: mvex_Marshal_def box_def[of "''mvex''"] BESIZEOF_def l)
qed

text \<open>The body of the movie header: its duration stands behind sixteen bytes.\<close>

lemma mvhd_split:
  "\<exists>p q. length p = 16 \<and> mvhd_bytes (mo_mvhd (moov_Marshal now l1 l2 moov_zero)) = box ''mvhd'' (p @ zeros 4 @ q)"
proof -
  let ?x = "mo_mvhd (moov_Marshal now l1 l2 moov_zero)"
  have "mvhd_bytes ?x = be32 108 @ asc ''mvhd'' @
      ([mv_version ?x] @ cells 3 (mv_flags ?x) @ le32 (mv_create_time ?x) @ le32 (mv_modify_time ?x) @
       le32 (mv_timescale ?x)) @ zeros 4 @
      (le32 (mv_playrate ?x) @ le16 (mv_volume ?x) @ cells 10 (mv_reserved ?x) @
       concat (map le32 (cells 9 (mv_matrix ?x))) @ cells 24 (mv_predefined ?x) @ le32 (mv_next_trackid ?x))"
    by (simp add: mvhd_bytes_def moov_Marshal_def moov_zero_def mvhd_zero_def BESIZEOF_def le_0 zeros_def replicate_num)
  then show ?thesis
    by (intro exI conjI[rotated], rule boxI) auto
qed

lemma moov_head:
  "mo_size (moov_Marshal now l1 l2 b) = HTOBE32 (116 + l1 + l2)" "mo_type (moov_Marshal now l1 l2 b) = LE32TYPE ''moov''"
  by (simp_all add: moov_Marshal_def)

lemma WriteFtypMoov_boxes:
  assumes w: "WriteFtypMoov now m nalus fopen_wb = Some f"
  shows "\<exists>t p q x tv ta. length t = 20 \<and> length p = 16 \<and> f_pos f = length (f_data f) \<and>
    f_data f = box ''ftyp'' t @ box ''moov'' (box ''mvhd'' (p @ zeros 4 @ q) @ box ''mvex'' x @
      box ''trak'' tv @ box ''trak'' ta)"
proof -
  obtain vt where vt: "MakeVideo m nalus Trak = Some vt"
    using w by (auto simp: WriteFtypMoov_def bind_eq_Some_conv)
  note mv = MakeVideo_tables[OF vt]
  have fr: "fresh_tables vt" "fresh_tables (MakeAudio Trak)"
    using mv(2) by (simp_all add: fresh_Trak)
  have tb: "length (t_offsets vt) = length (t_sizes vt)" "t_sizes vt = []" "t_keys vt = []"
    "length (t_offsets (MakeAudio Trak)) = length (t_sizes (MakeAudio Trak))"
    using mv by (simp_all add: sizes_of_def offsets_of_def keys_of_def fresh_Trak) (simp add: Trak_def)
  obtain lv dv tv where v: "Trak_Marshal vt = (lv, dv, tv)" by (cases "Trak_Marshal vt")
  obtain la da ta where a: "Trak_Marshal (MakeAudio Trak) = (la, da, ta)" by (cases "Trak_Marshal (MakeAudio Trak)")
  have rv: "length (t_stsdv vt) + length (table_bytes vt) + 260 < 2 ^ 32"
    using mv(1,6) tb unfolding table_bytes_boxes[OF fr(1) tb(1)] length_table_boxes[OF tb(1)] by simp
  have ra: "length (t_stsdv (MakeAudio Trak)) + length (table_bytes (MakeAudio Trak)) + 260 < 2 ^ 32"
    unfolding table_bytes_boxes[OF fr(2) tb(4)] length_table_boxes[OF tb(4)] by (simp add: fresh_Trak MakeAudio_def)
  obtain tvb where tvb: "t_stsdv tv = box ''trak'' tvb" and lv: "lv = length (t_stsdv tv)"
    using Trak_Marshal_shape[OF fr(1) tb(1) rv] v by (auto simp: trak_shape_def)
  obtain tab where tab: "t_stsdv ta = box ''trak'' tab" and la: "la = length (t_stsdv ta)"
    using Trak_Marshal_shape[OF fr(2) tb(4) ra] a by (auto simp: trak_shape_def)
  obtain x1 x2 where x: "mvex_bytes (mvex_Marshal mvex_zero) = box ''mvex'' (box ''trex'' x1 @ box ''trex'' x2)"
    using mvex_box by blast
  have lx: "length (mvex_bytes (mvex_Marshal mvex_zero)) = 72" by simp
  let ?mo = "moov_Marshal now (word_of_nat (lv + 72)) (word_of_nat la) moov_zero"
  obtain p q where pq: "length p = 16" "mvhd_bytes (mo_mvhd ?mo) = box ''mvhd'' (p @ zeros 4 @ q)"
    using mvhd_split by blast
  have lq: "length q = 80"
    using arg_cong[OF pq(2), of length] pq(1) by simp
  obtain t where t: "ftyp_bytes (ftyp_Marshal ftyp_zero) = box ''ftyp'' t"
    using ftyp_box by blast
  have lt: "length t = 20"
    using arg_cong[OF t, of length] by simp
  define rest where "rest = box ''mvex'' (box ''trex'' x1 @ box ''trex'' x2) @ t_stsdv tv @ t_stsdv ta"
  have lrest: "length rest = lv + 72 + la"
    using lx by (simp add: rest_def lv la x)
  have "moov_bytes ?mo @ rest = box ''moov'' (box ''mvhd'' (p @ zeros 4 @ q) @ rest)"
    by (simp add: moov_bytes_def pq(2) [simplified] moov_head box_def[of "''moov''"] lrest pq(1) lq add.commute add.left_commute)
  then have "f_data f = box ''ftyp'' t @ box ''moov'' (box ''mvhd'' (p @ zeros 4 @ q) @ rest) \<and> f_pos f = length (f_data f)"
    using w by (auto simp: WriteFtypMoov_def vt v a mem_slice_def lv la fwrite_def fopen_wb_def x t Let_def rest_def pq(1) lq
        simp del: of_nat_add)
  then show ?thesis
    using lt pq(1) unfolding rest_def tvb tab by blast
qed

text \<open>
  The runs from a freshly opened file on frames with non-zero time stamps (zero stands for "not started"),
  with the samples of the fragments in order.
\<close>

inductive fmp4_run :: "fmp4 \<Rightarrow> bytes list \<Rightarrow> bool" where
  opened: "fmp4_run (snd (FMp4_Open True FMp4)) []"
| waiting: "fmp4_run s cs \<Longrightarrow> FMp4_WriteFrame now ts ftype m len s = Some (r, s') \<Longrightarrow> ts \<noteq> 0 \<Longrightarrow>
    fm_firts s' = 0 \<Longrightarrow> fmp4_run s' cs"
| frame: "fmp4_run s cs \<Longrightarrow> FMp4_WriteFrame now ts ftype m len s = Some (r, s') \<Longrightarrow> ts \<noteq> 0 \<Longrightarrow>
    fm_firts s' \<noteq> 0 \<Longrightarrow> ftype \<le> 3 \<Longrightarrow> sample_of ftype m len = Some c \<Longrightarrow> length c < 2 ^ 32 - 16 \<Longrightarrow>
    fmp4_run s' (cs @ [c])"

text \<open>
  The layout of the file: type box, movie box (header with the four bytes \<open>d\<close> of its duration, the
  extension box, two tracks), then one fragment per sample, numbered from zero.
\<close>

definition fmp4_layout :: "bytes \<Rightarrow> bytes \<Rightarrow> bytes list \<Rightarrow> bool" where
  "fmp4_layout d data cs \<longleftrightarrow>
     (\<exists>t p q x tv ta fs. length t = 20 \<and> length p = 16 \<and>
        data = box ''ftyp'' t @ box ''moov'' (box ''mvhd'' (p @ d @ q) @ box ''mvex'' x @
          box ''trak'' tv @ box ''trak'' ta) @ concat fs \<and>
        length fs = length cs \<and>
        (\<forall>i < length cs. \<exists>tid dt dur fl. fs ! i = fragment (word_of_nat i) tid dt dur fl (cs ! i)))"

definition fmp4_inv :: "fmp4 \<Rightarrow> bytes list \<Rightarrow> bool" where
  "fmp4_inv s cs \<longleftrightarrow>
     (\<exists>f. fm_file s = Some f \<and>
       (if fm_firts s = 0 then f = fopen_wb \<and> cs = [] \<and> fm_seq s = 0 \<and> fm_moof s = moof_zero
        else f_pos f = length (f_data f) \<and> fm_seq s = word_of_nat (length cs) \<and> marshalled (fm_moof s) \<and>
          fmp4_layout (zeros 4) (f_data f) cs))"

lemma fmp4_layout_append:
  assumes "fmp4_layout d data cs" "frag = fragment (word_of_nat (length cs)) tid dt dur fl c"
  shows "fmp4_layout d (data @ frag) (cs @ [c])"
proof -
  obtain t p q x tv ta fs where l: "length t = 20" "length p = 16"
    and data: "data = box ''ftyp'' t @ box ''moov'' (box ''mvhd'' (p @ d @ q) @ box ''mvex'' x @
        box ''trak'' tv @ box ''trak'' ta) @ concat fs"
    and fs: "length fs = length cs" "\<forall>i < length cs. \<exists>tid dt dur fl. fs ! i = fragment (word_of_nat i) tid dt dur fl (cs ! i)"
    using assms(1) unfolding fmp4_layout_def by blast
  have "\<exists>tid dt dur fl. (fs @ [frag]) ! i = fragment (word_of_nat i) tid dt dur fl ((cs @ [c]) ! i)"
    if "i < length (cs @ [c])" for i
    using fs that assms(2) by (cases "i = length cs") (auto simp: nth_append)
  moreover have "data @ frag = box ''ftyp'' t @ box ''moov'' (box ''mvhd'' (p @ d @ q) @ box ''mvex'' x @
        box ''trak'' tv @ box ''trak'' ta) @ concat (fs @ [frag])"
    by (simp add: data)
  moreover have "length (fs @ [frag]) = length (cs @ [c])"
    using fs(1) by simp
  ultimately show ?thesis
    using l unfolding fmp4_layout_def by blast
qed

lemma FMp4_start_inv:
  assumes "fmp4_inv s cs" "fm_file s = Some f" "FMp4_start now ts ftype m len f s = Some (data, n, s')" "ts \<noteq> 0"
  shows "fmp4_inv s' cs"
    and "\<exists>us. (if ftype < 3 then Split_nalu m 0 len [] else Some (Some 0, len, [])) = Some (data, n, us)"
proof -
  show "fmp4_inv s' cs"
  proof (cases "ftype < 3 \<and> fm_firts s = 0 \<and> ftype = 1")
    case True
    then have f: "f = fopen_wb" "cs = []" "fm_seq s = 0" "fm_moof s = moof_zero"
      using assms(1,2) by (auto simp: fmp4_inv_def)
    obtain us f' where "WriteFtypMoov now m us fopen_wb = Some f'" and
      s': "s' = s\<lparr>fm_file := Some f', fm_moof := moof_Marshal moof_zero, fm_firts := ts, fm_lsts := ts\<rparr>"
      using assms(3) True f by (auto simp: FMp4_start_def bind_eq_Some_conv)
    with WriteFtypMoov_boxes obtain t p q x tv ta where "length t = 20" "length p = 16" "f_pos f' = length (f_data f')"
      "f_data f' = box ''ftyp'' t @ box ''moov'' (box ''mvhd'' (p @ zeros 4 @ q) @ box ''mvex'' x @
        box ''trak'' tv @ box ''trak'' ta)"
      by blast
    moreover from this have "fmp4_layout (zeros 4) (f_data f') []"
      unfolding fmp4_layout_def
      by (rule_tac exI[of _ t], rule_tac exI[of _ p], rule_tac exI[of _ q], rule_tac exI[of _ x], rule_tac exI[of _ tv],
          rule_tac exI[of _ ta]) simp
    ultimately show ?thesis
      using assms(4) f marshalled_init unfolding fmp4_inv_def s' by simp
  next
    case False
    then have "s' = s"
      using assms(3) by (auto simp: FMp4_start_def bind_eq_Some_conv split: if_splits)
    with assms(1) show ?thesis by simp
  qed
  show "\<exists>us. (if ftype < 3 then Split_nalu m 0 len [] else Some (Some 0, len, [])) = Some (data, n, us)"
    using assms(3) by (auto simp: FMp4_start_def bind_eq_Some_conv split: if_splits)
qed

lemma FMp4_store_inv:
  assumes inv: "fmp4_inv s cs" and started: "fm_firts s \<noteq> 0" and ft: "ftype \<le> 3"
    and st: "FMp4_store ts ftype m data len s = Some (r, s')" and bs: "item_at m data len = Some bs"
    and small: "length (if ftype = 3 then bs else be32 (word_of_nat len) @ bs) < 2 ^ 32 - 16"
  shows "fmp4_inv s' (cs @ [if ftype = 3 then bs else be32 (word_of_nat len) @ bs])"
proof -
  let ?c = "if ftype = 3 then bs else be32 (word_of_nat len) @ bs"
  have lb: "length bs = len"
    using bs by (auto simp: item_at_def mem_simps split: option.splits if_splits)
  obtain f where f: "fm_file s = Some f" "f_pos f = length (f_data f)"
    and mar: "marshalled (fm_moof s)" and sq: "fm_seq s = word_of_nat (length cs)"
    and lay: "fmp4_layout (zeros 4) (f_data f) cs"
    using inv started by (auto simp: fmp4_inv_def)
  have "len < 2 ^ 32 - 16"
    using small lb by (simp split: if_splits)
  with fragment_written[OF mar lb ft _ refl] obtain tid dt dur fl
    where fr: "moof_bytes (fragment_header ts ftype len s) @ ?c = fragment (word_of_nat (length cs)) tid dt dur fl ?c"
    unfolding sq by metis
  have s': "fm_file s' = Some (f\<lparr>f_data := f_data f @ moof_bytes (fragment_header ts ftype len s) @ ?c,
      f_pos := length (f_data f) + length (moof_bytes (fragment_header ts ftype len s) @ ?c)\<rparr>)"
    "fm_firts s' = fm_firts s" "fm_seq s' = word_of_nat (length (cs @ [?c]))" "fm_moof s' = fragment_header ts ftype len s"
    using st started f bs sq by (auto simp: FMp4_store_def fwrite_end Let_def)
  have mar': "marshalled (fm_moof s')"
    unfolding s' fragment_header_with[OF mar] marshalled_def by blast
  show ?thesis
    using started mar' fmp4_layout_append[OF lay fr] unfolding fmp4_inv_def s' by simp
qed

lemma fmp4_run_inv: "fmp4_run s cs \<Longrightarrow> fmp4_inv s cs"
proof (induction rule: fmp4_run.induct)
  case opened
  show ?case
    by (simp add: fmp4_inv_def FMp4_Open_def FMp4_def)
next
  case (waiting s cs now ts ftype m len r s')
  obtain f where f: "fm_file s = Some f" using waiting.IH by (auto simp: fmp4_inv_def)
  obtain data n s1 where s1: "FMp4_start now ts ftype m len f s = Some (data, n, s1)"
    "FMp4_store ts ftype m data n s1 = Some (r, s')"
    using waiting.hyps(2) f by (auto simp: FMp4_WriteFrame_def bind_eq_Some_conv)
  have "fm_firts s1 = 0"
    using s1(2) waiting.hyps(4) by (auto simp: FMp4_store_def bind_eq_Some_conv Let_def split: if_splits)
  with s1(2) have "s' = s1" by (simp add: FMp4_store_def)
  then show ?case
    using FMp4_start_inv(1)[OF waiting.IH f s1(1) waiting.hyps(3)] by simp
next
  case (frame s cs now ts ftype m len r s' c)
  obtain f where f: "fm_file s = Some f" using frame.IH by (auto simp: fmp4_inv_def)
  obtain data n s1 where s1: "FMp4_start now ts ftype m len f s = Some (data, n, s1)"
    "FMp4_store ts ftype m data n s1 = Some (r, s')"
    using frame.hyps(2) f by (auto simp: FMp4_WriteFrame_def bind_eq_Some_conv)
  have st: "fm_firts s1 \<noteq> 0"
    using s1(2) frame.hyps(4) by (auto simp: FMp4_store_def)
  then obtain bs where bs: "item_at m data n = Some bs"
    using s1(2) by (auto simp: FMp4_store_def bind_eq_Some_conv)
  have c: "c = (if ftype = 3 then bs else be32 (word_of_nat n) @ bs)"
    using FMp4_start_inv(2)[OF frame.IH f s1(1) frame.hyps(3)] bs frame.hyps(6) by (auto simp: sample_of_def)
  show ?case
    using FMp4_store_inv[OF FMp4_start_inv(1)[OF frame.IH f s1(1) frame.hyps(3)] st frame.hyps(5) s1(2) bs] frame.hyps(7) c
    by simp
qed

text \<open>C2. A fragmented MP4 file written by any sequence of frames with non-zero time stamps and closed: type box, movie box
  with header, extension and two tracks, then for each sample one fragment, a \<open>moof\<close> box with the sample's
  size and the fragment's number followed by an \<open>mdat\<close> box of exactly the sample's bytes. The duration written by \<open>Close\<close>
  lands on the duration field of the movie header.\<close>

theorem fmp4_file_layout:
  assumes "fmp4_run s cs" "fm_firts s \<noteq> 0"
  shows "\<exists>data s'. FMp4_Close s = (Some data, s') \<and>
    fmp4_layout (be32 (word_of_int (fm_lsts s - fm_firts s))) data cs"
proof -
  obtain f where f: "fm_file s = Some f" and lay: "fmp4_layout (zeros 4) (f_data f) cs"
    using fmp4_run_inv[OF assms(1)] assms(2) by (auto simp: fmp4_inv_def)
  obtain t p q x tv ta fs where l: "length t = 20" "length p = 16"
    and data: "f_data f = box ''ftyp'' t @ box ''moov'' (box ''mvhd'' (p @ zeros 4 @ q) @ box ''mvex'' x @
        box ''trak'' tv @ box ''trak'' ta) @ concat fs"
    and fs: "length fs = length cs" "\<forall>i < length cs. \<exists>tid dt dur fl. fs ! i = fragment (word_of_nat i) tid dt dur fl (cs ! i)"
    using lay unfolding fmp4_layout_def by blast
  define d where "d = be32 (word_of_int (fm_lsts s - fm_firts s))"
  define pre where "pre = box ''ftyp'' t @ be32 (word_of_nat (8 + length (box ''mvhd'' (p @ d @ q) @ box ''mvex'' x @
        box ''trak'' tv @ box ''trak'' ta))) @ asc ''moov'' @ be32 (word_of_nat (8 + length (p @ d @ q))) @ asc ''mvhd'' @ p"
  define post where "post = q @ box ''mvex'' x @ box ''trak'' tv @ box ''trak'' ta @ concat fs"
  have lp: "length pre = 60" "length d = 4"
    using l by (simp_all add: pre_def d_def)
  have before: "f_data f = pre @ zeros 4 @ post"
    by (simp add: data pre_def post_def lp box_def[of "''moov''"] box_def[of "''mvhd''"] del: append.simps)
  have after: "pre @ d @ post = box ''ftyp'' t @ box ''moov'' (box ''mvhd'' (p @ d @ q) @ box ''mvex'' x @
        box ''trak'' tv @ box ''trak'' ta) @ concat fs"
    by (simp add: pre_def post_def lp box_def[of "''moov''"] box_def[of "''mvhd''"] del: append.simps)
  have "\<exists>s'. FMp4_Close s = (Some (pre @ d @ post), s')"
    using lp by (simp add: FMp4_Close_def f fseek_set_def fwrite_def before Let_def d_def)
  moreover have "fmp4_layout d (pre @ d @ post) cs"
    unfolding fmp4_layout_def after using l fs by blast
  ultimately show ?thesis
    unfolding d_def by blast
qed

lemma fmp4_file_layout_witness:
  "\<exists>s data s'. fmp4_run s [be32 2 @ [0x65, 0x88]] \<and> FMp4_Close s = (Some data, s') \<and>
    fmp4_layout (be32 0) data [be32 2 @ [0x65, 0x88]]"
proof -
  let ?s0 = "snd (FMp4_Open True FMp4)"
  obtain tv where tv: "MakeVideo example_frame [\<lparr>u_type = 0x68, u_size = 2, u_data = Some 4\<rparr>] Trak = Some tv"
    using example_video by blast
  obtain lv dv tv' la da ta' where ms: "Trak_Marshal tv = (lv, dv, tv')" "Trak_Marshal (MakeAudio Trak) = (la, da, ta')"
    by (cases "Trak_Marshal tv"; cases "Trak_Marshal (MakeAudio Trak)") auto
  note mv = MakeVideo_tables[OF tv]
  have fr: "fresh_tables tv" "fresh_tables (MakeAudio Trak)"
    using mv(2) by (simp_all add: fresh_Trak)
  have tb: "length (t_offsets tv) = length (t_sizes tv)" "t_sizes tv = []" "t_keys tv = []"
    "length (t_offsets (MakeAudio Trak)) = length (t_sizes (MakeAudio Trak))"
    using mv by (simp_all add: sizes_of_def offsets_of_def keys_of_def fresh_Trak) (simp add: Trak_def)
  have "length (t_stsdv tv) + length (table_bytes tv) + 260 < 2 ^ 32"
    using mv(1,6) tb unfolding table_bytes_boxes[OF fr(1) tb(1)] length_table_boxes[OF tb(1)] by simp
  from Trak_Marshal_shape[OF fr(1) tb(1) this] have l1: "lv = length (t_stsdv tv')"
    by (simp add: ms)
  have "length (t_stsdv (MakeAudio Trak)) + length (table_bytes (MakeAudio Trak)) + 260 < 2 ^ 32"
    unfolding table_bytes_boxes[OF fr(2) tb(4)] length_table_boxes[OF tb(4)] by (simp add: fresh_Trak MakeAudio_def)
  from Trak_Marshal_shape[OF fr(2) tb(4) this] have l2: "la = length (t_stsdv ta')"
    by (simp add: ms)
  obtain f where f: "WriteFtypMoov 0 example_frame [\<lparr>u_type = 0x68, u_size = 2, u_data = Some 4\<rparr>] fopen_wb = Some f"
    by (simp add: WriteFtypMoov_def tv ms l1 l2 mem_slice_def Let_def)
  have sl: "mem_slice example_frame 10 2 = Some [0x65, 0x88]"
    by (simp add: example_frame_def mem_slice_def)
  obtain r s where w: "FMp4_WriteFrame 0 7 1 example_frame 12 ?s0 = Some (r, s)" and s: "fm_firts s = 7" "fm_lsts s = 7"
    by (simp add: FMp4_WriteFrame_def FMp4_start_def FMp4_store_def FMp4_Open_def FMp4_def example_split f item_at_def sl Let_def)
  have "sample_of 1 example_frame 12 = Some (be32 2 @ [0x65, 0x88])"
    by (simp add: sample_of_def example_split item_at_def sl)
  from fmp4_run.frame[OF fmp4_run.opened w _ _ _ this] s
  have run: "fmp4_run s [be32 2 @ [0x65, 0x88]]" by simp
  with fmp4_file_layout[OF run] s show ?thesis by auto
qed

text \<open>Zero is a time stamp like any other to the caller: a first key frame at time zero writes the headers but not the
  frame, and the next key frame writes the headers again.\<close>

lemma FMp4_time_zero_drops_frame:
  assumes "FMp4_start now 0 1 m len f s = Some (data, n, s')" "fm_firts s = 0"
  shows "FMp4_store 0 1 m data n s' = Some (0, s')" "fm_firts s' = 0"
  using assms by (auto simp: FMp4_start_def FMp4_store_def bind_eq_Some_conv split: if_splits)

end
