(* ===== verification/Flv_Pack.thy ===== *)
theory Flv_Pack
  imports Byte_Buffer Byte_Slice Mp4_Trak
begin

section \<open>libflv::Packet: FLV bodies and tags (src/stream/flv.hpp)\<close>

text \<open>
  Every body is built in \<open>buf_\<close> behind \<open>offset_\<close> reserved bytes. \<open>Reset\<close> resizes the buffer without
  clearing what it held, so positions a packet skips keep the bytes of the packet before.
  \<open>m\<close> is the memory the units point into.
\<close>

record flv =
  is264 :: bool
  f_offset :: nat
  f_buf :: buffer

definition Packet :: "nat \<Rightarrow> flv" where
  "Packet off = \<lparr>is264 = True, f_offset = off, f_buf = Buffer\<rparr>"

definition buf_write :: "nat \<Rightarrow> bytes \<Rightarrow> buffer \<Rightarrow> buffer option" where
  "buf_write i bs b = map_option (\<lambda>v. b\<lparr>vec := v\<rparr>) (mem_write (vec b) i bs)"

definition unit_at :: "bytes \<Rightarrow> unit_t \<Rightarrow> nat \<Rightarrow> u8 option" where
  "unit_at m u k = (case u_data u of None \<Rightarrow> None | Some d \<Rightarrow> mem_read m (d + k))"

text \<open>One parameter set behind its two-byte size.\<close>

definition put_unit :: "bytes \<Rightarrow> bytes \<Rightarrow> unit_t \<Rightarrow> bytes \<times> nat \<Rightarrow> (bytes \<times> nat) option" where
  "put_unit m pre u = (\<lambda>(out, i). do {
     (out, i) \<leftarrow> emit out i (pre @ [size_hi u, size_lo u]);
     bs \<leftarrow> unit_copy m u;
     emit out i bs
   })"

definition flv_avc_config :: "bytes \<Rightarrow> unit_t list \<Rightarrow> (bytes \<times> nat) option" where
  "flv_avc_config m units = do {
     u0 \<leftarrow> mem_read units 0;
     u1 \<leftarrow> mem_read units 1;
     b1 \<leftarrow> unit_at m u0 1;
     b2 \<leftarrow> unit_at m u0 2;
     b3 \<leftarrow> unit_at m u0 3;
     (out, i) \<leftarrow> emit (replicate 512 0) 0 [0x17];
     (out, i) \<leftarrow> emit out (i + 4) [0x01, b1, b2, b3, 0xff];
     a \<leftarrow> put_unit m [0xe1] u0 (out, i);
     put_unit m [0x01] u1 a
   }"

text \<open>The H.265 branch takes the video parameter set from \<open>units[3]\<close>.\<close>

definition flv_hevc_config :: "bytes \<Rightarrow> unit_t list \<Rightarrow> (bytes \<times> nat) option" where
  "flv_hevc_config m units = do {
     u0 \<leftarrow> mem_read units 0;
     u1 \<leftarrow> mem_read units 1;
     u3 \<leftarrow> mem_read units 3;
     (out, i) \<leftarrow> emit (replicate 512 0) 0 [0x1C];
     b1 \<leftarrow> unit_at m u0 1;
     b2 \<leftarrow> unit_at m u0 2;
     b3 \<leftarrow> unit_at m u0 3;
     b4 \<leftarrow> unit_at m u0 4;
     b5 \<leftarrow> unit_at m u0 5;
     b6 \<leftarrow> unit_at m u0 6;
     b7 \<leftarrow> unit_at m u0 7;
     b8 \<leftarrow> unit_at m u0 8;
     b9 \<leftarrow> unit_at m u0 9;
     b10 \<leftarrow> unit_at m u0 10;
     b11 \<leftarrow> unit_at m u0 11;
     b12 \<leftarrow> unit_at m u0 12;
     (out, i) \<leftarrow> emit out (i + 5) [b1, b2, b3, b4, b5, b6, b7, b8, b9, b10, b11, b12];
     (out, i) \<leftarrow> emit out (i + 6 + 2 + 1) [0x03];
     a \<leftarrow> put_unit m [0x20, 0, 1] u3 (out, i);
     a \<leftarrow> put_unit m [0x21, 0, 1] u0 a;
     put_unit m [0x22, 0, 1] u1 a
   }"

definition Marshal_units :: "bytes \<Rightarrow> unit_t list \<Rightarrow> flv \<Rightarrow> flv option" where
  "Marshal_units m nalus p = do {
     let b = Reset 0 (f_buf p);
     units \<leftarrow> Sort nalus;
     let h264 = (length units = 2);
     (out, i) \<leftarrow> (if h264 then flv_avc_config m units else flv_hevc_config m units);
     let b = Reset (i + f_offset p) b;
     b \<leftarrow> buf_write (f_offset p) (take i out) b;
     Some (p\<lparr>is264 := h264, f_buf := b\<rparr>)
   }"

definition Marshal_frame :: "bytes \<Rightarrow> bool \<Rightarrow> flv \<Rightarrow> flv option" where
  "Marshal_frame data key p = do {
     let len = length data;
     let b = Reset (f_offset p + 9 + len) (f_buf p);
     let out = f_offset p;
     b \<leftarrow> buf_write out [if is264 p then (if key then 0x17 else 0x27) else (if key then 0x1C else 0x2C), 0x01] b;
     b \<leftarrow> buf_write (out + 5) (be32 (word_of_nat len)) b;
     b \<leftarrow> buf_write (out + 9) data b;
     Some (p\<lparr>f_buf := b\<rparr>)
   }"

definition Marshal_audio :: "bytes \<Rightarrow> flv \<Rightarrow> flv option" where
  "Marshal_audio data p = do {
     let len = length data;
     let b = Reset (f_offset p + 2 + len) (f_buf p);
     b \<leftarrow> buf_write (f_offset p) [0xAF, if len = 2 then 0x00 else 0x01] b;
     b \<leftarrow> buf_write (f_offset p + 2) data b;
     Some (p\<lparr>f_buf := b\<rparr>)
   }"

definition Marshal_spec :: "bytes \<Rightarrow> flv \<Rightarrow> flv option" where
  "Marshal_spec s p = do {
     let b = Reset (f_offset p + 2 + length s) (f_buf p);
     b \<leftarrow> buf_write (f_offset p) [0xAF, 0x00] b;
     b \<leftarrow> buf_write (f_offset p + 2) s b;
     Some (p\<lparr>f_buf := b\<rparr>)
   }"

text \<open>
  \<open>Pack\<close> writes through the buffer's pointer; the tag header starts eleven bytes before the body, so the
  reserved part must have them.
\<close>

definition low_u8 :: "nat \<Rightarrow> u8" where
  "low_u8 n = word_of_nat n"

definition Pack :: "nat \<Rightarrow> u32 \<Rightarrow> flv \<Rightarrow> (slice \<times> flv) option" where
  "Pack tag ts p = do {
     let dlen = Len (f_buf p) - f_offset p + 11;
     bs \<leftarrow> Bytes (f_buf p);
     let s = Slice bs;
     s \<leftarrow> (if 11 \<le> f_offset p then Some (Offset (f_offset p - 11) s) else None);
     (r, s) \<leftarrow> PutU8 (low_u8 tag) s;
     (r, s) \<leftarrow> PutU8 (low_u8 (dlen div 2 ^ 16)) s;
     (r, s) \<leftarrow> PutU8 (low_u8 (dlen div 2 ^ 8)) s;
     (r, s) \<leftarrow> PutU8 (low_u8 dlen) s;
     (r, s) \<leftarrow> PutU8 (ucast (drop_bit 16 ts)) s;
     (r, s) \<leftarrow> PutU8 (ucast (drop_bit 8 ts)) s;
     (r, s) \<leftarrow> PutU8 (ucast ts) s;
     (r, s) \<leftarrow> PutU8 (ucast (drop_bit 24 ts)) s;
     (r, s) \<leftarrow> PutU8 0 s;
     (r, s) \<leftarrow> PutU8 0 s;
     (r, s) \<leftarrow> PutU8 0 s;
     (r, s) \<leftarrow> PutLeU32 (word_of_nat (Len (f_buf p))) s;
     Some (s, p\<lparr>f_buf := (f_buf p)\<lparr>vec := sl_data s\<rparr>\<rparr>)
   }"

subsection \<open>Layouts\<close>

lemma buf_write_mid:
  assumes "vec b = xs @ ys @ zs" "length bs = length ys" "i = length xs"
  shows "buf_write i bs b = Some (b\<lparr>vec := xs @ bs @ zs\<rparr>)"
  using mem_write_append[OF assms(2), of xs zs] assms(1,3) by (simp add: buf_write_def)

lemma length_Reset [simp]: "length (vec (Reset n b)) = n"
  by (simp add: Reset_contents)

lemma split3: "length v = a + b + c \<Longrightarrow> v = take a v @ take b (drop a v) @ drop (a + b) v"
  by (metis append_take_drop_id drop_drop add.commute)

lemma Reset_nth:
  "i < n \<Longrightarrow> vec (Reset n b) ! i = (if i < Len b then vec b ! i else 0)"
  by (auto simp: Reset_contents Len_def nth_append)

text \<open>\<open>Marshal\<close> of a video frame always succeeds and lays the body out as FLV wants it (frame and codec byte, AVC NALU, the
  length big-endian, the data) except for the composition time: its three bytes are whatever the buffer held there
  before, zero only beyond its old length.\<close>

theorem Marshal_frame_layout:
  "\<exists>p'. Marshal_frame data key p = Some p' \<and>
    drop (f_offset p) (vec (f_buf p')) =
      [if is264 p then (if key then 0x17 else 0x27) else (if key then 0x1C else 0x2C), 0x01] @
      map (\<lambda>i. if i < Len (f_buf p) then vec (f_buf p) ! i else 0) [f_offset p + 2, f_offset p + 3, f_offset p + 4] @
      be32 (word_of_nat (length data)) @ data \<and>
    Len (f_buf p') = f_offset p + 9 + length data"
proof -
  let ?o = "f_offset p" and ?n = "length data"
  let ?b = "Reset (?o + 9 + ?n) (f_buf p)"
  let ?t = "if is264 p then (if key then 0x17 else 0x27) else (if key then 0x1C else 0x2C) :: u8"
  define v where "v = vec ?b"
  have lv: "length v = ?o + 9 + ?n" by (simp add: v_def)
  define ct where "ct = take 3 (drop (?o + 2) v)"
  have lct: "length ct = 3" using lv by (simp add: ct_def)
  have "buf_write ?o [?t, 1] ?b = Some (?b\<lparr>vec := take ?o v @ [?t, 1] @ drop (?o + 2) v\<rparr>)" (is "_ = Some ?b1")
    using lv split3[of v ?o 2 "7 + ?n"]
    by (intro buf_write_mid[where ys = "take 2 (drop ?o v)"]) (simp_all flip: v_def)
  moreover have "vec ?b1 = (take ?o v @ [?t, 1] @ ct) @ take 4 (drop (?o + 5) v) @ drop (?o + 9) v"
  proof -
    have "drop (?o + 2) v = ct @ take 4 (drop (?o + 5) v) @ drop (?o + 9) v"
      using split3[of "drop (?o + 2) v" 3 4 ?n] lv by (simp add: ct_def add.commute)
    then show ?thesis by simp
  qed
  then have "buf_write (?o + 5) (be32 (word_of_nat ?n)) ?b1 =
      Some (?b1\<lparr>vec := (take ?o v @ [?t, 1] @ ct) @ be32 (word_of_nat ?n) @ drop (?o + 9) v\<rparr>)" (is "_ = Some ?b2")
    using lv lct by (intro buf_write_mid[where ys = "take 4 (drop (?o + 5) v)"]) simp_all
  moreover have "buf_write (?o + 9) data ?b2 =
      Some (?b2\<lparr>vec := (take ?o v @ [?t, 1] @ ct @ be32 (word_of_nat ?n)) @ data @ []\<rparr>)" (is "_ = Some ?b3")
    using lv lct by (intro buf_write_mid[where ys = "drop (?o + 9) v"]) simp_all
  ultimately have call: "Marshal_frame data key p = Some (p\<lparr>f_buf := ?b3\<rparr>)"
    by (simp add: Marshal_frame_def Let_def)
  have "ct ! i = (if ?o + 2 + i < Len (f_buf p) then vec (f_buf p) ! (?o + 2 + i) else 0)" if "i < 3" for i
    using that lv Reset_nth[of "?o + 2 + i" "?o + 9 + ?n" "f_buf p"] by (simp add: ct_def v_def add.assoc)
  from this[of 0] this[of 1] this[of 2]
  have "ct = map (\<lambda>i. if i < Len (f_buf p) then vec (f_buf p) ! i else 0) [?o + 2, ?o + 3, ?o + 4]"
    using lct by (auto simp: list_eq_iff_nth_eq less_Suc_eq numeral_eq_Suc)
  then show ?thesis
    using call lv lct by (intro exI[of _ "p\<lparr>f_buf := ?b3\<rparr>"]) (auto simp: Len_def)
qed

text \<open>Audio, then video: the composition time of the video packet is three bytes of audio.\<close>

lemma stale_composition_time:
  "\<exists>p1 p2. Marshal_audio [1, 2, 3, 4, 5] (Packet 0) = Some p1 \<and> Marshal_frame [0x65] True p1 = Some p2 \<and>
    vec (f_buf p2) = [0x17, 1, 1, 2, 3, 0, 0, 0, 1, 0x65]"
  by (simp add: Marshal_audio_def Marshal_frame_def Packet_def buf_write_def mem_write_def Reset_contents Buffer_def
      Let_def be32_def le32_def eval_nat_numeral)

text \<open>\<open>Pack\<close> on a packet with a reserved prefix of at least eleven bytes and a body of at least four: the tag header is
  written right before the body, with the size of body and header together as its size field and 24 + 8 bits of
  time stamp, and the size of the whole buffer, little-endian, over the first four bytes of the body.\<close>

theorem Pack_layout:
  assumes "11 \<le> f_offset p" "f_offset p + 4 \<le> Len (f_buf p)" "buf_ok (f_buf p)"
  shows "\<exists>s p'. Pack tag ts p = Some (s, p') \<and>
    (let v = vec (f_buf p); o1 = f_offset p; n = Len (f_buf p) - o1 + 11 in
     vec (f_buf p') = take (o1 - 11) v @
       [low_u8 tag, low_u8 (n div 2 ^ 16), low_u8 (n div 2 ^ 8), low_u8 n,
        ucast (drop_bit 16 ts), ucast (drop_bit 8 ts), ucast ts, ucast (drop_bit 24 ts), 0, 0, 0] @
       le32 (word_of_nat (Len (f_buf p))) @ drop (o1 + 4) v)"
proof -
  let ?v = "vec (f_buf p)" and ?o = "f_offset p"
  have v: "Bytes (f_buf p) = Some ?v"
    using assms by (cases "vec (f_buf p)") (auto simp: Bytes_def buf_ok_def Len_def)
  define xs ys zs where "xs = take (?o - 11) ?v" and "ys = take 15 (drop (?o - 11) ?v)" and "zs = drop (?o + 4) ?v"
  have vs: "?v = xs @ ys @ zs"
    using split3[of ?v "?o - 11" 15 "length ?v - ?o - 4"] assms by (simp add: xs_def ys_def zs_def Len_def add.commute)
  have lx: "length xs = ?o - 11" "length ys = 15"
    using assms by (simp_all add: xs_def ys_def Len_def)
  obtain y0 y1 y2 y3 y4 y5 y6 y7 y8 y9 y10 y11 y12 y13 y14
    where ys: "ys = [y0, y1, y2, y3, y4, y5, y6, y7, y8, y9, y10, y11, y12, y13, y14]"
    using lx(2) by (auto simp: length_Suc_conv numeral_eq_Suc)
  have put: "PutU8 x \<lparr>sl_data = d, sl_pos = i\<rparr> =
      (if i < length d then Some (i + 1, \<lparr>sl_data = d[i := x], sl_pos = i + 1\<rparr>) else None)" for x d i
    by (auto simp: PutU8_def put_bytes_def mem_write_def upd_conv_take_nth_drop)
  have put4: "PutLeU32 w \<lparr>sl_data = d, sl_pos = i\<rparr> =
      (if i + 4 \<le> length d then Some (i + 4, \<lparr>sl_data = take i d @ le32 w @ drop (i + 4) d, sl_pos = i + 4\<rparr>) else None)"
    for w d i
    by (auto simp: PutLeU32_def put_bytes_def mem_write_def le32_def eval_nat_numeral)
  have pos: "?o - 11 = length xs" using lx by simp
  let ?n = "Len (f_buf p) - ?o + 11"
  have "Pack tag ts p = Some (\<lparr>sl_data = xs @ [low_u8 tag, low_u8 (?n div 2 ^ 16), low_u8 (?n div 2 ^ 8), low_u8 ?n,
        ucast (drop_bit 16 ts), ucast (drop_bit 8 ts), ucast ts, ucast (drop_bit 24 ts), 0, 0, 0] @
        le32 (word_of_nat (Len (f_buf p))) @ zs, sl_pos = length xs + 15\<rparr>,
      p\<lparr>f_buf := (f_buf p)\<lparr>vec := xs @ [low_u8 tag, low_u8 (?n div 2 ^ 16), low_u8 (?n div 2 ^ 8), low_u8 ?n,
        ucast (drop_bit 16 ts), ucast (drop_bit 8 ts), ucast ts, ucast (drop_bit 24 ts), 0, 0, 0] @
        le32 (word_of_nat (Len (f_buf p))) @ zs\<rparr>\<rparr>)"
    unfolding Pack_def Let_def v Option.bind.simps
    using assms(1) unfolding pos
    by (simp add: Slice_def Offset_def put put4 vs ys list_update_append split: nat.splits)
  then show ?thesis
    by (simp add: Let_def xs_def zs_def)
qed

lemma Pack_layout_witness:
  "\<exists>s p'. Pack 9 5 \<lparr>is264 = True, f_offset = 11, f_buf = \<lparr>vec = zeros 11 @ [1, 2, 3, 4, 5], vec_cap = 16\<rparr>\<rparr> = Some (s, p') \<and>
    vec (f_buf p') = [9, 0, 0, 16, 0, 0, 5, 0, 0, 0, 0] @ [16, 0, 0, 0] @ [5]"
  using Pack_layout[of "\<lparr>is264 = True, f_offset = 11, f_buf = \<lparr>vec = zeros 11 @ [1, 2, 3, 4, 5], vec_cap = 16\<rparr>\<rparr>" 9 5]
  by (simp add: Len_def buf_ok_def Let_def low_u8_def le32_def zeros_def)

text \<open>An H.265 stream never gets a sequence header: with a video parameter set \<open>Sort\<close> yields three units, and the
  HEVC branch of \<open>Marshal\<close> copies \<open>units[3]\<close>, which lies outside of them, whatever the units are.\<close>

theorem Marshal_units_hevc:
  assumes "Sort nalus = Some us" "length us \<noteq> 2"
  shows "Marshal_units m nalus p = None"
proof -
  have "length us \<le> 3"
    using assms(1) by (auto simp: Sort_def split: list.splits prod.splits option.splits)
  then have "mem_read us 3 = None"
    by (simp add: mem_read_def)
  then have "flv_hevc_config m us = None"
    by (cases "mem_read us 0"; cases "mem_read us 1") (simp_all add: flv_hevc_config_def)
  then show ?thesis
    using assms by (simp add: Marshal_units_def)
qed

theorem Marshal_units_hevc_witness:
  "Marshal_units [0x42, 0x44, 0x40] [\<lparr>u_type = 0x42, u_size = 1, u_data = Some 0\<rparr>,
     \<lparr>u_type = 0x44, u_size = 1, u_data = Some 1\<rparr>, \<lparr>u_type = 0x40, u_size = 1, u_data = Some 2\<rparr>] (Packet 0) = None"
  by (rule Marshal_units_hevc[where us = "[\<lparr>u_type = 0x42, u_size = 1, u_data = Some 0\<rparr>,
     \<lparr>u_type = 0x44, u_size = 1, u_data = Some 1\<rparr>, \<lparr>u_type = 0x40, u_size = 1, u_data = Some 2\<rparr>]"])
    (code_simp, simp)

end
