(* ===== verification/Sync_Channel.thy ===== *)
theory Sync_Channel
  imports Prelude
begin

section \<open>libsync::Channel: a bounded channel between threads (src/channel.hpp)\<close>

text \<open>
  The channel is its queue, its counter \<open>size_\<close>, its capacity and the closed flag. Each thread is a
  program counter: what runs under the mutex is one step; a thread that finds the predicate of
  \<open>cnd_.wait\<close> false falls asleep in it and evaluates it again after a notification. Readers and writers
  share the condition variable, so \<open>notify_one\<close> wakes any one sleeper. The flag of the step relation
  allows spurious wake-ups. \<open>pushed\<close>, \<open>popped\<close> and \<open>empty_reads\<close> (reads that found a closed and empty
  channel after they had lowered the counter) record the history.
\<close>

record 'a channel =
  ch_cap :: int
  ch_queue :: "'a list"
  ch_size :: int
  ch_closed :: bool

definition Channel :: "int \<Rightarrow> 'a channel option" where
  "Channel capacity =
     (if 0 \<le> capacity then Some \<lparr>ch_cap = capacity, ch_queue = [], ch_size = 0, ch_closed = False\<rparr> else None)"

definition empty :: "'a channel \<Rightarrow> bool" where
  "empty ch \<longleftrightarrow> ch_queue ch = []"

definition chan_size :: "'a channel \<Rightarrow> nat" where
  "chan_size ch = length (ch_queue ch)"

definition closed :: "'a channel \<Rightarrow> bool" where
  "closed ch = ch_closed ch"

text \<open>The predicates of the two waits.\<close>

definition can_read :: "'a channel \<Rightarrow> bool" where
  "can_read ch \<longleftrightarrow> \<not> empty ch \<or> closed ch"

definition can_write :: "'a channel \<Rightarrow> bool" where
  "can_write ch \<longleftrightarrow> ch_size ch < ch_cap ch"

definition push :: "'a \<Rightarrow> 'a channel \<Rightarrow> 'a channel" where
  "push x ch = ch\<lparr>ch_queue := ch_queue ch @ [x], ch_size := ch_size ch + 1\<rparr>"

definition lower :: "'a channel \<Rightarrow> 'a channel" where
  "lower ch = ch\<lparr>ch_size := ch_size ch - 1\<rparr>"

definition pop :: "'a channel \<Rightarrow> 'a list \<times> 'a channel" where
  "pop ch = (take 1 (ch_queue ch), ch\<lparr>ch_queue := tl (ch_queue ch)\<rparr>)"

text \<open>\<open>BlockingIterator::operator!=\<close>: the range-based loop goes on while the channel is open.\<close>

definition iterator_more :: "'a channel \<Rightarrow> bool" where
  "iterator_more ch \<longleftrightarrow> \<not> closed ch"

datatype 'a pc =
    Idle
  | Write_lock 'a
  | Write_asleep 'a
  | Write_awake 'a
  | Write_notify
  | Read_lock
  | Read_asleep
  | Read_awake

fun asleep :: "'a pc \<Rightarrow> bool" where
  "asleep (Write_asleep x) = True"
| "asleep Read_asleep = True"
| "asleep _ = False"

fun awaken :: "'a pc \<Rightarrow> 'a pc" where
  "awaken (Write_asleep x) = Write_awake x"
| "awaken Read_asleep = Read_awake"
| "awaken p = p"

text \<open>\<open>notify_one\<close> wakes some sleeper when there is one, \<open>notify_all\<close> all of them.\<close>

definition notify_one :: "'a pc list \<Rightarrow> 'a pc list \<Rightarrow> bool" where
  "notify_one ps ps' \<longleftrightarrow>
     (if \<exists>t < length ps. asleep (ps ! t)
      then \<exists>t < length ps. asleep (ps ! t) \<and> ps' = ps[t := awaken (ps ! t)]
      else ps' = ps)"

record 'a sys =
  chan :: "'a channel"
  pcs :: "'a pc list"
  pushed :: "'a list"
  popped :: "'a list"
  empty_reads :: nat

text \<open>The end of a read, once the wait is over: the front is taken unless the queue is empty.\<close>

definition finish_read :: "nat \<Rightarrow> 'a sys \<Rightarrow> 'a sys" where
  "finish_read t s =
     (let (xs, ch) = pop (chan s) in
      s\<lparr>chan := ch, pcs := (pcs s)[t := Idle], popped := popped s @ xs,
        empty_reads := empty_reads s + (if xs = [] then 1 else 0)\<rparr>)"

inductive chan_step :: "bool \<Rightarrow> 'a sys \<Rightarrow> 'a sys \<Rightarrow> bool" for spurious :: bool where
  write_start: "t < length (pcs s) \<Longrightarrow> pcs s ! t = Idle \<Longrightarrow> \<not> closed (chan s) \<Longrightarrow>
    chan_step spurious s (s\<lparr>pcs := (pcs s)[t := Write_lock x]\<rparr>)"
| write_push: "t < length (pcs s) \<Longrightarrow> pcs s ! t \<in> {Write_lock x, Write_awake x} \<Longrightarrow> can_write (chan s) \<Longrightarrow>
    chan_step spurious s (s\<lparr>chan := push x (chan s), pcs := (pcs s)[t := Write_notify], pushed := pushed s @ [x]\<rparr>)"
| write_sleep: "t < length (pcs s) \<Longrightarrow> pcs s ! t \<in> {Write_lock x, Write_awake x} \<Longrightarrow> \<not> can_write (chan s) \<Longrightarrow>
    chan_step spurious s (s\<lparr>pcs := (pcs s)[t := Write_asleep x]\<rparr>)"
| write_notify: "t < length (pcs s) \<Longrightarrow> pcs s ! t = Write_notify \<Longrightarrow> notify_one ((pcs s)[t := Idle]) ps \<Longrightarrow>
    chan_step spurious s (s\<lparr>pcs := ps\<rparr>)"
| read_start: "t < length (pcs s) \<Longrightarrow> pcs s ! t = Idle \<Longrightarrow> \<not> (closed (chan s) \<and> empty (chan s)) \<Longrightarrow>
    chan_step spurious s (s\<lparr>pcs := (pcs s)[t := Read_lock]\<rparr>)"
| read_take: "t < length (pcs s) \<Longrightarrow> pcs s ! t = Read_lock \<Longrightarrow> notify_one (pcs s) ps \<Longrightarrow> can_read (chan s) \<Longrightarrow>
    chan_step spurious s (finish_read t (s\<lparr>chan := lower (chan s), pcs := ps\<rparr>))"
| read_sleep: "t < length (pcs s) \<Longrightarrow> pcs s ! t = Read_lock \<Longrightarrow> notify_one (pcs s) ps \<Longrightarrow> \<not> can_read (chan s) \<Longrightarrow>
    chan_step spurious s (s\<lparr>chan := lower (chan s), pcs := ps[t := Read_asleep]\<rparr>)"
| read_awake_take: "t < length (pcs s) \<Longrightarrow> pcs s ! t = Read_awake \<Longrightarrow> can_read (chan s) \<Longrightarrow>
    chan_step spurious s (finish_read t s)"
| read_awake_sleep: "t < length (pcs s) \<Longrightarrow> pcs s ! t = Read_awake \<Longrightarrow> \<not> can_read (chan s) \<Longrightarrow>
    chan_step spurious s (s\<lparr>pcs := (pcs s)[t := Read_asleep]\<rparr>)"
| close: "chan_step spurious s (s\<lparr>chan := (chan s)\<lparr>ch_closed := True\<rparr>, pcs := map awaken (pcs s)\<rparr>)"
| wake: "spurious \<Longrightarrow> t < length (pcs s) \<Longrightarrow>
    chan_step spurious s (s\<lparr>pcs := (pcs s)[t := awaken (pcs s ! t)]\<rparr>)"

inductive_cases chan_stepE: "chan_step sp s s'"

inductive chan_run :: "bool \<Rightarrow> int \<Rightarrow> nat \<Rightarrow> 'a sys \<Rightarrow> bool" for spurious :: bool and capacity :: int and n :: nat where
  start: "Channel capacity = Some ch \<Longrightarrow>
    chan_run spurious capacity n \<lparr>chan = ch, pcs = replicate n Idle, pushed = [], popped = [], empty_reads = 0\<rparr>"
| step: "chan_run spurious capacity n s \<Longrightarrow> chan_step spurious s s' \<Longrightarrow> chan_run spurious capacity n s'"

subsection \<open>Invariant\<close>

text \<open>Readers that have lowered the counter and not yet taken an element.\<close>

definition in_read :: "'a pc \<Rightarrow> int" where
  "in_read p = (if p = Read_asleep \<or> p = Read_awake then 1 else 0)"

definition readers :: "'a pc list \<Rightarrow> int" where
  "readers ps = sum_list (map in_read ps)"

lemma readers_update: "t < length ps \<Longrightarrow> readers (ps[t := p]) = readers ps + in_read p - in_read (ps ! t)"
proof (induction ps arbitrary: t)
  case (Cons q ps)
  then show ?case
    by (cases t) (auto simp: readers_def)
qed simp

lemma in_read_awaken [simp]: "in_read (awaken p) = in_read p"
  by (cases p) (auto simp: in_read_def)

lemma readers_awaken: "readers (map awaken ps) = readers ps"
  by (simp add: readers_def comp_def)

lemma notify_one_readers: "notify_one ps ps' \<Longrightarrow> readers ps' = readers ps \<and> length ps' = length ps"
  by (auto simp: notify_one_def readers_update split: if_splits)

lemma notify_one_keeps: "notify_one ps ps' \<Longrightarrow> t < length ps \<Longrightarrow> \<not> asleep (ps ! t) \<Longrightarrow> ps' ! t = ps ! t"
  by (auto simp: notify_one_def nth_list_update split: if_splits)

lemma in_read_simps [simp]:
  "in_read Idle = 0" "in_read (Write_lock x) = 0" "in_read (Write_asleep x) = 0" "in_read (Write_awake x) = 0"
  "in_read Write_notify = 0" "in_read Read_lock = 0" "in_read Read_asleep = 1" "in_read Read_awake = 1"
  by (simp_all add: in_read_def)

definition chan_inv :: "int \<Rightarrow> 'a sys \<Rightarrow> bool" where
  "chan_inv capacity s \<longleftrightarrow>
     pushed s = popped s @ ch_queue (chan s) \<and>
     ch_size (chan s) = int (length (ch_queue (chan s))) - readers (pcs s) - int (empty_reads s) \<and>
     ch_size (chan s) \<le> capacity \<and> ch_cap (chan s) = capacity \<and>
     (empty_reads s = 0 \<or> ch_closed (chan s))"

lemma finish_read_inv:
  assumes "t < length (pcs s)" "in_read (pcs s ! t) = 1 - d" "can_read (chan s)"
    "pushed s = popped s @ ch_queue (chan s)"
    "ch_size (chan s) = int (length (ch_queue (chan s))) - readers (pcs s) - int (empty_reads s) - d"
    "ch_size (chan s) \<le> capacity" "ch_cap (chan s) = capacity" "empty_reads s = 0 \<or> ch_closed (chan s)"
  shows "chan_inv capacity (finish_read t s)"
proof (cases "ch_queue (chan s)")
  case Nil
  then show ?thesis
    using assms by (auto simp: chan_inv_def finish_read_def pop_def readers_update can_read_def empty_def closed_def)
next
  case (Cons x xs)
  then show ?thesis
    using assms by (auto simp: chan_inv_def finish_read_def pop_def readers_update)
qed

lemma chan_step_inv: "chan_step sp s s' \<Longrightarrow> chan_inv capacity s \<Longrightarrow> chan_inv capacity s'"
proof (induction rule: chan_step.induct)
  case (write_notify t s ps)
  then show ?case
    using notify_one_readers[OF write_notify(3)] by (simp add: chan_inv_def readers_update)
next
  case (read_take t s ps)
  have "ps ! t = Read_lock"
    using notify_one_keeps[OF read_take(3,1)] read_take(2) by simp
  then show ?case
    using read_take notify_one_readers[OF read_take(3)]
    by (intro finish_read_inv[where d = 1]) (simp_all add: chan_inv_def lower_def can_read_def empty_def closed_def)
next
  case (read_sleep t s ps)
  have "ps ! t = Read_lock"
    using notify_one_keeps[OF read_sleep(3,1)] read_sleep(2) by simp
  then show ?case
    using read_sleep notify_one_readers[OF read_sleep(3)] by (simp add: chan_inv_def lower_def readers_update)
next
  case (read_awake_take t s)
  then show ?case
    by (intro finish_read_inv[where d = 0]) (simp_all add: chan_inv_def)
qed (auto simp: chan_inv_def push_def can_write_def readers_update readers_awaken)

lemma chan_run_inv: "chan_run sp capacity n s \<Longrightarrow> chan_inv capacity s"
proof (induction rule: chan_run.induct)
  case (start ch)
  then show ?case
    by (auto simp: Channel_def chan_inv_def readers_def map_replicate_const sum_list_replicate split: if_splits)
next
  case (step s s')
  then show ?case using chan_step_inv by blast
qed

text \<open>
  The definitions that decide one step on a concrete state, and a notification that wakes sleeper \<open>k\<close>.
\<close>

lemmas chan_eval = can_read_def can_write_def empty_def closed_def push_def lower_def pop_def finish_read_def

lemma notify_oneI: "k < length ps \<Longrightarrow> asleep (ps ! k) \<Longrightarrow> ps' = ps[k := awaken (ps ! k)] \<Longrightarrow> notify_one ps ps'"
  by (auto simp: notify_one_def)

lemma lost_wakeup_run:
  "chan_run False 0 4 \<lparr>chan = \<lparr>ch_cap = 0, ch_queue = [2 :: nat], ch_size = 0, ch_closed = False\<rparr>,
      pcs = [Idle, Idle, Idle, Read_asleep], pushed = [1, 2], popped = [1], empty_reads = 0\<rparr>"
proof -
  let ?run = "chan_run False 0 4 :: nat sys \<Rightarrow> bool"
  have "?run \<lparr>chan = \<lparr>ch_cap = 0, ch_queue = [], ch_size = 0, ch_closed = False\<rparr>,
      pcs = [Idle, Idle, Idle, Idle], pushed = [], popped = [], empty_reads = 0\<rparr>"
    using chan_run.start[where capacity = 0 and spurious = False and n = 4] by (simp add: Channel_def numeral_eq_Suc)
  from chan_run.step[OF this chan_step.write_start[where t = 0 and x = 1]]
  have "?run \<lparr>chan = \<lparr>ch_cap = 0, ch_queue = [], ch_size = 0, ch_closed = False\<rparr>,
      pcs = [Write_lock 1, Idle, Idle, Idle], pushed = [], popped = [], empty_reads = 0\<rparr>"
    by (simp add: chan_eval numeral_eq_Suc)
  from chan_run.step[OF this chan_step.write_sleep[where t = 0 and x = 1]]
  have "?run \<lparr>chan = \<lparr>ch_cap = 0, ch_queue = [], ch_size = 0, ch_closed = False\<rparr>,
      pcs = [Write_asleep 1, Idle, Idle, Idle], pushed = [], popped = [], empty_reads = 0\<rparr>"
    by (simp add: chan_eval numeral_eq_Suc)
  from chan_run.step[OF this chan_step.write_start[where t = 1 and x = 2]]
  have "?run \<lparr>chan = \<lparr>ch_cap = 0, ch_queue = [], ch_size = 0, ch_closed = False\<rparr>,
      pcs = [Write_asleep 1, Write_lock 2, Idle, Idle], pushed = [], popped = [], empty_reads = 0\<rparr>"
    by (simp add: chan_eval numeral_eq_Suc)
  from chan_run.step[OF this chan_step.write_sleep[where t = 1 and x = 2]]
  have "?run \<lparr>chan = \<lparr>ch_cap = 0, ch_queue = [], ch_size = 0, ch_closed = False\<rparr>,
      pcs = [Write_asleep 1, Write_asleep 2, Idle, Idle], pushed = [], popped = [], empty_reads = 0\<rparr>"
    by (simp add: chan_eval numeral_eq_Suc)
  from chan_run.step[OF this chan_step.read_start[where t = 2]]
  have "?run \<lparr>chan = \<lparr>ch_cap = 0, ch_queue = [], ch_size = 0, ch_closed = False\<rparr>,
      pcs = [Write_asleep 1, Write_asleep 2, Read_lock, Idle], pushed = [], popped = [], empty_reads = 0\<rparr>"
    by (simp add: chan_eval numeral_eq_Suc)
  from chan_run.step[OF this chan_step.read_sleep[where t = 2 and ps = "[Write_awake 1, Write_asleep 2, Read_lock, Idle]"]]
  have "?run \<lparr>chan = \<lparr>ch_cap = 0, ch_queue = [], ch_size = -1, ch_closed = False\<rparr>,
      pcs = [Write_awake 1, Write_asleep 2, Read_asleep, Idle], pushed = [], popped = [], empty_reads = 0\<rparr>"
    by (simp add: chan_eval numeral_eq_Suc notify_oneI [of 0])
  from chan_run.step[OF this chan_step.read_start[where t = 3]]
  have "?run \<lparr>chan = \<lparr>ch_cap = 0, ch_queue = [], ch_size = -1, ch_closed = False\<rparr>,
      pcs = [Write_awake 1, Write_asleep 2, Read_asleep, Read_lock], pushed = [], popped = [], empty_reads = 0\<rparr>"
    by (simp add: chan_eval numeral_eq_Suc)
  from chan_run.step[OF this chan_step.read_sleep[where t = 3 and ps = "[Write_awake 1, Write_asleep 2, Read_awake, Read_lock]"]]
  have "?run \<lparr>chan = \<lparr>ch_cap = 0, ch_queue = [], ch_size = -2, ch_closed = False\<rparr>,
      pcs = [Write_awake 1, Write_asleep 2, Read_awake, Read_asleep], pushed = [], popped = [], empty_reads = 0\<rparr>"
    by (simp add: chan_eval numeral_eq_Suc notify_oneI [of 2])
  from chan_run.step[OF this chan_step.read_awake_sleep[where t = 2]]
  have "?run \<lparr>chan = \<lparr>ch_cap = 0, ch_queue = [], ch_size = -2, ch_closed = False\<rparr>,
      pcs = [Write_awake 1, Write_asleep 2, Read_asleep, Read_asleep], pushed = [], popped = [], empty_reads = 0\<rparr>"
    by (simp add: chan_eval numeral_eq_Suc)
  from chan_run.step[OF this chan_step.write_push[where t = 0 and x = 1]]
  have "?run \<lparr>chan = \<lparr>ch_cap = 0, ch_queue = [1], ch_size = -1, ch_closed = False\<rparr>,
      pcs = [Write_notify, Write_asleep 2, Read_asleep, Read_asleep], pushed = [1], popped = [], empty_reads = 0\<rparr>"
    by (simp add: chan_eval numeral_eq_Suc)
  from chan_run.step[OF this chan_step.write_notify[where t = 0 and ps = "[Idle, Write_awake 2, Read_asleep, Read_asleep]"]]
  have "?run \<lparr>chan = \<lparr>ch_cap = 0, ch_queue = [1], ch_size = -1, ch_closed = False\<rparr>,
      pcs = [Idle, Write_awake 2, Read_asleep, Read_asleep], pushed = [1], popped = [], empty_reads = 0\<rparr>"
    by (simp add: chan_eval numeral_eq_Suc notify_oneI [of 1])
  from chan_run.step[OF this chan_step.write_push[where t = 1 and x = 2]]
  have "?run \<lparr>chan = \<lparr>ch_cap = 0, ch_queue = [1, 2], ch_size = 0, ch_closed = False\<rparr>,
      pcs = [Idle, Write_notify, Read_asleep, Read_asleep], pushed = [1, 2], popped = [], empty_reads = 0\<rparr>"
    by (simp add: chan_eval numeral_eq_Suc)
  from chan_run.step[OF this chan_step.write_notify[where t = 1 and ps = "[Idle, Idle, Read_awake, Read_asleep]"]]
  have "?run \<lparr>chan = \<lparr>ch_cap = 0, ch_queue = [1, 2], ch_size = 0, ch_closed = False\<rparr>,
      pcs = [Idle, Idle, Read_awake, Read_asleep], pushed = [1, 2], popped = [], empty_reads = 0\<rparr>"
    by (simp add: chan_eval numeral_eq_Suc notify_oneI [of 2])
  from chan_run.step[OF this chan_step.read_awake_take[where t = 2]]
  have "?run \<lparr>chan = \<lparr>ch_cap = 0, ch_queue = [2], ch_size = 0, ch_closed = False\<rparr>,
      pcs = [Idle, Idle, Idle, Read_asleep], pushed = [1, 2], popped = [1], empty_reads = 0\<rparr>"
    by (simp add: chan_eval numeral_eq_Suc)
  then show ?thesis .
qed

text \<open>
  Once the channel is closed, no reader sleeps: \<open>close\<close> wakes them all and the predicate they test stays true.
\<close>

definition no_reader_sleeps :: "'a sys \<Rightarrow> bool" where
  "no_reader_sleeps s \<longleftrightarrow> (ch_closed (chan s) \<longrightarrow> Read_asleep \<notin> set (pcs s))"

lemma awaken_neq_asleep [simp]: "awaken p \<noteq> Read_asleep" "Read_asleep \<noteq> awaken p"
  by (cases p; simp)+

lemma set_update_no_sleeper:
  "p \<noteq> Read_asleep \<Longrightarrow> Read_asleep \<notin> set ps \<Longrightarrow> Read_asleep \<notin> set (ps[t := p])"
  by (metis insert_iff set_update_subset_insert subsetD)

lemma notify_one_no_sleeper: "notify_one ps ps' \<Longrightarrow> Read_asleep \<notin> set ps \<Longrightarrow> Read_asleep \<notin> set ps'"
  by (auto simp: notify_one_def set_update_no_sleeper split: if_splits)

lemma chan_step_no_reader_sleeps: "chan_step sp s s' \<Longrightarrow> no_reader_sleeps s \<Longrightarrow> no_reader_sleeps s'"
proof (induction rule: chan_step.induct)
  case (write_notify t s ps)
  then show ?case
    using notify_one_no_sleeper[OF write_notify(3)] by (auto simp: no_reader_sleeps_def set_update_no_sleeper)
next
  case (read_take t s ps)
  then show ?case
    using notify_one_no_sleeper[OF read_take(3)]
    by (auto simp: no_reader_sleeps_def set_update_no_sleeper lower_def finish_read_def pop_def Let_def)
qed (auto simp: no_reader_sleeps_def set_update_no_sleeper push_def lower_def finish_read_def pop_def Let_def
      can_read_def closed_def)

lemma chan_run_no_reader_sleeps: "chan_run sp capacity n s \<Longrightarrow> no_reader_sleeps s"
proof (induction rule: chan_run.induct)
  case (step s s')
  then show ?case
    by (blast intro: chan_step_no_reader_sleeps)
qed (auto simp: no_reader_sleeps_def)

lemma notify_one_other:
  "notify_one ps ps' \<Longrightarrow> t < length ps \<Longrightarrow> ps' ! t = ps ! t \<or> ps' ! t = awaken (ps ! t)"
  by (auto simp: notify_one_def nth_list_update split: if_splits)

lemma idle_others_step:
  assumes "chan_step False s s'" "t < length (pcs s)" "pcs s ! t = Read_asleep"
    "\<And>u. u < length (pcs s) \<Longrightarrow> u \<noteq> t \<Longrightarrow> pcs s ! u = Idle"
  shows "pcs s' ! t = Read_asleep \<or> closed (chan s')"
proof -
  have pc: "pcs s ! u = Idle \<or> pcs s ! u = Read_asleep \<and> u = t" if "u < length (pcs s)" for u
    using assms(3) assms(4)[OF that] by blast
  show ?thesis
    using assms(1)
  proof (cases rule: chan_step.cases)
    case (write_start u x)
    then show ?thesis
      using assms(3) by (auto simp: nth_list_update)
  next
    case (read_start u)
    then show ?thesis
      using assms(3) by (auto simp: nth_list_update)
  qed (auto simp: closed_def dest: pc)
qed

text \<open>A writer that sleeps on a full channel is woken by \<open>close\<close>, finds the same predicate false and sleeps again.\<close>

lemma closed_full_writer_sleeps_again:
  assumes "chan_run sp capacity n s" "t < length (pcs s)" "pcs s ! t = Write_asleep x" "\<not> can_write (chan s)"
  shows "chan_run sp capacity n (s\<lparr>chan := (chan s)\<lparr>ch_closed := True\<rparr>,
    pcs := (map awaken (pcs s))[t := Write_asleep x]\<rparr>)"
proof -
  let ?c = "s\<lparr>chan := (chan s)\<lparr>ch_closed := True\<rparr>, pcs := map awaken (pcs s)\<rparr>"
  have "chan_run sp capacity n ?c"
    by (rule chan_run.step[OF assms(1) chan_step.close])
  moreover have "chan_step sp ?c (?c\<lparr>pcs := (pcs ?c)[t := Write_asleep x]\<rparr>)"
    by (rule chan_step.write_sleep) (use assms in \<open>simp_all add: can_write_def\<close>)
  ultimately show ?thesis
    using chan_run.step by fastforce
qed

subsection \<open>Properties\<close>

text \<open>C9. In every run of any number of threads, spurious wake-ups included: what has been read is, in order, the front part of
  what has been written and the rest is in the queue (nothing lost, duplicated or reordered), the counter is the queue's length less
  the readers that wait for an element and the reads that ended on a closed empty channel, and the queue holds at most as
  many elements as the capacity and those readers together.\<close>

theorem channel_fifo:
  assumes "chan_run spurious capacity n s"
  shows "pushed s = popped s @ ch_queue (chan s) \<and>
    ch_size (chan s) = int (length (ch_queue (chan s))) - readers (pcs s) - int (empty_reads s) \<and>
    int (length (ch_queue (chan s))) \<le> capacity + readers (pcs s) + int (empty_reads s) \<and>
    (closed (chan s) \<or> empty_reads s = 0)"
  using chan_run_inv[OF assms] by (auto simp: chan_inv_def closed_def)

theorem channel_fifo_witness:
  "pushed (\<lparr>chan = \<lparr>ch_cap = 0, ch_queue = [2 :: nat], ch_size = 0, ch_closed = False\<rparr>,
     pcs = [Idle, Idle, Idle, Read_asleep], pushed = [1, 2], popped = [1], empty_reads = 0\<rparr> :: nat sys) = [1] @ [2]"
  using channel_fifo[OF lost_wakeup_run] by simp

text \<open>C17. On an unbuffered channel with two writers and two readers, without any spurious wake-up, a run ends with an element in the queue, every
  other call returned, and a reader asleep in \<open>operator>>\<close> that no step wakes unless the channel is closed or
  a new call begins: the two sides share one condition variable, so a \<open>notify_one\<close> meant for a reader
  can be spent on a writer.\<close>

theorem lost_wakeup:
  "\<exists>s :: nat sys. chan_run False 0 4 s \<and> pcs s = [Idle, Idle, Idle, Read_asleep] \<and> can_read (chan s) \<and>
     \<not> (\<exists>s'. chan_step False s s' \<and> \<not> closed (chan s') \<and> pcs s' ! 3 \<noteq> Read_asleep)"
proof -
  let ?s = "\<lparr>chan = \<lparr>ch_cap = 0, ch_queue = [2 :: nat], ch_size = 0, ch_closed = False\<rparr>,
      pcs = [Idle, Idle, Idle, Read_asleep], pushed = [1, 2], popped = [1], empty_reads = 0\<rparr>"
  have "pcs ?s ! u = Idle" if "u < 4" "u \<noteq> 3" for u
    using that by (auto simp: less_Suc_eq numeral_eq_Suc)
  then have "pcs s' ! 3 = Read_asleep \<or> closed (chan s')" if "chan_step False ?s s'" for s'
    using idle_others_step[OF that, of 3] by simp
  then show ?thesis
    using lost_wakeup_run by (intro exI[of _ ?s]) (auto simp: can_read_def empty_def)
qed

text \<open>After \<open>close\<close> no reader sleeps, in any run: every read that waited, or begins to wait, finds its predicate true.\<close>

theorem close_releases_readers:
  assumes "chan_run spurious capacity n s" "closed (chan s)"
  shows "Read_asleep \<notin> set (pcs s) \<and> can_read (chan s)"
  using chan_run_no_reader_sleeps[OF assms(1)] assms(2)
  by (auto simp: no_reader_sleeps_def closed_def can_read_def)

theorem close_releases_readers_witness:
  "Read_asleep \<notin> set (pcs (\<lparr>chan = \<lparr>ch_cap = 1, ch_queue = [], ch_size = 0, ch_closed = True\<rparr>, pcs = [Idle],
     pushed = [], popped = [], empty_reads = 0\<rparr> :: nat sys))"
proof -
  let ?s = "\<lparr>chan = \<lparr>ch_cap = 1, ch_queue = [], ch_size = 0, ch_closed = False\<rparr>, pcs = [Idle],
     pushed = [], popped = [], empty_reads = 0\<rparr> :: nat sys"
  have "chan_run False 1 1 ?s"
    using chan_run.start[where capacity = 1 and spurious = False and n = 1] by (simp add: Channel_def)
  from chan_run.step[OF this chan_step.close] have "chan_run False 1 1 (?s\<lparr>chan := (chan ?s)\<lparr>ch_closed := True\<rparr>\<rparr>)"
    by simp
  from close_releases_readers[OF this] show ?thesis
    by (simp add: closed_def)
qed

text \<open>A writer that waits on a full channel is not released by \<open>close\<close>: the run in which the channel is closed and the
  writer is notified leads back to the writer asleep, on a channel no one can read from any more once its elements are taken.\<close>

theorem close_strands_writer:
  "\<exists>s :: nat sys. chan_run False 0 1 s \<and> closed (chan s) \<and> pcs s = [Write_asleep 7]"
proof -
  let ?s = "\<lambda>ps. \<lparr>chan = \<lparr>ch_cap = 0, ch_queue = [], ch_size = 0, ch_closed = False\<rparr>, pcs = ps,
     pushed = [], popped = [], empty_reads = 0\<rparr> :: nat sys"
  have "chan_run False 0 1 (?s [Idle])"
    using chan_run.start[where capacity = 0 and spurious = False and n = 1] by (simp add: Channel_def)
  from chan_run.step[OF this chan_step.write_start[where t = 0 and x = 7]]
  have "chan_run False 0 1 (?s [Write_lock 7])"
    by (simp add: closed_def)
  from chan_run.step[OF this chan_step.write_sleep[where t = 0 and x = 7]]
  have "chan_run False 0 1 (?s [Write_asleep 7])"
    by (simp add: can_write_def)
  from closed_full_writer_sleeps_again[OF this, of 0 7] show ?thesis
    by (intro exI[of _ "(?s [Write_asleep 7])\<lparr>chan := (chan (?s []))\<lparr>ch_closed := True\<rparr>\<rparr>"])
      (simp add: can_write_def closed_def)
qed

end
