(* ===== verification/Sync_Pool.thy ===== *)
theory Sync_Pool
  imports Prelude "HOL-Library.Multiset"
begin

section \<open>libsync::ThreadPool: workers, queue and destructor (src/pool.hpp)\<close>

text \<open>
  The pool is its task queue and the stop flag. Each worker is a program counter: what runs under
  \<open>queue_mutex\<close> is one step, a worker that finds the predicate of \<open>condition.wait\<close> false falls asleep, and
  the call of the task is the interval in which the worker is \<open>Running\<close>. A client that has queued a task and
  left the lock still owes its \<open>notify_one\<close> (\<open>pending\<close>); the destructor has its own counter, which ends
  after the join of the last worker. \<open>submitted\<close>, \<open>taken\<close> and \<open>completed\<close> record the history. Tasks are
  opaque and assumed to return (a \<open>packaged_task\<close> catches what they throw).
\<close>

record 'a pool =
  pool_tasks :: "'a list"
  pool_stop :: bool

datatype 'a worker = Locking | Sleeping | Running 'a | Exited

datatype dtor = Alive | Stopped | Joining nat

record 'a pool_sys =
  pool :: "'a pool"
  workers :: "'a worker list"
  pending :: nat
  destroy :: dtor
  submitted :: "'a list"
  taken :: "'a list"
  completed :: "'a list"

definition ThreadPool :: "nat \<Rightarrow> 'a pool_sys" where
  "ThreadPool n = \<lparr>pool = \<lparr>pool_tasks = [], pool_stop = False\<rparr>, workers = replicate n Locking, pending = 0,
     destroy = Alive, submitted = [], taken = [], completed = []\<rparr>"

text \<open>\<open>enqueue\<close> under the lock: it throws when the pool is stopped.\<close>

definition enqueue :: "'a \<Rightarrow> 'a pool \<Rightarrow> 'a pool option" where
  "enqueue x p = (if pool_stop p then None else Some (p\<lparr>pool_tasks := pool_tasks p @ [x]\<rparr>))"

text \<open>What a worker does once it holds the lock: sleep, return, or take the front task.\<close>

definition worker_locked :: "'a pool \<Rightarrow> 'a worker \<times> 'a pool" where
  "worker_locked p =
     (if \<not> (pool_stop p \<or> pool_tasks p \<noteq> []) then (Sleeping, p)
      else case pool_tasks p of
        [] \<Rightarrow> (Exited, p)
      | x # xs \<Rightarrow> (Running x, p\<lparr>pool_tasks := xs\<rparr>))"

definition wake :: "'a worker \<Rightarrow> 'a worker" where
  "wake w = (case w of Sleeping \<Rightarrow> Locking | _ \<Rightarrow> w)"

definition take_task :: "'a worker \<Rightarrow> 'a list" where
  "take_task w = (case w of Running x \<Rightarrow> [x] | _ \<Rightarrow> [])"

inductive pool_step :: "'a pool_sys \<Rightarrow> 'a pool_sys \<Rightarrow> bool" where
  enqueue: "enqueue x (pool s) = Some p \<Longrightarrow>
    pool_step s (s\<lparr>pool := p, pending := pending s + 1, submitted := submitted s @ [x]\<rparr>)"
| notify_one: "0 < pending s \<Longrightarrow> i < length (workers s) \<Longrightarrow> workers s ! i = Sleeping \<Longrightarrow>
    pool_step s (s\<lparr>pending := pending s - 1, workers := (workers s)[i := Locking]\<rparr>)"
| notify_none: "0 < pending s \<Longrightarrow> Sleeping \<notin> set (workers s) \<Longrightarrow>
    pool_step s (s\<lparr>pending := pending s - 1\<rparr>)"
| spurious: "i < length (workers s) \<Longrightarrow> workers s ! i = Sleeping \<Longrightarrow>
    pool_step s (s\<lparr>workers := (workers s)[i := Locking]\<rparr>)"
| locked: "i < length (workers s) \<Longrightarrow> workers s ! i = Locking \<Longrightarrow> worker_locked (pool s) = (w, p) \<Longrightarrow>
    pool_step s (s\<lparr>pool := p, workers := (workers s)[i := w], taken := taken s @ take_task w\<rparr>)"
| run: "i < length (workers s) \<Longrightarrow> workers s ! i = Running x \<Longrightarrow>
    pool_step s (s\<lparr>workers := (workers s)[i := Locking], completed := completed s @ [x]\<rparr>)"
| stop: "destroy s = Alive \<Longrightarrow>
    pool_step s (s\<lparr>pool := (pool s)\<lparr>pool_stop := True\<rparr>, destroy := Stopped\<rparr>)"
| notify_all: "destroy s = Stopped \<Longrightarrow>
    pool_step s (s\<lparr>workers := map wake (workers s), destroy := Joining 0\<rparr>)"
| join: "destroy s = Joining k \<Longrightarrow> k < length (workers s) \<Longrightarrow> workers s ! k = Exited \<Longrightarrow>
    pool_step s (s\<lparr>destroy := Joining (k + 1)\<rparr>)"

inductive pool_run :: "nat \<Rightarrow> 'a pool_sys \<Rightarrow> bool" for n :: nat where
  start: "pool_run n (ThreadPool n)"
| step: "pool_run n s \<Longrightarrow> pool_step s s' \<Longrightarrow> pool_run n s'"

definition destroyed :: "'a pool_sys \<Rightarrow> bool" where
  "destroyed s \<longleftrightarrow> destroy s = Joining (length (workers s))"

subsection \<open>Invariant\<close>

definition running :: "'a worker list \<Rightarrow> 'a multiset" where
  "running ws = (\<Sum>w\<leftarrow>ws. mset (take_task w))"

lemma running_update: "i < length ws \<Longrightarrow>
    running (ws[i := w]) + mset (take_task (ws ! i)) = running ws + mset (take_task w)"
proof (induction ws arbitrary: i)
  case (Cons v ws)
  then show ?case
    by (cases i) (simp_all add: running_def ac_simps)
qed simp

lemma running_wake [simp]: "running (map wake ws) = running ws"
proof -
  have "take_task (wake w) = take_task w" for w :: "'a worker"
    by (simp add: wake_def take_task_def split: worker.split)
  then show ?thesis
    by (simp add: running_def comp_def)
qed

lemma running_idle [simp]: "running (replicate n Locking) = {#}" "running (replicate n Exited) = {#}"
  by (induction n) (simp_all add: running_def take_task_def)

lemma take_task_simps [simp]:
  "take_task Locking = []" "take_task Sleeping = []" "take_task (Running x) = [x]" "take_task Exited = []"
  by (simp_all add: take_task_def)

lemma wake_simps [simp]:
  "wake Locking = Locking" "wake Sleeping = Locking" "wake (Running x) = Running x" "wake Exited = Exited"
  by (simp_all add: wake_def)

lemma wake_iff [simp]: "wake w = Exited \<longleftrightarrow> w = Exited" "wake w \<noteq> Sleeping" "Sleeping \<noteq> wake w"
    "Exited = wake w \<longleftrightarrow> w = Exited"
    "wake w = Running x \<longleftrightarrow> w = Running x"
  by (cases w; simp)+

lemma worker_locked_cases:
  assumes "worker_locked p = (w, p')"
  obtains "w = Sleeping" "p' = p" "\<not> pool_stop p" "pool_tasks p = []"
  | "w = Exited" "p' = p" "pool_stop p" "pool_tasks p = []"
  | x xs where "w = Running x" "pool_tasks p = x # xs" "p' = p\<lparr>pool_tasks := xs\<rparr>"
  using assms by (auto simp: worker_locked_def split: if_splits list.splits)

text \<open>
  The tasks: what was submitted is what was taken, in order, followed by the queue, and what was taken is
  running or completed. The flag: it is set exactly once the destructor has begun; a worker returns only on a
  stopped and empty pool; nobody sleeps once the destructor has notified; the joined workers have returned.
\<close>

definition tasks_inv :: "'a pool_sys \<Rightarrow> bool" where
  "tasks_inv s \<longleftrightarrow> submitted s = taken s @ pool_tasks (pool s) \<and>
     mset (taken s) = running (workers s) + mset (completed s)"

definition stop_inv :: "nat \<Rightarrow> 'a pool_sys \<Rightarrow> bool" where
  "stop_inv n s \<longleftrightarrow> length (workers s) = n \<and> (pool_stop (pool s) \<longleftrightarrow> destroy s \<noteq> Alive) \<and>
     (Exited \<in> set (workers s) \<longrightarrow> pool_stop (pool s) \<and> pool_tasks (pool s) = []) \<and>
     (\<forall>k. destroy s = Joining k \<longrightarrow>
        Sleeping \<notin> set (workers s) \<and> k \<le> n \<and> (\<forall>i < k. workers s ! i = Exited))"

text \<open>No wake-up is lost: while tasks are queued, some worker is awake or a notification is still to come.\<close>

definition wake_inv :: "'a pool_sys \<Rightarrow> bool" where
  "wake_inv s \<longleftrightarrow> (pool_tasks (pool s) \<noteq> [] \<and> workers s \<noteq> [] \<longrightarrow>
     0 < pending s \<or> (\<exists>w \<in> set (workers s). w = Locking \<or> (\<exists>x. w = Running x)))"

lemma pool_step_tasks: "pool_step s s' \<Longrightarrow> tasks_inv s \<Longrightarrow> tasks_inv s'"
proof (induction rule: pool_step.induct)
  case (locked i s w p)
  from locked(3) show ?case
    by (cases rule: worker_locked_cases)
      (use locked running_update[OF locked(1), of w] in \<open>auto simp: tasks_inv_def\<close>)
next
  case (run i s x)
  then show ?case
    using running_update[OF run(1), of Locking] by (auto simp: tasks_inv_def)
next
  case (notify_one s i)
  then show ?case
    using running_update[OF notify_one(2), of Locking] by (auto simp: tasks_inv_def)
next
  case (spurious i s)
  then show ?case
    using running_update[OF spurious(1), of Locking] by (auto simp: tasks_inv_def)
qed (auto simp: tasks_inv_def enqueue_def split: if_splits)

lemma set_updateD: "w \<in> set (ws[i := v]) \<Longrightarrow> w \<in> set ws \<or> w = v"
  by (meson insert_iff set_update_subset_insert subsetD)

lemma pool_step_stop: "pool_step s s' \<Longrightarrow> stop_inv n s \<Longrightarrow> stop_inv n s'"
proof (induction rule: pool_step.induct)
  case (locked i s w p)
  from locked(3) show ?case
    by (cases rule: worker_locked_cases)
      (use locked in \<open>auto simp: stop_inv_def nth_list_update dest!: set_updateD\<close>)
next
  case (join s k)
  then show ?case
    by (auto simp: stop_inv_def less_Suc_eq)
qed (auto simp: stop_inv_def enqueue_def nth_list_update dest!: set_updateD split: if_splits)

lemma pool_step_wake: "pool_step s s' \<Longrightarrow> stop_inv n s \<Longrightarrow> wake_inv s \<Longrightarrow> wake_inv s'"
proof (induction rule: pool_step.induct)
  case (notify_none s)
  have "w = Locking \<or> (\<exists>x. w = Running x) \<or> w = Exited" if "w \<in> set (workers s)" for w
    using notify_none(2) that by (cases w) auto
  moreover have "Exited \<notin> set (workers s) \<or> pool_tasks (pool s) = []"
    using notify_none(3) by (auto simp: stop_inv_def)
  ultimately show ?case
    by (cases "workers s") (auto simp: wake_inv_def)
next
  case (notify_one s i)
  then show ?case
    using set_update_memI[of i "workers s" Locking] by (auto simp: wake_inv_def)
next
  case (spurious i s)
  then show ?case
    using set_update_memI[of i "workers s" Locking] by (auto simp: wake_inv_def)
next
  case (locked i s w p)
  from locked(3) show ?case
    by (cases rule: worker_locked_cases)
      (use locked set_update_memI[of i "workers s" w] in \<open>auto simp: wake_inv_def\<close>)
next
  case (run i s x)
  then show ?case
    using set_update_memI[of i "workers s" Locking] by (auto simp: wake_inv_def)
next
  case (notify_all s)
  have "wake w = Locking \<or> (\<exists>x. wake w = Running x) \<or> w = Exited" for w :: "'a worker"
    by (cases w) auto
  moreover have "Exited \<notin> set (workers s) \<or> pool_tasks (pool s) = []"
    using notify_all(2) by (auto simp: stop_inv_def)
  ultimately show ?case
    by (cases "workers s") (auto simp: wake_inv_def)
qed (auto simp: wake_inv_def)

lemma pool_run_inv: "pool_run n s \<Longrightarrow> tasks_inv s \<and> stop_inv n s \<and> wake_inv s"
proof (induction rule: pool_run.induct)
  case start
  then show ?case
    by (auto simp: ThreadPool_def tasks_inv_def stop_inv_def wake_inv_def)
next
  case (step s s')
  then show ?case
    by (blast intro: pool_step_tasks pool_step_stop pool_step_wake)
qed

subsection \<open>Progress of the destructor\<close>

fun worker_work :: "'a worker \<Rightarrow> nat" where
  "worker_work Locking = 1"
| "worker_work Sleeping = 1"
| "worker_work (Running x) = 2"
| "worker_work Exited = 0"

definition join_measure :: "'a pool_sys \<Rightarrow> nat" where
  "join_measure s = 2 * length (pool_tasks (pool s)) + (\<Sum>w\<leftarrow>workers s. worker_work w) + pending s +
     (case destroy s of Joining k \<Rightarrow> length (workers s) - k | _ \<Rightarrow> 0)"

lemma work_update: "i < length ws \<Longrightarrow>
    (\<Sum>w\<leftarrow>ws[i := w]. worker_work w) + worker_work (ws ! i) = (\<Sum>w\<leftarrow>ws. worker_work w) + worker_work w"
proof (induction ws arbitrary: i)
  case (Cons v ws)
  then show ?case
    by (cases i) simp_all
qed simp

lemma join_step_decreases:
  "pool_step s s' \<Longrightarrow> stop_inv n s \<Longrightarrow> destroy s = Joining k \<Longrightarrow>
     join_measure s' < join_measure s \<and> (\<exists>k'. destroy s' = Joining k')"
proof (induction rule: pool_step.induct)
  case (locked i s w p)
  from locked(3) show ?case
  proof (cases rule: worker_locked_cases)
    case 1
    then show ?thesis
      using locked by (simp add: stop_inv_def)
  next
    case 2
    then show ?thesis
      using locked work_update[OF locked(1), of Exited] by (simp add: join_measure_def)
  next
    case (3 x xs)
    then show ?thesis
      using locked work_update[OF locked(1), of "Running x"] by (simp add: join_measure_def)
  qed
next
  case (run i s x)
  then show ?case
    using work_update[OF run(1), of Locking] by (simp add: join_measure_def)
next
  case (spurious i s)
  then show ?case
    using nth_mem[OF spurious(1)] by (simp add: stop_inv_def)
next
  case (notify_one s i)
  then show ?case
    using nth_mem[OF notify_one(2)] by (simp add: stop_inv_def)
qed (auto simp: join_measure_def stop_inv_def enqueue_def)

lemma join_progress:
  assumes "stop_inv n s" "destroy s = Joining k" "\<not> destroyed s"
  shows "\<exists>s'. pool_step s s'"
proof -
  have k: "k < length (workers s)"
    using assms by (auto simp: stop_inv_def destroyed_def)
  show ?thesis
  proof (cases "workers s ! k")
    case Locking
    obtain w p where "worker_locked (pool s) = (w, p)"
      by fastforce
    then show ?thesis
      using pool_step.locked[OF k Locking] by blast
  next
    case Sleeping
    then show ?thesis
      using assms nth_mem[OF k] by (simp add: stop_inv_def)
  next
    case (Running x)
    then show ?thesis
      using pool_step.run[OF k] by blast
  next
    case Exited
    then show ?thesis
      using pool_step.join[OF assms(2) k] by blast
  qed
qed

text \<open>Sequences of steps, with their length.\<close>

inductive pool_steps :: "nat \<Rightarrow> 'a pool_sys \<Rightarrow> 'a pool_sys \<Rightarrow> bool" where
  zero: "pool_steps 0 s s"
| more: "pool_step s s' \<Longrightarrow> pool_steps m s' s'' \<Longrightarrow> pool_steps (Suc m) s s''"

lemma pool_steps_bound:
  "pool_steps m s s' \<Longrightarrow> stop_inv n s \<Longrightarrow> destroy s = Joining k \<Longrightarrow> m + join_measure s' \<le> join_measure s"
proof (induction arbitrary: k rule: pool_steps.induct)
  case (more s s' m s'')
  from join_step_decreases[OF more(1,4,5)] obtain k' where
    "join_measure s' < join_measure s" "destroy s' = Joining k'"
    by blast
  then show ?case
    using more.IH[OF pool_step_stop[OF more(1,4)]] by fastforce
qed simp

lemma pool_steps_reach:
  assumes "stop_inv n s" "destroy s = Joining k"
  shows "\<exists>m s'. pool_steps m s s' \<and> destroyed s'"
  using assms
proof (induction "join_measure s" arbitrary: s k rule: less_induct)
  case less
  show ?case
  proof (cases "destroyed s")
    case True
    then show ?thesis
      using pool_steps.zero by blast
  next
    case False
    from join_progress[OF less.prems this] obtain s1 where s1: "pool_step s s1" ..
    with join_step_decreases[OF s1 less.prems] less.hyps pool_step_stop[OF s1 less.prems(1)]
    show ?thesis
      using pool_steps.more by blast
  qed
qed

text \<open>A run of a pool of one worker: one task is queued, taken and completed, and the pool is destroyed.\<close>

lemmas pool_eval = ThreadPool_def enqueue_def worker_locked_def destroyed_def

definition demo :: "nat list \<Rightarrow> bool \<Rightarrow> nat worker \<Rightarrow> nat \<Rightarrow> dtor \<Rightarrow> nat list \<Rightarrow> nat list \<Rightarrow> nat pool_sys" where
  "demo ts st w pend d tk c = \<lparr>pool = \<lparr>pool_tasks = ts, pool_stop = st\<rparr>, workers = [w], pending = pend, destroy = d,
     submitted = [5], taken = tk, completed = c\<rparr>"

lemma pool_run_queued: "pool_run 1 (demo [5] False Locking 1 Alive [] [])"
  using pool_run.step[OF pool_run.start[of 1] pool_step.enqueue[where x = "5 :: nat"]]
  by (simp add: pool_eval demo_def)

lemma pool_run_demo:
  "pool_run 1 (demo [5] False Locking 0 Alive [] [])"
  "pool_run 1 (demo [] False (Running 5) 0 Alive [5] [])"
  "pool_run 1 (demo [] True Locking 0 (Joining 0) [5] [5])"
  "pool_run 1 (demo [] True Exited 0 (Joining 1) [5] [5])"
proof -
  show 1: "pool_run 1 (demo [5] False Locking 0 Alive [] [])"
    using pool_run.step[OF pool_run_queued pool_step.notify_none] by (simp add: pool_eval demo_def)
  show 2: "pool_run 1 (demo [] False (Running 5) 0 Alive [5] [])"
    using pool_run.step[OF 1 pool_step.locked[where i = 0]] by (simp add: pool_eval demo_def)
  have "pool_run 1 (demo [] False Locking 0 Alive [5] [5])"
    using pool_run.step[OF 2 pool_step.run[where i = 0]] by (simp add: pool_eval demo_def)
  from pool_run.step[OF this pool_step.stop] have "pool_run 1 (demo [] True Locking 0 Stopped [5] [5])"
    by (simp add: demo_def)
  from pool_run.step[OF this pool_step.notify_all]
  show 3: "pool_run 1 (demo [] True Locking 0 (Joining 0) [5] [5])"
    by (simp add: demo_def)
  have "pool_run 1 (demo [] True Exited 0 (Joining 0) [5] [5])"
    using pool_run.step[OF 3 pool_step.locked[where i = 0]] by (simp add: pool_eval demo_def)
  from pool_run.step[OF this pool_step.join] show "pool_run 1 (demo [] True Exited 0 (Joining 1) [5] [5])"
    by (simp add: demo_def)
qed

subsection \<open>Properties\<close>

text \<open>C15. In every interleaving of clients, workers and the destructor, each task is taken exactly once and in the order in which it was submitted:
  the submitted tasks are the taken ones followed by the queue, and each taken task is either being run by one worker or completed.\<close>

theorem pool_tasks_exactly_once:
  assumes "pool_run n s"
  shows "submitted s = taken s @ pool_tasks (pool s) \<and>
    mset (taken s) = running (workers s) + mset (completed s)"
  using pool_run_inv[OF assms] by (simp_all add: tasks_inv_def)

theorem pool_tasks_exactly_once_witness:
  "submitted (demo [] False (Running 5) 0 Alive [5] []) = [5] @ [] \<and> mset [5 :: nat] = running [Running 5] + mset []"
  using pool_tasks_exactly_once[OF pool_run_demo(2)] by (simp_all add: demo_def)

text \<open>C7. The destructor drains the queue: when it has joined its last worker, every task that was ever submitted to a pool with at least one
  worker has been completed, once.\<close>

theorem pool_destructor_drains:
  assumes "pool_run n s" "destroyed s" "0 < n"
  shows "mset (completed s) = mset (submitted s) \<and> pool_tasks (pool s) = []"
proof -
  note inv = pool_run_inv[OF assms(1)]
  have all: "workers s ! i = Exited" if "i < n" for i
    using inv that assms(2) by (auto simp: stop_inv_def destroyed_def)
  then have ws: "workers s = replicate n Exited"
    using inv by (auto simp: stop_inv_def intro!: nth_equalityI)
  then have tasks: "pool_tasks (pool s) = []"
    using inv assms(3) by (auto simp: stop_inv_def)
  with ws inv show ?thesis
    by (auto simp: tasks_inv_def)
qed

theorem pool_destructor_drains_witness: "mset (completed (demo [] True Exited 0 (Joining 1) [5] [5])) = {#5#}"
  using pool_destructor_drains[OF pool_run_demo(4)] by (simp add: demo_def destroyed_def)

text \<open>C8. The destructor returns: once it has notified the workers, every sequence of steps (enqueues by other
  clients refused) is bounded by a measure of the queue and the workers, and as long as it has not returned some step can be taken; so every
  maximal schedule ends with the pool destroyed.\<close>

theorem pool_destructor_terminates:
  assumes "pool_run n s" "destroy s = Joining k"
  shows "(pool_steps m s s' \<longrightarrow> m \<le> join_measure s) \<and>
    (destroyed s \<or> (\<exists>s'. pool_step s s')) \<and>
    (\<exists>m s'. pool_steps m s s' \<and> destroyed s')"
proof (intro conjI)
  note inv = pool_run_inv[OF assms(1)]
  show "pool_steps m s s' \<longrightarrow> m \<le> join_measure s"
    using pool_steps_bound[OF _ _ assms(2)] inv by fastforce
  show "destroyed s \<or> (\<exists>s'. pool_step s s')"
    using join_progress[OF _ assms(2)] inv by blast
  show "\<exists>m s'. pool_steps m s s' \<and> destroyed s'"
    using pool_steps_reach[OF _ assms(2)] inv by blast
qed

theorem pool_destructor_terminates_witness:
  "\<exists>m s'. pool_steps m (demo [] True Locking 0 (Joining 0) [5] [5]) s' \<and> destroyed s'"
  using pool_destructor_terminates[OF pool_run_demo(3), of 0] by (simp add: demo_def)

text \<open>C16. No wake-up is lost: whenever tasks wait in the queue of a pool with workers, a worker is awake or the notification
  that wakes one is still owed by a client.\<close>

theorem pool_no_lost_wakeup:
  assumes "pool_run n s" "0 < n" "pool_tasks (pool s) \<noteq> []" "pending s = 0"
  shows "\<exists>w \<in> set (workers s). w = Locking \<or> (\<exists>x. w = Running x)"
proof -
  have "workers s \<noteq> []"
    using pool_run_inv[OF assms(1)] assms(2) by (auto simp: stop_inv_def)
  then show ?thesis
    using pool_run_inv[OF assms(1)] assms(3,4) by (simp add: wake_inv_def)
qed

theorem pool_no_lost_wakeup_witness:
  "\<exists>w \<in> set (workers (demo [5] False Locking 0 Alive [] [])). w = Locking \<or> (\<exists>x. w = Running x)"
  by (rule pool_no_lost_wakeup[OF pool_run_demo(1)]) (simp_all add: demo_def)

end
