(* ===== verification/Tcp_Conn.thy ===== *)
theory Tcp_Conn
  imports Byte_Buffer "HOL-Library.Sublist"
begin

section \<open>libtcp::Context and libtcp::Conn: the epoll connection (src/net/tcp.hpp)\<close>

text \<open>
  The kernel is outside of the program: what its calls return is part of the state, as the list of results
  that \<open>recv\<close> and \<open>send\<close> will give next (an empty list is \<open>EAGAIN\<close>), and the bytes \<open>send\<close> took are
  \<open>wire\<close>. The message handler is a parameter: from its own state and the buffered bytes it computes the
  number of bytes it consumed, the calls it made on the connection before it returned, and its new state.
\<close>

subsection \<open>Context: the table of descriptors\<close>

definition EPOLLIN :: u32 where "EPOLLIN = 0x001"
definition EPOLLOUT :: u32 where "EPOLLOUT = 0x004"
definition EPOLLERR :: u32 where "EPOLLERR = 0x008"
definition EPOLLHUP :: u32 where "EPOLLHUP = 0x010"

lemmas epoll_defs = EPOLLIN_def EPOLLOUT_def EPOLLERR_def EPOLLHUP_def

text \<open>\<open>handlers\<close> is \<open>fd_handlers_\<close>; \<open>interest\<close> is what the kernel's epoll set holds for each descriptor.\<close>

record 'h event_ctx =
  handlers :: "int \<Rightarrow> 'h option"
  interest :: "int \<Rightarrow> u32 option"

definition Context :: "'h event_ctx" where
  "Context = \<lparr>handlers = (\<lambda>_. None), interest = (\<lambda>_. None)\<rparr>"

text \<open>\<open>EPOLL_CTL_ADD\<close> fails on a descriptor that is in the set and may fail for want of resources (\<open>ok\<close>).\<close>

definition AddFd :: "bool \<Rightarrow> int \<Rightarrow> 'h \<Rightarrow> u32 \<Rightarrow> 'h event_ctx \<Rightarrow> bool \<times> 'h event_ctx" where
  "AddFd ok fd cb events c =
     (if \<not> ok \<or> interest c fd \<noteq> None then (False, c)
      else (True, c\<lparr>interest := (interest c)(fd \<mapsto> events), handlers := (handlers c)(fd \<mapsto> cb)\<rparr>))"

definition ModFd :: "int \<Rightarrow> u32 \<Rightarrow> 'h event_ctx \<Rightarrow> 'h event_ctx" where
  "ModFd fd events c =
     (if interest c fd = None then c else c\<lparr>interest := (interest c)(fd \<mapsto> events)\<rparr>)"

definition DelFd :: "int \<Rightarrow> 'h event_ctx \<Rightarrow> 'h event_ctx" where
  "DelFd fd c = c\<lparr>handlers := (handlers c)(fd := None), interest := (interest c)(fd := None)\<rparr>"

text \<open>Closing a descriptor takes it out of the epoll set; the table of handlers does not know.\<close>

definition kernel_close :: "int \<Rightarrow> 'h event_ctx \<Rightarrow> 'h event_ctx" where
  "kernel_close fd c = c\<lparr>interest := (interest c)(fd := None)\<rparr>"

text \<open>One batch of events: the handler is looked up when its event's turn comes, and run on a copy.\<close>

fun Loop_batch :: "('s \<Rightarrow> 'h event_ctx) \<Rightarrow> ('h \<Rightarrow> u32 \<Rightarrow> 's \<Rightarrow> 's option) \<Rightarrow> (int \<times> u32) list \<Rightarrow> 's \<Rightarrow> 's option" where
  "Loop_batch ctx run [] s = Some s"
| "Loop_batch ctx run ((fd, events) # evs) s =
     (case handlers (ctx s) fd of
        None \<Rightarrow> Loop_batch ctx run evs s
      | Some cb \<Rightarrow> do { s \<leftarrow> run cb events s; Loop_batch ctx run evs s })"

subsection \<open>The connection\<close>

datatype errno = EAGAIN | EWOULDBLOCK | EINTR | Other_errno int

definition WouldBlock :: "errno \<Rightarrow> bool" where
  "WouldBlock e \<longleftrightarrow> e = EAGAIN \<or> e = EWOULDBLOCK"

text \<open>\<open>Received []\<close> is the result 0: the peer has closed. \<open>send\<close> takes at most what it is offered.\<close>

datatype recv_result = Received bytes | Recv_error errno
datatype send_result = Accepted nat | Send_error errno

datatype conn_call = Call_Send bytes | Call_Close

record 'a conn =
  ctx :: "unit event_ctx"
  fd :: int
  rbuf :: buffer
  outbox :: buffer
  closed :: bool
  started :: bool
  on_close :: bool
  recvs :: "recv_result list"
  sends :: "send_result list"
  wire :: bytes
  asked :: bytes
  notified :: nat
  app :: 'a

type_synonym 'a handler = "'a \<Rightarrow> bytes \<Rightarrow> int \<times> conn_call list \<times> 'a"

definition Conn :: "unit event_ctx \<Rightarrow> int \<Rightarrow> bool \<Rightarrow> 'a \<Rightarrow> 'a conn" where
  "Conn c f cb a = \<lparr>ctx = c, fd = f, rbuf = Buffer, outbox = Buffer, closed = False, started = False,
     on_close = cb, recvs = [], sends = [], wire = [], asked = [], notified = 0, app = a\<rparr>"

definition IsOpen :: "'a conn \<Rightarrow> bool" where
  "IsOpen s \<longleftrightarrow> fd s \<ge> 0 \<and> \<not> closed s"

definition CloseFd :: "'a conn \<Rightarrow> 'a conn" where
  "CloseFd s = (if fd s \<ge> 0 then s\<lparr>ctx := kernel_close (fd s) (ctx s), fd := -1\<rparr> else s)"

definition close_now :: "bool \<Rightarrow> 'a conn \<Rightarrow> 'a conn" where
  "close_now notify s =
     (if closed s then s
      else
        (let s = s\<lparr>closed := True\<rparr>;
             s = (if fd s \<ge> 0 then CloseFd (if notify then s\<lparr>ctx := DelFd (fd s) (ctx s)\<rparr> else s) else s);
             s = s\<lparr>outbox := Reset 0 (outbox s)\<rparr>
         in if notify \<and> on_close s then s\<lparr>notified := notified s + 1\<rparr> else s))"

text \<open>The loop of \<open>HandleWrite\<close>; every result it looks at is used up.\<close>

fun write_loop :: "send_result list \<Rightarrow> 'a conn \<Rightarrow> 'a conn" where
  "write_loop rs s =
     (if Empty (outbox s) then s\<lparr>sends := rs\<rparr>
      else
        (case rs of
           [] \<Rightarrow> s\<lparr>sends := []\<rparr>
         | Accepted k # rs \<Rightarrow>
             (let n = min k (Len (outbox s)) in
              if n > 0 then
                write_loop rs (s\<lparr>wire := wire s @ take n (vec (outbox s)), outbox := buf_discard n (outbox s)\<rparr>)
              else s\<lparr>sends := rs\<rparr>)
         | Send_error e # rs \<Rightarrow>
             (let s = s\<lparr>sends := rs\<rparr> in
              if WouldBlock e then s
              else if e \<noteq> EINTR then close_now True s
              else s)))"

declare write_loop.simps [simp del]

definition HandleWrite :: "'a conn \<Rightarrow> 'a conn" where
  "HandleWrite s = (if closed s \<or> fd s < 0 then s else write_loop (sends s) s)"

text \<open>\<open>asked\<close> records the data that \<open>Send\<close> accepted.\<close>

definition Send :: "bytes \<Rightarrow> 'a conn \<Rightarrow> 'a conn" where
  "Send data s =
     (if \<not> closed s \<and> fd s \<ge> 0
      then HandleWrite (s\<lparr>outbox := buf_append data (outbox s), asked := asked s @ data\<rparr>)
      else s)"

definition Close :: "'a conn \<Rightarrow> 'a conn" where
  "Close = close_now True"

fun run_calls :: "conn_call list \<Rightarrow> 'a conn \<Rightarrow> 'a conn" where
  "run_calls [] s = s"
| "run_calls (Call_Send data # cs) s = run_calls cs (Send data s)"
| "run_calls (Call_Close # cs) s = run_calls cs (Close s)"

text \<open>Nothing bounds the loop of \<open>DispatchMessages\<close> but the handler: \<open>None\<close> is the loop that does not end.\<close>

partial_function (option) DispatchMessages :: "'a handler \<Rightarrow> 'a conn \<Rightarrow> (bool \<times> 'a conn) option" where
  "DispatchMessages h s =
     (case h (app s) (vec (rbuf s)) of (consumed, calls, a) \<Rightarrow>
        let s = run_calls calls (s\<lparr>app := a\<rparr>) in
        if consumed < 0 then Some (False, close_now True s)
        else if consumed = 0 then Some (True, s)
        else DispatchMessages h (s\<lparr>rbuf := buf_discard (nat consumed) (rbuf s)\<rparr>))"

text \<open>
  The loop of \<open>HandleRead\<close>. A handler may have closed the connection: then \<open>recv\<close> on descriptor -1
  fails with an error that is neither \<open>EINTR\<close> nor \<open>EAGAIN\<close>. \<open>recv\<close> never returns more than the 8192 bytes
  of its buffer.
\<close>

fun read_loop :: "'a handler \<Rightarrow> recv_result list \<Rightarrow> 'a conn \<Rightarrow> 'a conn option" where
  "read_loop h rs s =
     (if fd s < 0 then Some (close_now True (s\<lparr>recvs := rs\<rparr>))
      else
        (case rs of
           [] \<Rightarrow> Some (s\<lparr>recvs := []\<rparr>)
         | Received xs # rs \<Rightarrow>
             if xs = [] then Some (close_now True (s\<lparr>recvs := rs\<rparr>))
             else if 8192 < length xs then None
             else do {
               (go, s) \<leftarrow> DispatchMessages h (s\<lparr>rbuf := buf_append xs (rbuf s)\<rparr>);
               if go then read_loop h rs s else Some (s\<lparr>recvs := rs\<rparr>)
             }
         | Recv_error e # rs \<Rightarrow>
             if e = EINTR then read_loop h rs s
             else if WouldBlock e then Some (s\<lparr>recvs := rs\<rparr>)
             else Some (close_now True (s\<lparr>recvs := rs\<rparr>))))"

declare read_loop.simps [simp del]

definition HandleRead :: "'a handler \<Rightarrow> 'a conn \<Rightarrow> 'a conn option" where
  "HandleRead h s = read_loop h (recvs s) s"

definition HandleEvent :: "'a handler \<Rightarrow> u32 \<Rightarrow> 'a conn \<Rightarrow> 'a conn option" where
  "HandleEvent h ev s =
     (if ev AND (EPOLLERR OR EPOLLHUP) \<noteq> 0 then Some (close_now True s)
      else do {
        s \<leftarrow> (if ev AND EPOLLIN \<noteq> 0 then HandleRead h s else Some s);
        Some (if ev AND EPOLLOUT \<noteq> 0 then HandleWrite s else s)
      })"

definition Start :: "bool \<Rightarrow> 'a conn \<Rightarrow> 'a conn" where
  "Start ok s =
     (if started s then s
      else s\<lparr>started := True, ctx := snd (AddFd ok (fd s) () EPOLLIN (ctx s))\<rparr>)"

subsection \<open>Runs\<close>

text \<open>
  What can happen to a connection: the program starts it, sends, closes; the loop delivers an event; the
  kernel changes what its next calls will return; the handler's own state changes from outside.
\<close>

inductive conn_step :: "'a handler \<Rightarrow> 'a conn \<Rightarrow> 'a conn \<Rightarrow> bool" for h where
  "conn_step h s (Start ok s)"
| "conn_step h s (Send data s)"
| "conn_step h s (Close s)"
| "HandleEvent h ev s = Some s' \<Longrightarrow> conn_step h s s'"
| "conn_step h s (s\<lparr>recvs := rs\<rparr>)"
| "conn_step h s (s\<lparr>sends := ss\<rparr>)"
| "conn_step h s (s\<lparr>app := a\<rparr>)"

inductive conn_run :: "'a handler \<Rightarrow> 'a conn \<Rightarrow> bool" for h where
  start: "0 \<le> f \<Longrightarrow> interest c f = None \<Longrightarrow> conn_run h (Conn c f cb a)"
| step: "conn_run h s \<Longrightarrow> conn_step h s s' \<Longrightarrow> conn_run h s'"

text \<open>
  Every operation is a sequence of the same primitive changes, so an invariant is shown once for those. The
  primitives are also the steps that the reading loop takes inside.
\<close>

inductive prim :: "'a conn \<Rightarrow> 'a conn \<Rightarrow> bool" where
  close: "prim s (close_now True s)"
| ask: "\<not> closed s \<Longrightarrow> 0 \<le> fd s \<Longrightarrow> prim s (s\<lparr>outbox := buf_append d (outbox s), asked := asked s @ d\<rparr>)"
| take_out: "\<not> closed s \<Longrightarrow> prim s (s\<lparr>wire := wire s @ take n (vec (outbox s)), outbox := buf_discard n (outbox s)\<rparr>)"
| register: "\<not> started s \<Longrightarrow> prim s (s\<lparr>started := True, ctx := snd (AddFd ok (fd s) () EPOLLIN (ctx s))\<rparr>)"
| input: "prim s (s\<lparr>rbuf := b\<rparr>)"
| will_recv: "prim s (s\<lparr>recvs := rs\<rparr>)"
| will_send: "prim s (s\<lparr>sends := ss\<rparr>)"
| state: "prim s (s\<lparr>app := a\<rparr>)"

abbreviation prims :: "'a conn \<Rightarrow> 'a conn \<Rightarrow> bool" where
  "prims \<equiv> prim\<^sup>*\<^sup>*"

lemma prims_recvs: "prims s t \<Longrightarrow> prims s (t\<lparr>recvs := rs\<rparr>)"
  using prim.will_recv rtranclp.rtrancl_into_rtrancl by metis

lemma prims_sends: "prims s t \<Longrightarrow> prims s (t\<lparr>sends := ss\<rparr>)"
  using prim.will_send rtranclp.rtrancl_into_rtrancl by metis

lemma prims_close: "prims s t \<Longrightarrow> prims s (close_now True t)"
  using prim.close rtranclp.rtrancl_into_rtrancl by metis

lemmas prims_trans = rtranclp_trans[where r = prim]

lemmas prims_step = converse_rtranclp_into_rtranclp[of prim]

lemma write_loop_eqs:
  "Empty (outbox s) \<Longrightarrow> write_loop rs s = s\<lparr>sends := rs\<rparr>"
  "write_loop [] s = s\<lparr>sends := []\<rparr>"
  "\<not> Empty (outbox s) \<Longrightarrow> write_loop (Accepted k # rs) s =
     (let n = min k (Len (outbox s)) in
      if n = 0 then s\<lparr>sends := rs\<rparr>
      else write_loop rs (s\<lparr>wire := wire s @ take n (vec (outbox s)), outbox := buf_discard n (outbox s)\<rparr>))"
  "\<not> Empty (outbox s) \<Longrightarrow> write_loop (Send_error e # rs) s =
     (if WouldBlock e \<or> e = EINTR then s\<lparr>sends := rs\<rparr> else close_now True (s\<lparr>sends := rs\<rparr>))"
  by (simp_all add: write_loop.simps[of rs s] write_loop.simps[of "[]" s] write_loop.simps[of "Accepted k # rs" s]
      write_loop.simps[of "Send_error e # rs" s] Let_def min_def)

lemma write_loop_prims: "\<not> closed s \<Longrightarrow> prims s (write_loop rs s)"
proof (induction rs arbitrary: s)
  case Nil
  show ?case
    using prims_sends[of s s] by (simp add: write_loop_eqs)
next
  case (Cons r rs)
  have sends: "prims s (s\<lparr>sends := xs\<rparr>)" for xs
    using prims_sends[of s s] by simp
  show ?case
  proof (cases "Empty (outbox s)")
    case True
    then show ?thesis
      using sends by (simp add: write_loop_eqs)
  next
    case False
    let ?s = "\<lambda>k. s\<lparr>wire := wire s @ take k (vec (outbox s)), outbox := buf_discard k (outbox s)\<rparr>"
    have "prims s (write_loop rs (?s k))" for k
      using prims_step[OF prim.take_out[OF Cons(2), of k] Cons(1)[of "?s k"]] Cons(2) by simp
    then show ?thesis
      using False sends prims_close[OF sends] by (cases r) (auto simp: write_loop_eqs Let_def)
  qed
qed

lemma HandleWrite_prims: "prims s (HandleWrite s)"
  using write_loop_prims by (auto simp: HandleWrite_def)

lemma Send_prims: "prims s (Send d s)"
  unfolding Send_def
  using prims_step[OF prim.ask HandleWrite_prims] by auto

lemma run_calls_prims: "prims s (run_calls cs s)"
proof (induction cs s rule: run_calls.induct)
  case (2 d cs s)
  then show ?case
    using prims_trans[OF Send_prims] by auto
next
  case (3 cs s)
  then show ?case
    using prims_step[OF prim.close] by (auto simp: Close_def)
qed simp

lemma DispatchMessages_prims: "DispatchMessages h s = Some r \<Longrightarrow> prims s (snd r)"
proof (induct rule: DispatchMessages.raw_induct[rotated, consumes 1, case_names loop])
  case (loop dispatch h s r)
  obtain k cs a where h: "h (app s) (vec (rbuf s)) = (k, cs, a)"
    by (metis prod_cases3)
  let ?s = "run_calls cs (s\<lparr>app := a\<rparr>)"
  have start: "prims s ?s"
    by (rule prims_step[OF prim.state run_calls_prims])
  consider "k < 0" "r = (False, close_now True ?s)" | "k = 0" "r = (True, ?s)"
    | "0 < k" "dispatch h (?s\<lparr>rbuf := buf_discard (nat k) (rbuf ?s)\<rparr>) = Some r"
    using loop(2) h by (auto simp: Let_def split: if_splits)
  then show ?case
  proof cases
    case 3
    have "prim ?s (?s\<lparr>rbuf := buf_discard (nat k) (rbuf ?s)\<rparr>)"
      by (rule prim.input)
    from prims_step[OF this loop(1)[OF 3(2)]] have "prims ?s (snd r)" .
    then show ?thesis
      using start prims_trans by blast
  qed (use start prims_close in auto)
qed

lemma read_loop_eqs:
  "fd s < 0 \<Longrightarrow> read_loop h rs s = Some (close_now True (s\<lparr>recvs := rs\<rparr>))"
  "0 \<le> fd s \<Longrightarrow> read_loop h [] s = Some (s\<lparr>recvs := []\<rparr>)"
  "0 \<le> fd s \<Longrightarrow> read_loop h (Received [] # rs) s = Some (close_now True (s\<lparr>recvs := rs\<rparr>))"
  "0 \<le> fd s \<Longrightarrow> xs \<noteq> [] \<Longrightarrow> read_loop h (Received xs # rs) s =
     (if 8192 < length xs then None
      else case DispatchMessages h (s\<lparr>rbuf := buf_append xs (rbuf s)\<rparr>) of
        None \<Rightarrow> None
      | Some (go, t) \<Rightarrow> if go then read_loop h rs t else Some (t\<lparr>recvs := rs\<rparr>))"
  "0 \<le> fd s \<Longrightarrow> read_loop h (Recv_error e # rs) s =
     (if e = EINTR then read_loop h rs s
      else Some (if WouldBlock e then s\<lparr>recvs := rs\<rparr> else close_now True (s\<lparr>recvs := rs\<rparr>)))"
  by (auto simp: read_loop.simps[of h rs s] read_loop.simps[of h "[]" s] read_loop.simps[of h "Received [] # rs" s]
      read_loop.simps[of h "Received xs # rs" s] read_loop.simps[of h "Recv_error e # rs" s] split: option.splits)

lemma read_loop_prims: "read_loop h rs s = Some s' \<Longrightarrow> prims s s'"
proof (induction rs arbitrary: s)
  case Nil
  then show ?case
    using prims_recvs[of s s] prims_close[of s]
    by (cases "fd s < 0") (auto simp: read_loop_eqs)
next
  case (Cons r rs)
  have recvs: "prims s (s\<lparr>recvs := xs\<rparr>)" "prims s (close_now True (s\<lparr>recvs := xs\<rparr>))" for xs
    using prims_recvs[of s s] prims_close[of s] by simp_all
  show ?case
  proof (cases "fd s < 0")
    case True
    then show ?thesis
      using Cons(2) recvs by (auto simp: read_loop_eqs)
  next
    case False
    show ?thesis
    proof (cases r)
      case (Recv_error e)
      then show ?thesis
        using Cons False recvs by (auto simp: read_loop_eqs split: if_splits)
    next
      case (Received xs)
      show ?thesis
      proof (cases "xs = []")
        case True
        then show ?thesis
          using Cons(2) False Received recvs by (auto simp: read_loop_eqs)
      next
        case xs: False
        obtain go t where d: "DispatchMessages h (s\<lparr>rbuf := buf_append xs (rbuf s)\<rparr>) = Some (go, t)"
          and s': "(if go then read_loop h rs t else Some (t\<lparr>recvs := rs\<rparr>)) = Some s'"
          using Cons(2) False Received xs by (auto simp: read_loop_eqs split: if_splits option.splits)
        have "prim s (s\<lparr>rbuf := buf_append xs (rbuf s)\<rparr>)"
          by (rule prim.input)
        from prims_step[OF this DispatchMessages_prims[OF d]] have t: "prims s t"
          by simp
        show ?thesis
          using s' prims_trans[OF t Cons.IH] prims_recvs[OF t] by (auto split: if_splits)
      qed
    qed
  qed
qed

lemma HandleEvent_prims: "HandleEvent h ev s = Some s' \<Longrightarrow> prims s s'"
proof -
  assume ev: "HandleEvent h ev s = Some s'"
  have "prims s t" if "HandleRead h s = Some t" for t
    using read_loop_prims that by (auto simp: HandleRead_def)
  then show ?thesis
    using ev prims_close[of s s] prims_trans[OF _ HandleWrite_prims]
    by (auto simp: HandleEvent_def bind_eq_Some_conv HandleWrite_prims split: if_splits)
qed

lemma Start_prims: "prims s (Start ok s)"
  using prim.register[of s ok] by (auto simp: Start_def)

lemma conn_step_prims: "conn_step h s s' \<Longrightarrow> prims s s'"
  by (induction rule: conn_step.induct)
    (auto simp: Close_def intro: Start_prims Send_prims prims_close prim.intros HandleEvent_prims)

subsection \<open>Invariant\<close>

text \<open>
  The bytes taken from the application are on the wire or in the outbox, in order, while the connection is
  open; once closed, the descriptor is gone from the tables and the owner has been told at most once. The
  descriptor is registered for input only.
\<close>

definition conn_inv :: "'a conn \<Rightarrow> bool" where
  "conn_inv s \<longleftrightarrow>
     (if closed s then prefix (wire s) (asked s) \<and> vec (outbox s) = [] \<and> fd s = -1 \<and> notified s \<le> 1
      else asked s = wire s @ vec (outbox s) \<and> 0 \<le> fd s \<and> notified s = 0 \<and>
        interest (ctx s) (fd s) \<in> {None, Some EPOLLIN} \<and>
        (started s \<or> interest (ctx s) (fd s) = None))"

lemma close_now_inv: "conn_inv s \<Longrightarrow> conn_inv (close_now n s)"
  by (auto simp: conn_inv_def close_now_def CloseFd_def Let_def)

lemma prim_inv: "prim s s' \<Longrightarrow> conn_inv s \<Longrightarrow> conn_inv s'"
proof (induction rule: prim.induct)
  case (close s)
  then show ?case
    by (rule close_now_inv)
next
  case (take_out s n)
  then show ?case
    by (simp add: conn_inv_def buf.contents_discard)
next
  case (register s ok)
  then show ?case
    by (auto simp: conn_inv_def AddFd_def)
qed (auto simp: conn_inv_def)

lemma prims_inv: "prims s s' \<Longrightarrow> conn_inv s \<Longrightarrow> conn_inv s'"
  by (induction rule: rtranclp.induct) (auto intro: prim_inv)

lemma conn_run_inv: "conn_run h s \<Longrightarrow> conn_inv s"
proof (induction rule: conn_run.induct)
  case (start f c cb a)
  then show ?case
    by (simp add: conn_inv_def Conn_def Buffer_def)
next
  case (step s s')
  then show ?case
    using conn_step_prims prims_inv by blast
qed

subsection \<open>Properties\<close>

text \<open>C21. In every run of a connection, whatever the kernel returns and the handler does: the bytes that
  reached the kernel are a prefix of the bytes accepted by \<open>Send\<close>, in order; while the connection is open the rest is in the
  outbox; once closed the outbox is empty and the descriptor given up; and the close handler runs at most once.\<close>

theorem conn_delivery:
  assumes "conn_run h s"
  shows "prefix (wire s) (asked s) \<and> notified s \<le> 1 \<and>
    (if closed s then fd s = -1 \<and> vec (outbox s) = []
     else asked s = wire s @ vec (outbox s) \<and> notified s = 0)"
  using conn_run_inv[OF assms] by (auto simp: conn_inv_def)

text \<open>A run that ends with pending output: the kernel took one byte of two and then asked to try again.\<close>

definition half_sent :: "nat conn" where
  "half_sent = Send [1, 2] ((Start True (Conn Context 5 True 0))\<lparr>sends := [Accepted 1, Send_error EAGAIN, Accepted 9]\<rparr>)"

lemma half_sent_run: "conn_run h half_sent"
  unfolding half_sent_def
  by (intro conn_run.step[OF _ conn_step.intros(2)] conn_run.step[OF _ conn_step.intros(6)]
      conn_run.step[OF _ conn_step.intros(1)] conn_run.start) (simp_all add: Context_def)

lemma half_sent_value:
  "wire half_sent = [1]" "asked half_sent = [1, 2]" "vec (outbox half_sent) = [2]" "sends half_sent = [Accepted 9]"
  "IsOpen half_sent" "interest (ctx half_sent) 5 = Some EPOLLIN" "fd half_sent = 5" "notified half_sent = 0"
  by (simp_all add: half_sent_def Send_def HandleWrite_def Start_def Conn_def Context_def AddFd_def write_loop_eqs
      Empty_def Len_def Buffer_def WouldBlock_def IsOpen_def buf.contents_discard Let_def)

theorem conn_delivery_witness: "prefix [1] [1, 2 :: u8] \<and> notified half_sent \<le> 1"
  using conn_delivery[OF half_sent_run[of "\<lambda>a xs. (0, [], a)"]] by (simp add: half_sent_value)

text \<open>An open connection is registered for input only, in every run, so output left behind by a full socket
  buffer is not sent when the socket becomes writable: the one event the registration can deliver, with nothing to read,
  writes nothing even when the kernel would take it all.\<close>

theorem output_waits_for_send:
  assumes "conn_run h s" "IsOpen s"
  shows "interest (ctx s) (fd s) \<in> {None, Some EPOLLIN} \<and>
    (\<exists>s'. HandleEvent h EPOLLIN (s\<lparr>recvs := []\<rparr>) = Some s' \<and> wire s' = wire s \<and> outbox s' = outbox s)"
  using conn_run_inv[OF assms(1)] assms(2)
  by (simp add: conn_inv_def IsOpen_def HandleEvent_def HandleRead_def read_loop_eqs epoll_defs)

theorem output_waits_for_send_witness:
  "\<exists>s'. HandleEvent (\<lambda>a xs. (0, [], a)) EPOLLIN (half_sent\<lparr>recvs := []\<rparr>) = Some s' \<and> wire s' = [1] \<and> vec (outbox s') = [2]"
  using output_waits_for_send[OF half_sent_run[of "\<lambda>a xs. (0, [], a)"] half_sent_value(5)]
  by (auto simp: half_sent_value)

end
