(* ===== verification/Tcp_Framing.thy ===== *)
theory Tcp_Framing
  imports Tcp_Conn
begin

section \<open>Message framing on a connection (src/net/tcp.hpp)\<close>

text \<open>
  A byte stream has no message boundaries: what the handler of a connection sees depends on how the kernel
  cuts the stream. Here: for a handler that decides by a prefix of the bytes, it does not matter.
\<close>

subsection \<open>Handlers that decide by a prefix\<close>

text \<open>
  Each decision, to consume a message or to refuse the stream, is taken on bytes that are there and does not
  change when more follow; a handler that waits for more bytes (0) has done nothing yet; and the handler
  does not close the connection itself (it returns a negative number instead).
\<close>

definition framing :: "'a handler \<Rightarrow> bool" where
  "framing h \<longleftrightarrow> (\<forall>a xs k cs a'. h a xs = (k, cs, a') \<longrightarrow>
     Call_Close \<notin> set cs \<and>
     (0 < k \<longrightarrow> nat k \<le> length xs) \<and>
     (k = 0 \<longrightarrow> cs = [] \<and> a' = a) \<and>
     (k \<noteq> 0 \<longrightarrow> (\<forall>ys. h a (xs @ ys) = (k, cs, a'))))"

text \<open>What the handler makes of a run of bytes: whether it goes on, its state, the bytes left, the data sent.\<close>

function parse :: "'a handler \<Rightarrow> 'a \<Rightarrow> bytes \<Rightarrow> bool \<times> 'a \<times> bytes \<times> conn_call list" where
  "parse h a xs =
     (case h a xs of (k, cs, a') \<Rightarrow>
        if k < 0 then (False, a', xs, cs)
        else if 0 < k \<and> nat k \<le> length xs then
          (case parse h a' (drop (nat k) xs) of (ok, a2, r, cs2) \<Rightarrow> (ok, a2, r, cs @ cs2))
        else (True, a', xs, cs))"
  by pat_completeness auto
termination
  by (relation "measure (\<lambda>(h, a, xs). length xs)") auto

declare parse.simps [simp del]

lemma framingD:
  assumes "framing h" "h a xs = (k, cs, a')"
  shows "Call_Close \<notin> set cs" "0 < k \<Longrightarrow> nat k \<le> length xs" "k = 0 \<Longrightarrow> cs = [] \<and> a' = a"
    "k \<noteq> 0 \<Longrightarrow> h a (xs @ ys) = (k, cs, a')"
  using assms by (auto simp: framing_def)

lemma parse_unfold:
  assumes "framing h" "h a xs = (k, cs, a')"
  shows "parse h a xs =
    (if k < 0 then (False, a', xs, cs) else if k = 0 then (True, a, xs, [])
     else case parse h a' (drop (nat k) xs) of (ok, a2, r, cs2) \<Rightarrow> (ok, a2, r, cs @ cs2))"
  using framingD[OF assms] assms(2) by (auto simp: parse.simps[of h a xs])

text \<open>More bytes: the handler goes on from what it had left.\<close>

lemma parse_append:
  assumes "framing h"
  shows "parse h a (xs @ ys) =
    (case parse h a xs of (ok, a2, r, cs) \<Rightarrow>
       if ok then (case parse h a2 (r @ ys) of (ok', a3, r', cs') \<Rightarrow> (ok', a3, r', cs @ cs'))
       else (False, a2, r @ ys, cs))"
proof (induction "length xs" arbitrary: a xs rule: less_induct)
  case less
  obtain k cs a' where h: "h a xs = (k, cs, a')"
    by (metis prod_cases3)
  note f = framingD[OF assms h] and p = parse_unfold[OF assms h]
  consider "k < 0" | "k = 0" | "0 < k" "nat k \<le> length xs"
    using f(2) by linarith
  then show ?case
  proof cases
    case 1
    then show ?thesis
      using p parse_unfold[OF assms f(4)] by auto
  next
    case 2
    then show ?thesis
      using p by (simp split: prod.splits)
  next
    case 3
    then show ?thesis
      using p parse_unfold[OF assms f(4)] less[of "drop (nat k) xs" a'] by (auto split: prod.splits)
  qed
qed

lemma parse_calls: "framing h \<Longrightarrow> parse h a xs = (ok, a2, r, cs) \<Longrightarrow> Call_Close \<notin> set cs"
proof (induction "length xs" arbitrary: a xs ok a2 r cs rule: less_induct)
  case less
  obtain k cs1 a' where h: "h a xs = (k, cs1, a')"
    by (metis prod_cases3)
  note f = framingD[OF less.prems(1) h]
  obtain ok2 a3 r2 cs2 where d: "parse h a' (drop (nat k) xs) = (ok2, a3, r2, cs2)"
    by (metis prod_cases4)
  show ?case
    using less.prems(2) parse_unfold[OF less.prems(1) h] f(1,2) d less.hyps[OF _ less.prems(1) d]
    by (auto split: if_splits)
qed

text \<open>The handler waits on what it has left.\<close>

lemma parse_rest: "framing h \<Longrightarrow> parse h a xs = (True, a2, r, cs) \<Longrightarrow> parse h a2 r = (True, a2, r, [])"
proof (induction "length xs" arbitrary: a xs cs rule: less_induct)
  case less
  obtain k cs1 a' where h: "h a xs = (k, cs1, a')"
    by (metis prod_cases3)
  note f = framingD[OF less.prems(1) h]
  obtain ok2 a3 r2 cs2 where d: "parse h a' (drop (nat k) xs) = (ok2, a3, r2, cs2)"
    by (metis prod_cases4)
  show ?case
    using less.prems(2) parse_unfold[OF less.prems(1) h] f(2) d less.hyps[of "drop (nat k) xs" a' cs2, OF _ less.prems(1)]
    by (auto split: if_splits)
qed

subsection \<open>Sending while reading\<close>

text \<open>\<open>send\<close> does not fail for good: it takes bytes, or asks to try again.\<close>

definition benign :: "send_result list \<Rightarrow> bool" where
  "benign rs \<longleftrightarrow> (\<forall>e. Send_error e \<in> set rs \<longrightarrow> WouldBlock e \<or> e = EINTR)"

fun sent_data :: "conn_call list \<Rightarrow> bytes" where
  "sent_data [] = []"
| "sent_data (Call_Send d # cs) = d @ sent_data cs"
| "sent_data (Call_Close # cs) = sent_data cs"

lemma sent_data_append [simp]: "sent_data (cs @ cs') = sent_data cs @ sent_data cs'"
  by (induction cs rule: sent_data.induct) auto

text \<open>Two connections that differ in their output only, with the same bytes accepted for it.\<close>

definition output_moved :: "bytes \<Rightarrow> 'a conn \<Rightarrow> 'a conn \<Rightarrow> bool" where
  "output_moved d s t \<longleftrightarrow> IsOpen t \<and> benign (sends t) \<and> app t = app s \<and> vec (rbuf t) = vec (rbuf s) \<and>
     wire t @ vec (outbox t) = wire s @ vec (outbox s) @ d \<and> recvs t = recvs s"

lemma write_loop_moved:
  "IsOpen s \<Longrightarrow> benign rs \<Longrightarrow> output_moved [] s (write_loop rs s)"
proof (induction rs arbitrary: s)
  case Nil
  then show ?case
    by (simp add: write_loop_eqs output_moved_def IsOpen_def benign_def)
next
  case (Cons r rs)
  have b: "benign rs" "r = Send_error e \<Longrightarrow> WouldBlock e \<or> e = EINTR" for e
    using Cons.prems(2) by (auto simp: benign_def)
  show ?case
  proof (cases "Empty (outbox s)")
    case True
    then show ?thesis
      using Cons.prems by (simp add: write_loop_eqs output_moved_def IsOpen_def)
  next
    case False
    show ?thesis
    proof (cases r)
      case (Send_error e)
      then show ?thesis
        using False b(2)[OF Send_error] b(1) Cons.prems by (simp add: write_loop_eqs output_moved_def IsOpen_def)
    next
      case (Accepted k)
      let ?n = "min k (Len (outbox s))"
      let ?s = "s\<lparr>wire := wire s @ take ?n (vec (outbox s)), outbox := buf_discard ?n (outbox s)\<rparr>"
      have "output_moved [] ?s (write_loop rs ?s)"
        by (rule Cons.IH) (use Cons.prems b in \<open>simp_all add: IsOpen_def\<close>)
      then show ?thesis
        using Accepted False b(1) Cons.prems
        by (simp add: write_loop_eqs Let_def output_moved_def IsOpen_def buf.contents_discard)
    qed
  qed
qed

lemma Send_moved: "IsOpen s \<Longrightarrow> benign (sends s) \<Longrightarrow> output_moved d s (Send d s)"
  using write_loop_moved[of "s\<lparr>outbox := buf_append d (outbox s), asked := asked s @ d\<rparr>" "sends s"]
  by (auto simp: Send_def HandleWrite_def IsOpen_def output_moved_def)

lemma run_calls_moved:
  "IsOpen s \<Longrightarrow> benign (sends s) \<Longrightarrow> Call_Close \<notin> set cs \<Longrightarrow> output_moved (sent_data cs) s (run_calls cs s)"
proof (induction cs s rule: run_calls.induct)
  case (2 d cs s)
  have m: "output_moved d s (Send d s)"
    using 2(2,3) by (rule Send_moved)
  then have "output_moved (sent_data cs) (Send d s) (run_calls cs (Send d s))"
    using 2 by (simp add: output_moved_def)
  with m show ?case
    by (simp add: output_moved_def)
qed (simp_all add: output_moved_def)

subsection \<open>Dispatching and reading\<close>

text \<open>
  The connection after the handler has worked on \<open>xs\<close> (what was buffered and what was read): \<open>s\<close> before, \<open>t\<close>
  after. When the handler refused the stream the connection is closed; the data sent so far is on the wire
  or lost with the outbox.
\<close>

definition handled :: "'a handler \<Rightarrow> bytes \<Rightarrow> 'a conn \<Rightarrow> 'a conn \<Rightarrow> bool" where
  "handled h xs s t \<longleftrightarrow>
     (case parse h (app s) xs of (ok, a, r, cs) \<Rightarrow>
        app t = a \<and>
        (if ok then IsOpen t \<and> benign (sends t) \<and> vec (rbuf t) = r \<and>
           wire t @ vec (outbox t) = wire s @ vec (outbox s) @ sent_data cs
         else closed t))"

lemma closed_close_now: "closed (close_now n s)" "app (close_now n s) = app s"
  by (auto simp: close_now_def CloseFd_def Let_def)

lemma DispatchMessages_handled:
  assumes "framing h"
  shows "IsOpen s \<Longrightarrow> benign (sends s) \<Longrightarrow>
    \<exists>t. DispatchMessages h s = Some (fst (parse h (app s) (vec (rbuf s))), t) \<and> handled h (vec (rbuf s)) s t"
proof (induction "length (vec (rbuf s))" arbitrary: s rule: less_induct)
  case less
  obtain k cs a where h: "h (app s) (vec (rbuf s)) = (k, cs, a)"
    by (metis prod_cases3)
  note f = framingD[OF assms h] and p = parse_unfold[OF assms h]
  let ?t = "run_calls cs (s\<lparr>app := a\<rparr>)"
  have m: "output_moved (sent_data cs) (s\<lparr>app := a\<rparr>) ?t"
    by (rule run_calls_moved) (use less.prems f(1) in \<open>simp_all add: IsOpen_def\<close>)
  note unfold = DispatchMessages.simps[of h s, unfolded h prod.case Let_def]
  consider "k < 0" | "k = 0" | "0 < k" "nat k \<le> length (vec (rbuf s))"
    using f(2) by linarith
  then show ?case
  proof cases
    case 1
    then show ?thesis
      using p m by (simp add: unfold handled_def closed_close_now output_moved_def)
  next
    case 2
    then show ?thesis
      using p m f(3) by (simp add: unfold handled_def output_moved_def)
  next
    case 3
    let ?u = "?t\<lparr>rbuf := buf_discard (nat k) (rbuf ?t)\<rparr>"
    have u: "vec (rbuf ?u) = drop (nat k) (vec (rbuf s))" "app ?u = a" "IsOpen ?u" "benign (sends ?u)"
        "wire ?u @ vec (outbox ?u) = wire s @ vec (outbox s) @ sent_data cs"
      using m by (simp_all add: output_moved_def buf.contents_discard IsOpen_def)
    obtain t where "DispatchMessages h ?u = Some (fst (parse h (app ?u) (vec (rbuf ?u))), t)"
      and t: "handled h (vec (rbuf ?u)) ?u t"
      using less.hyps[of ?u] u(1,3,4) 3 by fastforce
    then have "DispatchMessages h s = Some (fst (parse h (app s) (vec (rbuf s))), t)"
      using 3 p u(1,2) by (simp add: unfold split: prod.splits)
    moreover have "handled h (vec (rbuf s)) s t"
      using t 3 p u by (auto simp: handled_def split: prod.splits if_splits)
    ultimately show ?thesis
      by blast
  qed
qed

text \<open>What the kernel hands out: non-empty pieces of at most 8192 bytes, with interrupted calls between.\<close>

definition chunks_ok :: "recv_result list \<Rightarrow> bool" where
  "chunks_ok rs \<longleftrightarrow> (\<forall>r \<in> set rs. r = Recv_error EINTR \<or> (\<exists>xs. r = Received xs \<and> xs \<noteq> [] \<and> length xs \<le> 8192))"

fun stream :: "recv_result list \<Rightarrow> bytes" where
  "stream [] = []"
| "stream (Received xs # rs) = xs @ stream rs"
| "stream (Recv_error e # rs) = stream rs"

lemma read_loop_handled:
  assumes "framing h"
  shows "chunks_ok rs \<Longrightarrow> IsOpen s \<Longrightarrow> benign (sends s) \<Longrightarrow> parse h (app s) (vec (rbuf s)) = (True, app s, vec (rbuf s), []) \<Longrightarrow>
    \<exists>t. read_loop h rs s = Some t \<and> handled h (vec (rbuf s) @ stream rs) s t"
proof (induction rs arbitrary: s)
  case Nil
  then show ?case
    by (simp add: read_loop_eqs IsOpen_def handled_def)
next
  case (Cons r rs)
  have rs: "chunks_ok rs" "r = Recv_error EINTR \<or> (\<exists>xs. r = Received xs \<and> xs \<noteq> [] \<and> length xs \<le> 8192)"
    using Cons.prems(1) by (auto simp: chunks_ok_def)
  have fd: "0 \<le> fd s"
    using Cons.prems(2) by (simp add: IsOpen_def)
  from rs(2) show ?case
  proof (elim disjE exE conjE)
    assume "r = Recv_error EINTR"
    then show ?thesis
      using Cons.IH[OF rs(1) Cons.prems(2-4)] fd by (simp add: read_loop_eqs)
  next
    fix xs
    assume r: "r = Received xs" "xs \<noteq> []" "length xs \<le> 8192"
    let ?s = "s\<lparr>rbuf := buf_append xs (rbuf s)\<rparr>"
    obtain ok a r1 cs where p: "parse h (app s) (vec (rbuf s) @ xs) = (ok, a, r1, cs)"
      by (metis prod_cases4)
    obtain t where d: "DispatchMessages h ?s = Some (ok, t)" and t: "handled h (vec (rbuf s) @ xs) ?s t"
      using DispatchMessages_handled[OF assms, of ?s] Cons.prems(2,3) p by (auto simp: IsOpen_def)
    note app = parse_append[OF assms, of "app s" "vec (rbuf s) @ xs" "stream rs", unfolded p, simplified]
    show ?thesis
    proof (cases ok)
      case False
      then show ?thesis
        using r fd d t p app by (auto simp: read_loop_eqs handled_def)
    next
      case True
      have t': "app t = a" "vec (rbuf t) = r1" "IsOpen t" "benign (sends t)"
          "wire t @ vec (outbox t) = wire s @ vec (outbox s) @ sent_data cs"
        using t p True by (simp_all add: handled_def)
      have "parse h (app t) (vec (rbuf t)) = (True, app t, vec (rbuf t), [])"
        using parse_rest[OF assms, of "app s" "vec (rbuf s) @ xs" a r1 cs] p True t' by simp
      from Cons.IH[OF rs(1) t'(3,4) this] obtain u where
        u: "read_loop h rs t = Some u" "handled h (r1 @ stream rs) t u"
        using t' by auto
      then show ?thesis
        using r fd d t p app True t' by (auto simp: read_loop_eqs handled_def split: prod.splits if_splits)
    qed
  qed
qed

subsection \<open>Properties\<close>

text \<open>
  The handler of the demonstration client (src/test/tcp_test.cpp): a header of 32 bytes with the length of the
  body, an \<open>int\<close>, at offset 24. The comparison with \<open>n\<close> is unsigned, so a negative total waits for
  ever. Its state is the list of messages consumed.
\<close>

definition DVR_OnMessage :: "bytes list handler" where
  "DVR_OnMessage a xs =
     (if length xs < 32 then (0, [], a)
      else
        (let dlen = sint ((of_le (take 4 (drop 24 xs)) :: u32) + 32) in
         if dlen \<le> 0 \<or> int (length xs) < dlen then (0, [], a)
         else (dlen, [], a @ [take (nat dlen) xs])))"

lemma DVR_OnMessage_framing: "framing DVR_OnMessage"
  by (auto simp: framing_def DVR_OnMessage_def Let_def split: if_splits)

text \<open>C20. Reading is independent of how the stream is cut: on an open connection whose handler decides by a prefix and waits for
  more bytes, and whose output does not fail, \<open>HandleRead\<close> ends, however the kernel cuts the bytes and whatever calls are
  interrupted, with the handler's state, the open or closed state, the bytes left over and the
  output that one pass of the handler over the whole run of bytes gives.\<close>

theorem reading_independent_of_cuts:
  assumes "framing h" "chunks_ok (recvs s)" "IsOpen s" "benign (sends s)" "fst (h (app s) (vec (rbuf s))) = 0"
  shows "\<exists>t. HandleRead h s = Some t \<and> handled h (vec (rbuf s) @ stream (recvs s)) s t"
proof -
  obtain cs a where h: "h (app s) (vec (rbuf s)) = (0, cs, a)"
    using assms(5) by (metis prod.collapse)
  show ?thesis
    unfolding HandleRead_def
    by (rule read_loop_handled[OF assms(1-4)]) (simp add: parse_unfold[OF assms(1) h])
qed

text \<open>A message of 34 bytes in three pieces, with an interrupted call between them.\<close>

theorem reading_independent_of_cuts_witness:
  "\<exists>t. HandleRead DVR_OnMessage ((Conn Context 5 True [])\<lparr>recvs := [Received (replicate 20 0),
        Recv_error EINTR, Received (replicate 4 0 @ [2, 0, 0, 0, 0]), Received [0, 0, 0, 7, 8]]\<rparr>) = Some t \<and>
     app t = [replicate 24 0 @ [2, 0, 0, 0, 0, 0, 0, 0, 7, 8]] \<and> vec (rbuf t) = []"
proof -
  let ?m = "replicate 24 0 @ [2, 0, 0, 0, 0, 0, 0, 0, 7, 8] :: bytes"
  let ?s = "(Conn Context 5 True [])\<lparr>recvs := [Received (replicate 20 0),
        Recv_error EINTR, Received (replicate 4 0 @ [2, 0, 0, 0, 0]), Received [0, 0, 0, 7, 8]]\<rparr> :: bytes list conn"
  have m: "DVR_OnMessage [] ?m = (34, [], [?m])" "DVR_OnMessage [?m] [] = (0, [], [?m])"
    by (simp_all add: DVR_OnMessage_def)
  have "parse DVR_OnMessage [] ?m = (True, [?m], [], [])"
    by (simp add: parse_unfold[OF DVR_OnMessage_framing m(1)] parse_unfold[OF DVR_OnMessage_framing m(2)] del: append.simps)
  moreover have stream: "vec (rbuf ?s) @ stream (recvs ?s) = ?m" "app ?s = []"
    by (simp_all add: Conn_def Buffer_def numeral_eq_Suc)
  moreover obtain t where "HandleRead DVR_OnMessage ?s = Some t" "handled DVR_OnMessage ?m ?s t"
    using reading_independent_of_cuts[OF DVR_OnMessage_framing, of ?s, unfolded stream]
    by (auto simp: Conn_def chunks_ok_def benign_def IsOpen_def Buffer_def DVR_OnMessage_def)
  ultimately show ?thesis
    by (intro exI[of _ t]) (simp add: handled_def)
qed

end
