(* ===== verification/Tcp_Client.thy ===== *)
theory Tcp_Client
  imports Tcp_Conn
begin

section \<open>libtcp::Client and libtcp::Server (src/net/tcp.hpp)\<close>

text \<open>
  The client as a state machine over its flags, its timer, its pending connect and its connection, with the
  table of descriptors of its context. A connection is named by its descriptor; \<open>conns\<close> are the
  connections that are alive (a \<open>Conn\<close> lives as long as the client or the handler table holds it). Every call of
  a user callback is the last thing its caller does, so what the callback calls is the next step;
  \<open>log\<close> records the callbacks and \<open>attempted\<close> the addresses handed to \<open>connect\<close>. Results of the
  kernel and of name resolution are arguments of the operations.
\<close>

type_synonym sockaddr = "u32 \<times> u16"

datatype callback = On_timer | On_connect_event | On_conn int | On_listen

datatype reason = Host_unreachable | Operation_canceled | Connection_refused | Connection_reset

datatype event = Connected | Closed reason

record client =
  c_ctx :: "callback event_ctx"
  ctx_alive :: bool
  kept :: bool
  conn :: "int option"
  conns :: "int list"
  host :: string
  port :: u16
  connected :: bool
  manual_close :: bool
  connecting :: bool
  timerfd :: int
  addrs :: "sockaddr list"
  addr_idx :: nat
  connect_fd :: int
  resolving :: nat
  log :: "event list"
  attempted :: "sockaddr list"

definition Client :: "callback event_ctx \<Rightarrow> client" where
  "Client c = \<lparr>c_ctx = c, ctx_alive = True, kept = False, conn = None, conns = [], host = [], port = 0,
     connected = False, manual_close = False, connecting = False, timerfd = -1, addrs = [], addr_idx = 0,
     connect_fd = -1, resolving = 0, log = [], attempted = []\<rparr>"

definition emit_event :: "event \<Rightarrow> client \<Rightarrow> client" where
  "emit_event e s = s\<lparr>log := log s @ [e]\<rparr>"

definition close_fd :: "int \<Rightarrow> client \<Rightarrow> client" where
  "close_fd f s = s\<lparr>c_ctx := kernel_close f (c_ctx s)\<rparr>"

text \<open>\<open>if (auto ctx = ctx_.lock()) ctx->DelFd(fd)\<close>, then \<open>close\<close>.\<close>

definition del_close :: "int \<Rightarrow> client \<Rightarrow> client" where
  "del_close f s = close_fd f (if ctx_alive s then s\<lparr>c_ctx := DelFd f (c_ctx s)\<rparr> else s)"

definition CancelTimer :: "client \<Rightarrow> client" where
  "CancelTimer s = (if timerfd s \<ge> 0 then (del_close (timerfd s) s)\<lparr>timerfd := -1\<rparr> else s)"

definition cancel_connect :: "client \<Rightarrow> client" where
  "cancel_connect s = (if connect_fd s \<ge> 0 then (del_close (connect_fd s) s)\<lparr>connect_fd := -1\<rparr> else s)"

text \<open>
  \<open>conn_.reset()\<close> and the assignment of a new connection: the old one is destroyed (and its descriptor closed)
  unless the handler table still holds it.
\<close>

definition release_conn :: "client \<Rightarrow> client" where
  "release_conn s =
     (case conn s of
        None \<Rightarrow> s
      | Some f \<Rightarrow>
          if handlers (c_ctx s) f = Some (On_conn f) then s\<lparr>conn := None\<rparr>
          else (close_fd f s)\<lparr>conn := None, conns := removeAll f (conns s)\<rparr>)"

text \<open>\<open>Conn::close_now(true)\<close> on connection \<open>f\<close>, with the close handler that the client installed.\<close>

definition conn_closed :: "int \<Rightarrow> client \<Rightarrow> client" where
  "conn_closed f s =
     (let s = (close_fd f (s\<lparr>c_ctx := DelFd f (c_ctx s)\<rparr>))\<lparr>conns := removeAll f (conns s)\<rparr>;
          s = s\<lparr>connected := False\<rparr>;
          s = (if conn s = Some f then s\<lparr>conn := None\<rparr> else release_conn s)
      in if \<not> manual_close s then emit_event (Closed Connection_reset) s else s)"

definition Client_Close :: "client \<Rightarrow> client" where
  "Client_Close s =
     (let s = cancel_connect (CancelTimer (s\<lparr>manual_close := True\<rparr>));
          c = conn s;
          s = s\<lparr>conn := None, kept := kept s \<and> \<not> ctx_alive s\<rparr>
      in case c of None \<Rightarrow> s | Some f \<Rightarrow> conn_closed f s)"

text \<open>\<open>tfd\<close> is the result of \<open>timerfd_create\<close>, \<open>ok\<close> of adding it to the epoll set.\<close>

definition ScheduleReconnect :: "int \<Rightarrow> bool \<Rightarrow> client \<Rightarrow> client" where
  "ScheduleReconnect tfd ok s =
     (if manual_close s \<or> connected s \<or> connecting s \<or> timerfd s \<ge> 0 then s
      else
        (let s = s\<lparr>connecting := True, timerfd := tfd\<rparr> in
         if tfd < 0 \<or> \<not> ctx_alive s then s
         else s\<lparr>c_ctx := snd (AddFd ok tfd On_timer EPOLLIN (c_ctx s))\<rparr>))"

definition Reconnect :: "int \<Rightarrow> bool \<Rightarrow> client \<Rightarrow> client" where
  "Reconnect tfd ok s =
     (let s = CancelTimer (s\<lparr>manual_close := False\<rparr>) in
      if \<not> connected s \<and> \<not> connecting s then ScheduleReconnect tfd ok s else s)"

definition OnConnectDone :: "int \<Rightarrow> bool \<Rightarrow> client \<Rightarrow> client" where
  "OnConnectDone f ok s =
     (if \<not> ctx_alive s \<or> manual_close s then close_fd f (s\<lparr>connecting := False\<rparr>)
      else
        (let s = release_conn (s\<lparr>connecting := False\<rparr>);
             s = s\<lparr>conn := Some f, conns := conns s @ [f],
                   c_ctx := snd (AddFd ok f (On_conn f) EPOLLIN (c_ctx s)), connected := True\<rparr>
         in emit_event Connected s))"

text \<open>What the kernel answers for one address: no socket, connected at once, in progress, or refused.\<close>

datatype attempt = No_socket | Connected_now int bool | In_progress int bool | Failed_now

function try_loop :: "(nat \<Rightarrow> attempt) \<Rightarrow> client \<Rightarrow> client" where
  "try_loop att s =
     (if manual_close s then s
      else if addr_idx s \<ge> length (addrs s) then
        emit_event (Closed Connection_refused) (s\<lparr>connecting := False\<rparr>)
      else
        (case att (addr_idx s) of
           No_socket \<Rightarrow> try_loop att (s\<lparr>addr_idx := addr_idx s + 1\<rparr>)
         | Connected_now f ok \<Rightarrow>
             OnConnectDone f ok (s\<lparr>attempted := attempted s @ [addrs s ! addr_idx s]\<rparr>)
         | In_progress f ok \<Rightarrow>
             s\<lparr>attempted := attempted s @ [addrs s ! addr_idx s], connect_fd := f,
               c_ctx := snd (AddFd ok f On_connect_event EPOLLOUT (c_ctx s))\<rparr>
         | Failed_now \<Rightarrow>
             try_loop att (s\<lparr>attempted := attempted s @ [addrs s ! addr_idx s], addr_idx := addr_idx s + 1\<rparr>)))"
  by pat_completeness auto
termination
  by (relation "measure (\<lambda>(att, s). length (addrs s) - addr_idx s)") auto

declare try_loop.simps [simp del]

definition TryConnectNext :: "(nat \<Rightarrow> attempt) \<Rightarrow> client \<Rightarrow> client" where
  "TryConnectNext att s =
     (if \<not> ctx_alive s then emit_event (Closed Operation_canceled) (s\<lparr>connecting := False\<rparr>)
      else try_loop att (cancel_connect s))"

text \<open>\<open>res\<close>: the failure of \<open>getaddrinfo\<close>, or its entries with their address when they are \<open>AF_INET\<close>.\<close>

definition DoResolveAndConnect :: "sockaddr option list option \<Rightarrow> (nat \<Rightarrow> attempt) \<Rightarrow> client \<Rightarrow> client" where
  "DoResolveAndConnect res att s =
     (case res of
        None \<Rightarrow> emit_event (Closed Host_unreachable) s
      | Some entries \<Rightarrow>
          (let new_addrs = List.map_filter (\<lambda>e. e) entries in
           if new_addrs = [] then emit_event (Closed Host_unreachable) s
           else TryConnectNext att (s\<lparr>addrs := new_addrs, addr_idx := 0\<rparr>)))"

definition OnTimer :: "(nat \<Rightarrow> attempt) \<Rightarrow> client \<Rightarrow> client" where
  "OnTimer att s =
     (let s = CancelTimer (s\<lparr>connecting := False\<rparr>) in
      if manual_close s then s
      else if addrs s \<noteq> [] then TryConnectNext att (s\<lparr>addr_idx := 0\<rparr>)
      else s\<lparr>resolving := resolving s + 1\<rparr>)"

definition Connect :: "string \<Rightarrow> u16 \<Rightarrow> sockaddr option list option \<Rightarrow> (nat \<Rightarrow> attempt) \<Rightarrow> client \<Rightarrow> client" where
  "Connect h p res att s =
     (if \<not> ctx_alive s then s
      else
        (let s = s\<lparr>manual_close := False, connecting := True, host := h, port := p\<rparr>;
             s = cancel_connect (CancelTimer s)
         in if addrs s = [] \<or> addr_idx s \<ge> length (addrs s)
            then DoResolveAndConnect res att (s\<lparr>addr_idx := 0\<rparr>)
            else TryConnectNext att (s\<lparr>addr_idx := 0\<rparr>)))"

definition OnConnectEvent :: "bool \<Rightarrow> bool \<Rightarrow> (nat \<Rightarrow> attempt) \<Rightarrow> client \<Rightarrow> client" where
  "OnConnectEvent err ok att s =
     (if \<not> ctx_alive s then s\<lparr>connecting := False\<rparr>
      else
        (let f = connect_fd s; s = s\<lparr>connect_fd := -1\<rparr> in
         if f < 0 then s
         else
           (let s = s\<lparr>c_ctx := DelFd f (c_ctx s)\<rparr> in
            if manual_close s then close_fd f (s\<lparr>connecting := False\<rparr>)
            else if err then TryConnectNext att (close_fd f (s\<lparr>addr_idx := addr_idx s + 1\<rparr>))
            else OnConnectDone f ok s)))"

text \<open>\<open>Send\<close> goes to the current connection, if there is one.\<close>

definition Client_Send :: "client \<Rightarrow> int option" where
  "Client_Send s = conn s"

definition IsConnected :: "client \<Rightarrow> bool" where
  "IsConnected s = connected s"

definition Dial :: "callback event_ctx \<Rightarrow> string \<Rightarrow> u16 \<Rightarrow> sockaddr option list option \<Rightarrow> (nat \<Rightarrow> attempt) \<Rightarrow> client" where
  "Dial c h p res att = Connect h p res att ((Client c)\<lparr>kept := True\<rparr>)"

subsection \<open>Steps\<close>

text \<open>
  The events of the loop are delivered to what the handler table holds for their descriptor. \<open>user\<close> is
  whether the step may be a new \<open>Connect\<close>.
\<close>

inductive client_step :: "bool \<Rightarrow> client \<Rightarrow> client \<Rightarrow> bool" for user where
  connect: "user \<Longrightarrow> client_step user s (Connect h p res att s)"
| reconnect: "client_step user s (Reconnect tfd ok s)"
| close: "client_step user s (Client_Close s)"
| timer: "handlers (c_ctx s) f = Some On_timer \<Longrightarrow> client_step user s (OnTimer att s)"
| connect_event: "handlers (c_ctx s) f = Some On_connect_event \<Longrightarrow>
    client_step user s (OnConnectEvent err ok att s)"
| conn_event: "f \<in> set (conns s) \<Longrightarrow> handlers (c_ctx s) f = Some (On_conn f) \<Longrightarrow>
    client_step user s (conn_closed f s)"
| resolved: "0 < resolving s \<Longrightarrow>
    client_step user s (DoResolveAndConnect res att (s\<lparr>resolving := resolving s - 1\<rparr>))"

inductive client_steps :: "bool \<Rightarrow> client \<Rightarrow> client \<Rightarrow> bool" for user where
  refl: "client_steps user s s"
| step: "client_steps user s s' \<Longrightarrow> client_step user s' s'' \<Longrightarrow> client_steps user s s''"

subsection \<open>Invariant\<close>

text \<open>
  A client that says it is connected has a live connection; a client that has been closed, and not asked to
  connect again, holds no descriptor.
\<close>

definition client_inv :: "client \<Rightarrow> bool" where
  "client_inv s \<longleftrightarrow>
     (connected s \<longrightarrow> conn s \<noteq> None) \<and> (\<forall>f. conn s = Some f \<longrightarrow> f \<in> set (conns s)) \<and>
     (manual_close s \<longrightarrow> timerfd s < 0 \<and> connect_fd s < 0 \<and> conn s = None)"

named_theorems client_defs \<open>definitions of the client's operations\<close>

declare emit_event_def [client_defs] close_fd_def [client_defs] del_close_def [client_defs]
  CancelTimer_def [client_defs] cancel_connect_def [client_defs] Let_def [client_defs]

lemma client_inv_simps [simp]:
  "client_inv (emit_event e s) = client_inv s" "client_inv (close_fd f s) = client_inv s"
  "client_inv (s\<lparr>c_ctx := c\<rparr>) = client_inv s" "client_inv (s\<lparr>connecting := b\<rparr>) = client_inv s"
  "client_inv (s\<lparr>host := h, port := p\<rparr>) = client_inv s" "client_inv (s\<lparr>addr_idx := i\<rparr>) = client_inv s"
  "client_inv (s\<lparr>addrs := l\<rparr>) = client_inv s" "client_inv (s\<lparr>resolving := n\<rparr>) = client_inv s"
  "client_inv (s\<lparr>attempted := xs\<rparr>) = client_inv s" "client_inv (s\<lparr>kept := k\<rparr>) = client_inv s"
  by (simp_all add: client_inv_def client_defs)

lemma CancelTimer_inv: "client_inv s \<Longrightarrow> client_inv (CancelTimer s)"
  by (simp add: client_inv_def client_defs)

lemma cancel_connect_inv: "client_inv s \<Longrightarrow> client_inv (cancel_connect s)"
  by (simp add: client_inv_def client_defs)

lemma reopen_inv: "client_inv s \<Longrightarrow> client_inv (s\<lparr>manual_close := False\<rparr>)"
  by (simp add: client_inv_def)

lemma conn_closed_inv: "client_inv s \<Longrightarrow> client_inv (conn_closed f s)"
  by (auto simp: client_inv_def conn_closed_def release_conn_def client_defs split: option.splits)

lemma OnConnectDone_inv: "client_inv s \<Longrightarrow> client_inv (OnConnectDone f ok s)"
  by (auto simp: client_inv_def OnConnectDone_def release_conn_def client_defs split: option.splits)

lemma try_loop_inv: "client_inv s \<Longrightarrow> client_inv (try_loop att s)"
proof (induction att s rule: try_loop.induct)
  case (1 att s)
  show ?case
  proof (cases "manual_close s \<or> addr_idx s \<ge> length (addrs s)")
    case True
    then show ?thesis
      using 1(3) by (auto simp: try_loop.simps[of att s])
  next
    case False
    then have m: "\<not> manual_close s" "\<not> length (addrs s) \<le> addr_idx s"
      by auto
    show ?thesis
    proof (cases "att (addr_idx s)")
      case (In_progress f ok)
      then show ?thesis
        using 1(3) m by (simp add: try_loop.simps[of att s] client_inv_def)
    next
      case (Connected_now f ok)
      then show ?thesis
        using 1(3) m OnConnectDone_inv by (simp add: try_loop.simps[of att s])
    qed (use 1 m in \<open>simp_all add: try_loop.simps[of att s]\<close>)
  qed
qed

lemma TryConnectNext_inv: "client_inv s \<Longrightarrow> client_inv (TryConnectNext att s)"
  by (simp add: TryConnectNext_def try_loop_inv cancel_connect_inv)

lemma DoResolve_inv: "client_inv s \<Longrightarrow> client_inv (DoResolveAndConnect res att s)"
  by (auto simp: DoResolveAndConnect_def Let_def TryConnectNext_inv split: option.splits)

lemma manual_close_CancelTimer [simp]: "manual_close (CancelTimer s) = manual_close s"
  by (simp add: client_defs)

lemma client_step_inv: "client_step user s s' \<Longrightarrow> client_inv s \<Longrightarrow> client_inv s'"
proof (induction rule: client_step.induct)
  case (connect s h p res att)
  let ?s = "s\<lparr>manual_close := False, connecting := True, host := h, port := p\<rparr>"
  have "client_inv (cancel_connect (CancelTimer ?s))"
    using connect(2) by (intro cancel_connect_inv CancelTimer_inv) (simp add: client_inv_def)
  then show ?case
    using connect(2) by (simp add: Connect_def Let_def DoResolve_inv TryConnectNext_inv)
next
  case (reconnect s tfd ok)
  then have "client_inv (CancelTimer (s\<lparr>manual_close := False\<rparr>))"
    by (intro CancelTimer_inv reopen_inv)
  then show ?case
    by (auto simp: Reconnect_def ScheduleReconnect_def Let_def client_inv_def)
next
  case (close s)
  then show ?case
    by (auto simp: Client_Close_def conn_closed_def release_conn_def client_inv_def client_defs split: option.splits)
next
  case (timer s f att)
  then have "client_inv (CancelTimer (s\<lparr>connecting := False\<rparr>))"
    by (intro CancelTimer_inv) simp
  then show ?case
    by (simp add: OnTimer_def Let_def TryConnectNext_inv)
next
  case (connect_event s f err ok att)
  then have "client_inv (s\<lparr>connect_fd := -1\<rparr>)"
    by (simp add: client_inv_def)
  then show ?case
    using connect_event(2) by (simp add: OnConnectEvent_def Let_def TryConnectNext_inv OnConnectDone_inv)
next
  case (conn_event f s)
  then show ?case
    by (simp add: conn_closed_inv)
next
  case (resolved s res att)
  then show ?case
    by (simp add: DoResolve_inv)
qed

lemma client_steps_inv: "client_steps user s s' \<Longrightarrow> client_inv s \<Longrightarrow> client_inv s'"
  by (induction rule: client_steps.induct) (auto intro: client_step_inv)

lemma Client_inv: "client_inv (Client c)"
  by (simp add: client_inv_def Client_def)

subsection \<open>States without a way on\<close>

text \<open>The client believes that it is connecting, but no timer, no connect, no resolution is under way.\<close>

definition stalled :: "client \<Rightarrow> bool" where
  "stalled s \<longleftrightarrow> connecting s \<and> \<not> connected s \<and> timerfd s < 0 \<and> connect_fd s < 0 \<and> conn s = None \<and> conns s = [] \<and>
     resolving s = 0 \<and> On_timer \<notin> ran (handlers (c_ctx s)) \<and> On_connect_event \<notin> ran (handlers (c_ctx s))"

lemma stalled_step:
  "client_step False s s' \<Longrightarrow> stalled s \<Longrightarrow> stalled s' \<and> log s' = log s \<and> attempted s' = attempted s"
  by (induction rule: client_step.induct)
    (auto simp: stalled_def Reconnect_def Client_Close_def client_defs ran_def)

lemma stalled_steps:
  "client_steps False s s' \<Longrightarrow> stalled s \<Longrightarrow> stalled s' \<and> log s' = log s \<and> attempted s' = attempted s"
  by (induction rule: client_steps.induct) (auto dest: stalled_step)

lemmas client_eval = Client_def Context_def Connect_def Reconnect_def ScheduleReconnect_def DoResolveAndConnect_def
  TryConnectNext_def OnTimer_def OnConnectEvent_def OnConnectDone_def release_conn_def AddFd_def DelFd_def kernel_close_def
  client_defs

lemma steps1: "client_step user s s' \<Longrightarrow> client_steps user s s'"
  using client_steps.refl client_steps.step by blast

text \<open>Name resolution fails; the close callback asks for another try.\<close>

definition unresolved :: client where
  "unresolved = Reconnect 7 True (Connect ''host'' 80 None (\<lambda>_. No_socket) (Client Context))"

text \<open>The only address refuses; the owner asks twice for another try.\<close>

definition refused :: client where
  "refused = Connect ''host'' 80 (Some [Some (1, 80)]) (\<lambda>_. Failed_now) (Client Context)"

definition asked_twice :: client where
  "asked_twice = Reconnect 8 True (Reconnect 7 True refused)"

text \<open>The same, and the system has no timer to give; later it has.\<close>

definition no_timer :: client where
  "no_timer = Reconnect 7 True (Reconnect (-1) True refused)"

lemma refused_value:
  "refused = (Client Context)\<lparr>host := ''host'', port := 80, addrs := [(1, 80)], addr_idx := 1,
     log := [Closed Connection_refused], attempted := [(1, 80)]\<rparr>"
  by (simp add: refused_def client_eval try_loop.simps List.map_filter_simps)

lemma stalled_examples: "stalled unresolved" "stalled asked_twice" "stalled no_timer"
  by (simp_all add: stalled_def unresolved_def asked_twice_def no_timer_def refused_value client_eval)

lemma example_steps:
  "client_steps True (Client Context) unresolved" "client_steps True (Client Context) asked_twice"
  "client_steps True (Client Context) no_timer"
  unfolding unresolved_def asked_twice_def no_timer_def refused_def
  by (rule client_steps.step[OF steps1] client_steps.step[OF client_steps.step[OF steps1]];
      (rule client_step.connect client_step.reconnect)?; simp)+

subsection \<open>The address list is kept\<close>

lemma host_port_commute:
  "close_fd f (s\<lparr>host := h, port := p\<rparr>) = (close_fd f s)\<lparr>host := h, port := p\<rparr>"
  "cancel_connect (s\<lparr>host := h, port := p\<rparr>) = (cancel_connect s)\<lparr>host := h, port := p\<rparr>"
  "CancelTimer (s\<lparr>host := h, port := p\<rparr>) = (CancelTimer s)\<lparr>host := h, port := p\<rparr>"
  "emit_event e (s\<lparr>host := h, port := p\<rparr>) = (emit_event e s)\<lparr>host := h, port := p\<rparr>"
  by (simp_all add: client_defs)

lemma release_conn_host_port:
  "release_conn (s\<lparr>host := h, port := p\<rparr>) = (release_conn s)\<lparr>host := h, port := p\<rparr>"
  by (cases "conn s") (simp_all add: release_conn_def close_fd_def)

lemma OnConnectDone_host_port:
  "OnConnectDone f ok (s\<lparr>host := h, port := p\<rparr>) = (OnConnectDone f ok s)\<lparr>host := h, port := p\<rparr>"
proof (cases "\<not> ctx_alive s \<or> manual_close s")
  case False
  have "s\<lparr>host := h, port := p, connecting := False\<rparr> = s\<lparr>connecting := False\<rparr>\<lparr>host := h, port := p\<rparr>"
    by simp
  then show ?thesis
    using False by (simp only: OnConnectDone_def release_conn_host_port Let_def) (simp add: emit_event_def)
qed (auto simp: OnConnectDone_def close_fd_def)

lemma host_port_swap:
  "t\<lparr>addr_idx := i\<rparr>\<lparr>host := h, port := p\<rparr> = t\<lparr>host := h, port := p, addr_idx := i\<rparr>"
  "t\<lparr>attempted := xs\<rparr>\<lparr>host := h, port := p\<rparr> = t\<lparr>host := h, port := p, attempted := xs\<rparr>"
  for t :: client
  by simp_all

lemma try_loop_host_port: "try_loop att (s\<lparr>host := h, port := p\<rparr>) = (try_loop att s)\<lparr>host := h, port := p\<rparr>"
proof (induction att s rule: try_loop.induct)
  case (1 att s)
  show ?case
  proof (cases "manual_close s \<or> addr_idx s \<ge> length (addrs s)")
    case True
    then show ?thesis
      by (auto simp: try_loop.simps[of att s] try_loop.simps[of att "s\<lparr>host := h, port := p\<rparr>"] emit_event_def)
  next
    case False
    then have m: "\<not> manual_close s" "\<not> length (addrs s) \<le> addr_idx s"
      by auto
    note unfold = try_loop.simps[of att s] try_loop.simps[of att "s\<lparr>host := h, port := p\<rparr>"]
    show ?thesis
    proof (cases "att (addr_idx s)")
      case No_socket
      then show ?thesis
        using 1(1)[OF m No_socket, unfolded host_port_swap] m by (simp add: unfold)
    next
      case (Connected_now f ok)
      then show ?thesis
        using m OnConnectDone_host_port[where s = "s\<lparr>attempted := attempted s @ [addrs s ! addr_idx s]\<rparr>" and h = h and p = p, unfolded host_port_swap]
        by (simp add: unfold)
    next
      case (In_progress f ok)
      then show ?thesis
        using m by (simp add: unfold)
    next
      case Failed_now
      then show ?thesis
        using 1(2)[OF m Failed_now, unfolded host_port_swap] m by (simp add: unfold)
    qed
  qed
qed

lemma TryConnectNext_host_port:
  "TryConnectNext att (s\<lparr>host := h, port := p\<rparr>) = (TryConnectNext att s)\<lparr>host := h, port := p\<rparr>"
  by (simp add: TryConnectNext_def host_port_commute try_loop_host_port) (simp add: emit_event_def)

lemma cancel_simps [simp]:
  "addrs (CancelTimer s) = addrs s" "addr_idx (CancelTimer s) = addr_idx s"
  "addrs (cancel_connect s) = addrs s" "addr_idx (cancel_connect s) = addr_idx s"
  by (simp_all add: client_defs)

lemma Connect_with_addresses:
  assumes "ctx_alive s" "addrs s \<noteq> []" "addr_idx s < length (addrs s)"
  shows "Connect h p res att s = TryConnectNext att
    (((cancel_connect (CancelTimer (s\<lparr>manual_close := False, connecting := True\<rparr>)))\<lparr>addr_idx := 0\<rparr>)\<lparr>host := h, port := p\<rparr>)"
proof -
  let ?s = "s\<lparr>manual_close := False, connecting := True\<rparr>"
  have "Connect h p res att s = TryConnectNext att ((cancel_connect (CancelTimer (?s\<lparr>host := h, port := p\<rparr>)))\<lparr>addr_idx := 0\<rparr>)"
    using assms by (simp add: Connect_def Let_def)
  also have "\<dots> = TryConnectNext att
      (((cancel_connect (CancelTimer ?s))\<lparr>addr_idx := 0\<rparr>)\<lparr>host := h, port := p\<rparr>)"
    unfolding host_port_commute host_port_swap ..
  finally show ?thesis .
qed

subsection \<open>Server\<close>

record server =
  listen_fd :: int
  s_started :: bool
  accepted :: "int list"
  s_ctx :: "callback event_ctx"

datatype accept_result = Accept int bool | Accept_error errno

definition Server :: "callback event_ctx \<Rightarrow> server" where
  "Server c = \<lparr>listen_fd = -1, s_started = False, accepted = [], s_ctx = c\<rparr>"

text \<open>\<open>f\<close> is the result of \<open>socket\<close>; \<open>b\<close> and \<open>l\<close> whether \<open>bind\<close> and \<open>listen\<close> succeed.\<close>

definition Server_Listen :: "int \<Rightarrow> bool \<Rightarrow> bool \<Rightarrow> server \<Rightarrow> bool \<times> server" where
  "Server_Listen f b l s =
     (if f < 0 then (False, s)
      else if \<not> b then (False, s)
      else if \<not> l then (False, s)
      else (True, s\<lparr>listen_fd := f\<rparr>))"

definition Server_Start :: "bool \<Rightarrow> server \<Rightarrow> server" where
  "Server_Start ok s =
     (if listen_fd s < 0 \<or> s_started s then s
      else s\<lparr>s_started := True, s_ctx := snd (AddFd ok (listen_fd s) On_listen EPOLLIN (s_ctx s))\<rparr>)"

definition Server_Stop :: "server \<Rightarrow> server" where
  "Server_Stop s =
     (if listen_fd s \<ge> 0 then s\<lparr>s_ctx := kernel_close (listen_fd s) (DelFd (listen_fd s) (s_ctx s)), listen_fd := -1\<rparr>
      else s)"

text \<open>One call of \<open>HandleAccept\<close>: an exhausted list is \<open>EAGAIN\<close>.\<close>

fun HandleAccept :: "accept_result list \<Rightarrow> server \<Rightarrow> server" where
  "HandleAccept [] s = s"
| "HandleAccept (Accept f ok # rs) s =
     HandleAccept rs (s\<lparr>accepted := accepted s @ [f], s_ctx := snd (AddFd ok f (On_conn f) EPOLLIN (s_ctx s))\<rparr>)"
| "HandleAccept (Accept_error e # rs) s = (if e = EINTR then HandleAccept rs s else s)"

definition Server_event :: "u32 \<Rightarrow> accept_result list \<Rightarrow> server \<Rightarrow> server" where
  "Server_event ev rs s =
     (if ev AND (EPOLLERR OR EPOLLHUP) \<noteq> 0 then Server_Stop s
      else if ev AND EPOLLIN \<noteq> 0 then HandleAccept rs s
      else s)"

text \<open>A server that was stopped and listens again is never registered: \<open>started_\<close> stays set.\<close>

lemma Server_restart_deaf:
  "s_started s \<Longrightarrow> Server_Listen f b l (Server_Stop s) = (True, t) \<Longrightarrow> Server_Start ok t = t"
  by (auto simp: Server_Listen_def Server_Start_def Server_Stop_def split: if_splits)

text \<open>An interrupted \<open>accept\<close> is repeated: every connection of the batch is taken, in order.\<close>

lemma HandleAccept_all:
  "\<forall>r \<in> set rs. r = Accept_error EINTR \<or> (\<exists>f ok. r = Accept f ok) \<Longrightarrow>
   accepted (HandleAccept rs s) = accepted s @ [f. Accept f ok \<leftarrow> rs]"
  by (induction rs s rule: HandleAccept.induct) auto

subsection \<open>Properties\<close>

text \<open>C22. In every run of a client, whatever the kernel and the resolver answer: a client that says it is connected
  has a live connection, and one that was closed and not asked to connect again is not connected and holds no
  timer, no pending connect and no connection.\<close>

theorem client_states:
  assumes "client_steps True (Client c) s"
  shows "(connected s \<longrightarrow> (\<exists>f. conn s = Some f \<and> f \<in> set (conns s))) \<and>
    (manual_close s \<longrightarrow> \<not> connected s \<and> conn s = None \<and> timerfd s < 0 \<and> connect_fd s < 0)"
  using client_steps_inv[OF assms Client_inv] by (auto simp: client_inv_def)

theorem client_states_witness: "\<not> connected (Client_Close refused) \<and> timerfd (Client_Close refused) < 0"
proof -
  have "client_steps True (Client Context) refused"
    unfolding refused_def by (rule steps1, rule client_step.connect) simp
  from client_steps.step[OF this client_step.close] have "client_steps True (Client Context) (Client_Close refused)" .
  from client_states[OF this] show ?thesis
    by (auto simp: Client_Close_def refused_value client_eval)
qed

text \<open>A client can be left connecting with nothing under way, in three ways that need nothing unusual: resolution failed and
  the close callback called \<open>Reconnect\<close>; \<open>Reconnect\<close> was called twice before the timer ran; the system once
  had no timer descriptor to give.\<close>

theorem client_reaches_stall:
  "client_steps True (Client Context) unresolved \<and> stalled unresolved \<and>
   client_steps True (Client Context) asked_twice \<and> stalled asked_twice \<and>
   client_steps True (Client Context) no_timer \<and> stalled no_timer"
  using stalled_examples example_steps by blast

text \<open>From such a state no step but a new \<open>Connect\<close> leads out: every further \<open>Reconnect\<close> or \<open>Close\<close> leaves it, no callback is
  called and no address is tried again.\<close>

theorem client_stall_is_final:
  assumes "stalled s" "client_steps False s s'"
  shows "stalled s' \<and> log s' = log s \<and> attempted s' = attempted s"
  using stalled_steps[OF assms(2,1)] .

theorem client_stall_is_final_witness: "log (Reconnect 9 True asked_twice) = [Closed Connection_refused]"
  using client_stall_is_final[OF stalled_examples(2) steps1[OF client_step.reconnect], of 9 True]
  by (simp add: asked_twice_def refused_value client_eval)

text \<open>A client that has an address list tries it whatever host it is asked for: unless the list was used up,
  \<open>Connect\<close> to any host and port, whatever it resolves to, does exactly what \<open>Connect\<close> to any other does.\<close>

theorem Connect_keeps_addresses:
  assumes "ctx_alive s" "addrs s \<noteq> []" "addr_idx s < length (addrs s)"
  shows "Connect h p res att s = (Connect h' p' res' att s)\<lparr>host := h, port := p\<rparr>"
  by (simp only: Connect_with_addresses[OF assms] TryConnectNext_host_port) simp

theorem Connect_keeps_addresses_witness:
  "attempted (Connect ''other'' 81 (Some [Some (9, 81)]) (\<lambda>_. In_progress 6 True) ((Client Context)\<lparr>addrs := [(1, 80)]\<rparr>)) = [(1, 80)]"
proof -
  let ?s = "(Client Context)\<lparr>addrs := [(1, 80)]\<rparr>"
  have "Connect ''other'' 81 (Some [Some (9, 81)]) (\<lambda>_. In_progress 6 True) ?s =
      (Connect ''host'' 80 None (\<lambda>_. In_progress 6 True) ?s)\<lparr>host := ''other'', port := 81\<rparr>"
    by (rule Connect_keeps_addresses) (simp_all add: Client_def)
  moreover have "attempted (Connect ''host'' 80 None (\<lambda>_. In_progress 6 True) ?s) = [(1, 80)]"
    by code_simp
  ultimately show ?thesis
    by simp
qed

end
