(* ===== verification/Base64.thy ===== *)
theory Base64
  imports Prelude
begin

section \<open>Base64 (src/crypto/base64.h)\<close>

text \<open>
  The two coders as the code has them: a loop that gathers three (four) units in an array, whose fill count \<open>i\<close>
  is the length of the list here, and a last step for what is left in it. The decoder walks its text with an \<open>int\<close>: \<open>None\<close> is
  the overflow of that index, which C++ leaves undefined.
\<close>

definition base64_chars :: bytes where
  "base64_chars =
     [65, 66, 67, 68, 69, 70, 71, 72, 73, 74, 75, 76, 77, 78, 79, 80, 81, 82, 83, 84, 85, 86, 87, 88, 89, 90,
      97, 98, 99, 100, 101, 102, 103, 104, 105, 106, 107, 108, 109, 110, 111, 112, 113, 114, 115, 116, 117, 118,
      119, 120, 121, 122, 48, 49, 50, 51, 52, 53, 54, 55, 56, 57, 43, 47]"

definition is_base64 :: "u8 \<Rightarrow> bool" where
  "is_base64 c \<longleftrightarrow> c = 43 \<or> (47 \<le> c \<and> c \<le> 57) \<or> (65 \<le> c \<and> c \<le> 90) \<or> (97 \<le> c \<and> c \<le> 122)"

subsection \<open>Encoding\<close>

definition array_4 :: "u8 \<Rightarrow> u8 \<Rightarrow> u8 \<Rightarrow> bytes" where
  "array_4 a b c =
     [drop_bit 2 (a AND 0xfc),
      push_bit 4 (a AND 0x03) + drop_bit 4 (b AND 0xf0),
      push_bit 2 (b AND 0x0f) + drop_bit 6 (c AND 0xc0),
      c AND 0x3f]"

definition base64_char :: "u8 \<Rightarrow> u8" where
  "base64_char v = base64_chars ! unat v"

fun encode_loop :: "bytes \<Rightarrow> bytes \<Rightarrow> bytes \<Rightarrow> bytes \<times> bytes" where
  "encode_loop [] arr ret = (arr, ret)"
| "encode_loop (x # xs) arr ret =
     (let arr = arr @ [x] in
      if length arr = 3
      then encode_loop xs [] (ret @ map base64_char (array_4 (arr ! 0) (arr ! 1) (arr ! 2)))
      else encode_loop xs arr ret)"

definition base64_encode :: "bytes \<Rightarrow> bytes" where
  "base64_encode bytes_to_encode =
     (let (arr, ret) = encode_loop bytes_to_encode [] [];
          i = length arr
      in if i \<noteq> 0 then
           (let arr = arr @ replicate (3 - i) 0 in
            ret @ map base64_char (take (i + 1) (array_4 (arr ! 0) (arr ! 1) (arr ! 2))) @ replicate (3 - i) 61)
         else ret)"

subsection \<open>Decoding\<close>

text \<open>\<open>base64_chars.find(c)\<close>, cast to a byte: \<open>npos\<close> becomes 255.\<close>

fun find_from :: "nat \<Rightarrow> bytes \<Rightarrow> u8 \<Rightarrow> nat option" where
  "find_from n [] c = None"
| "find_from n (x # xs) c = (if x = c then Some n else find_from (n + 1) xs c)"

definition index_of :: "u8 \<Rightarrow> u8" where
  "index_of c = (case find_from 0 base64_chars c of None \<Rightarrow> 255 | Some n \<Rightarrow> word_of_nat n)"

definition array_3 :: "u8 \<Rightarrow> u8 \<Rightarrow> u8 \<Rightarrow> u8 \<Rightarrow> bytes" where
  "array_3 a b c d =
     [push_bit 2 a + drop_bit 4 (b AND 0x30),
      push_bit 4 (b AND 0xf) + drop_bit 2 (c AND 0x3c),
      push_bit 6 (c AND 0x3) + d]"

definition decode_4 :: "bytes \<Rightarrow> bytes" where
  "decode_4 arr = array_3 (index_of (arr ! 0)) (index_of (arr ! 1)) (index_of (arr ! 2)) (index_of (arr ! 3))"

text \<open>The loop, with the index \<open>k\<close> (\<open>in_\<close>) of the next character: it is counted up behind every character of the alphabet.\<close>

fun decode_loop :: "int \<Rightarrow> bytes \<Rightarrow> bytes \<Rightarrow> bytes \<Rightarrow> (bytes \<times> bytes) option" where
  "decode_loop k [] arr ret = Some (arr, ret)"
| "decode_loop k (x # xs) arr ret =
     (if x \<noteq> 61 \<and> is_base64 x then
        (let arr = arr @ [x]
         in if k + 1 < 2 ^ 31 then
              (if length arr = 4 then decode_loop (k + 1) xs [] (ret @ decode_4 arr) else decode_loop (k + 1) xs arr ret)
            else None)
      else Some (arr, ret))"

text \<open>What follows the loop, for the characters left in the array.\<close>

definition decode_end :: "bytes \<times> bytes \<Rightarrow> bytes" where
  "decode_end = (\<lambda>(arr, ret).
     let i = length arr
     in if i \<noteq> 0 then ret @ take (i - 1) (decode_4 (arr @ replicate (4 - i) 0)) else ret)"

definition base64_decode :: "bytes \<Rightarrow> bytes option" where
  "base64_decode encoded = map_option decode_end (decode_loop 0 encoded [] [])"

subsection \<open>The alphabet\<close>

lemma length_chars: "length base64_chars = 64"
  by (simp add: base64_chars_def)

lemma chars_checked: "list_all (\<lambda>n. find_from 0 base64_chars (base64_chars ! n) = Some n \<and>
    base64_chars ! n \<noteq> 61 \<and> is_base64 (base64_chars ! n)) [0..<64]"
  by code_simp

lemma base64_char_facts:
  assumes "v < 64"
  shows "index_of (base64_char v) = v" "base64_char v \<noteq> 61" "is_base64 (base64_char v)"
proof -
  have "unat v \<in> set [0..<64]"
    using assms by (simp add: word_less_nat_alt)
  with chars_checked have "find_from 0 base64_chars (base64_chars ! unat v) = Some (unat v) \<and>
      base64_chars ! unat v \<noteq> 61 \<and> is_base64 (base64_chars ! unat v)"
    unfolding list_all_iff by blast
  then show "index_of (base64_char v) = v" "base64_char v \<noteq> 61" "is_base64 (base64_char v)"
    by (simp_all add: index_of_def base64_char_def)
qed

text \<open>The sums of the two tables add words without common bits.\<close>

lemma mask_bits: "bit (0xfc :: u8) n \<longleftrightarrow> 2 \<le> n \<and> n < 8" "bit (0x03 :: u8) n \<longleftrightarrow> n < 2" "bit (0xf0 :: u8) n \<longleftrightarrow> 4 \<le> n \<and> n < 8"
  "bit (0x0f :: u8) n \<longleftrightarrow> n < 4" "bit (0xc0 :: u8) n \<longleftrightarrow> 6 \<le> n \<and> n < 8" "bit (0x3f :: u8) n \<longleftrightarrow> n < 6"
  "bit (0x30 :: u8) n \<longleftrightarrow> 4 \<le> n \<and> n < 6" "bit (0x3c :: u8) n \<longleftrightarrow> 2 \<le> n \<and> n < 6"
proof -
  have w: "(0xfc :: u8) = push_bit 2 (mask 6)" "(0x03 :: u8) = mask 2" "(0xf0 :: u8) = push_bit 4 (mask 4)" "(0x0f :: u8) = mask 4"
    "(0xc0 :: u8) = push_bit 6 (mask 2)" "(0x3f :: u8) = mask 6" "(0x30 :: u8) = push_bit 4 (mask 2)"
    "(0x3c :: u8) = push_bit 2 (mask 4)"
    by (simp_all add: mask_eq_exp_minus_1 push_bit_eq_mult)
  show "bit (0xfc :: u8) n \<longleftrightarrow> 2 \<le> n \<and> n < 8" "bit (0x03 :: u8) n \<longleftrightarrow> n < 2" "bit (0xf0 :: u8) n \<longleftrightarrow> 4 \<le> n \<and> n < 8"
    "bit (0x0f :: u8) n \<longleftrightarrow> n < 4" "bit (0xc0 :: u8) n \<longleftrightarrow> 6 \<le> n \<and> n < 8" "bit (0x3f :: u8) n \<longleftrightarrow> n < 6"
    "bit (0x30 :: u8) n \<longleftrightarrow> 4 \<le> n \<and> n < 6" "bit (0x3c :: u8) n \<longleftrightarrow> 2 \<le> n \<and> n < 6"
    unfolding w by (auto simp: bit_simps)
qed

lemmas table_bits = bit_push_bit_iff bit_drop_bit_eq bit_and_iff bit_or_iff mask_bits possible_bit_word comp_def

lemma byte_eqI: "(\<And>n. n \<in> {0, 1, 2, 3, 4, 5, 6, 7} \<Longrightarrow> bit x n = bit y n) \<Longrightarrow> x = y" for x y :: u8
  by (rule bit_word_eqI) (simp add: less_Suc_eq numeral_eq_Suc)

lemma array_4_or: "array_4 a b c =
   [drop_bit 2 (a AND 0xfc), push_bit 4 (a AND 0x03) OR drop_bit 4 (b AND 0xf0),
    push_bit 2 (b AND 0x0f) OR drop_bit 6 (c AND 0xc0), c AND 0x3f]"
proof -
  have "push_bit 4 (a AND 0x03) + drop_bit 4 (b AND 0xf0) = push_bit 4 (a AND 0x03) OR drop_bit 4 (b AND 0xf0)"
    by (rule disjunctive_add) (auto simp only: table_bits)
  moreover have "push_bit 2 (b AND 0x0f) + drop_bit 6 (c AND 0xc0) = push_bit 2 (b AND 0x0f) OR drop_bit 6 (c AND 0xc0)"
    by (rule disjunctive_add) (auto simp only: table_bits)
  ultimately show ?thesis
    by (simp only: array_4_def)
qed

text \<open>Decoding the indices of three bytes gives the bytes.\<close>

lemma array_3_4:
  assumes "array_4 a b c = [w, x, y, z]"
  shows "array_3 w x y z = [a, b, c]"
proof -
  have e: "w = drop_bit 2 (a AND 0xfc)" "x = push_bit 4 (a AND 0x03) OR drop_bit 4 (b AND 0xf0)"
    "y = push_bit 2 (b AND 0x0f) OR drop_bit 6 (c AND 0xc0)" "z = c AND 0x3f"
    using assms unfolding array_4_or by blast+
  have "push_bit 2 w + drop_bit 4 (x AND 0x30) = push_bit 2 w OR drop_bit 4 (x AND 0x30)"
    unfolding e by (rule disjunctive_add) (auto simp only: table_bits)
  also have "\<dots> = a"
    unfolding e by (rule byte_eqI) (elim insertE emptyE; simp add: table_bits numeral_2_eq_2 [symmetric] numeral_3_eq_3 [symmetric])
  finally have 0: "push_bit 2 w + drop_bit 4 (x AND 0x30) = a" .
  have "push_bit 4 (x AND 0xf) + drop_bit 2 (y AND 0x3c) = push_bit 4 (x AND 0xf) OR drop_bit 2 (y AND 0x3c)"
    unfolding e by (rule disjunctive_add) (auto simp only: table_bits)
  also have "\<dots> = b"
    unfolding e by (rule byte_eqI) (elim insertE emptyE; simp add: table_bits numeral_2_eq_2 [symmetric] numeral_3_eq_3 [symmetric])
  finally have 1: "push_bit 4 (x AND 0xf) + drop_bit 2 (y AND 0x3c) = b" .
  have "push_bit 6 (y AND 0x3) + z = push_bit 6 (y AND 0x3) OR z"
    unfolding e by (rule disjunctive_add) (auto simp only: table_bits)
  also have "\<dots> = c"
    unfolding e by (rule byte_eqI) (elim insertE emptyE; simp add: table_bits numeral_2_eq_2 [symmetric] numeral_3_eq_3 [symmetric])
  finally show ?thesis
    using 0 1 by (simp only: array_3_def)
qed

lemma array_4_small:
  assumes "v \<in> set (array_4 a b c)"
  shows "v < 64"
proof -
  have "v = drop_bit 2 (a AND 0xfc) \<or> v = push_bit 4 (a AND 0x03) OR drop_bit 4 (b AND 0xf0) \<or>
      v = push_bit 2 (b AND 0x0f) OR drop_bit 6 (c AND 0xc0) \<or> v = c AND 0x3f"
    using assms unfolding array_4_or list.set by blast
  then have "take_bit 6 v = v"
    by (elim disjE; hypsubst; intro bit_word_eqI; auto simp only: bit_take_bit_iff table_bits)
  then have "unat v = take_bit 6 (unat v)"
    by (metis unsigned_take_bit_eq)
  then have "unat v < 64"
    using take_bit_nat_less_exp[of 6 "unat v"] by simp
  then show ?thesis
    by (simp add: word_less_nat_alt)
qed

subsection \<open>Groups\<close>

text \<open>The loops, a full array at a time.\<close>

lemma encode_loop_group:
  "encode_loop (a # b # c # xs) [] ret = encode_loop xs [] (ret @ map base64_char (array_4 a b c))"
  by simp

lemma decode_4_chars:
  assumes "array_4 a b c = [w, x, y, z]"
  shows "decode_4 (map base64_char [w, x, y, z]) = [a, b, c]"
proof -
  have "v < 64" if "v \<in> {w, x, y, z}" for v
    using array_4_small[of v a b c] assms that by auto
  then show ?thesis
    using array_3_4[OF assms] by (simp add: decode_4_def base64_char_facts)
qed

lemma decode_loop_group:
  assumes "array_4 a b c = [w, x, y, z]"
  shows "decode_loop n (map base64_char (array_4 a b c) @ rest) [] ret =
    (if n + 4 < 2 ^ 31 then decode_loop (n + 4) rest [] (ret @ [a, b, c]) else None)"
proof -
  have "base64_char v \<noteq> 61 \<and> is_base64 (base64_char v)" if "v \<in> {w, x, y, z}" for v
    using array_4_small[of v a b c] assms that base64_char_facts by auto
  then show ?thesis
    using decode_4_chars[OF assms] assms by (simp add: Let_def add.commute)
qed

lemma array_4_obtain: obtains w x y z where "array_4 a b c = [w, x, y, z]"
  by (simp add: array_4_def)

fun groups :: "bytes \<Rightarrow> bytes" where
  "groups (a # b # c # xs) = map base64_char (array_4 a b c) @ groups xs"
| "groups [a, b] = map base64_char (take 3 (array_4 a b 0)) @ [61]"
| "groups [a] = map base64_char (take 2 (array_4 a 0 0)) @ [61, 61]"
| "groups [] = []"

lemma encode_groups:
  "(let (arr, r) = encode_loop xs [] ret; i = length arr
    in if i \<noteq> 0 then
         (let arr = arr @ replicate (3 - i) 0 in
          r @ map base64_char (take (i + 1) (array_4 (arr ! 0) (arr ! 1) (arr ! 2))) @ replicate (3 - i) 61)
       else r) = ret @ groups xs"
proof (induction xs arbitrary: ret rule: groups.induct)
  case (1 a b c xs)
  show ?case
    unfolding encode_loop_group 1 by simp
next
  case (2 a b)
  have "encode_loop [a, b] [] ret = ([a, b], ret)"
    by simp
  then show ?case
    by (simp add: array_4_def)
next
  case (3 a)
  have "encode_loop [a] [] ret = ([a], ret)" "replicate 2 x = [x, x]" for x :: u8
    by (simp_all add: numeral_2_eq_2)
  then show ?case
    by (simp add: array_4_def)
qed simp

lemma base64_encode_groups: "base64_encode xs = groups xs"
  using encode_groups[of xs "[]"] by (simp add: base64_encode_def)

lemma decode_groups:
  "map_option decode_end (decode_loop n (groups xs) [] ret) = (if 3 * n + 4 * int (length xs) \<le> 3 * (2 ^ 31 - 1) then Some (ret @ xs) else None)"
  if "n < 2 ^ 31"
  using that
proof (induction xs arbitrary: n ret rule: groups.induct)
  case (1 a b c xs)
  obtain w x y z where "array_4 a b c = [w, x, y, z]"
    by (rule array_4_obtain)
  from decode_loop_group[OF this] show ?case
    using 1(1)[of "n + 4" "ret @ [a, b, c]"] 1(2) by auto
next
  case (2 a b)
  obtain w x y z where e: "array_4 a b 0 = [w, x, y, z]"
    by (rule array_4_obtain)
  have v: "v < 64" if "v \<in> {w, x, y, z}" for v
    using array_4_small[of v a b 0] e that by auto
  then show ?case
    using array_3_4[OF e] e base64_char_facts[OF v]
    by (simp add: Let_def decode_4_def array_3_def decode_end_def)
next
  case (3 a)
  obtain w x y z where e: "array_4 a 0 0 = [w, x, y, z]"
    by (rule array_4_obtain)
  have v: "v < 64" if "v \<in> {w, x, y, z}" for v
    using array_4_small[of v a 0 0] e that by auto
  then show ?case
    using array_3_4[OF e] e base64_char_facts[OF v]
    by (simp add: Let_def decode_4_def array_3_def decode_end_def)
qed (simp add: decode_end_def)

subsection \<open>Properties\<close>

text \<open>C31. Decoding inverts encoding for every string of bytes, up to the length whose code has 2^31 characters or more before the padding:
  there the index of the decoder overflows.\<close>

theorem base64_roundtrip: "base64_decode (base64_encode xs) = (if 4 * length xs < 3 * 2 ^ 31 then Some xs else None)"
proof -
  have "3 * 0 + 4 * int (length xs) \<le> 3 * (2 ^ 31 - 1) \<longleftrightarrow> 4 * length xs < 3 * 2 ^ 31"
    by (simp, presburger)
  then show ?thesis
    using decode_groups[of 0 xs "[]"] by (simp add: base64_decode_def base64_encode_groups)
qed

end
