(* ===== verification/G711.thy ===== *)
theory G711
  imports Prelude
begin

section \<open>G.711 companding (src/stream/g711.h)\<close>

text \<open>
  The \<open>int\<close> and \<open>unsigned int\<close> values of the code are 32 bits wide; a sample is an \<open>int\<close>. The
  portable branch of \<open>top_bit\<close> is modelled (the two others are inline assembly for the same function).
\<close>

definition ULAW_BIAS :: int where "ULAW_BIAS = 0x84"
definition ALAW_AMI_MASK :: u32 where "ALAW_AMI_MASK = 0x55"

definition top_bit :: "u32 \<Rightarrow> int" where
  "top_bit bits =
     (if bits = 0 then -1
      else
        (let (bits, i) = (if bits AND 0xFFFF0000 \<noteq> 0 then (bits AND 0xFFFF0000, 16) else (bits, 0));
             (bits, i) = (if bits AND 0xFF00FF00 \<noteq> 0 then (bits AND 0xFF00FF00, i + 8) else (bits, i));
             (bits, i) = (if bits AND 0xF0F0F0F0 \<noteq> 0 then (bits AND 0xF0F0F0F0, i + 4) else (bits, i));
             (bits, i) = (if bits AND 0xCCCCCCCC \<noteq> 0 then (bits AND 0xCCCCCCCC, i + 2) else (bits, i));
             (bits, i) = (if bits AND 0xAAAAAAAA \<noteq> 0 then (bits AND 0xAAAAAAAA, i + 1) else (bits, i))
         in i))"

definition bottom_bit :: "u32 \<Rightarrow> int" where
  "bottom_bit bits =
     (if bits = 0 then -1
      else
        (let (bits, i) = (if bits AND 0x0000FFFF \<noteq> 0 then (bits AND 0x0000FFFF, 32 - 16) else (bits, 32));
             (bits, i) = (if bits AND 0x00FF00FF \<noteq> 0 then (bits AND 0x00FF00FF, i - 8) else (bits, i));
             (bits, i) = (if bits AND 0x0F0F0F0F \<noteq> 0 then (bits AND 0x0F0F0F0F, i - 4) else (bits, i));
             (bits, i) = (if bits AND 0x33333333 \<noteq> 0 then (bits AND 0x33333333, i - 2) else (bits, i));
             (bits, i) = (if bits AND 0x55555555 \<noteq> 0 then (bits AND 0x55555555, i - 1) else (bits, i))
         in i))"

text \<open>The portable \<open>bottom_bit\<close> numbers the bits from 1 where \<open>top_bit\<close> numbers them from 0.\<close>

lemma bottom_bit_off_by_one: "bottom_bit 1 = 1 \<and> top_bit 1 = 0 \<and> bottom_bit 0x80000000 = 32 \<and> top_bit 0x80000000 = 31"
  by code_simp

text \<open>The segment of a magnitude: \<open>top_bit(linear | 0xFF) - 7\<close>.\<close>

definition segment :: "int \<Rightarrow> int" where
  "segment linear = top_bit (word_of_int linear OR 0xFF) - 7"

text \<open>\<open>((seg << 4) | ((linear >> sh) & 0xF)) ^ mask\<close>, cast to a byte.\<close>

definition code_word :: "int \<Rightarrow> int \<Rightarrow> int \<Rightarrow> u32 \<Rightarrow> u8" where
  "code_word seg linear sh msk =
     ucast ((push_bit 4 (word_of_int seg) OR (word_of_int (drop_bit (nat sh) linear) AND 0xF)) XOR msk)"

definition linear_to_ulaw :: "int \<Rightarrow> u8" where
  "linear_to_ulaw linear =
     (let (linear, msk) = (if linear < 0 then (ULAW_BIAS - linear, 0x7F) else (ULAW_BIAS + linear, 0xFF));
          seg = segment linear
      in if seg \<ge> 8 then ucast (0x7F XOR msk :: u32)
         else code_word seg linear (seg + 3) msk)"

definition ulaw_to_linear :: "u8 \<Rightarrow> int" where
  "ulaw_to_linear ulaw =
     (let ulaw = NOT ulaw;
          t = push_bit (unat (drop_bit 4 (ulaw AND 0x70))) (uint (ulaw AND 0x0F) * 8 + ULAW_BIAS)
      in signed_take_bit 15 (if ulaw AND 0x80 \<noteq> 0 then ULAW_BIAS - t else t - ULAW_BIAS))"

definition linear_to_alaw :: "int \<Rightarrow> u8" where
  "linear_to_alaw linear =
     (let (linear, msk) =
            (if linear \<ge> 0 then (linear, ALAW_AMI_MASK OR 0x80) else (- linear - 8, ALAW_AMI_MASK));
          seg = segment linear
      in if seg \<ge> 8 then
           (if linear \<ge> 0 then ucast (0x7F XOR msk) else ucast (0x00 XOR msk))
         else code_word seg linear (if seg \<noteq> 0 then seg + 3 else 4) msk)"

definition alaw_to_linear :: "u8 \<Rightarrow> int" where
  "alaw_to_linear alaw =
     (let alaw = alaw XOR ucast ALAW_AMI_MASK;
          i = uint (alaw AND 0x0F) * 16;
          seg = unat (drop_bit 4 (alaw AND 0x70));
          i = (if seg \<noteq> 0 then push_bit (seg - 1) (i + 0x108) else i + 8)
      in signed_take_bit 15 (if alaw AND 0x80 \<noteq> 0 then i else - i))"

subsection \<open>The highest bit\<close>

text \<open>
  Each step of \<open>top_bit\<close> decides one bit of the answer \<open>h\<close>: before the step every set bit agrees with \<open>h\<close> in
  the bits above \<open>k\<close>, after it in bit \<open>k\<close> too.
\<close>

definition agree :: "nat \<Rightarrow> nat \<Rightarrow> u32 \<Rightarrow> bool" where
  "agree k h w \<longleftrightarrow> bit w h \<and> (\<forall>n. bit w n \<longrightarrow> n \<le> h \<and> h div 2 ^ k \<le> n div 2 ^ k)"

lemma agreeD:
  assumes "agree k h w"
  shows "bit w h" "bit w n \<Longrightarrow> n \<le> h" "bit w n \<Longrightarrow> n div 2 ^ k = h div 2 ^ k"
  using assms unfolding agree_def by (blast, blast, blast intro: antisym div_le_mono)

lemma agreeI: "bit w h \<Longrightarrow> (\<And>n. bit w n \<Longrightarrow> n \<le> h \<and> n div 2 ^ k = h div 2 ^ k) \<Longrightarrow> agree k h w"
  unfolding agree_def by (metis order_refl)

definition narrow :: "u32 \<Rightarrow> u32 \<Rightarrow> u32" where
  "narrow m w = (if w AND m \<noteq> 0 then w AND m else w)"

lemma div_step:
  fixes n h :: nat
  assumes "n \<le> h" "n div 2 ^ Suc k = h div 2 ^ Suc k" "odd (n div 2 ^ k) = odd (h div 2 ^ k)"
  shows "n div 2 ^ k = h div 2 ^ k"
proof -
  have "n div 2 ^ k div 2 = h div 2 ^ k div 2"
    using assms(2) unfolding power_Suc2 div_mult2_eq .
  then show ?thesis
    using assms(3) by (metis div_mult_mod_eq even_iff_mod_2_eq_zero not_mod_2_eq_0_eq_1)
qed

lemma same_half: "a \<le> b \<Longrightarrow> a div 2 = b div 2 \<Longrightarrow> odd a \<Longrightarrow> odd b" for a b :: nat
  by presburger

lemma narrow_step:
  assumes "agree (Suc k) h w" "\<And>n. n < 32 \<Longrightarrow> bit m n \<longleftrightarrow> odd (n div 2 ^ k)"
  shows "w AND m \<noteq> 0 \<longleftrightarrow> odd (h div 2 ^ k)" "agree k h (narrow m w)"
proof -
  note a = agreeD[OF assms(1)]
  have lt: "bit w n \<Longrightarrow> n < 32" for n
    using bit_imp_le_length[of w n] by simp
  have up: "odd (h div 2 ^ k)" if "bit w n" "odd (n div 2 ^ k)" for n
    by (rule same_half[OF div_le_mono[OF a(2)[OF that(1)]] _ that(2)])
      (rule a(3)[OF that(1), unfolded power_Suc2 div_mult2_eq])
  have both: "bit (w AND m) n \<longleftrightarrow> bit w n \<and> odd (n div 2 ^ k)" for n
    using lt assms(2) by (auto simp: bit_and_iff)
  show iff: "w AND m \<noteq> 0 \<longleftrightarrow> odd (h div 2 ^ k)"
  proof
    assume "w AND m \<noteq> 0"
    then obtain n where "bit (w AND m) n"
      by (auto simp: bit_eq_iff)
    then show "odd (h div 2 ^ k)"
      using both up by blast
  next
    assume "odd (h div 2 ^ k)"
    then have "bit (w AND m) h"
      using both a(1) by blast
    then show "w AND m \<noteq> 0"
      by auto
  qed
  have same: "n \<le> h \<and> n div 2 ^ k = h div 2 ^ k" if "bit w n" "odd (n div 2 ^ k) = odd (h div 2 ^ k)" for n
    using div_step[OF a(2,3)[OF that(1)] that(2)] a(2)[OF that(1)] by blast
  show "agree k h (narrow m w)"
  proof (cases "odd (h div 2 ^ k)")
    case True
    then have "narrow m w = w AND m"
      using iff by (simp add: narrow_def)
    moreover have "agree k h (w AND m)"
      by (rule agreeI; use True both a(1) same in blast)
    ultimately show ?thesis
      by metis
  next
    case False
    then have "narrow m w = w"
      using iff by (simp add: narrow_def)
    moreover have "agree k h w"
      by (rule agreeI; use False up a(1) same in blast)
    ultimately show ?thesis
      by metis
  qed
qed

lemma masks_checked: "list_all (\<lambda>n. (bit (0xFFFF0000 :: u32) n \<longleftrightarrow> odd (n div 2 ^ 4)) \<and> (bit (0xFF00FF00 :: u32) n \<longleftrightarrow> odd (n div 2 ^ 3)) \<and>
    (bit (0xF0F0F0F0 :: u32) n \<longleftrightarrow> odd (n div 2 ^ 2)) \<and> (bit (0xCCCCCCCC :: u32) n \<longleftrightarrow> odd (n div 2 ^ 1)) \<and>
    (bit (0xAAAAAAAA :: u32) n \<longleftrightarrow> odd (n div 2 ^ 0)) \<and>
    int n = of_bool (odd (n div 2 ^ 4)) * 16 + of_bool (odd (n div 2 ^ 3)) * 8 + of_bool (odd (n div 2 ^ 2)) * 4 +
      of_bool (odd (n div 2 ^ 1)) * 2 + of_bool (odd (n div 2 ^ 0))) [0..<32]"
  by code_simp

lemma masks:
  assumes "n < 32"
  shows "bit (0xFFFF0000 :: u32) n \<longleftrightarrow> odd (n div 2 ^ 4)" "bit (0xFF00FF00 :: u32) n \<longleftrightarrow> odd (n div 2 ^ 3)"
    "bit (0xF0F0F0F0 :: u32) n \<longleftrightarrow> odd (n div 2 ^ 2)" "bit (0xCCCCCCCC :: u32) n \<longleftrightarrow> odd (n div 2 ^ 1)"
    "bit (0xAAAAAAAA :: u32) n \<longleftrightarrow> odd (n div 2 ^ 0)"
    "int n = of_bool (odd (n div 2 ^ 4)) * 16 + of_bool (odd (n div 2 ^ 3)) * 8 + of_bool (odd (n div 2 ^ 2)) * 4 +
      of_bool (odd (n div 2 ^ 1)) * 2 + of_bool (odd (n div 2 ^ 0))"
proof -
  have "n \<in> set [0..<32]"
    using assms by simp
  note * = bspec[OF masks_checked[unfolded list_all_iff] this]
  note c1 = conjunct1[OF *] and d1 = conjunct2[OF *]
  note c2 = conjunct1[OF d1] and d2 = conjunct2[OF d1]
  note c3 = conjunct1[OF d2] and d3 = conjunct2[OF d2]
  note c4 = conjunct1[OF d3] and d4 = conjunct2[OF d3]
  show "bit (0xFFFF0000 :: u32) n \<longleftrightarrow> odd (n div 2 ^ 4)" "bit (0xFF00FF00 :: u32) n \<longleftrightarrow> odd (n div 2 ^ 3)"
    "bit (0xF0F0F0F0 :: u32) n \<longleftrightarrow> odd (n div 2 ^ 2)" "bit (0xCCCCCCCC :: u32) n \<longleftrightarrow> odd (n div 2 ^ 1)"
    "bit (0xAAAAAAAA :: u32) n \<longleftrightarrow> odd (n div 2 ^ 0)"
    "int n = of_bool (odd (n div 2 ^ 4)) * 16 + of_bool (odd (n div 2 ^ 3)) * 8 + of_bool (odd (n div 2 ^ 2)) * 4 +
      of_bool (odd (n div 2 ^ 1)) * 2 + of_bool (odd (n div 2 ^ 0))"
    by (rule c1 c2 c3 c4 conjunct1[OF d4] conjunct2[OF d4])+
qed

lemma narrow_pair:
  "(if w AND m \<noteq> 0 then (w AND m, i + d) else (w, i)) = (narrow m w, i + of_bool (w AND m \<noteq> 0) * d)" for i d :: int
  by (simp add: narrow_def)

lemma narrow_pair_0:
  "(if w AND m \<noteq> 0 then (w AND m, d) else (w, 0)) = (narrow m w, of_bool (w AND m \<noteq> 0) * d)" for d :: int
  by (simp add: narrow_def)

lemma top_bit_narrow:
  assumes "w \<noteq> 0"
  shows "top_bit w =
    of_bool (w AND 0xFFFF0000 \<noteq> 0) * 16 +
    of_bool (narrow 0xFFFF0000 w AND 0xFF00FF00 \<noteq> 0) * 8 +
    of_bool (narrow 0xFF00FF00 (narrow 0xFFFF0000 w) AND 0xF0F0F0F0 \<noteq> 0) * 4 +
    of_bool (narrow 0xF0F0F0F0 (narrow 0xFF00FF00 (narrow 0xFFFF0000 w)) AND 0xCCCCCCCC \<noteq> 0) * 2 +
    of_bool (narrow 0xCCCCCCCC (narrow 0xF0F0F0F0 (narrow 0xFF00FF00 (narrow 0xFFFF0000 w))) AND 0xAAAAAAAA \<noteq> 0) * 1"
proof -
  have "top_bit w = (case (if w AND 0xFFFF0000 \<noteq> 0 then (w AND 0xFFFF0000, 16) else (w, 0)) of (w4, i) \<Rightarrow>
     case (if w4 AND 0xFF00FF00 \<noteq> 0 then (w4 AND 0xFF00FF00, i + 8) else (w4, i)) of (w3, i) \<Rightarrow>
     case (if w3 AND 0xF0F0F0F0 \<noteq> 0 then (w3 AND 0xF0F0F0F0, i + 4) else (w3, i)) of (w2, i) \<Rightarrow>
     case (if w2 AND 0xCCCCCCCC \<noteq> 0 then (w2 AND 0xCCCCCCCC, i + 2) else (w2, i)) of (w1, i) \<Rightarrow>
     case (if w1 AND 0xAAAAAAAA \<noteq> 0 then (w1 AND 0xAAAAAAAA, i + 1) else (w1, i)) of (w0, i) \<Rightarrow> i)"
    unfolding top_bit_def Let_def by (rule if_not_P[OF assms])
  then show ?thesis
    unfolding narrow_pair_0 prod.case narrow_pair .
qed

lemma top_bit_eq:
  assumes "bit w h" "\<And>n. bit w n \<Longrightarrow> n \<le> h"
  shows "top_bit w = int h"
proof -
  have h: "h < 32"
    using bit_imp_le_length[OF assms(1)] by simp
  have p: "(2 :: nat) ^ Suc 4 = 32"
    by simp
  have "n div 2 ^ Suc 4 = h div 2 ^ Suc 4" if "bit w n" for n
    unfolding p using h assms(2)[OF that] by simp
  then have 5: "agree (Suc 4) h w"
    by (intro agreeI assms(1) conjI assms(2))
  define w4 where "w4 = narrow 0xFFFF0000 w"
  define w3 where "w3 = narrow 0xFF00FF00 w4"
  define w2 where "w2 = narrow 0xF0F0F0F0 w3"
  define w1 where "w1 = narrow 0xCCCCCCCC w2"
  have n: "4 = Suc 3" "3 = Suc 2" "2 = Suc 1" "1 = Suc 0"
    by simp_all
  have s4: "w AND 0xFFFF0000 \<noteq> 0 \<longleftrightarrow> odd (h div 2 ^ 4)" "agree 4 h w4"
    unfolding w4_def by (rule narrow_step[OF 5]; rule masks(1); assumption)+
  have s3: "w4 AND 0xFF00FF00 \<noteq> 0 \<longleftrightarrow> odd (h div 2 ^ 3)" "agree 3 h w3"
    unfolding w3_def by (rule narrow_step[OF s4(2)[unfolded n(1)]]; rule masks(2); assumption)+
  have s2: "w3 AND 0xF0F0F0F0 \<noteq> 0 \<longleftrightarrow> odd (h div 2 ^ 2)" "agree 2 h w2"
    unfolding w2_def by (rule narrow_step[OF s3(2)[unfolded n(2)]]; rule masks(3); assumption)+
  have s1: "w2 AND 0xCCCCCCCC \<noteq> 0 \<longleftrightarrow> odd (h div 2 ^ 1)" "agree 1 h w1"
    unfolding w1_def by (rule narrow_step[OF s2(2)[unfolded n(3)]]; rule masks(4); assumption)+
  have s0: "w1 AND 0xAAAAAAAA \<noteq> 0 \<longleftrightarrow> odd (h div 2 ^ 0)"
    by (rule narrow_step(1)[OF s1(2)[unfolded n(4)]]; rule masks(5); assumption)
  have "w \<noteq> 0"
    using assms(1) by auto
  then have "top_bit w = of_bool (w AND 0xFFFF0000 \<noteq> 0) * 16 + of_bool (w4 AND 0xFF00FF00 \<noteq> 0) * 8 +
      of_bool (w3 AND 0xF0F0F0F0 \<noteq> 0) * 4 + of_bool (w2 AND 0xCCCCCCCC \<noteq> 0) * 2 + of_bool (w1 AND 0xAAAAAAAA \<noteq> 0) * 1"
    unfolding w1_def w2_def w3_def w4_def by (rule top_bit_narrow)
  also have "\<dots> = int h"
    unfolding s4(1) s3(1) s2(1) s1(1) s0(1) masks(6)[OF h] by simp
  finally show ?thesis .
qed

subsection \<open>Segments and code words\<close>

lemma no_bit_above: "0 \<le> y \<Longrightarrow> y < 2 ^ k \<Longrightarrow> k \<le> n \<Longrightarrow> \<not> bit y n" for y :: int
proof -
  assume y: "0 \<le> y" "y < 2 ^ k" and "k \<le> n"
  have "(2 :: int) ^ k \<le> 2 ^ n"
    by (rule power_increasing) (use \<open>k \<le> n\<close> in simp_all)
  then have "y < 2 ^ n"
    using y(2) by (rule order.strict_trans2[rotated])
  with y(1) show ?thesis
    by (simp add: bit_iff_odd)
qed

lemma bit_highest: "2 ^ h \<le> y \<Longrightarrow> y < 2 ^ (h + 1) \<Longrightarrow> bit y h" for y :: int
proof -
  assume "2 ^ h \<le> y" "y < 2 ^ (h + 1)"
  then have "y div 2 ^ h = 1"
    using int_div_pos_eq[of y "2 ^ h" 1 "y - 2 ^ h"] by simp
  then show ?thesis
    by (simp add: bit_iff_odd)
qed

lemma bits_or_FF: "bit (word_of_int y OR 0xFF :: u32) n \<longleftrightarrow> n < 32 \<and> (bit y n \<or> n < 8)"
proof -
  have "(0xFF :: u32) = mask 8"
    by (simp add: mask_eq_exp_minus_1)
  then show ?thesis
    by (auto simp only: bit_or_iff bit_word_of_int_iff bit_mask_iff possible_bit_word len_bit0 len_num1)
qed

lemma segment_eq:
  assumes "2 ^ (s + 7) \<le> y" "y < 2 ^ (s + 8)" "s < 24"
  shows "segment y = int s"
proof -
  have y: "0 \<le> y"
    using assms(1) order_trans[OF zero_le_power[of "2 :: int"]] by simp
  have "bit y (s + 7)"
    using bit_highest[of "s + 7" y] assms(1,2) by (simp add: ac_simps)
  moreover have "\<not> bit y n" if "s + 7 < n" for n
    using no_bit_above[OF y assms(2)] that by simp
  ultimately have "top_bit (word_of_int y OR 0xFF) = int (s + 7)"
    using assms(3) by (intro top_bit_eq) (auto simp: bits_or_FF not_less[symmetric])
  then show ?thesis
    by (simp add: segment_def)
qed

lemma segment_0: "0 \<le> y \<Longrightarrow> y < 256 \<Longrightarrow> segment y = 0"
proof -
  assume "0 \<le> y" "y < 256"
  then have "n \<le> 7" if "bit y n" for n
    using no_bit_above[of y 8 n] that by force
  then have "top_bit (word_of_int y OR 0xFF) = int 7"
    by (intro top_bit_eq) (auto simp: bits_or_FF)
  then show ?thesis
    by (simp add: segment_def)
qed

lemma segment_negative: "- (2 ^ 31) \<le> y \<Longrightarrow> y < 0 \<Longrightarrow> segment y = 24"
proof -
  assume y: "- (2 ^ 31) \<le> y" "y < 0"
  then have "y div 2 ^ 31 = -1"
    using int_div_pos_eq[of y "2 ^ 31" "-1" "y + 2 ^ 31"] by simp
  then have "bit y 31"
    by (simp add: bit_iff_odd)
  then have "top_bit (word_of_int y OR 0xFF) = int 31"
    by (intro top_bit_eq) (auto simp: bits_or_FF)
  then show ?thesis
    by (simp add: segment_def)
qed

lemma take_bit_word_of_int: "n \<le> LENGTH('a) \<Longrightarrow> take_bit n (word_of_int z :: 'a::len word) = word_of_int (take_bit n z)"
  by (rule bit_word_eqI) (auto simp: bit_take_bit_iff bit_word_of_int_iff)

lemma ucast_word_of_int: "ucast (word_of_int z :: u32) = (word_of_int z :: u8)"
  by (rule bit_word_eqI) (auto simp: bit_ucast_iff bit_word_of_int_iff)

lemma code_word_eq: "code_word s y (int sh) m = word_of_int (16 * s + (y div 2 ^ sh) mod 16) XOR ucast m"
proof -
  let ?z = "drop_bit sh y"
  have F: "(0xF :: u32) = mask 4"
    by (simp add: mask_eq_exp_minus_1)
  have "push_bit 4 (word_of_int s) OR (word_of_int ?z AND 0xF) = push_bit 4 (word_of_int s) + (word_of_int ?z AND (0xF :: u32))"
    unfolding F by (rule disjunctive_add[symmetric]) (auto simp: bit_push_bit_iff bit_and_iff bit_mask_iff)
  also have "\<dots> = word_of_int (16 * s) + word_of_int (take_bit 4 ?z)"
    unfolding F take_bit_eq_mask[symmetric] by (simp add: push_bit_eq_mult take_bit_word_of_int)
  also have "\<dots> = word_of_int (16 * s + (y div 2 ^ sh) mod 16)"
    by (simp add: take_bit_eq_mod drop_bit_eq_div)
  finally show ?thesis
    by (simp only: code_word_def nat_int unsigned_xor_eq ucast_word_of_int)
qed

lemma ulaw_decode_checked: "list_all (\<lambda>n.
    ulaw_to_linear (word_of_nat n XOR 0xFF) = (int (n mod 16) * 8 + 132) * 2 ^ (n div 16) - 132 \<and>
    ulaw_to_linear (word_of_nat n XOR 0x7F) = 132 - (int (n mod 16) * 8 + 132) * 2 ^ (n div 16)) [0..<128]"
  by code_simp

lemma alaw_decode_checked: "list_all (\<lambda>n.
    let i = (if n < 16 then int (n mod 16) * 16 + 8 else (int (n mod 16) * 16 + 264) * 2 ^ (n div 16 - 1)) in
    alaw_to_linear (word_of_nat n XOR 0xD5) = i \<and> alaw_to_linear (word_of_nat n XOR 0x55) = - i) [0..<128]"
  by code_simp

subsection \<open>The codes as quantisers\<close>

text \<open>The value a code word of segment \<open>s\<close> and mantissa \<open>m\<close> stands for, before bias and sign.\<close>

lemma code_index:
  assumes "0 \<le> m" "m < 16"
  shows "(16 * s + nat m) div 16 = s" "int ((16 * s + nat m) mod 16) = m"
    "(word_of_nat (16 * s + nat m) :: u8) = word_of_int (16 * int s + m)" "16 * s + nat m < 16 \<longleftrightarrow> s = 0"
proof -
  have m: "nat m < 16" "int (nat m) = m"
    using assms by simp_all
  show "(16 * s + nat m) div 16 = s" "int ((16 * s + nat m) mod 16) = m" "16 * s + nat m < 16 \<longleftrightarrow> s = 0"
    using m by (simp_all only: div_mult_self4 mod_mult_self4 div_less mod_less add_0_right, simp, arith?)
  have "int (16 * s + nat m) = 16 * int s + m"
    using m(2) by simp
  then show "(word_of_nat (16 * s + nat m) :: u8) = word_of_int (16 * int s + m)"
    by (metis of_int_of_nat_eq)
qed

lemma ulaw_decode:
  assumes "s < 8" "0 \<le> m" "m < 16"
  shows "ulaw_to_linear (word_of_int (16 * int s + m) XOR 0xFF) = (m * 8 + 132) * 2 ^ s - 132"
    "ulaw_to_linear (word_of_int (16 * int s + m) XOR 0x7F) = 132 - (m * 8 + 132) * 2 ^ s"
proof -
  let ?n = "16 * s + nat m"
  have "?n \<in> set [0..<128]"
    using assms(1,2,3) by (simp only: set_upt atLeastLessThan_iff) linarith
  note * = bspec[OF ulaw_decode_checked[unfolded list_all_iff] this]
  note n = code_index[OF assms(2,3)]
  show "ulaw_to_linear (word_of_int (16 * int s + m) XOR 0xFF) = (m * 8 + 132) * 2 ^ s - 132"
    "ulaw_to_linear (word_of_int (16 * int s + m) XOR 0x7F) = 132 - (m * 8 + 132) * 2 ^ s"
    using * unfolding n by blast+
qed

lemma alaw_decode:
  assumes "s < 8" "0 \<le> m" "m < 16"
  shows "alaw_to_linear (word_of_int (16 * int s + m) XOR 0xD5) = (if s = 0 then m * 16 + 8 else (m * 16 + 264) * 2 ^ (s - 1))"
    "alaw_to_linear (word_of_int (16 * int s + m) XOR 0x55) = - (if s = 0 then m * 16 + 8 else (m * 16 + 264) * 2 ^ (s - 1))"
proof -
  let ?n = "16 * s + nat m"
  have "?n \<in> set [0..<128]"
    using assms(1,2,3) by (simp only: set_upt atLeastLessThan_iff) linarith
  note * = bspec[OF alaw_decode_checked[unfolded list_all_iff] this]
  note n = code_index[OF assms(2,3)]
  show "alaw_to_linear (word_of_int (16 * int s + m) XOR 0xD5) = (if s = 0 then m * 16 + 8 else (m * 16 + 264) * 2 ^ (s - 1))"
    "alaw_to_linear (word_of_int (16 * int s + m) XOR 0x55) = - (if s = 0 then m * 16 + 8 else (m * 16 + 264) * 2 ^ (s - 1))"
    using * unfolding n Let_def by blast+
qed

text \<open>Encoding a biased magnitude \<open>(16 + m) * 2^(s + 3) + r\<close>.\<close>

lemma mantissa:
  fixes m r :: int
  assumes "0 \<le> m" "m < 16" "0 \<le> r" "r < 2 ^ (s + 3)"
  shows "((16 + m) * 2 ^ (s + 3) + r) div 2 ^ (s + 3) mod 16 = m"
proof -
  have "((16 + m) * 2 ^ (s + 3) + r) div 2 ^ (s + 3) = 16 + m"
    using assms(3,4) by (simp add: div_add1_eq)
  then show ?thesis
    using assms(1,2) by simp
qed

lemma segment_mantissa:
  fixes m r :: int
  assumes "s < 8" "0 \<le> m" "m < 16" "0 \<le> r" "r < 2 ^ (s + 3)"
  shows "segment ((16 + m) * 2 ^ (s + 3) + r) = int s"
proof (rule segment_eq)
  have "16 * 2 ^ (s + 3) \<le> (16 + m) * (2 :: int) ^ (s + 3)"
    using assms(2) by (intro mult_right_mono) simp_all
  moreover have "(2 :: int) ^ (s + 7) = 16 * 2 ^ (s + 3)"
    by (simp add: power_add)
  ultimately show "2 ^ (s + 7) \<le> (16 + m) * 2 ^ (s + 3) + r"
    using assms(4) by linarith
  have "(16 + m) * (2 :: int) ^ (s + 3) \<le> 31 * 2 ^ (s + 3)"
    using assms(3) by (intro mult_right_mono) simp_all
  moreover have "(2 :: int) ^ (s + 8) = 32 * 2 ^ (s + 3)"
    by (simp add: power_add)
  ultimately show "(16 + m) * 2 ^ (s + 3) + r < 2 ^ (s + 8)"
    using assms(5) by linarith
qed (use assms in simp)

lemma ulaw_encode:
  assumes "s < 8" "0 \<le> m" "m < 16" "0 \<le> r" "r < 2 ^ (s + 3)" "132 + \<bar>x\<bar> = (16 + m) * 2 ^ (s + 3) + r"
  shows "linear_to_ulaw x = word_of_int (16 * int s + m) XOR (if x < 0 then 0x7F else 0xFF)"
proof -
  have seg: "segment (132 + \<bar>x\<bar>) = int s"
    unfolding assms(6) by (rule segment_mantissa[OF assms(1-5)])
  have "code_word (int s) (132 + \<bar>x\<bar>) (int s + 3) k = word_of_int (16 * int s + m) XOR ucast k" for k
    using code_word_eq[of "int s" "132 + \<bar>x\<bar>" "s + 3" k] mantissa[OF assms(2-5)] assms(6) by simp
  then show ?thesis
    using seg assms(1) by (auto simp: linear_to_ulaw_def ULAW_BIAS_def)
qed

text \<open>Every magnitude below \<open>2^15\<close> has such a form.\<close>

lemma quantise:
  fixes y :: int
  assumes "128 \<le> y" "y < 2 ^ 15"
  obtains s m r where "s < (8 :: nat)" "0 \<le> m" "m < 16" "0 \<le> r" "r < 2 ^ (s + 3)" "y = (16 + m) * 2 ^ (s + 3) + r"
proof -
  have "\<exists>s < 8. 2 ^ (s + 7) \<le> y \<and> y < 2 ^ (s + 8)"
  proof (rule ccontr)
    assume "\<not> ?thesis"
    then have "\<And>s. s < 8 \<Longrightarrow> 2 ^ (s + 7) \<le> y \<Longrightarrow> 2 ^ (s + 8) \<le> y"
      by force
    from this[of 0] this[of 1] this[of 2] this[of 3] this[of 4] this[of 5] this[of 6] this[of 7] show False
      using assms by simp
  qed
  then obtain s where s: "s < 8" "2 ^ (s + 7) \<le> y" "y < 2 ^ (s + 8)"
    by blast
  have "16 \<le> y div 2 ^ (s + 3)"
    using zdiv_mono1[OF s(2), of "2 ^ (s + 3)"] by (simp add: power_add)
  moreover have "y div 2 ^ (s + 3) < 32"
  proof (rule ccontr)
    assume "\<not> ?thesis"
    then have "32 * 2 ^ (s + 3) \<le> y div 2 ^ (s + 3) * 2 ^ (s + 3)"
      by (intro mult_right_mono) simp_all
    also have "\<dots> \<le> y"
      using pos_mod_sign[of "2 ^ (s + 3)" y] div_mult_mod_eq[of y "2 ^ (s + 3)"] zero_less_power[of "2 :: int" "s + 3"] by linarith
    finally show False
      using s(3) by (simp add: power_add)
  qed
  ultimately show ?thesis
    using s(1) by (intro that[of s "y div 2 ^ (s + 3) - 16" "y mod 2 ^ (s + 3)"]) (simp_all add: div_mult_mod_eq)
qed

lemma alaw_encode:
  assumes "s < 8" "0 \<le> m" "m < 16" "0 \<le> r"
    "if s = 0 then r < 16 \<and> y = 16 * m + r else r < 2 ^ (s + 3) \<and> y = (16 + m) * 2 ^ (s + 3) + r"
    "y = (if 0 \<le> x then x else - x - 8)"
  shows "linear_to_alaw x = word_of_int (16 * int s + m) XOR (if x < 0 then 0x55 else 0xD5)"
proof -
  define c :: u8 where "c = word_of_int (16 * int s + m)"
  have enc: "segment y = int s \<and> code_word (int s) y (if int s \<noteq> 0 then int s + 3 else 4) k = c XOR ucast k" for k
  proof (cases "s = 0")
    case True
    then have y: "y = 16 * m + r" "r < 16"
      using assms(5) by simp_all
    have "segment y = 0"
      by (rule segment_0) (use y assms(2-4) in simp_all)
    moreover have "y div 2 ^ 4 mod 16 = m"
      using y assms(2-4) by simp
    ultimately show ?thesis
      using True code_word_eq[of 0 y 4 k] by (simp add: c_def)
  next
    case False
    then have y: "y = (16 + m) * 2 ^ (s + 3) + r" "r < 2 ^ (s + 3)"
      using assms(5) by simp_all
    have "segment y = int s"
      unfolding y(1) by (rule segment_mantissa[OF assms(1-4) y(2)])
    moreover have "y div 2 ^ (s + 3) mod 16 = m"
      unfolding y(1) by (rule mantissa[OF assms(2-4) y(2)])
    ultimately show ?thesis
      using False code_word_eq[of "int s" y "s + 3" k] by (simp add: c_def)
  qed
  show ?thesis
  proof (cases "0 \<le> x")
    case True
    then show ?thesis
      using enc[of "0xD5"] assms(1,6) unfolding c_def[symmetric]
      by (cases "s = 0") (simp_all add: linear_to_alaw_def ALAW_AMI_MASK_def Let_def)
  next
    case False
    then show ?thesis
      using enc[of "0x55"] assms(1,6) unfolding c_def[symmetric]
      by (cases "s = 0") (simp_all add: linear_to_alaw_def ALAW_AMI_MASK_def Let_def)
  qed
qed

lemma low7: "\<not> bit v 7 \<Longrightarrow> \<exists>s m. s < (8 :: nat) \<and> 0 \<le> m \<and> m < 16 \<and> v = word_of_int (16 * int s + m)" for v :: u8
proof -
  assume v: "\<not> bit v 7"
  have "v = take_bit 7 v"
    by (rule bit_word_eqI) (use v in \<open>auto simp: bit_take_bit_iff less_Suc_eq numeral_eq_Suc\<close>)
  then have "uint v = take_bit 7 (uint v)"
    by (metis unsigned_take_bit_eq)
  then have u: "uint v < 128" "0 \<le> uint v"
    using take_bit_int_less_exp[of 7 "uint v"] by simp_all
  have "16 * int (nat (uint v div 16)) + uint v mod 16 = uint v" "nat (uint v div 16) < 8"
    using u by simp_all
  moreover have "0 \<le> uint v mod 16" "uint v mod 16 < 16"
    by simp_all
  ultimately show ?thesis
    by (metis word_of_int_uint)
qed

lemma byte_split:
  fixes u k :: u8
  assumes "bit k 7"
  shows "\<exists>s m. s < (8 :: nat) \<and> 0 \<le> m \<and> m < 16 \<and>
    (u = word_of_int (16 * int s + m) XOR k \<or> u = word_of_int (16 * int s + m) XOR (k XOR 0x80))"
proof -
  have "bit (0x80 :: u8) 7"
    by simp
  then have "\<not> bit (u XOR k) 7 \<or> \<not> bit (u XOR (k XOR 0x80)) 7"
    using assms by (simp add: bit_xor_iff)
  then show ?thesis
  proof
    assume "\<not> bit (u XOR k) 7"
    from low7[OF this] obtain s m where c: "s < (8 :: nat)" "0 \<le> m" "m < 16" "u XOR k = word_of_int (16 * int s + m)"
      by blast
    have "u = (u XOR k) XOR k"
      by (simp add: xor.assoc)
    then show ?thesis
      using c unfolding c(4) by blast
  next
    assume "\<not> bit (u XOR (k XOR 0x80)) 7"
    from low7[OF this] obtain s m where
      c: "s < (8 :: nat)" "0 \<le> m" "m < 16" "u XOR (k XOR 0x80) = word_of_int (16 * int s + m)"
      by blast
    have "u = (u XOR (k XOR 0x80)) XOR (k XOR 0x80)"
      by (simp add: ac_simps)
    then show ?thesis
      using c unfolding c(4) by blast
  qed
qed

subsection \<open>Properties\<close>

lemma ulaw_code_fixed:
  assumes "s < 8" "0 \<le> m" "m < 16"
  shows "linear_to_ulaw ((m * 8 + 132) * 2 ^ s - 132) = word_of_int (16 * int s + m) XOR 0xFF"
    "s \<noteq> 0 \<or> m \<noteq> 0 \<Longrightarrow> linear_to_ulaw (132 - (m * 8 + 132) * 2 ^ s) = word_of_int (16 * int s + m) XOR 0x7F"
proof -
  have one: "132 * 1 \<le> (m * 8 + 132) * 2 ^ s"
    by (rule mult_mono) (use assms in simp_all)
  have form: "(m * 8 + 132) * 2 ^ s = (16 + m) * 2 ^ (s + 3) + 2 ^ (s + 2)"
    by (simp add: power_add algebra_simps)
  have r: "(2 :: int) ^ (s + 2) < 2 ^ (s + 3)" "(0 :: int) \<le> 2 ^ (s + 2)"
    by (simp_all add: power_add)
  show "linear_to_ulaw ((m * 8 + 132) * 2 ^ s - 132) = word_of_int (16 * int s + m) XOR 0xFF"
    using ulaw_encode[OF assms r(2,1), of "(m * 8 + 132) * 2 ^ s - 132"] one form by simp
  assume "s \<noteq> 0 \<or> m \<noteq> 0"
  then have "132 < (m * 8 + 132) * 2 ^ s"
  proof
    assume "s \<noteq> 0"
    then have "(2 :: int) ^ 1 \<le> 2 ^ s"
      by (intro power_increasing) simp_all
    then have "132 * 2 \<le> (m * 8 + 132) * 2 ^ s"
      using assms(2) by (intro mult_mono) simp_all
    then show ?thesis
      by simp
  next
    assume "m \<noteq> 0"
    then have "140 * 1 \<le> (m * 8 + 132) * 2 ^ s"
      using assms(2) by (intro mult_mono) simp_all
    then show ?thesis
      by simp
  qed
  then show "linear_to_ulaw (132 - (m * 8 + 132) * 2 ^ s) = word_of_int (16 * int s + m) XOR 0x7F"
    using ulaw_encode[OF assms r(2,1), of "132 - (m * 8 + 132) * 2 ^ s"] form by simp
qed

lemma alaw_code_fixed:
  assumes "s < 8" "0 \<le> m" "m < 16"
  defines "v \<equiv> if s = 0 then m * 16 + 8 else (m * 16 + 264) * 2 ^ (s - 1)"
  shows "linear_to_alaw v = word_of_int (16 * int s + m) XOR 0xD5"
    "linear_to_alaw (- v) = word_of_int (16 * int s + m) XOR 0x55"
proof -
  have v: "0 < v"
    using assms(2) by (simp add: v_def)
  have form: "v = (16 + m) * 2 ^ (s + 3) + 2 ^ (s + 2)" if "s \<noteq> 0"
  proof -
    obtain k where "s = Suc k"
      using \<open>s \<noteq> 0\<close> by (cases s) auto
    then show ?thesis
      by (simp add: v_def power_add algebra_simps)
  qed
  have r: "(8 :: int) \<le> 2 ^ (s + 2)" "(2 :: int) ^ (s + 2) < 2 ^ (s + 3)" if "s \<noteq> 0"
    using power_increasing[of 3 "s + 2" "2 :: int"] that by (simp_all add: power_add)
  show "linear_to_alaw v = word_of_int (16 * int s + m) XOR 0xD5"
    using alaw_encode[OF assms(1-3), of "if s = 0 then 8 else 2 ^ (s + 2)" v v] v form r
    by (simp add: v_def split: if_splits)
  show "linear_to_alaw (- v) = word_of_int (16 * int s + m) XOR 0x55"
    using alaw_encode[OF assms(1-3), of "if s = 0 then 0 else 2 ^ (s + 2) - 8" "v - 8" "- v"] v form r
    by (simp add: v_def split: if_splits)
qed

text \<open>Every code word of either law is the code of the sample it stands for, except the negative zero of mu-law, which comes back as the
  positive one.\<close>

theorem companding_codes_fixed:
  "linear_to_ulaw (ulaw_to_linear u) = (if u = 0x7F then 0xFF else u) \<and> linear_to_alaw (alaw_to_linear a) = a"
proof
  obtain s m where c: "s < (8 :: nat)" "0 \<le> m" "m < 16"
    and u: "u = word_of_int (16 * int s + m) XOR 0xFF \<or> u = word_of_int (16 * int s + m) XOR 0x7F"
    using byte_split[of "0xFF" u] by auto
  show "linear_to_ulaw (ulaw_to_linear u) = (if u = 0x7F then 0xFF else u)"
  proof (cases "u = 0x7F")
    case True
    have "linear_to_ulaw (ulaw_to_linear 0x7F) = 0xFF"
      by code_simp
    then show ?thesis
      using True by simp
  next
    case False
    from u have "linear_to_ulaw (ulaw_to_linear u) = u"
    proof
      assume u: "u = word_of_int (16 * int s + m) XOR 0xFF"
      show ?thesis
        unfolding u ulaw_decode(1)[OF c] by (rule ulaw_code_fixed(1)[OF c])
    next
      assume u: "u = word_of_int (16 * int s + m) XOR 0x7F"
      with False have "s \<noteq> 0 \<or> m \<noteq> 0"
        by auto
      then show ?thesis
        unfolding u ulaw_decode(2)[OF c] by (rule ulaw_code_fixed(2)[OF c])
    qed
    then show ?thesis
      using False by simp
  qed
next
  show "linear_to_alaw (alaw_to_linear a) = a"
  proof -
    obtain s m where c: "s < (8 :: nat)" "0 \<le> m" "m < 16"
      and a: "a = word_of_int (16 * int s + m) XOR 0xD5 \<or> a = word_of_int (16 * int s + m) XOR 0x55"
      using byte_split[of "0xD5" a] by auto
    from a show ?thesis
    proof
      assume a: "a = word_of_int (16 * int s + m) XOR 0xD5"
      show ?thesis
        unfolding a alaw_decode(1)[OF c] by (rule alaw_code_fixed(1)[OF c])
    next
      assume a: "a = word_of_int (16 * int s + m) XOR 0x55"
      show ?thesis
        unfolding a alaw_decode(2)[OF c] by (rule alaw_code_fixed(2)[OF c])
    qed
  qed
qed

lemma scale_bound: "e \<le> d \<Longrightarrow> 32 * d \<le> b \<Longrightarrow> 32 * e \<le> b" for b d e :: int
  by linarith

lemma ulaw_error:
  assumes "\<bar>x\<bar> + 132 < 2 ^ 15"
  shows "32 * \<bar>ulaw_to_linear (linear_to_ulaw x) - x\<bar> \<le> \<bar>x\<bar> + 132"
proof -
  obtain s m r where q: "s < (8 :: nat)" "0 \<le> m" "m < 16" "0 \<le> r" "r < 2 ^ (s + 3)"
    and y: "132 + \<bar>x\<bar> = (16 + m) * 2 ^ (s + 3) + r"
    by (rule quantise[of "132 + \<bar>x\<bar>"]) (use assms in simp_all)
  have form: "(m * 8 + 132) * 2 ^ s = (16 + m) * 2 ^ (s + 3) + 2 ^ (s + 2)"
    by (simp add: power_add algebra_simps)
  have "\<bar>2 ^ (s + 2) - r\<bar> \<le> 2 ^ (s + 2)"
    using q(4,5) by (auto simp: power_add)
  moreover have "32 * (2 :: int) ^ (s + 2) \<le> 132 + \<bar>x\<bar>"
  proof -
    have "16 * 2 ^ (s + 3) \<le> (16 + m) * (2 :: int) ^ (s + 3)"
      using q(2) by (intro mult_right_mono) simp_all
    moreover have "16 * (2 :: int) ^ (s + 3) = 32 * 2 ^ (s + 2)"
      by (simp add: power_add)
    ultimately show ?thesis
      using y q(4) by linarith
  qed
  moreover have "\<bar>ulaw_to_linear (linear_to_ulaw x) - x\<bar> = \<bar>2 ^ (s + 2) - r\<bar>"
    using ulaw_encode[OF q y] ulaw_decode[OF q(1-3)] y form by (cases "x < 0") auto
  ultimately have "\<bar>ulaw_to_linear (linear_to_ulaw x) - x\<bar> \<le> 2 ^ (s + 2)" "32 * (2 :: int) ^ (s + 2) \<le> \<bar>x\<bar> + 132"
    by simp_all
  then show ?thesis
    by (rule scale_bound)
qed

lemma ulaw_clip:
  assumes "2 ^ 15 \<le> \<bar>x\<bar> + 132" "\<bar>x\<bar> \<le> 2 ^ 15"
  shows "ulaw_to_linear (linear_to_ulaw x) = (if x < 0 then -32124 else 32124)"
proof -
  have seg: "segment (132 + \<bar>x\<bar>) = int 8"
    by (rule segment_eq) (use assms in simp_all)
  have "linear_to_ulaw x = (if x < 0 then 0 else 0x80)"
    using seg by (cases "x < 0") (simp_all add: linear_to_ulaw_def ULAW_BIAS_def Let_def)
  moreover have "ulaw_to_linear 0 = -32124 \<and> ulaw_to_linear 0x80 = 32124"
    by code_simp
  ultimately show ?thesis
    by simp
qed

lemma alaw_error:
  assumes "- (2 ^ 15) \<le> x" "x < 2 ^ 15"
  shows "32 * \<bar>alaw_to_linear (linear_to_alaw x) - x\<bar> \<le> \<bar>x\<bar> + 512"
proof -
  define y where "y = (if 0 \<le> x then x else - x - 8)"
  consider "y < 0" | "0 \<le> y" "y < 256" | "256 \<le> y" "y < 2 ^ 15"
    using assms by (force simp: y_def split: if_splits)
  then show ?thesis
  proof cases
    case 1
    then have x: "- 8 < x" "x < 0" "\<not> 0 \<le> x"
      by (auto simp: y_def split: if_splits)
    have "segment (- x - 8) = 24"
      by (rule segment_negative) (use x in simp_all)
    then have "linear_to_alaw x = 0x55"
      using x by (simp add: linear_to_alaw_def ALAW_AMI_MASK_def)
    moreover have "alaw_to_linear 0x55 = -8"
      by code_simp
    ultimately show ?thesis
      using x by simp
  next
    case 2
    define m r where "m = y div 16" and "r = y mod 16"
    have mr: "0 \<le> m" "m < 16" "0 \<le> r" "r < 16" "y = 16 * m + r"
      using 2 by (auto simp: m_def r_def)
    have "linear_to_alaw x = word_of_int (16 * int 0 + m) XOR (if x < 0 then 0x55 else 0xD5)"
      by (rule alaw_encode[where r = r and y = y]) (use mr y_def in auto)
    then have "\<bar>alaw_to_linear (linear_to_alaw x) - x\<bar> \<le> 16"
      using alaw_decode[of 0 m] mr y_def by (auto split: if_splits)
    then show ?thesis
      by (rule scale_bound) simp
  next
    case 3
    obtain s m r where q: "s < (8 :: nat)" "0 \<le> m" "m < 16" "0 \<le> r" "r < 2 ^ (s + 3)"
      and y: "y = (16 + m) * 2 ^ (s + 3) + r"
      by (rule quantise[of y]) (use 3 in simp_all)
    have s: "s \<noteq> 0"
    proof
      assume "s = 0"
      then show False
        using y q(3,5) 3 by simp
    qed
    have form: "(m * 16 + 264) * 2 ^ (s - 1) = (16 + m) * 2 ^ (s + 3) + (2 :: int) ^ (s + 2)"
    proof -
      obtain k where "s = Suc k"
        using s by (cases s) auto
      then show ?thesis
        by (simp add: power_add algebra_simps)
    qed
    have "\<bar>2 ^ (s + 2) - r\<bar> \<le> 2 ^ (s + 2)"
      using q(4,5) by (auto simp: power_add)
    moreover have "32 * (2 :: int) ^ (s + 2) \<le> y"
    proof -
      have "16 * 2 ^ (s + 3) \<le> (16 + m) * (2 :: int) ^ (s + 3)"
        using q(2) by (intro mult_right_mono) simp_all
      moreover have "16 * (2 :: int) ^ (s + 3) = 32 * 2 ^ (s + 2)"
        by (simp add: power_add)
      ultimately show ?thesis
        using y q(4) by linarith
    qed
    moreover have "linear_to_alaw x = word_of_int (16 * int s + m) XOR (if x < 0 then 0x55 else 0xD5)"
      by (rule alaw_encode[where r = r and y = y]) (use q y s y_def in auto)
    then have "\<bar>alaw_to_linear (linear_to_alaw x) - x\<bar> \<le> \<bar>2 ^ (s + 2) - r\<bar> + 8"
      using alaw_decode[OF q(1-3)] s form y y_def by (auto split: if_splits)
    ultimately show ?thesis
      unfolding y_def by (simp split: if_splits)
  qed
qed

text \<open>C32. Quantisation error: for every 16-bit sample, mu-law comes back within a thirty-second part of the biased magnitude, clipping included, and A-law within a
  thirty-second part of the magnitude plus 16.\<close>

theorem companding_error:
  assumes "- (2 ^ 15) \<le> x" "x < 2 ^ 15"
  shows "32 * \<bar>ulaw_to_linear (linear_to_ulaw x) - x\<bar> \<le> \<bar>x\<bar> + 132 \<and>
    32 * \<bar>alaw_to_linear (linear_to_alaw x) - x\<bar> \<le> \<bar>x\<bar> + 512"
proof (cases "\<bar>x\<bar> + 132 < 2 ^ 15")
  case True
  then show ?thesis
    using ulaw_error alaw_error[OF assms] by blast
next
  case False
  then have "32 * \<bar>ulaw_to_linear (linear_to_ulaw x) - x\<bar> \<le> \<bar>x\<bar> + 132"
    using ulaw_clip[of x] assms by auto
  then show ?thesis
    using alaw_error[OF assms] by blast
qed

theorem companding_error_witness: "32 * \<bar>ulaw_to_linear (linear_to_ulaw (-32768)) - (-32768)\<bar> \<le> 32900"
  using companding_error[of "-32768"] by simp

end
