(* ===== verification/Asio_Conn.thy ===== *)
theory Asio_Conn
  imports Byte_Buffer "HOL-Library.Sublist"
begin

section \<open>libtcp::Conn on asio: asynchronous operations on a strand (src/net/asio.hpp)\<close>

text \<open>
  Every function of the connection that touches its members runs on its strand: either as a task that was posted, or
  as the completion of an asynchronous read or write. The queue of the strand is \<open>posted\<close>; an operation in progress is
  \<open>read_op\<close> or \<open>write_op\<close>. What the library and the kernel decide, when an operation completes and how, are events.
  \<open>async_write\<close> works on the front of \<open>outbox_\<close>; by the rules of the library the string has to live until the handler has run, and
  no second write (or read) may be started before that: a second operation, and a write by the kernel from a string that is gone,
  are the result \<open>None\<close>. A write that is pending while its string is gone is \<open>string_gone\<close>.
\<close>

subsection \<open>State\<close>

datatype task = Task_Start | Task_Send bytes | Task_Close

text \<open>\<open>Reading\<close> and \<open>Writing\<close> are with the kernel; the others have completed, and their handlers wait for the strand.
  The number is what \<open>async_write\<close> has transferred.\<close>

datatype read_op = No_read | Reading | Read_done bytes | Read_failed
datatype write_op = No_write | Writing nat | Written | Write_failed nat

text \<open>
  \<open>app\<close> is the state of the message handler, \<open>on_close\<close> what the close handler calls on the connection; \<open>wire\<close> are the bytes the kernel
  took, \<open>said\<close> those given to \<open>Send\<close>, \<open>notified\<close> and \<open>told\<close> count the calls of the close handler and of the message handler.
\<close>

record 'a conn =
  is_open :: bool
  rbuf :: buffer
  outbox :: "bytes list"
  writing :: bool
  closed :: bool
  started :: bool
  on_close :: "task list option"
  posted :: "task list"
  read_op :: read_op
  write_op :: write_op
  wire :: bytes
  said :: bytes
  notified :: nat
  told :: nat
  app :: 'a

type_synonym 'a handler = "'a \<Rightarrow> bytes \<Rightarrow> int \<times> task list \<times> 'a"

definition Conn :: "task list option \<Rightarrow> 'a \<Rightarrow> 'a conn" where
  "Conn cb a = \<lparr>is_open = True, rbuf = Buffer, outbox = [], writing = False, closed = False, started = False,
     on_close = cb, posted = [], read_op = No_read, write_op = No_write, wire = [], said = [], notified = 0, told = 0, app = a\<rparr>"

subsection \<open>Calls from any thread\<close>

definition Start :: "'a conn \<Rightarrow> 'a conn" where
  "Start s = s\<lparr>posted := posted s @ [Task_Start]\<rparr>"

definition Send :: "bytes \<Rightarrow> 'a conn \<Rightarrow> 'a conn" where
  "Send data s = s\<lparr>posted := posted s @ [Task_Send data], said := said s @ data\<rparr>"

definition Close :: "'a conn \<Rightarrow> 'a conn" where
  "Close s = s\<lparr>posted := posted s @ [Task_Close]\<rparr>"

definition IsOpen :: "'a conn \<Rightarrow> bool" where
  "IsOpen s \<longleftrightarrow> is_open s \<and> \<not> closed s"

fun call :: "task \<Rightarrow> 'a conn \<Rightarrow> 'a conn" where
  "call Task_Start s = Start s"
| "call (Task_Send data) s = Send data s"
| "call Task_Close s = Close s"

fun run_calls :: "task list \<Rightarrow> 'a conn \<Rightarrow> 'a conn" where
  "run_calls [] s = s"
| "run_calls (c # cs) s = run_calls cs (call c s)"

subsection \<open>On the strand\<close>

text \<open>Closing the socket ends the read, whose buffer is a member of the connection; a write stays pending until the library aborts it.\<close>

definition cancel_ops :: "'a conn \<Rightarrow> 'a conn" where
  "cancel_ops s = s\<lparr>is_open := False,
     read_op := (case read_op s of Reading \<Rightarrow> Read_failed | op \<Rightarrow> op)\<rparr>"

text \<open>The write is pending until its handler runs; the string it was given is the front of \<open>outbox_\<close>.\<close>

definition string_gone :: "'a conn \<Rightarrow> bool" where
  "string_gone s \<longleftrightarrow> write_op s \<noteq> No_write \<and> outbox s = []"

definition CloseNow :: "'a conn \<Rightarrow> 'a conn" where
  "CloseNow s =
     (if closed s then s
      else
        (let s = s\<lparr>closed := True\<rparr>;
             s = cancel_ops s
         in s\<lparr>outbox := []\<rparr>))"

definition HandleClose :: "'a conn \<Rightarrow> 'a conn" where
  "HandleClose s =
     (if closed s then s
      else
        (let s = CloseNow s
         in case on_close s of
              None \<Rightarrow> s
            | Some cs \<Rightarrow> run_calls cs (s\<lparr>notified := notified s + 1\<rparr>)))"

definition DoRead :: "'a conn \<Rightarrow> 'a conn option" where
  "DoRead s =
     (if read_op s \<noteq> No_read then None
      else Some (s\<lparr>read_op := (if is_open s then Reading else Read_failed)\<rparr>))"

definition DoWrite :: "'a conn \<Rightarrow> 'a conn option" where
  "DoWrite s =
     (if outbox s = [] \<or> closed s \<or> \<not> is_open s then Some (s\<lparr>writing := False\<rparr>)
      else if write_op s \<noteq> No_write then None
      else Some (s\<lparr>writing := True, write_op := Writing 0\<rparr>))"

definition Start_task :: "'a conn \<Rightarrow> 'a conn option" where
  "Start_task s = (if started s \<or> closed s then Some s else DoRead (s\<lparr>started := True\<rparr>))"

definition Send_task :: "bytes \<Rightarrow> 'a conn \<Rightarrow> 'a conn option" where
  "Send_task payload s =
     (if closed s \<or> \<not> is_open s then Some s
      else
        (let s = s\<lparr>outbox := outbox s @ [payload]\<rparr>
         in if \<not> writing s then DoWrite s else Some s))"

fun run_task :: "task \<Rightarrow> 'a conn \<Rightarrow> 'a conn option" where
  "run_task Task_Start s = Start_task s"
| "run_task (Task_Send d) s = Send_task d s"
| "run_task Task_Close s = Some (HandleClose s)"

text \<open>Nothing bounds the loop but the handler: \<open>None\<close> is the loop that does not end.\<close>

partial_function (option) DispatchMessages :: "'a handler \<Rightarrow> 'a conn \<Rightarrow> (bool \<times> 'a conn) option" where
  "DispatchMessages h s =
     (case h (app s) (vec (rbuf s)) of (consumed, calls, a) \<Rightarrow>
        let s = run_calls calls (s\<lparr>app := a, told := told s + 1\<rparr>) in
        if consumed < 0 then Some (False, HandleClose s)
        else if consumed = 0 then Some (True, s)
        else DispatchMessages h (s\<lparr>rbuf := buf_discard (nat consumed) (rbuf s)\<rparr>))"

text \<open>The completion handler of the read; \<open>None\<close> as the first argument is an error.\<close>

definition on_read :: "'a handler \<Rightarrow> bytes option \<Rightarrow> 'a conn \<Rightarrow> 'a conn option" where
  "on_read h r s =
     (let s = s\<lparr>read_op := No_read\<rparr>
      in case r of
           None \<Rightarrow> Some (HandleClose s)
         | Some xs \<Rightarrow> do {
             (go, s) \<leftarrow> DispatchMessages h (s\<lparr>rbuf := buf_append xs (rbuf s)\<rparr>);
             if \<not> go then Some s else DoRead s
           })"

definition on_written :: "bool \<Rightarrow> 'a conn \<Rightarrow> 'a conn option" where
  "on_written ec s =
     (let s = s\<lparr>write_op := No_write\<rparr>;
          s = (if outbox s \<noteq> [] then s\<lparr>outbox := tl (outbox s)\<rparr> else s)
      in if ec then Some (HandleClose (s\<lparr>writing := False\<rparr>))
         else if outbox s = [] then Some (s\<lparr>writing := False\<rparr>)
         else DoWrite s)"

subsection \<open>Runs\<close>

text \<open>
  A call from the application; the next task of the strand; the kernel hands over what it has received (at most
  the 8192 bytes of \<open>buf_\<close>) or an error; on an open socket it takes some bytes, and it fails or, on a closed one, aborts the write;
  the handlers of the completed operations run.
\<close>

datatype 'a ev = Call task | Set_app 'a | Run_task | Kernel_read bytes | Kernel_read_error | Kernel_write nat
  | Kernel_write_error | Run_on_read | Run_on_written

fun kernel_write :: "nat \<Rightarrow> 'a conn \<Rightarrow> 'a conn option" where
  "kernel_write n s =
     (case write_op s of
        Writing k \<Rightarrow>
          (case outbox s of
             [] \<Rightarrow> None
           | d # _ \<Rightarrow>
               if length d - k < n then None
               else Some (s\<lparr>wire := wire s @ take n (drop k d),
                 write_op := (if k + n = length d then Written else Writing (k + n))\<rparr>))
      | _ \<Rightarrow> None)"

fun enabled :: "'a ev \<Rightarrow> 'a conn \<Rightarrow> bool" where
  "enabled (Call c) s = True"
| "enabled (Set_app a) s = True"
| "enabled Run_task s = (posted s \<noteq> [])"
| "enabled (Kernel_read xs) s = (read_op s = Reading \<and> xs \<noteq> [] \<and> length xs \<le> 8192)"
| "enabled Kernel_read_error s = (read_op s = Reading)"
| "enabled (Kernel_write n) s =
     (is_open s \<and> (case write_op s of Writing k \<Rightarrow> outbox s = [] \<or> n \<le> length (hd (outbox s)) - k | _ \<Rightarrow> False))"
| "enabled Kernel_write_error s = (case write_op s of Writing k \<Rightarrow> True | _ \<Rightarrow> False)"
| "enabled Run_on_read s = (case read_op s of Read_done _ \<Rightarrow> True | Read_failed \<Rightarrow> True | _ \<Rightarrow> False)"
| "enabled Run_on_written s = (case write_op s of Written \<Rightarrow> True | Write_failed _ \<Rightarrow> True | _ \<Rightarrow> False)"

fun occur :: "'a handler \<Rightarrow> 'a ev \<Rightarrow> 'a conn \<Rightarrow> 'a conn option" where
  "occur h (Call c) s = Some (call c s)"
| "occur h (Set_app a) s = Some (s\<lparr>app := a\<rparr>)"
| "occur h Run_task s = run_task (hd (posted s)) (s\<lparr>posted := tl (posted s)\<rparr>)"
| "occur h (Kernel_read xs) s = Some (s\<lparr>read_op := Read_done xs\<rparr>)"
| "occur h Kernel_read_error s = Some (s\<lparr>read_op := Read_failed\<rparr>)"
| "occur h (Kernel_write n) s = kernel_write n s"
| "occur h Kernel_write_error s =
     Some (case write_op s of Writing k \<Rightarrow> s\<lparr>write_op := Write_failed k\<rparr> | _ \<Rightarrow> s)"
| "occur h Run_on_read s = on_read h (case read_op s of Read_done xs \<Rightarrow> Some xs | _ \<Rightarrow> None) s"
| "occur h Run_on_written s = on_written (write_op s \<noteq> Written) s"

inductive conn_run :: "'a handler \<Rightarrow> 'a conn \<Rightarrow> bool" for h where
  start: "conn_run h (Conn cb a)"
| step: "conn_run h s \<Longrightarrow> enabled e s \<Longrightarrow> occur h e s = Some s' \<Longrightarrow> conn_run h s'"

subsection \<open>What is said, in order\<close>

fun pay :: "task list \<Rightarrow> bytes" where
  "pay [] = []"
| "pay (Task_Send d # ts) = d @ pay ts"
| "pay (_ # ts) = pay ts"

lemma pay_append [simp]: "pay (ts @ us) = pay ts @ pay us"
  by (induction ts rule: pay.induct) simp_all

lemma call_eq: "call c s = s\<lparr>posted := posted s @ [c], said := said s @ pay [c]\<rparr>"
  by (cases c) (simp_all add: Start_def Send_def Close_def)

lemma run_calls_eq: "run_calls cs s = s\<lparr>posted := posted s @ cs, said := said s @ pay cs\<rparr>"
proof (induction cs arbitrary: s)
  case (Cons c cs)
  have "pay (c # cs) = pay [c] @ pay cs"
    using pay_append[of "[c]" cs] by simp
  then show ?case
    using Cons by (simp add: call_eq)
qed simp

text \<open>How much of the front of \<open>outbox_\<close> has been transferred.\<close>

fun transferred :: "bytes list \<Rightarrow> write_op \<Rightarrow> nat" where
  "transferred ds No_write = 0"
| "transferred ds (Writing k) = k"
| "transferred ds (Write_failed k) = k"
| "transferred ds Written = length (hd ds)"

definition unsent :: "'a conn \<Rightarrow> bytes" where
  "unsent s = drop (transferred (outbox s) (write_op s)) (concat (outbox s))"

definition out_inv :: "'a conn \<Rightarrow> bool" where
  "out_inv s \<longleftrightarrow> is_open s = (\<not> closed s) \<and> writing s = (write_op s \<noteq> No_write) \<and>
     (if closed s
      then outbox s = [] \<and> prefix (wire s) (said s) \<and>
        notified s = (if on_close s = None then 0 else 1)
      else writing s = (outbox s \<noteq> []) \<and> said s = wire s @ unsent s @ pay (posted s) \<and> notified s = 0 \<and>
        (outbox s \<noteq> [] \<longrightarrow> transferred (outbox s) (write_op s) \<le> length (hd (outbox s))))"

definition in_inv :: "'a conn \<Rightarrow> bool" where
  "in_inv s \<longleftrightarrow> (if closed s then read_op s \<noteq> Reading else started s = (read_op s \<noteq> No_read))"

lemmas inv_defs = out_inv_def unsent_def

lemma out_inv_update [simp]:
  "out_inv (s\<lparr>read_op := r\<rparr>) = out_inv s" "out_inv (s\<lparr>rbuf := b\<rparr>) = out_inv s"
  "out_inv (s\<lparr>app := a\<rparr>) = out_inv s" "out_inv (s\<lparr>told := n\<rparr>) = out_inv s"
  "out_inv (s\<lparr>started := y\<rparr>) = out_inv s"
  by (simp_all add: inv_defs)

lemma in_inv_update [simp]:
  "in_inv (s\<lparr>posted := ts\<rparr>) = in_inv s" "in_inv (s\<lparr>wire := xs, write_op := w\<rparr>) = in_inv s"
  "in_inv (s\<lparr>app := a\<rparr>) = in_inv s" "in_inv (s\<lparr>write_op := w\<rparr>) = in_inv s"
  by (simp_all add: in_inv_def)

lemma out_inv_posted: "out_inv s \<Longrightarrow> posted s = ts @ us \<Longrightarrow> pay ts = [] \<or> closed s \<Longrightarrow> out_inv (s\<lparr>posted := us\<rparr>)"
  by (auto simp: inv_defs)

lemma call_inv: "out_inv s \<Longrightarrow> out_inv (call c s)" "in_inv s \<Longrightarrow> in_inv (call c s)"
  by (auto simp: call_eq inv_defs in_inv_def prefix_def)

lemma run_calls_inv: "out_inv s \<Longrightarrow> out_inv (run_calls cs s)" "in_inv s \<Longrightarrow> in_inv (run_calls cs s)"
  by (auto simp: run_calls_eq inv_defs in_inv_def prefix_def)

lemma HandleClose_out: "out_inv s \<Longrightarrow> out_inv (HandleClose s)"
  by (cases "closed s"; cases "on_close s"; cases "write_op s")
    (auto simp: HandleClose_def CloseNow_def cancel_ops_def run_calls_eq inv_defs prefix_def)

lemma HandleClose_closed [simp]: "closed (HandleClose s)"
  by (simp add: HandleClose_def CloseNow_def cancel_ops_def run_calls_eq Let_def split: option.split)

lemma HandleClose_in: "in_inv s \<or> read_op s = No_read \<Longrightarrow> in_inv (HandleClose s)"
  by (cases "closed s"; cases "on_close s"; cases "read_op s")
    (auto simp: HandleClose_def CloseNow_def cancel_ops_def run_calls_eq in_inv_def)

definition conn_inv :: "'a conn \<Rightarrow> bool" where
  "conn_inv s \<longleftrightarrow> out_inv s \<and> in_inv s"

lemma Send_task_inv:
  assumes "out_inv (s\<lparr>posted := Task_Send d # posted s\<rparr>)"
  shows "\<exists>s'. Send_task d s = Some s' \<and> out_inv s' \<and> closed s' = closed s \<and> started s' = started s \<and> read_op s' = read_op s"
  using assms
  by (cases "closed s"; cases "outbox s"; cases "write_op s")
    (auto simp: Send_task_def DoWrite_def inv_defs)

lemma run_task_inv:
  assumes "conn_inv s" "posted s = t # ts"
  shows "\<exists>s'. run_task t (s\<lparr>posted := ts\<rparr>) = Some s' \<and> conn_inv s'"
proof (cases t)
  case Task_Start
  then have "out_inv (s\<lparr>posted := ts\<rparr>)"
    using assms out_inv_posted[of s "[t]" ts] by (simp add: conn_inv_def)
  moreover have "in_inv (s\<lparr>posted := ts\<rparr>)"
    using assms(1) by (simp add: conn_inv_def)
  ultimately show ?thesis
    using Task_Start by (auto simp: Start_task_def DoRead_def conn_inv_def in_inv_def)
next
  case (Task_Send d)
  have "out_inv ((s\<lparr>posted := ts\<rparr>)\<lparr>posted := Task_Send d # posted (s\<lparr>posted := ts\<rparr>)\<rparr>)"
    using assms Task_Send by (cases s) (simp add: conn_inv_def)
  then obtain s' where "Send_task d (s\<lparr>posted := ts\<rparr>) = Some s'" "out_inv s'" "closed s' = closed s"
      "started s' = started s" "read_op s' = read_op s"
    using Send_task_inv[where s = "s\<lparr>posted := ts\<rparr>" and d = d] by auto
  then show ?thesis
    using assms(1) Task_Send by (simp add: conn_inv_def in_inv_def)
next
  case Task_Close
  then have "out_inv (s\<lparr>posted := ts\<rparr>)" "in_inv (s\<lparr>posted := ts\<rparr>)"
    using assms out_inv_posted[of s "[t]" ts] by (simp_all add: conn_inv_def)
  then show ?thesis
    using Task_Close HandleClose_out[of "s\<lparr>posted := ts\<rparr>"] HandleClose_in[of "s\<lparr>posted := ts\<rparr>"]
    by (simp add: conn_inv_def)
qed

lemma on_written_inv:
  assumes "conn_inv s" "enabled Run_on_written s"
  shows "\<exists>s'. on_written (write_op s \<noteq> Written) s = Some s' \<and> conn_inv s'"
proof (cases "write_op s = Written")
  case True
  have "concat (outbox s) = hd (outbox s) @ concat (tl (outbox s))" if "outbox s \<noteq> []"
    using that by (cases "outbox s") auto
  then show ?thesis
    using assms True by (auto simp: on_written_def DoWrite_def conn_inv_def inv_defs in_inv_def Let_def)
next
  case False
  let ?t = "s\<lparr>write_op := No_write, outbox := tl (outbox s), writing := False\<rparr>"
  have eq: "on_written True s = Some (HandleClose ?t)"
    by (cases s; cases "outbox s") (simp_all add: on_written_def)
  have "out_inv (HandleClose ?t)"
  proof (cases "closed s")
    case True
    then show ?thesis
      using assms(1) by (simp add: HandleClose_def conn_inv_def inv_defs)
  next
    case open': False
    have "prefix (wire s) (said s)"
      using assms(1) open' by (simp add: conn_inv_def inv_defs prefix_def)
    then show ?thesis
      using assms(1) open' by (cases "on_close s")
        (auto simp: HandleClose_def CloseNow_def cancel_ops_def run_calls_eq conn_inv_def inv_defs prefix_def)
  qed
  moreover have "in_inv ?t"
    using assms(1) by (simp add: conn_inv_def in_inv_def)
  ultimately show ?thesis
    using eq False HandleClose_in by (auto simp: conn_inv_def)
qed

lemma kernel_write_inv:
  assumes "conn_inv s" "enabled (Kernel_write n) s"
  shows "\<exists>s'. kernel_write n s = Some s' \<and> conn_inv s'"
proof -
  from assms(2) obtain k where k: "write_op s = Writing k" and n: "outbox s = [] \<or> n \<le> length (hd (outbox s)) - k"
    by (cases "write_op s") auto
  have "\<not> closed s"
    using assms k by (auto simp: conn_inv_def out_inv_def)
  then obtain d ds where d: "outbox s = d # ds"
    using assms(1) k by (cases "outbox s") (auto simp: conn_inv_def out_inv_def)
  have le: "k \<le> length d" "n \<le> length d - k"
    using assms(1) \<open>\<not> closed s\<close> k d n by (auto simp: conn_inv_def out_inv_def)
  have "drop k d = take n (drop k d) @ drop (k + n) d"
    by (metis append_take_drop_id drop_drop add.commute)
  then show ?thesis
    using assms(1) \<open>\<not> closed s\<close> k d le by (auto simp: conn_inv_def inv_defs in_inv_def)
qed

text \<open>The loop over the messages posts tasks, and may close; it does not start a read.\<close>

lemma DispatchMessages_inv:
  "DispatchMessages h s = Some r \<Longrightarrow> out_inv s \<and> read_op s = No_read \<longrightarrow>
    out_inv (snd r) \<and> read_op (snd r) = No_read \<and> (closed (snd r) = closed s \<or> \<not> fst r) \<and>
    (\<not> fst r \<longrightarrow> closed (snd r)) \<and> started (snd r) = started s"
proof (induct rule: DispatchMessages.raw_induct[rotated, consumes 1, case_names loop])
  case (loop dispatch h s r)
  obtain k cs a where h: "h (app s) (vec (rbuf s)) = (k, cs, a)"
    by (metis prod_cases3)
  let ?s = "run_calls cs (s\<lparr>app := a, told := told s + 1\<rparr>)"
  have start: "out_inv s \<Longrightarrow> out_inv ?s" "read_op ?s = read_op s" "closed ?s = closed s" "started ?s = started s"
    by (auto simp: run_calls_eq inv_defs prefix_def)
  have close: "read_op s = No_read \<Longrightarrow> read_op (HandleClose ?s) = No_read" "started (HandleClose ?s) = started s"
    by (auto simp: run_calls_eq HandleClose_def CloseNow_def cancel_ops_def Let_def split: option.split)
  consider "k < 0" "r = (False, HandleClose ?s)" | "k = 0" "r = (True, ?s)"
    | "0 < k" "dispatch h (?s\<lparr>rbuf := buf_discard (nat k) (rbuf ?s)\<rparr>) = Some r"
    using loop(2) h by (auto simp: Let_def split: if_splits)
  then show ?case
  proof cases
    case 3
    have "out_inv (?s\<lparr>rbuf := buf_discard (nat k) (rbuf ?s)\<rparr>) = out_inv ?s"
      by (simp add: inv_defs)
    then show ?thesis
      using loop(1)[OF 3(2)] start by simp
  qed (use start close HandleClose_out in auto)
qed

lemma on_read_inv:
  assumes "conn_inv s" "enabled Run_on_read s" "on_read h r s = Some s'"
  shows "conn_inv s'"
proof (cases r)
  case None
  have "out_inv (s\<lparr>read_op := No_read\<rparr>)"
    using assms(1) by (auto simp: conn_inv_def inv_defs)
  then show ?thesis
    using assms(3) None HandleClose_out[of "s\<lparr>read_op := No_read\<rparr>"] HandleClose_in[of "s\<lparr>read_op := No_read\<rparr>"]
    by (simp add: on_read_def conn_inv_def)
next
  case (Some xs)
  let ?s = "s\<lparr>read_op := No_read, rbuf := buf_append xs (rbuf s)\<rparr>"
  obtain go t where d: "DispatchMessages h ?s = Some (go, t)" "(if \<not> go then Some t else DoRead t) = Some s'"
    using assms(3) Some by (auto simp: on_read_def bind_eq_Some_conv)
  have "out_inv ?s"
    using assms(1) by (simp add: conn_inv_def)
  with DispatchMessages_inv[OF d(1)] have t: "out_inv t" "read_op t = No_read" "go \<Longrightarrow> closed t = closed s"
      "\<not> go \<Longrightarrow> closed t" "started t = started s"
    by auto
  have "started s" if "\<not> closed s"
    using assms(1,2) that by (auto simp: conn_inv_def in_inv_def)
  then show ?thesis
    using d(2) t by (cases go) (auto simp: DoRead_def conn_inv_def inv_defs in_inv_def)
qed

lemma occur_inv:
  assumes "conn_inv s" "enabled e s"
  shows "occur h e s = Some s' \<Longrightarrow> conn_inv s'"
    and "e \<noteq> Run_on_read \<Longrightarrow> occur h e s \<noteq> None"
proof -
  show "conn_inv s'" if o: "occur h e s = Some s'"
  proof (cases e)
    case Run_task
    then show ?thesis
      using run_task_inv[OF assms(1), of "hd (posted s)" "tl (posted s)"] assms(2) o by auto
  next
    case (Kernel_write n)
    then show ?thesis
      using kernel_write_inv[of s n] assms o by auto
  next
    case Run_on_read
    then show ?thesis
      using on_read_inv assms o by auto
  next
    case Run_on_written
    then show ?thesis
      using on_written_inv[OF assms(1)] assms(2) o by auto
  next
    case (Call c)
    then show ?thesis
      using assms(1) o call_inv by (auto simp: conn_inv_def)
  next
    case Kernel_write_error
    then obtain k where "write_op s = Writing k"
      using assms(2) by (auto split: write_op.splits)
    then show ?thesis
      using assms(1) o Kernel_write_error by (auto simp: conn_inv_def inv_defs)
  qed (use assms o in \<open>auto simp: conn_inv_def in_inv_def\<close>)
  show "occur h e s \<noteq> None" if "e \<noteq> Run_on_read"
  proof (cases e)
    case Run_task
    then show ?thesis
      using run_task_inv[OF assms(1), of "hd (posted s)" "tl (posted s)"] assms(2) by auto
  next
    case (Kernel_write n)
    then show ?thesis
      using kernel_write_inv[of s n] assms by auto
  next
    case Run_on_written
    then show ?thesis
      using on_written_inv[OF assms(1)] assms(2) by auto
  qed (use that in auto)
qed

lemma asio_run_inv: "conn_run h s \<Longrightarrow> conn_inv s"
proof (induction rule: conn_run.induct)
  case (start cb a)
  show ?case
    by (simp add: Conn_def conn_inv_def inv_defs in_inv_def)
next
  case (step s e s')
  then show ?case
    using occur_inv(1) by blast
qed

text \<open>The only step that can fail is a message handler that never stops.\<close>

lemma on_read_None:
  assumes "conn_inv s" "enabled Run_on_read s" "on_read h (Some xs) s = None"
  shows "DispatchMessages h (s\<lparr>read_op := No_read, rbuf := buf_append xs (rbuf s)\<rparr>) = None"
proof (rule ccontr)
  let ?s = "s\<lparr>read_op := No_read, rbuf := buf_append xs (rbuf s)\<rparr>"
  assume "DispatchMessages h ?s \<noteq> None"
  then obtain go t where d: "DispatchMessages h ?s = Some (go, t)"
    by auto
  moreover have "out_inv ?s"
    using assms(1) by (auto simp: conn_inv_def inv_defs)
  ultimately have "read_op t = No_read"
    using DispatchMessages_inv[OF d] by simp
  then show False
    using assms(3) d by (cases go) (auto simp: on_read_def DoRead_def)
qed

subsection \<open>Draining\<close>

text \<open>
  The events that need neither the application nor the peer: a posted task, the kernel taking bytes or failing, the
  handler of a write. Each brings down a measure, so only finitely many follow on each other.
\<close>

fun internal :: "'a ev \<Rightarrow> 'a conn \<Rightarrow> bool" where
  "internal Run_task s = True"
| "internal (Kernel_write n) s = (0 < n \<or> hd (outbox s) = [])"
| "internal Kernel_write_error s = True"
| "internal Run_on_written s = True"
| "internal _ s = False"

fun task_cost :: "task \<Rightarrow> nat" where
  "task_cost (Task_Send d) = length d + 6"
| "task_cost _ = 4"

fun op_cost :: "bytes list \<Rightarrow> write_op \<Rightarrow> nat" where
  "op_cost ds No_write = 0"
| "op_cost ds (Writing k) = (case ds of [] \<Rightarrow> 0 | d # _ \<Rightarrow> length d - k) + 3"
| "op_cost ds Written = 1"
| "op_cost ds (Write_failed k) = 1"

definition close_cost :: "'a conn \<Rightarrow> nat" where
  "close_cost s = (case on_close s of None \<Rightarrow> 0 | Some cs \<Rightarrow> if closed s then 0 else sum_list (map task_cost cs))"

text \<open>The front of the outbox is counted by the operation on it, the strings behind by what they will cost.\<close>

definition work :: "'a conn \<Rightarrow> nat" where
  "work s = sum_list (map task_cost (posted s)) + op_cost (outbox s) (write_op s) +
     sum_list (map (\<lambda>d. length d + 5) (tl (outbox s))) + close_cost s"

lemma work_HandleClose:
  assumes "out_inv s \<or> outbox s = [] \<and> write_op s = No_write"
  shows "work (HandleClose s) \<le> work s \<and> (\<exists>x. posted (HandleClose s) = posted s @ x)"
  using assms
  by (cases "on_close s"; cases "closed s"; cases "write_op s")
    (auto simp: HandleClose_def CloseNow_def cancel_ops_def run_calls_eq work_def close_cost_def)

lemma work_run_task:
  assumes "conn_inv s" "posted s = t # ts" "run_task t (s\<lparr>posted := ts\<rparr>) = Some s'"
  shows "work s' < work s"
proof (cases t)
  case Task_Start
  then show ?thesis
    using assms by (auto simp: Start_task_def DoRead_def work_def close_cost_def split: if_splits option.splits)
next
  case (Task_Send d)
  have "writing s = (write_op s \<noteq> No_write)" "\<not> closed s \<Longrightarrow> (outbox s = []) = (write_op s = No_write)"
    using assms(1) by (auto simp: conn_inv_def out_inv_def)
  then show ?thesis
    using assms Task_Send by (cases "outbox s"; cases "write_op s")
      (auto simp: Send_task_def DoWrite_def work_def close_cost_def split: if_splits option.splits)
next
  case Task_Close
  then have "out_inv (s\<lparr>posted := ts\<rparr>)"
    using assms out_inv_posted[of s "[t]" ts] by (simp add: conn_inv_def)
  then have "work (HandleClose (s\<lparr>posted := ts\<rparr>)) \<le> work (s\<lparr>posted := ts\<rparr>)"
    using work_HandleClose[of "s\<lparr>posted := ts\<rparr>"] by blast
  also have "\<dots> < work s"
    using assms(2) Task_Close by (simp add: work_def close_cost_def split: option.split)
  finally show ?thesis
    using assms(3) Task_Close by simp
qed

lemma work_on_written:
  assumes "conn_inv s" "enabled Run_on_written s" "on_written (write_op s \<noteq> Written) s = Some s'"
  shows "work s' < work s"
proof (cases "write_op s = Written")
  case True
  have "\<not> closed s \<Longrightarrow> outbox s \<noteq> []" "closed s \<Longrightarrow> outbox s = []"
    using assms(1) True by (auto simp: conn_inv_def out_inv_def)
  then show ?thesis
    using assms(3) True by (cases "tl (outbox s)"; cases "closed s")
      (auto simp: on_written_def DoWrite_def work_def close_cost_def Let_def split: if_splits option.splits)
next
  case False
  then obtain k where k: "write_op s = Write_failed k"
    using assms(2) by (auto split: write_op.splits)
  let ?t = "s\<lparr>write_op := No_write, outbox := tl (outbox s), writing := False\<rparr>"
  have s': "s' = HandleClose ?t"
    using assms(3) k by (cases s; cases "outbox s") (simp_all add: on_written_def)
  have "closed s \<Longrightarrow> outbox s = []"
    using assms(1) by (simp add: conn_inv_def out_inv_def)
  then show ?thesis
    using k unfolding s'
    by (cases "closed s"; cases "on_close s")
      (auto simp: HandleClose_def CloseNow_def cancel_ops_def run_calls_eq work_def close_cost_def)
qed

lemma work_internal:
  assumes "conn_inv s" "enabled e s" "internal e s" "occur h e s = Some s'"
  shows "work s' < work s"
proof (cases e)
  case Run_task
  then show ?thesis
    using work_run_task[OF assms(1), of "hd (posted s)" "tl (posted s)"] assms by auto
next
  case Run_on_written
  then show ?thesis
    using work_on_written[OF assms(1)] assms by auto
next
  case (Kernel_write n)
  obtain k d ds where k: "write_op s = Writing k" "outbox s = d # ds"
    using Kernel_write assms(2,4) by (auto split: write_op.splits list.splits)
  moreover have "k \<le> length d"
    using assms(1) k by (auto simp: conn_inv_def out_inv_def split: if_splits)
  ultimately show ?thesis
    using Kernel_write assms by (auto simp: work_def close_cost_def split: if_splits option.splits)
next
  case Kernel_write_error
  then obtain k where k: "write_op s = Writing k"
    using assms(2) by (auto split: write_op.splits)
  then show ?thesis
    using Kernel_write_error assms(4) by (auto simp: work_def close_cost_def split: option.splits)
qed (use assms(3) in auto)

text \<open>While something is to be done, one of these events can occur.\<close>

lemma internal_enabled:
  assumes "conn_inv s" "\<not> closed s" "wire s \<noteq> said s"
  shows "\<exists>e. enabled e s \<and> internal e s"
proof (cases "posted s")
  case (Cons t ts)
  then have "enabled Run_task s \<and> internal Run_task s"
    by simp
  then show ?thesis
    by blast
next
  case Nil
  then have "outbox s \<noteq> []"
    using assms by (auto simp: conn_inv_def inv_defs)
  then have "write_op s \<noteq> No_write"
    using assms(1,2) by (auto simp: conn_inv_def out_inv_def)
  then have "enabled Run_on_written s \<or> enabled Kernel_write_error s"
    by (cases "write_op s") auto
  then show ?thesis
    by (meson internal.simps)
qed

subsection \<open>Properties\<close>

text \<open>C24. In every run of a connection, whatever the kernel does and whatever its handlers call: no second read or write
  is started before the first has completed, and the kernel never takes bytes from a string that is gone (every enabled event has a
  successor, unless the message handler consumes for ever); the bytes the kernel took are a prefix of the bytes given to
  \<open>Send\<close>, in the order of the calls; while the connection is open the rest is in the outbox or posted, with a write in
  progress whenever the outbox is not empty; the close handler runs once if the connection is closed, and not before. The string of a
  pending write lives as long as the connection is open; closing while a write is pending frees it before the handler has
  run, against the rule of the library.\<close>

theorem asio_delivery:
  assumes "conn_run h s"
  shows "(enabled e s \<and> occur h e s = None \<longrightarrow> e = Run_on_read \<and> (\<exists>xs. read_op s = Read_done xs \<and>
      DispatchMessages h (s\<lparr>read_op := No_read, rbuf := buf_append xs (rbuf s)\<rparr>) = None)) \<and>
    prefix (wire s) (said s) \<and> notified s = (if closed s \<and> on_close s \<noteq> None then 1 else 0) \<and>
    (IsOpen s \<longrightarrow> said s = wire s @ unsent s @ pay (posted s) \<and> (outbox s \<noteq> [] \<longleftrightarrow> write_op s \<noteq> No_write)) \<and>
    (string_gone s \<longrightarrow> closed s) \<and> (\<not> closed s \<and> write_op s \<noteq> No_write \<longrightarrow> string_gone (HandleClose s))"
proof -
  have inv: "conn_inv s"
    by (rule asio_run_inv[OF assms])
  have "e = Run_on_read \<and> (\<exists>xs. read_op s = Read_done xs \<and>
      DispatchMessages h (s\<lparr>read_op := No_read, rbuf := buf_append xs (rbuf s)\<rparr>) = None)"
    if "enabled e s \<and> occur h e s = None"
  proof -
    have e: "e = Run_on_read"
      using occur_inv(2)[OF inv] that by blast
    have en: "enabled Run_on_read s" and none: "on_read h (case read_op s of Read_done xs \<Rightarrow> Some xs | _ \<Rightarrow> None) s = None"
      using that unfolding e by simp_all
    then obtain xs where xs: "read_op s = Read_done xs"
      by (cases "read_op s") (simp_all add: on_read_def)
    show ?thesis
      using e xs on_read_None[OF inv en, of h xs] none by simp
  qed
  moreover have "prefix (wire s) (said s)" "notified s = (if closed s \<and> on_close s \<noteq> None then 1 else 0)"
    using inv by (cases "closed s"; simp add: conn_inv_def out_inv_def)+
  moreover have "said s = wire s @ unsent s @ pay (posted s)" "outbox s \<noteq> [] \<longleftrightarrow> write_op s \<noteq> No_write" if "IsOpen s"
    using inv that by (auto simp: conn_inv_def out_inv_def IsOpen_def)
  moreover have "string_gone s \<longrightarrow> closed s"
    using inv by (auto simp: conn_inv_def out_inv_def string_gone_def)
  moreover have "\<not> closed s \<and> write_op s \<noteq> No_write \<longrightarrow> string_gone (HandleClose s)"
    by (cases "write_op s") (auto simp: HandleClose_def CloseNow_def cancel_ops_def run_calls_eq string_gone_def Let_def split: option.split)
  ultimately show ?thesis
    by blast
qed

text \<open>A connection with two sends, the second posted while the first is being written: the kernel has taken one byte.\<close>

definition asio_half_sent :: "nat conn" where
  "asio_half_sent = (Conn (Some []) 0)\<lparr>outbox := [[1, 2], [3]], writing := True, write_op := Writing 1, wire := [1], said := [1, 2, 3]\<rparr>"

lemma asio_half_sent_run: "conn_run h asio_half_sent"
proof -
  note step = conn_run.step
  have "conn_run h (Conn (Some []) 0 :: nat conn)"
    by (rule conn_run.start)
  from step[OF this, of "Call (Task_Send [1, 2])"]
  have "conn_run h ((Conn (Some []) 0)\<lparr>posted := [Task_Send [1, 2]], said := [1, 2]\<rparr> :: nat conn)"
    by (simp add: Send_def Conn_def)
  from step[OF this, of Run_task]
  have "conn_run h ((Conn (Some []) 0)\<lparr>outbox := [[1, 2]], writing := True, write_op := Writing 0, said := [1, 2]\<rparr> :: nat conn)"
    by (simp add: Send_task_def DoWrite_def Conn_def)
  from step[OF this, of "Call (Task_Send [3])"]
  have "conn_run h ((Conn (Some []) 0)\<lparr>outbox := [[1, 2]], writing := True, write_op := Writing 0, said := [1, 2, 3],
      posted := [Task_Send [3]]\<rparr> :: nat conn)"
    by (simp add: Send_def Conn_def)
  from step[OF this, of Run_task]
  have "conn_run h ((Conn (Some []) 0)\<lparr>outbox := [[1, 2], [3]], writing := True, write_op := Writing 0, said := [1, 2, 3]\<rparr> :: nat conn)"
    by (simp add: Send_task_def DoWrite_def Conn_def)
  from step[OF this, of "Kernel_write 1"] show ?thesis
    by (simp add: Conn_def asio_half_sent_def)
qed

theorem asio_delivery_witness:
  "prefix [1] [1, 2, 3 :: u8] \<and> said asio_half_sent = [1] @ unsent asio_half_sent \<and> unsent asio_half_sent = [2, 3] \<and>
   \<not> string_gone asio_half_sent \<and> string_gone (HandleClose asio_half_sent)"
  using asio_delivery[OF asio_half_sent_run[of "\<lambda>a xs. (0, [], a)"], of Run_task]
  by (simp add: asio_half_sent_def Conn_def IsOpen_def unsent_def)

text \<open>C25. Output never gets stuck: in every run, an open connection on which the kernel has not taken everything said can
  go on by itself (a posted task, the kernel, or the handler of a write), and from no state do such events follow on each
  other for ever; so when they have ceased, everything said is with the kernel or the connection is closed.\<close>

theorem asio_output_drains:
  assumes "conn_run h s"
  shows "(\<not> closed s \<and> wire s \<noteq> said s \<longrightarrow> (\<exists>e s'. enabled e s \<and> internal e s \<and> occur h e s = Some s')) \<and>
    (\<nexists>f. f 0 = s \<and> (\<forall>i. \<exists>e. enabled e (f i) \<and> internal e (f i) \<and> occur h e (f i) = Some (f (Suc i))))"
proof (intro conjI impI notI)
  note inv = asio_run_inv[OF assms]
  assume "\<not> closed s \<and> wire s \<noteq> said s"
  then obtain e where e: "enabled e s" "internal e s"
    using internal_enabled[OF inv] by blast
  then have "occur h e s \<noteq> None"
    using occur_inv(2)[OF inv e(1)] by (cases e) auto
  then show "\<exists>e s'. enabled e s \<and> internal e s \<and> occur h e s = Some s'"
    using e by blast
next
  assume "\<exists>f. f 0 = s \<and> (\<forall>i. \<exists>e. enabled e (f i) \<and> internal e (f i) \<and> occur h e (f i) = Some (f (Suc i)))"
  then obtain f where f: "f 0 = s" "\<And>i. \<exists>e. enabled e (f i) \<and> internal e (f i) \<and> occur h e (f i) = Some (f (Suc i))"
    by blast
  have inv: "conn_inv (f i)" for i
  proof (induction i)
    case 0
    show ?case
      using asio_run_inv[OF assms] f(1) by simp
  next
    case (Suc i)
    then show ?case
      using f(2)[of i] occur_inv(1) by blast
  qed
  have "work (f (Suc i)) < work (f i)" for i
    using f(2)[of i] work_internal[OF inv] by blast
  then show False
    using wf_no_infinite_down_chainE[OF wf_measure[of work], of f] by (auto simp: in_measure)
qed

theorem asio_output_drains_witness:
  "\<exists>e s'. enabled e asio_half_sent \<and> internal e asio_half_sent \<and> occur (\<lambda>a xs. (0, [], a)) e asio_half_sent = Some s'"
  using asio_output_drains[OF asio_half_sent_run[of "\<lambda>a xs. (0, [], a)"]]
  by (auto simp: asio_half_sent_def Conn_def)

text \<open>The message handler can be called after the close handler: a read that has completed when the connection is closed
  runs its handler afterwards, and that hands the bytes over without looking at \<open>closed_\<close>.\<close>

theorem message_after_close:
  "\<exists>s s'. conn_run (\<lambda>(a :: nat) xs. (0, [], a)) s \<and> closed s \<and> notified s = 1 \<and> told s = 0 \<and>
    enabled Run_on_read s \<and> occur (\<lambda>a xs. (0, [], a)) Run_on_read s = Some s' \<and> told s' = 1"
proof -
  let ?h = "\<lambda>(a :: nat) (xs :: bytes). (0 :: int, [] :: task list, a)"
  note step = conn_run.step
  have "conn_run ?h (Conn (Some []) 0)"
    by (rule conn_run.start)
  from step[OF this, of "Call Task_Start"] have "conn_run ?h ((Conn (Some []) 0)\<lparr>posted := [Task_Start]\<rparr>)"
    by (simp add: Start_def Conn_def)
  from step[OF this, of Run_task] have "conn_run ?h ((Conn (Some []) 0)\<lparr>started := True, read_op := Reading\<rparr>)"
    by (simp add: Start_task_def DoRead_def Conn_def)
  from step[OF this, of "Call Task_Close"]
  have "conn_run ?h ((Conn (Some []) 0)\<lparr>started := True, read_op := Reading, posted := [Task_Close]\<rparr>)"
    by (simp add: Close_def Conn_def)
  from step[OF this, of "Kernel_read [1]"]
  have "conn_run ?h ((Conn (Some []) 0)\<lparr>started := True, read_op := Read_done [1], posted := [Task_Close]\<rparr>)"
    by (simp add: Conn_def)
  from step[OF this, of Run_task]
  have "conn_run ?h ((Conn (Some []) 0)\<lparr>started := True, read_op := Read_done [1], closed := True, is_open := False, notified := 1\<rparr>)"
    (is "conn_run ?h ?s")
    by (simp add: HandleClose_def CloseNow_def cancel_ops_def Conn_def)
  moreover have "occur ?h Run_on_read ?s = Some (?s\<lparr>read_op := Read_failed, rbuf := buf_append [1] Buffer, told := 1\<rparr>)"
    by (simp add: on_read_def DispatchMessages.simps DoRead_def Conn_def)
  ultimately show ?thesis
    by (intro exI[of _ ?s] exI[of _ "?s\<lparr>read_op := Read_failed, rbuf := buf_append [1] Buffer, told := 1\<rparr>"])
      (simp add: Conn_def)
qed

end
