(* ===== verification/Asio_Client.thy ===== *)
theory Asio_Client
  imports Prelude
begin

section \<open>libtcp::Context, Client and Server on asio (src/net/asio.hpp)\<close>

text \<open>
  The client as a state machine. One thread runs the context: a handler of the context, or a call from outside, is one
  step. \<open>jobs\<close> are the handlers whose turn has come, \<open>waiting\<close> says that the timer is running with a handler, \<open>dialing\<close>
  counts connects in progress; each of these holds a reference to the client, as do the application (\<open>held\<close>) and the
  table of the context. Connections are numbered; \<open>live\<close> are those that have not closed, and \<open>closing\<close> those that the
  client has asked to close. A callback of the application may make any calls: they are part of the event.
\<close>

subsection \<open>Context: the table of clients\<close>

record event_ctx =
  clients :: "int \<Rightarrow> nat option"
  stopped :: bool

definition Context :: event_ctx where
  "Context = \<lparr>clients = (\<lambda>_. None), stopped = False\<rparr>"

definition KeepClient :: "int \<Rightarrow> nat \<Rightarrow> event_ctx \<Rightarrow> event_ctx" where
  "KeepClient i c x = x\<lparr>clients := (clients x)(i \<mapsto> c)\<rparr>"

definition DropClient :: "int \<Rightarrow> event_ctx \<Rightarrow> event_ctx" where
  "DropClient i x = x\<lparr>clients := (clients x)(i := None)\<rparr>"

definition Context_Stop :: "event_ctx \<Rightarrow> event_ctx" where
  "Context_Stop x = x\<lparr>stopped := True, clients := (\<lambda>_. None)\<rparr>"

subsection \<open>Client: state\<close>

text \<open>\<open>Job_connect\<close> is the task that \<open>Connect\<close> posts, with the pointer it was given; \<open>Job_timer\<close> the handler of the
  timer, with whether it was cancelled.\<close>

datatype job = Job_connect nat "16 word" | Job_timer bool

datatype ucall = Do_Connect nat "16 word" | Do_Reconnect int | Do_Close | Do_Send bytes | Do_Hold | Do_Release

text \<open>\<open>on_close\<close>: none, one of the application, or the one that \<open>Context::Dial\<close> wraps around it. \<open>text_at\<close> is the memory behind
  the pointers the application passes as host.\<close>

datatype close_handler = No_handler | User_handler | Dial_handler

record client =
  me :: nat
  ident :: int
  ctx :: "event_ctx option"
  text_at :: "nat \<Rightarrow> bytes option"
  conn :: "nat option"
  host :: bytes
  port :: "16 word"
  connected :: bool
  manual_close :: bool
  connecting :: bool
  on_close :: close_handler
  waiting :: bool
  jobs :: "job list"
  dialing :: nat
  live :: "nat list"
  closing :: "nat list"
  next_conn :: nat
  sent :: "(nat \<times> bytes) list"
  held :: bool
  dead :: bool

definition Client :: "event_ctx \<Rightarrow> nat \<Rightarrow> int \<Rightarrow> client" where
  "Client x m i = \<lparr>me = m, ident = i, ctx = Some x, text_at = (\<lambda>_. None), conn = None, host = [], port = 0, connected = False,
     manual_close = False, connecting = False, on_close = No_handler, waiting = False, jobs = [], dialing = 0,
     live = [], closing = [], next_conn = 0, sent = [], held = True, dead = False\<rparr>"

definition IsConnected :: "client \<Rightarrow> bool" where
  "IsConnected s = connected s"

definition Id :: "client \<Rightarrow> int" where
  "Id s = ident s"

subsection \<open>Client: operations\<close>

text \<open>A wait that is cancelled completes with an error; one that has expired already is not affected.\<close>

definition CancelTimer :: "client \<Rightarrow> client" where
  "CancelTimer s = (if waiting s then s\<lparr>waiting := False, jobs := jobs s @ [Job_timer True]\<rparr> else s)"

text \<open>The string behind \<open>p\<close> is read by \<open>host_ = host\<close>; the task keeps the pointer.\<close>

definition Connect :: "nat \<Rightarrow> 16 word \<Rightarrow> client \<Rightarrow> client option" where
  "Connect p prt s =
     (if ctx s = None then Some s
      else do {
        h \<leftarrow> text_at s p;
        let s = CancelTimer (s\<lparr>manual_close := False, connecting := True, host := h, port := prt\<rparr>);
        Some (s\<lparr>jobs := jobs s @ [Job_connect p prt]\<rparr>)
      })"

definition ScheduleReconnect :: "int \<Rightarrow> client \<Rightarrow> client" where
  "ScheduleReconnect reconnect_ms s =
     (if manual_close s \<or> connected s \<or> connecting s then s
      else (CancelTimer (s\<lparr>connecting := True\<rparr>))\<lparr>waiting := True\<rparr>)"

definition Reconnect :: "int \<Rightarrow> client \<Rightarrow> client" where
  "Reconnect interval_ms s =
     (let s = CancelTimer (s\<lparr>manual_close := False\<rparr>)
      in if \<not> connected s \<and> \<not> connecting s then ScheduleReconnect interval_ms s else s)"

definition Client_Send :: "bytes \<Rightarrow> client \<Rightarrow> client" where
  "Client_Send data s = (case conn s of None \<Rightarrow> s | Some c \<Rightarrow> s\<lparr>sent := sent s @ [(c, data)]\<rparr>)"

definition Client_Close :: "client \<Rightarrow> client" where
  "Client_Close s =
     (let s = CancelTimer (s\<lparr>manual_close := True\<rparr>);
          c = conn s;
          s = s\<lparr>conn := None\<rparr>;
          s = s\<lparr>ctx := map_option (DropClient (ident s)) (ctx s)\<rparr>
      in case c of None \<Rightarrow> s | Some c \<Rightarrow> s\<lparr>closing := closing s @ [c]\<rparr>)"

fun run_ucall :: "ucall \<Rightarrow> client \<Rightarrow> client option" where
  "run_ucall (Do_Connect p prt) s = Connect p prt s"
| "run_ucall (Do_Reconnect ms) s = Some (Reconnect ms s)"
| "run_ucall Do_Close s = Some (Client_Close s)"
| "run_ucall (Do_Send d) s = Some (Client_Send d s)"
| "run_ucall Do_Hold s = Some (s\<lparr>held := True\<rparr>)"
| "run_ucall Do_Release s = Some (s\<lparr>held := False\<rparr>)"

fun run_ucalls :: "ucall list \<Rightarrow> client \<Rightarrow> client option" where
  "run_ucalls [] s = Some s"
| "run_ucalls (c # cs) s = do { s \<leftarrow> run_ucall c s; run_ucalls cs s }"

text \<open>The close handler; \<open>cs\<close> are the calls the application's part of it makes.\<close>

definition run_on_close :: "ucall list \<Rightarrow> client \<Rightarrow> client option" where
  "run_on_close cs s =
     (case on_close s of
        No_handler \<Rightarrow> Some s
      | User_handler \<Rightarrow> run_ucalls cs s
      | Dial_handler \<Rightarrow> do {
          s \<leftarrow> run_ucalls cs s;
          Some (s\<lparr>ctx := map_option (DropClient (ident s)) (ctx s)\<rparr>)
        })"

text \<open>\<open>ok\<close>: the name could be resolved.\<close>

definition DoConnect :: "bool \<Rightarrow> ucall list \<Rightarrow> bytes \<Rightarrow> 16 word \<Rightarrow> client \<Rightarrow> client option" where
  "DoConnect ok cs h prt s =
     (if ctx s = None then run_on_close cs (s\<lparr>connecting := False\<rparr>)
      else if manual_close s then Some (s\<lparr>connecting := False\<rparr>)
      else if \<not> ok then run_on_close cs (s\<lparr>connecting := False\<rparr>)
      else Some (s\<lparr>dialing := dialing s + 1\<rparr>))"

definition OnConnectDone :: "ucall list \<Rightarrow> client \<Rightarrow> client option" where
  "OnConnectDone cs s =
     (if ctx s = None then Some (s\<lparr>connecting := False\<rparr>)
      else if manual_close s then Some (s\<lparr>connecting := False\<rparr>)
      else
        (let s = s\<lparr>connecting := False, conn := Some (next_conn s), live := live s @ [next_conn s],
                   next_conn := next_conn s + 1\<rparr>;
             s = s\<lparr>connected := True\<rparr>
         in run_ucalls cs s))"

text \<open>The completion of \<open>async_connect\<close>; \<open>cs\<close> are the calls of whichever callback runs.\<close>

definition on_connected :: "bool \<Rightarrow> ucall list \<Rightarrow> client \<Rightarrow> client option" where
  "on_connected ec cs s =
     (let s = s\<lparr>connecting := False\<rparr>
      in if ec then run_on_close cs s
         else if manual_close s then Some s
         else OnConnectDone cs s)"

definition on_timer :: "bool \<Rightarrow> bool \<Rightarrow> ucall list \<Rightarrow> client \<Rightarrow> client option" where
  "on_timer ec ok cs s =
     (if ec then Some s
      else
        (let s = s\<lparr>connecting := False\<rparr>
         in if \<not> manual_close s then DoConnect ok cs (host s) (port s) s else Some s))"

text \<open>The close handler of a connection holds a weak reference to the client.\<close>

definition on_conn_close :: "ucall list \<Rightarrow> client \<Rightarrow> client option" where
  "on_conn_close cs s =
     (if dead s then Some s
      else
        (let s = s\<lparr>connected := False, conn := None\<rparr>
         in if \<not> manual_close s then run_on_close cs s else Some s))"

definition Destroy :: "client \<Rightarrow> client" where
  "Destroy s = (Client_Close s)\<lparr>dead := True\<rparr>"

text \<open>\<open>Context::Dial\<close> creates a client, keeps it in the table, wraps the close handler and connects.\<close>

definition Dial :: "nat \<Rightarrow> 16 word \<Rightarrow> nat \<Rightarrow> int \<Rightarrow> (nat \<Rightarrow> bytes option) \<Rightarrow> event_ctx \<Rightarrow> client option" where
  "Dial p prt m i mem x =
     (let x = KeepClient i m x;
          s = (Client x m i)\<lparr>text_at := mem, on_close := Dial_handler\<rparr>
      in Connect p prt s)"

subsection \<open>Events\<close>

text \<open>
  A call of the application, which needs a pointer to the client; the memory behind a host changes or is given back; the
  next handler of the context; the timer expires; a connect completes; a connection closes, or hands a message to the
  client; another client is kept under some number; the context is stopped; the last reference goes.
\<close>

datatype ev = App ucall | Set_text nat "bytes option" | Run_job bool "ucall list" | Timer_expires
  | Dialed bool "ucall list" | Conn_closes nat "ucall list" | Message nat "ucall list" | Other_kept int nat
  | Stop_context | Destructor

definition kept :: "client \<Rightarrow> bool" where
  "kept s = (case ctx s of None \<Rightarrow> False | Some x \<Rightarrow> clients x (ident s) = Some (me s))"

definition referenced :: "client \<Rightarrow> bool" where
  "referenced s \<longleftrightarrow> held s \<or> kept s \<or> waiting s \<or> jobs s \<noteq> [] \<or> 0 < dialing s"

definition runs :: "client \<Rightarrow> bool" where
  "runs s = (case ctx s of None \<Rightarrow> False | Some x \<Rightarrow> \<not> stopped x)"

fun enabled :: "ev \<Rightarrow> client \<Rightarrow> bool" where
  "enabled (App c) s = (held s \<and> \<not> dead s)"
| "enabled (Set_text p t) s = True"
| "enabled (Run_job ok cs) s = (runs s \<and> jobs s \<noteq> [])"
| "enabled Timer_expires s = (runs s \<and> waiting s)"
| "enabled (Dialed ec cs) s = (runs s \<and> 0 < dialing s)"
| "enabled (Conn_closes c cs) s = (runs s \<and> c \<in> set (live s))"
| "enabled (Message c cs) s = (runs s \<and> c \<in> set (live s) \<and> \<not> dead s)"
| "enabled (Other_kept i c) s = (c \<noteq> me s)"
| "enabled Stop_context s = True"
| "enabled Destructor s = (\<not> referenced s \<and> \<not> dead s)"

text \<open>The task of \<open>Connect\<close> reads the host through the pointer it has kept; \<open>None\<close> when the memory is gone.\<close>

fun run_job :: "bool \<Rightarrow> ucall list \<Rightarrow> job \<Rightarrow> client \<Rightarrow> client option" where
  "run_job ok cs (Job_connect p prt) s =
     (if ctx s = None \<or> manual_close s then DoConnect ok cs [] prt s
      else do { h \<leftarrow> text_at s p; DoConnect ok cs h prt s })"
| "run_job ok cs (Job_timer ec) s = on_timer ec ok cs s"

fun occur :: "ev \<Rightarrow> client \<Rightarrow> client option" where
  "occur (App c) s = run_ucall c s"
| "occur (Set_text p t) s = Some (s\<lparr>text_at := (text_at s)(p := t)\<rparr>)"
| "occur (Run_job ok cs) s = run_job ok cs (hd (jobs s)) (s\<lparr>jobs := tl (jobs s)\<rparr>)"
| "occur Timer_expires s = Some (s\<lparr>waiting := False, jobs := jobs s @ [Job_timer False]\<rparr>)"
| "occur (Dialed ec cs) s = on_connected ec cs (s\<lparr>dialing := dialing s - 1\<rparr>)"
| "occur (Conn_closes c cs) s = on_conn_close cs (s\<lparr>live := remove1 c (live s), closing := filter (\<lambda>d. d \<noteq> c) (closing s)\<rparr>)"
| "occur (Message c cs) s = run_ucalls cs s"
| "occur (Other_kept i c) s = Some (s\<lparr>ctx := map_option (KeepClient i c) (ctx s)\<rparr>)"
| "occur Stop_context s = Some (s\<lparr>ctx := map_option Context_Stop (ctx s)\<rparr>)"
| "occur Destructor s = Some (Destroy s)"

fun events :: "ev list \<Rightarrow> client \<Rightarrow> client option" where
  "events [] s = Some s"
| "events (e # es) s = (if enabled e s then do { s \<leftarrow> occur e s; events es s } else None)"

inductive client_run :: "client \<Rightarrow> bool" where
  create: "client_run (Client x m i)"
| create_user: "client_run ((Client x m i)\<lparr>text_at := mem, on_close := User_handler\<rparr>)"
| dial: "Dial p prt m i mem x = Some s \<Longrightarrow> client_run s"
| step: "client_run s \<Longrightarrow> enabled e s \<Longrightarrow> occur e s = Some s' \<Longrightarrow> client_run s'"

subsection \<open>Well-formed states\<close>

text \<open>The connection of a client that says so is one that has not closed; connections are numbered apart; a client that is
  gone has no connection and nothing in progress.\<close>

definition client_wf :: "client \<Rightarrow> bool" where
  "client_wf s \<longleftrightarrow> distinct (live s) \<and> (\<forall>c\<in>set (live s). c < next_conn s) \<and> set (closing s) \<subseteq> set (live s) \<and>
     (case conn s of None \<Rightarrow> True | Some c \<Rightarrow> connected s \<and> c \<in> set (live s) - set (closing s)) \<and>
     (if dead s then conn s = None \<and> \<not> waiting s \<and> jobs s = [] \<and> dialing s = 0 \<and> \<not> held s
      else connected s \<longrightarrow> live s \<noteq> []) \<and>
     (waiting s \<longrightarrow> \<not> dead s)"

definition works :: "client \<Rightarrow> bool" where
  "works s \<longleftrightarrow> client_wf s \<and> \<not> dead s"

text \<open>Most of the members play no part in it.\<close>

lemma works_update [simp]:
  "works (s\<lparr>waiting := b\<rparr>) = works s" "works (s\<lparr>jobs := js\<rparr>) = works s" "works (s\<lparr>dialing := n\<rparr>) = works s"
  "works (s\<lparr>manual_close := b\<rparr>) = works s" "works (s\<lparr>connecting := b\<rparr>) = works s" "works (s\<lparr>held := b\<rparr>) = works s"
  "works (s\<lparr>host := h\<rparr>) = works s" "works (s\<lparr>port := prt\<rparr>) = works s" "works (s\<lparr>sent := xs\<rparr>) = works s"
  "works (s\<lparr>ctx := x\<rparr>) = works s" "works (s\<lparr>text_at := m\<rparr>) = works s"
  by (auto simp: works_def client_wf_def split: option.splits)

lemma client_wf_update [simp]:
  "client_wf (s\<lparr>ctx := x\<rparr>) = client_wf s" "client_wf (s\<lparr>text_at := m\<rparr>) = client_wf s"
  by (auto simp: client_wf_def split: option.splits)

lemma CancelTimer_eq: "CancelTimer s = s\<lparr>waiting := False, jobs := jobs s @ (if waiting s then [Job_timer True] else [])\<rparr>"
  by (cases s) (simp add: CancelTimer_def)

lemma works_CancelTimer [simp]: "works (CancelTimer s) = works s"
  by (simp add: CancelTimer_eq)

lemma works_Reconnect: "works s \<Longrightarrow> works (Reconnect ms s)"
  by (simp add: Reconnect_def ScheduleReconnect_def Let_def)

lemma works_Connect: "works s \<Longrightarrow> Connect p prt s = Some s' \<Longrightarrow> works s'"
  by (auto simp: Connect_def bind_eq_Some_conv Let_def split: if_splits)

lemma Client_Close_eq: "Client_Close s =
  s\<lparr>manual_close := True, waiting := False, jobs := jobs s @ (if waiting s then [Job_timer True] else []), conn := None,
    ctx := map_option (DropClient (ident s)) (ctx s),
    closing := closing s @ (case conn s of None \<Rightarrow> [] | Some c \<Rightarrow> [c])\<rparr>"
  by (cases s) (simp add: Client_Close_def CancelTimer_eq Let_def split: option.split)

lemma works_Close: "works s \<Longrightarrow> works (Client_Close s)"
  by (auto simp: works_def client_wf_def Client_Close_eq split: option.splits)

lemma works_ucall: "works s \<Longrightarrow> run_ucall c s = Some s' \<Longrightarrow> works s'"
  by (cases c) (auto simp: Client_Send_def works_Connect works_Reconnect works_Close split: option.splits)

lemma works_ucalls: "works s \<Longrightarrow> run_ucalls cs s = Some s' \<Longrightarrow> works s'"
  by (induction cs arbitrary: s) (auto simp: bind_eq_Some_conv dest: works_ucall)

lemma works_on_close: "works s \<Longrightarrow> run_on_close cs s = Some s' \<Longrightarrow> works s'"
  by (cases "on_close s") (auto simp: run_on_close_def bind_eq_Some_conv works_ucalls)

lemma works_DoConnect: "works s \<Longrightarrow> DoConnect ok cs h prt s = Some s' \<Longrightarrow> works s'"
  using works_on_close[of "s\<lparr>connecting := False\<rparr>"] by (auto simp: DoConnect_def split: if_splits)

lemma works_OnConnectDone: "works s \<Longrightarrow> OnConnectDone cs s = Some s' \<Longrightarrow> works s'"
proof -
  assume s: "works s" and s': "OnConnectDone cs s = Some s'"
  have "works (s\<lparr>connecting := False, conn := Some (next_conn s), live := live s @ [next_conn s],
      next_conn := next_conn s + 1, connected := True\<rparr>)"
    using s by (fastforce simp: works_def client_wf_def)
  from works_ucalls[OF this, of cs] show ?thesis
    using s s' by (auto simp: OnConnectDone_def Let_def split: if_splits)
qed

lemma works_job: "works s \<Longrightarrow> run_job ok cs j s = Some s' \<Longrightarrow> works s'"
proof (cases j)
  case (Job_connect p prt)
  assume s: "works s" and s': "run_job ok cs j s = Some s'"
  obtain h where "DoConnect ok cs h prt s = Some s'"
    using s' Job_connect by (auto simp: bind_eq_Some_conv split: if_splits)
  then show ?thesis
    using s works_DoConnect by blast
next
  case (Job_timer ec)
  let ?s = "s\<lparr>connecting := False\<rparr>"
  assume s: "works s" and s': "run_job ok cs j s = Some s'"
  have "s' = s \<or> s' = ?s \<or> DoConnect ok cs (host s) (port s) ?s = Some s'"
    using s' Job_timer by (simp add: on_timer_def Let_def split: if_splits)
  moreover have t: "works ?s"
    using s by simp
  ultimately show ?thesis
    using works_DoConnect[OF t] s by blast
qed

lemma works_connected: "works s \<Longrightarrow> on_connected ec cs s = Some s' \<Longrightarrow> works s'"
proof -
  let ?s = "s\<lparr>connecting := False\<rparr>"
  assume s: "works s" and s': "on_connected ec cs s = Some s'"
  have "s' = ?s \<or> run_on_close cs ?s = Some s' \<or> OnConnectDone cs ?s = Some s'"
    using s' by (simp add: on_connected_def Let_def split: if_splits)
  moreover have s: "works ?s"
    using s by simp
  ultimately show ?thesis
    using works_on_close[OF s] works_OnConnectDone[OF s] s by blast
qed

lemma set_remove1: "distinct xs \<Longrightarrow> set (remove1 c xs) = set xs - {c}"
  by (rule set_remove1_eq)

lemma wf_conn_closes:
  assumes "client_wf s" "c \<in> set (live s)" "occur (Conn_closes c cs) s = Some s'"
  shows "client_wf s'"
proof -
  let ?s = "s\<lparr>live := remove1 c (live s), closing := filter (\<lambda>d. d \<noteq> c) (closing s)\<rparr>"
  show ?thesis
  proof (cases "dead s")
    case True
    then show ?thesis
      using assms by (auto simp: on_conn_close_def client_wf_def set_remove1 split: option.splits)
  next
    case False
    have "works (?s\<lparr>connected := False, conn := None\<rparr>)"
      using assms(1) False by (auto simp: works_def client_wf_def set_remove1)
    from this works_on_close[OF this, of cs] show ?thesis
      using assms(3) False by (auto simp: on_conn_close_def works_def Let_def split: if_splits)
  qed
qed

lemma occur_wf: "client_wf s \<Longrightarrow> enabled e s \<Longrightarrow> occur e s = Some s' \<Longrightarrow> client_wf s'"
proof (cases e)
  case (Run_job ok cs)
  assume a: "client_wf s" "enabled e s" "occur e s = Some s'"
  then have "works s"
    using Run_job by (cases "dead s") (auto simp: works_def client_wf_def)
  then have "works (s\<lparr>jobs := tl (jobs s)\<rparr>)"
    by simp
  from works_job[OF this] show ?thesis
    using a(3) Run_job by (simp add: works_def)
next
  case (Dialed ec cs)
  assume a: "client_wf s" "enabled e s" "occur e s = Some s'"
  then have "works s"
    using Dialed by (cases "dead s") (auto simp: works_def client_wf_def)
  then have "works (s\<lparr>dialing := dialing s - 1\<rparr>)"
    by simp
  from works_connected[OF this] show ?thesis
    using a(3) Dialed by (simp add: works_def)
next
  case (App c)
  assume a: "client_wf s" "enabled e s" "occur e s = Some s'"
  then have "works s"
    using App by (simp add: works_def)
  from works_ucall[OF this] show ?thesis
    using a(3) App by (simp add: works_def)
next
  case (Message c cs)
  assume a: "client_wf s" "enabled e s" "occur e s = Some s'"
  then have "works s"
    using Message by (simp add: works_def)
  from works_ucalls[OF this] show ?thesis
    using a(3) Message by (simp add: works_def)
next
  case (Conn_closes c cs)
  assume a: "client_wf s" "enabled e s" "occur e s = Some s'"
  then show ?thesis
    using Conn_closes wf_conn_closes by auto
next
  case Timer_expires
  assume a: "client_wf s" "enabled e s" "occur e s = Some s'"
  then have "works s"
    using Timer_expires by (auto simp: works_def client_wf_def)
  then have "works (s\<lparr>waiting := False, jobs := jobs s @ [Job_timer False]\<rparr>)"
    by simp
  then show ?thesis
    using a(3) Timer_expires by (simp add: works_def)
next
  case Destructor
  assume a: "client_wf s" "enabled e s" "occur e s = Some s'"
  then have "works (Client_Close s)"
    using Destructor works_Close by (simp add: works_def)
  then show ?thesis
    using a Destructor by (auto simp: works_def client_wf_def Destroy_def Client_Close_eq referenced_def)
qed auto

lemma client_run_wf: "client_run s \<Longrightarrow> client_wf s"
proof (induction rule: client_run.induct)
  case (dial p prt m i mem x s)
  then show ?case
    by (auto simp: Dial_def Connect_def bind_eq_Some_conv Let_def CancelTimer_eq client_wf_def Client_def)
next
  case (step s e s')
  then show ?case
    using occur_wf by blast
qed (simp_all add: client_wf_def Client_def)

subsection \<open>A client that waits for nothing\<close>

text \<open>It is marked as connecting, and nothing that would go on is under way.\<close>

definition stalled :: "client \<Rightarrow> bool" where
  "stalled s \<longleftrightarrow> connecting s \<and> \<not> waiting s \<and> dialing s = 0 \<and> set (jobs s) \<subseteq> {Job_timer True}"

fun is_connect :: "ucall \<Rightarrow> bool" where
  "is_connect (Do_Connect p prt) = True"
| "is_connect _ = False"

fun calls_of :: "ev \<Rightarrow> ucall list" where
  "calls_of (App c) = [c]"
| "calls_of (Run_job ok cs) = cs"
| "calls_of (Dialed ec cs) = cs"
| "calls_of (Conn_closes c cs) = cs"
| "calls_of (Message c cs) = cs"
| "calls_of _ = []"

text \<open>What such a client keeps: it stalls, and no connection is added.\<close>

definition stays :: "client \<Rightarrow> client \<Rightarrow> bool" where
  "stays s s' \<longleftrightarrow> stalled s' \<and> set (live s') \<subseteq> set (live s)"

lemma stalled_cancel: "stalled s \<Longrightarrow> CancelTimer s = s"
  by (cases s) (simp add: stalled_def CancelTimer_def)

lemma stays_ucall: "stalled s \<Longrightarrow> \<not> is_connect c \<Longrightarrow> run_ucall c s = Some s' \<Longrightarrow> stays s s'"
  by (cases c) (auto simp: stays_def stalled_def Client_Send_def Reconnect_def CancelTimer_eq Client_Close_eq Let_def
      split: option.splits)

lemma stays_trans: "stays s t \<Longrightarrow> stays t u \<Longrightarrow> stays s u"
  by (auto simp: stays_def)

lemma stays_ucalls:
  "stalled s \<Longrightarrow> \<forall>c\<in>set cs. \<not> is_connect c \<Longrightarrow> run_ucalls cs s = Some s' \<Longrightarrow> stays s s'"
proof (induction cs arbitrary: s)
  case (Cons c cs)
  then obtain t where t: "run_ucall c s = Some t" "run_ucalls cs t = Some s'"
    by (auto simp: bind_eq_Some_conv)
  then have "stays s t"
    using Cons.prems stays_ucall[of s c t] by simp
  then show ?case
    using Cons.IH[of t] Cons.prems(2) t(2) stays_trans stays_def by auto
qed (simp add: stays_def)

lemma stays_on_close:
  assumes "stalled s" "\<forall>c\<in>set cs. \<not> is_connect c" "run_on_close cs s = Some s'"
  shows "stays s s'"
proof (cases "on_close s")
  case Dial_handler
  then obtain t where t: "run_ucalls cs s = Some t" "s' = t\<lparr>ctx := map_option (DropClient (ident t)) (ctx t)\<rparr>"
    using assms(3) by (auto simp: run_on_close_def bind_eq_Some_conv)
  then show ?thesis
    using stays_ucalls[OF assms(1,2)] by (simp add: stays_def stalled_def)
qed (use assms stays_ucalls in \<open>auto simp: run_on_close_def stays_def\<close>)

lemma stays_occur:
  assumes "stalled s" "enabled e s" "\<forall>c\<in>set (calls_of e). \<not> is_connect c" "occur e s = Some s'"
  shows "stays s s'"
proof (cases e)
  case (App c)
  then show ?thesis
    using assms stays_ucall by auto
next
  case (Run_job ok cs)
  then have "hd (jobs s) = Job_timer True" "set (tl (jobs s)) \<subseteq> set (jobs s)"
    using assms(1,2) by (auto simp: stalled_def dest: list.set_sel(2) intro: list.set_sel(1) split: if_splits)
  then show ?thesis
    using assms Run_job by (auto simp: on_timer_def stays_def stalled_def)
next
  case (Conn_closes c cs)
  let ?s = "s\<lparr>live := remove1 c (live s), closing := filter (\<lambda>d. d \<noteq> c) (closing s)\<rparr>"
  have live: "set (live ?s) \<subseteq> set (live s)"
    using set_remove1_subset by fastforce
  let ?t = "?s\<lparr>connected := False, conn := None\<rparr>"
  have "stalled ?t" "stalled ?s"
    using assms(1) by (simp_all add: stalled_def)
  have "s' = ?s \<or> s' = ?t \<or> run_on_close cs ?t = Some s'"
    using assms(4) Conn_closes by (auto simp: on_conn_close_def Let_def split: if_splits)
  moreover have "stays ?t s'" if "run_on_close cs ?t = Some s'"
    using stays_on_close[OF \<open>stalled ?t\<close> _ that] assms(3) Conn_closes by simp
  ultimately show ?thesis
    using \<open>stalled ?t\<close> \<open>stalled ?s\<close> live unfolding stays_def by auto
next
  case (Message c cs)
  then show ?thesis
    using assms stays_ucalls by auto
qed (use assms in \<open>auto simp: stays_def stalled_def Destroy_def Client_Close_eq\<close>)

lemma stays_events:
  "stalled s \<Longrightarrow> \<forall>e\<in>set es. \<forall>c\<in>set (calls_of e). \<not> is_connect c \<Longrightarrow> events es s = Some s' \<Longrightarrow> stays s s'"
proof (induction es arbitrary: s)
  case (Cons e es)
  then obtain t where t: "enabled e s" "occur e s = Some t" "events es t = Some s'"
    by (auto simp: bind_eq_Some_conv split: if_splits)
  then have "stays s t"
    using Cons.prems stays_occur[of s e t] by simp
  then show ?case
    using Cons.IH[of t] Cons.prems(2) t(3) stays_trans stays_def by auto
qed (simp add: stays_def)

subsection \<open>Properties\<close>

text \<open>C26. In every run a client's state is well-formed: its connection has not closed and was not asked to close,
  and the client counts as connected then; a client that counts as connected has some connection that is alive; a destroyed client
  has neither a connection nor anything in progress; connections have different numbers.\<close>

theorem asio_client_wf:
  assumes "client_run s"
  shows "(\<forall>c. conn s = Some c \<longrightarrow> connected s \<and> c \<in> set (live s) \<and> c \<notin> set (closing s)) \<and>
    (connected s \<longrightarrow> live s \<noteq> [] \<or> dead s) \<and>
    (dead s \<longrightarrow> conn s = None \<and> \<not> waiting s \<and> jobs s = [] \<and> dialing s = 0 \<and> \<not> held s) \<and>
    distinct (live s) \<and> set (closing s) \<subseteq> set (live s) \<and> next_conn s \<notin> set (live s)"
proof -
  have "client_wf s"
    by (rule client_run_wf[OF assms])
  then show ?thesis
    by (cases "conn s"; cases "dead s") (auto simp: client_wf_def)
qed

text \<open>Runs as sequences of events.\<close>

lemma client_run_events: "client_run s \<Longrightarrow> events es s = Some s' \<Longrightarrow> client_run s'"
proof (induction es arbitrary: s)
  case (Cons e es)
  then obtain t where "enabled e s" "occur e s = Some t" "events es t = Some s'"
    by (auto simp: bind_eq_Some_conv split: if_splits)
  then show ?case
    using Cons.IH[of t] Cons.prems(1) client_run.step by blast
qed simp

text \<open>A client whose host cannot be resolved and whose close handler asks for a reconnect; then one that is connected,
  kept by the table of the context alone.\<close>

definition fresh :: client where
  "fresh = (Client Context 0 7)\<lparr>text_at := [0 \<mapsto> [104]], on_close := User_handler\<rparr>"

definition retrying :: client where
  "retrying = fresh\<lparr>host := [104], port := 80, connecting := True, waiting := True\<rparr>"

lemma retrying_run: "client_run retrying"
proof -
  have "client_run fresh"
    unfolding fresh_def by (rule client_run.create_user)
  moreover have "events [App (Do_Connect 0 80), Run_job False [Do_Reconnect 1000]] fresh = Some retrying"
    by (simp add: fresh_def retrying_def Client_def Context_def Connect_def CancelTimer_def DoConnect_def run_on_close_def
        Reconnect_def ScheduleReconnect_def runs_def)
  ultimately show ?thesis
    by (rule client_run_events)
qed

definition dialed :: client where
  "dialed = (Client (KeepClient 7 0 Context) 0 7)\<lparr>text_at := [0 \<mapsto> [104]], on_close := Dial_handler, host := [104], port := 80,
     connected := True, conn := Some 0, live := [0], next_conn := 1, held := False\<rparr>"

lemma dialed_run: "client_run dialed"
proof -
  let ?s = "(Client (KeepClient 7 0 Context) 0 7)\<lparr>text_at := [0 \<mapsto> [104]], on_close := Dial_handler, host := [104], port := 80,
     connecting := True, jobs := [Job_connect 0 80]\<rparr>"
  have "Dial 0 80 0 7 [0 \<mapsto> [104]] Context = Some ?s"
    by (simp add: Dial_def Client_def Connect_def CancelTimer_def)
  then have "client_run ?s"
    by (rule client_run.dial)
  moreover have "events [App Do_Release, Run_job True [], Dialed False []] ?s = Some dialed"
    by (simp add: dialed_def Client_def KeepClient_def Context_def DoConnect_def on_connected_def OnConnectDone_def runs_def)
  ultimately show ?thesis
    by (rule client_run_events)
qed

theorem asio_client_wf_witness: "conn dialed = Some 0 \<and> connected dialed \<and> 0 \<in> set (live dialed)"
  using asio_client_wf[OF dialed_run] by (simp add: dialed_def)

text \<open>A second \<open>Reconnect\<close> while the timer of the first runs stops the client: it cancels the timer, and leaves
  \<open>connecting_\<close> set, which keeps it from starting a new one. From then on, whatever happens and whatever is called but
  \<open>Connect\<close>, no connect is under way and no connection is added.\<close>

theorem second_reconnect_stalls:
  assumes "client_run s" "waiting s" "connecting s" "jobs s = []" "dialing s = 0"
    and "events es (Reconnect ms s) = Some s'" "\<forall>e\<in>set es. \<forall>c\<in>set (calls_of e). \<not> is_connect c"
  shows "connecting s' \<and> \<not> waiting s' \<and> dialing s' = 0 \<and> set (live s') \<subseteq> set (live s)"
proof -
  have "stalled (Reconnect ms s)" "live (Reconnect ms s) = live s"
    using assms(2-5) by (simp_all add: stalled_def Reconnect_def CancelTimer_def Let_def)
  then show ?thesis
    using stays_events[OF _ assms(7,6)] by (simp add: stays_def stalled_def)
qed

theorem second_reconnect_stalls_witness:
  "\<exists>s'. events [Run_job True [], App Do_Close, App (Do_Reconnect 1), Stop_context] (Reconnect 5 retrying) = Some s' \<and>
     connecting s' \<and> dialing s' = 0 \<and> live s' = []"
proof -
  let ?es = "[Run_job True [], App Do_Close, App (Do_Reconnect 1), Stop_context]"
  have r: "waiting retrying" "connecting retrying" "jobs retrying = []" "dialing retrying = 0" "live retrying = []"
    by (simp_all add: retrying_def fresh_def Client_def)
  have "events ?es (Reconnect 5 retrying) \<noteq> None"
    by (simp add: retrying_def fresh_def Client_def Context_def Reconnect_def CancelTimer_def Let_def on_timer_def
        Client_Close_def runs_def)
  then obtain s' where s': "events ?es (Reconnect 5 retrying) = Some s'"
    by blast
  show ?thesis
    using second_reconnect_stalls[OF retrying_run r(1-4) s'] s' r(5) by simp
qed

text \<open>A client made by \<open>Context::Dial\<close> whose pointer the application has not kept loses its place in the table when
  its close handler has run, even if that asked for a reconnect: once it is connected again nothing refers to it, so its
  destructor runs and closes the new connection.\<close>

theorem dialed_client_lost:
  assumes "client_run s" "on_close s = Dial_handler" "\<not> held s" "runs s" "kept s" "conn s = Some c" "live s = [c]"
    and "\<not> manual_close s" "\<not> connecting s" "\<not> waiting s" "jobs s = []" "dialing s = 0"
  shows "\<exists>s'. events [Conn_closes c [Do_Reconnect ms], Timer_expires, Run_job True [], Dialed False []] s = Some s' \<and>
    connected s' \<and> conn s' = Some (next_conn s) \<and> live s' = [next_conn s] \<and>
    enabled Destructor s' \<and> dead (Destroy s') \<and> closing (Destroy s') = [next_conn s]"
proof -
  obtain x where x: "ctx s = Some x" "\<not> stopped x"
    using assms(4) by (auto simp: runs_def split: option.splits)
  have wf: "\<not> dead s" "filter (\<lambda>d. d \<noteq> c) (closing s) = []"
    using client_run_wf[OF assms(1)] assms(6,7) by (auto simp: client_wf_def filter_empty_conv split: if_splits)
  let ?s = "s\<lparr>live := [next_conn s], closing := [], connected := True, conn := Some (next_conn s), manual_close := False,
    ctx := Some (DropClient (ident s) x), next_conn := Suc (next_conn s)\<rparr>"
  have "events [Conn_closes c [Do_Reconnect ms], Timer_expires, Run_job True [], Dialed False []] s = Some ?s"
    using assms(2-12) x wf
    by (cases s) (simp add: runs_def on_conn_close_def run_on_close_def Reconnect_def ScheduleReconnect_def CancelTimer_def
        DropClient_def on_timer_def DoConnect_def on_connected_def OnConnectDone_def)
  moreover have "enabled Destructor ?s" "closing (Destroy ?s) = [next_conn s]"
    using assms x wf by (simp_all add: referenced_def kept_def DropClient_def Destroy_def Client_Close_eq)
  ultimately show ?thesis
    by (intro exI[of _ ?s]) (simp add: Destroy_def)
qed

theorem dialed_client_lost_witness:
  "\<exists>s'. events [Conn_closes 0 [Do_Reconnect 1000], Timer_expires, Run_job True [], Dialed False []] dialed = Some s' \<and>
    connected s' \<and> enabled Destructor s' \<and> closing (Destroy s') = [1]"
  using dialed_client_lost[OF dialed_run, of 0 1000]
  by (auto simp: dialed_def Client_def KeepClient_def Context_def kept_def runs_def)

text \<open>
  The close handler of an old connection takes the client's new connection away: after \<open>Connect\<close> on a connected client
  the old connection lives on, and when it closes the client forgets the new one, which \<open>Close\<close> then does not reach.
\<close>

lemma old_connection_takes_new:
  assumes "client_run s" "\<not> dead s" "conn s = Some c" "d \<in> set (live s)" "d \<noteq> c" "on_close s = No_handler"
  shows "\<exists>s'. occur (Conn_closes d []) s = Some s' \<and> \<not> connected s' \<and> conn s' = None \<and> c \<in> set (live s') \<and>
    c \<notin> set (closing (Client_Close s'))"
proof -
  have "c \<in> set (live s)" "c \<notin> set (closing s)" "distinct (live s)"
    using client_run_wf[OF assms(1)] assms(3) by (auto simp: client_wf_def)
  then show ?thesis
    using assms(2-6) by (cases "manual_close s") (auto simp: on_conn_close_def run_on_close_def Client_Close_eq set_remove1 Let_def)
qed

text \<open>The pointer that \<open>Connect\<close> hands to its task must stay valid until the task has run.\<close>

lemma Connect_host_must_live:
  assumes "runs s" "held s" "\<not> dead s" "text_at s p \<noteq> None" "jobs s = []" "\<not> waiting s"
  shows "\<exists>s'. events [App (Do_Connect p prt), Set_text p None] s = Some s' \<and> enabled (Run_job ok cs) s' \<and>
    occur (Run_job ok cs) s' = None"
proof -
  obtain h x where h: "text_at s p = Some h" and x: "ctx s = Some x" "\<not> stopped x"
    using assms(1,4) by (auto simp: runs_def split: option.splits)
  let ?s = "s\<lparr>manual_close := False, connecting := True, host := h, port := prt, jobs := [Job_connect p prt],
    text_at := (text_at s)(p := None)\<rparr>"
  have "events [App (Do_Connect p prt), Set_text p None] s = Some ?s"
    using assms(2,3,5,6) h x by (cases s) (simp add: Connect_def CancelTimer_def)
  then show ?thesis
    using x by (intro exI[of _ ?s]) (simp add: runs_def)
qed

subsection \<open>Server\<close>

text \<open>The acceptor is open or not, bound, listening; \<open>accepting\<close> says that an accept is in progress.\<close>

record server =
  acc_open :: bool
  acc_bound :: bool
  acc_listening :: bool
  srv_started :: bool
  accepting :: bool
  accepted :: nat

definition Server :: server where
  "Server = \<lparr>acc_open = False, acc_bound = False, acc_listening = False, srv_started = False, accepting = False, accepted = 0\<rparr>"

text \<open>Opening an open acceptor fails; the other results are the kernel's.\<close>

definition Server_Listen :: "bool \<Rightarrow> bool \<Rightarrow> bool \<Rightarrow> bool \<Rightarrow> bool \<Rightarrow> server \<Rightarrow> bool \<times> server" where
  "Server_Listen addr_ok open_ok opt_ok bind_ok listen_ok s =
     (if \<not> addr_ok then (False, s)
      else if acc_open s \<or> \<not> open_ok then (False, s)
      else
        (let s = s\<lparr>acc_open := True\<rparr>
         in if \<not> opt_ok then (False, s)
            else if \<not> bind_ok then (False, s)
            else
              (let s = s\<lparr>acc_bound := True\<rparr>
               in if \<not> listen_ok then (False, s) else (True, s\<lparr>acc_listening := True\<rparr>))))"

definition DoAccept :: "server \<Rightarrow> server" where
  "DoAccept s = s\<lparr>accepting := True\<rparr>"

definition Server_Start :: "server \<Rightarrow> server" where
  "Server_Start s = (if \<not> acc_open s \<or> srv_started s then s else DoAccept (s\<lparr>srv_started := True\<rparr>))"

text \<open>Closing the acceptor completes the accept in progress with an error.\<close>

definition Server_Stop :: "server \<Rightarrow> server" where
  "Server_Stop s = s\<lparr>acc_open := False, acc_bound := False, acc_listening := False\<rparr>"

text \<open>The handler of an accept that has completed.\<close>

definition on_accept :: "bool \<Rightarrow> server \<Rightarrow> server" where
  "on_accept ec s =
     (let s = s\<lparr>accepting := False\<rparr>
      in if ec then s else DoAccept (s\<lparr>accepted := accepted s + 1\<rparr>))"

definition Context_Listen :: "bool \<Rightarrow> bool \<Rightarrow> bool \<Rightarrow> bool \<Rightarrow> bool \<Rightarrow> server option" where
  "Context_Listen a b c d e =
     (case Server_Listen a b c d e Server of (ok, s) \<Rightarrow> if \<not> ok then None else Some (Server_Start s))"

inductive server_step :: "server \<Rightarrow> server \<Rightarrow> bool" where
  "server_step s (snd (Server_Listen a b c d e s))"
| "server_step s (Server_Start s)"
| "server_step s (Server_Stop s)"
| "accepting s \<Longrightarrow> server_step s (on_accept ec s)"

text \<open>Any error ends accepting for good, also one that concerns a single connection; stopping and listening again does not
  help, because \<open>started_\<close> stays set.\<close>

lemma accepting_ends:
  assumes "server_step\<^sup>*\<^sup>* s t" "srv_started s" "\<not> accepting s"
  shows "\<not> accepting t \<and> accepted t = accepted s"
proof -
  have "srv_started t \<and> \<not> accepting t \<and> accepted t = accepted s"
    using assms
  proof (induction rule: rtranclp_induct)
    case (step t u)
    from step(2) step.IH[OF step.prems] show ?case
      by cases (auto simp: Server_Listen_def Server_Start_def Server_Stop_def Let_def)
  qed simp
  then show ?thesis
    by simp
qed

lemma Context_Listen_accepts: "Context_Listen a b c d e = Some s \<Longrightarrow> acc_listening s \<and> accepting s \<and> srv_started s"
  by (auto simp: Context_Listen_def Server_Listen_def Server_def Server_Start_def DoAccept_def Let_def split: if_splits)

end
