(* ===== verification/Frame_File.thy ===== *)
theory Frame_File
  imports Nalu Mp4_Writer
begin

section \<open>libframe::File: reading frames from an Annex-B file (src/stream/frame.hpp)\<close>

text \<open>
  A file opened for reading is its contents and its position, as for the writers. \<open>data_\<close> is the array of
  \<open>READ_BUF_SIZ\<close> bytes that \<open>Read\<close> fills and returns a pointer to.
\<close>

definition READ_BUF_SIZ :: nat where
  "READ_BUF_SIZ = 500000"

record frame_file =
  ff_data :: bytes
  ff_file :: "stdio option"

text \<open>The array is not initialised: \<open>mem\<close> is what it holds.\<close>

definition File :: "bytes \<Rightarrow> frame_file" where
  "File mem = \<lparr>ff_data = mem, ff_file = None\<rparr>"

text \<open>The argument is the contents of the file, if it can be opened.\<close>

definition Open :: "bytes option \<Rightarrow> frame_file \<Rightarrow> bool \<times> frame_file" where
  "Open r s =
     (let s = (if ff_file s \<noteq> None then s\<lparr>ff_file := None\<rparr> else s);
          s = s\<lparr>ff_file := map_option (\<lambda>d. \<lparr>f_data = d, f_pos = 0\<rparr>) r\<rparr>
      in (ff_file s \<noteq> None, s))"

definition fread :: "nat \<Rightarrow> stdio \<Rightarrow> bytes \<times> stdio" where
  "fread n f = (let xs = take n (drop (f_pos f) (f_data f)) in (xs, f\<lparr>f_pos := f_pos f + length xs\<rparr>))"

text \<open>Seeking before the beginning fails and leaves the position.\<close>

definition fseek_cur :: "int \<Rightarrow> stdio \<Rightarrow> stdio" where
  "fseek_cur k f = (if int (f_pos f) + k < 0 then f else f\<lparr>f_pos := nat (int (f_pos f) + k)\<rparr>)"

text \<open>The result is the null pointer (\<open>None\<close>) or \<open>len\<close> and \<open>ftype\<close>, with the frame at the beginning of \<open>data_\<close>.\<close>

definition Read :: "frame_file \<Rightarrow> ((int \<times> int) option \<times> frame_file) option" where
  "Read s =
     (case ff_file s of
        None \<Rightarrow> Some (None, s)
      | Some f \<Rightarrow>
          (let s = s\<lparr>ff_data := replicate READ_BUF_SIZ 0\<rparr>;
               (xs, f) = fread READ_BUF_SIZ f;
               n = int (length xs);
               s = s\<lparr>ff_data := xs @ drop (length xs) (ff_data s), ff_file := Some f\<rparr>
           in if n \<le> 0 then Some (None, s)
              else do {
                offset \<leftarrow> read264frame (ff_data s) (n - 5);
                if offset < 0 then Some (None, s)
                else do {
                  t \<leftarrow> mem_read (ff_data s) 4;
                  let ftype = (if t AND 0x1F = 1 then 2 else 1);
                  let len = offset;
                  Some (Some (len, ftype), s\<lparr>ff_file := Some (fseek_cur (offset - n) f)\<rparr>)
                }
              }))"

text \<open>A caller that reads at most \<open>n\<close> frames, until the null pointer comes.\<close>

fun read_frames :: "nat \<Rightarrow> frame_file \<Rightarrow> ((bytes \<times> int) list \<times> frame_file) option" where
  "read_frames 0 s = Some ([], s)"
| "read_frames (Suc n) s = do {
     (r, s) \<leftarrow> Read s;
     (case r of
        None \<Rightarrow> Some ([], s)
      | Some (len, ftype) \<Rightarrow> do {
          (fs, s') \<leftarrow> read_frames n s;
          Some ((take (nat len) (ff_data s), ftype) # fs, s')
        })
   }"

subsection \<open>The search for a boundary\<close>

lemma is_start_window:
  assumes "i + 4 \<le> length b"
  shows "is_start b i = Some (take 4 (drop i b) = START)"
proof -
  have "take 4 (drop i b) = [b ! i, b ! (i + 1), b ! (i + 2), b ! (i + 3)]"
  proof (rule nth_equalityI)
    fix k
    assume "k < length (take 4 (drop i b))"
    then have "k < 4" "i + k < length b"
      using assms by simp_all
    moreover from this have "k = 0 \<or> k = 1 \<or> k = 2 \<or> k = 3"
      by linarith
    ultimately show "take 4 (drop i b) ! k = [b ! i, b ! (i + 1), b ! (i + 2), b ! (i + 3)] ! k"
      by (auto simp: add.commute)
  qed (use assms in simp)
  then have eq: "(take 4 (drop i b) = START) = (b ! i = 0 \<and> b ! (i + 1) = 0 \<and> b ! (i + 2) = 0 \<and> b ! (i + 3) = 1)"
    by (simp add: START_def)
  have r: "mem_read b i = Some (b ! i)" "mem_read b (i + 1) = Some (b ! (i + 1))"
    "mem_read b (i + 2) = Some (b ! (i + 2))" "mem_read b (i + 3) = Some (b ! (i + 3))"
    using assms by (simp_all add: mem_read_def)
  show ?thesis
    unfolding is_start_def r eq bind.bind_lunit
    by (cases "b ! i = 0"; cases "b ! (i + 1) = 0"; cases "b ! (i + 2) = 0") (simp_all only: if_True if_False simp_thms)
qed

lemma read264_skip:
  assumes "\<And>j. i \<le> j \<Longrightarrow> j < k \<Longrightarrow> take 4 (drop j b) \<noteq> START" "k + 3 \<le> length b" "i \<le> k" "int k \<le> len"
  shows "read264_loop b len i ok = read264_loop b len k ok"
  using assms
proof (induction "k - i" arbitrary: i)
  case (Suc n)
  then have "i < k"
    by simp
  then have "int i < len" "is_start b i = Some False"
    using Suc.prems is_start_window[of i b] by simp_all
  then have "read264_loop b len i ok = read264_loop b len (Suc i) ok"
    by (subst read264_loop.simps) simp
  also have "\<dots> = read264_loop b len k ok"
    using Suc.hyps Suc.prems \<open>i < k\<close> by simp
  finally show ?case .
qed simp

definition slice_unit :: "bytes \<Rightarrow> bool" where
  "slice_unit x \<longleftrightarrow> x \<noteq> [] \<and> (hd x AND 0x1F = 1 \<or> hd x AND 0x1F = 5)"

text \<open>A picture: units that are no slices, then one slice.\<close>

definition picture :: "bytes list \<Rightarrow> bool" where
  "picture nals \<longleftrightarrow> nals \<noteq> [] \<and> (\<forall>x\<in>set nals. no_start x) \<and> (\<forall>x\<in>set (butlast nals). \<not> slice_unit x) \<and> slice_unit (last nals)"

text \<open>The windows of a start code and the unit behind it, but the first.\<close>

lemma no_start_behind:
  assumes "no_start x"
  shows "no_start ([0, 0, 1] @ x)"
  unfolding no_start_def
proof (intro allI impI)
  fix i
  assume i: "i + 4 \<le> length ([0, 0, 1] @ x)"
  consider "i = 0" | "i = 1" | "i = 2" | k where "i = Suc (Suc (Suc k))"
    by (cases i; cases "i - 1"; cases "i - 2") auto
  then show "take 4 (drop i ([0, 0, 1] @ x)) \<noteq> START"
    using assms i by cases (auto simp: no_start_def START_def numeral_eq_Suc)
qed

lemma read264_unit:
  assumes "no_start x" "int (length pre + 4 + length x) \<le> len" "b = pre @ START @ x @ START @ tail"
  shows "read264_loop b len (length pre) False = read264_loop b len (length pre + 4 + length x) (slice_unit x)"
proof -
  let ?x = "[0, 0, 1] @ x"
  have b: "b = (pre @ [0]) @ ?x @ START @ tail"
    by (simp add: assms(3) START_def)
  have st: "is_start b (length pre) = Some True"
    by (subst is_start_window) (simp_all add: assms(3))
  have t: "mem_read b (length pre + 4) = Some (if x = [] then 0 else hd x)"
    by (cases x) (simp_all add: assms(3) mem_read_def nth_append START_def)
  have "read264_loop b len (length pre) False = read264_loop b len (Suc (length pre)) (slice_unit x)"
    using assms(2) by (subst read264_loop.simps) (simp add: st t slice_unit_def)
  also have "\<dots> = read264_loop b len (length pre + 4 + length x) (slice_unit x)"
  proof (rule read264_skip)
    fix j
    assume j: "Suc (length pre) \<le> j" "j < length pre + 4 + length x"
    have "take 4 (drop (j - Suc (length pre)) (?x @ START @ tail)) \<noteq> START"
      using j by (intro no_early_start[OF no_start_behind[OF assms(1)]]) simp
    moreover have "drop j b = drop (j - Suc (length pre)) (?x @ START @ tail)"
    proof -
      obtain k where "j = Suc (length pre) + k"
        using j(1) le_Suc_ex by blast
      then show ?thesis
        unfolding b by simp
    qed
    ultimately show "take 4 (drop j b) \<noteq> START"
      by simp
  qed (use assms in simp_all)
  finally show ?thesis .
qed

lemma read264_picture:
  assumes "picture nals" "int (length pre + length (annexb nals)) < len" "b = pre @ annexb nals @ START @ tail"
  shows "read264_loop b len (length pre) False = Some (int (length pre + length (annexb nals)))"
  using assms
proof (induction nals arbitrary: pre rule: induct_list012)
  case (2 x)
  then have x: "no_start x" "slice_unit x"
    by (simp_all add: picture_def)
  have "read264_loop b len (length pre) False = read264_loop b len (length pre + 4 + length x) True"
    using read264_unit[of x pre len b tail] 2 x by simp
  also have "\<dots> = Some (int (length pre + 4 + length x))"
    using 2 by (subst read264_loop.simps) (simp add: is_start_window)
  finally show ?case
    by simp
next
  case (3 x y ys)
  then have x: "no_start x" "\<not> slice_unit x" "picture (y # ys)"
    by (auto simp: picture_def)
  have "read264_loop b len (length pre) False = read264_loop b len (length (pre @ START @ x)) False"
    using read264_unit[of x pre len b "y @ annexb ys @ START @ tail"] 3 x by (simp add: add.assoc)
  also have "\<dots> = Some (int (length (pre @ START @ x) + length (annexb (y # ys))))"
    using 3 x by (intro "3.IH"(2)) simp_all
  finally show ?case
    by simp
qed (simp add: picture_def)

text \<open>The last picture of a file has no start code behind it: no boundary is found.\<close>

lemma window_append: "i + n \<le> length ys \<Longrightarrow> take n (drop i (ys @ zs)) = take n (drop i ys)"
  by simp

lemma annexb_slice_length: "picture nals \<Longrightarrow> 5 \<le> length (annexb nals)"
proof (induction nals rule: induct_list012)
  case (2 x)
  then show ?case
    by (cases x) (simp_all add: picture_def slice_unit_def)
qed (simp_all add: picture_def)

lemma read264_last:
  assumes "picture nals" "len = int (length pre + length (annexb nals)) - 5" "b = pre @ annexb nals @ slack"
  shows "read264_loop b len (length pre) False = Some (- 1)"
  using assms
proof (induction nals arbitrary: pre rule: induct_list012)
  case (2 x)
  then have x: "no_start x" "slice_unit x" "len = int (length pre) + int (length x) - 1"
    by (simp_all add: picture_def)
  show ?case
  proof (cases "length x \<le> 1")
    case True
    then show ?thesis
      using x(3) by (subst read264_loop.simps) simp
  next
    case False
    let ?k = "length pre + (length x - 1)"
    have k: "int ?k = len"
      using x(3) False by simp
    have st: "is_start b (length pre) = Some True"
      by (subst is_start_window) (simp_all add: 2(3))
    have t: "mem_read b (length pre + 4) = Some (hd x)"
      using False by (cases x) (simp_all add: 2(3) mem_read_def nth_append)
    have "read264_loop b len (length pre) False = read264_loop b len (Suc (length pre)) True"
      using k False x(2) by (subst read264_loop.simps) (simp add: st t slice_unit_def)
    also have "\<dots> = read264_loop b len ?k True"
    proof (rule read264_skip)
      fix j
      assume j: "Suc (length pre) \<le> j" "j < ?k"
      then obtain i where i: "j = Suc (length pre) + i"
        using le_Suc_ex by blast
      then have le: "i + 4 \<le> length ([0, 0, 1] @ x)"
        using j(2) by simp
      have "b = (pre @ [0]) @ ([0, 0, 1] @ x) @ slack"
        using 2(3) by (simp add: START_def)
      then have "drop j b = drop i (([0, 0, 1] @ x) @ slack)"
        using i by simp
      then have "take 4 (drop j b) = take 4 (drop i ([0, 0, 1] @ x))"
        using window_append[OF le] by metis
      then show "take 4 (drop j b) \<noteq> START"
        using no_start_behind[OF x(1)] le unfolding no_start_def by simp
    qed (use k False 2(3) in simp_all)
    also have "\<dots> = Some (- 1)"
      using k by (subst read264_loop.simps) simp
    finally show ?thesis .
  qed
next
  case (3 x y ys)
  then have x: "no_start x" "\<not> slice_unit x" "picture (y # ys)"
    by (auto simp: picture_def)
  have "read264_loop b len (length pre) False = read264_loop b len (length (pre @ START @ x)) False"
    using read264_unit[of x pre len b "y @ annexb ys @ slack"] 3 x annexb_slice_length[OF x(3)] by (simp add: add.assoc)
  also have "\<dots> = Some (- 1)"
    using 3 x by (intro "3.IH"(2)) simp_all
  finally show ?case .
qed (simp add: picture_def)

subsection \<open>Read\<close>

text \<open>What the file still holds, and the type that \<open>Read\<close> gives a picture: that of its first unit.\<close>

definition remaining :: "stdio \<Rightarrow> bytes" where
  "remaining f = drop (f_pos f) (f_data f)"

definition picture_type :: "bytes list \<Rightarrow> int" where
  "picture_type nals = (if (hd nals @ [0]) ! 0 AND 0x1F = 1 then 2 else 1)"

lemma Read_picture:
  assumes "ff_file s = Some f" "picture nals" "remaining f = annexb nals @ START @ tail" "2 \<le> length tail"
    and "length (annexb nals) + 6 \<le> READ_BUF_SIZ"
  shows "\<exists>s'. Read s = Some (Some (int (length (annexb nals)), picture_type nals), s') \<and>
    take (length (annexb nals)) (ff_data s') = annexb nals \<and>
    ff_file s' = Some (f\<lparr>f_pos := f_pos f + length (annexb nals)\<rparr>)"
proof -
  let ?a = "annexb nals"
  define xs where "xs = take READ_BUF_SIZ (remaining f)"
  define b where "b = xs @ replicate (READ_BUF_SIZ - length xs) 0"
  let ?t = "take (READ_BUF_SIZ - length ?a - 4) tail"
  have xs: "xs = ?a @ START @ ?t"
    using assms(3,5) by (simp add: xs_def)
  have n: "length ?a + 6 \<le> length xs"
    using assms(4,5) by (simp add: xs)
  have b: "b = [] @ ?a @ START @ (?t @ replicate (READ_BUF_SIZ - length xs) 0)"
    by (simp add: b_def xs)
  have off: "read264frame b (int (length xs) - 5) = Some (int (length ?a))"
    using read264_picture[OF assms(2) _ b] n by (simp add: read264frame_def)
  obtain x ns where nals: "nals = x # ns"
    using assms(2) by (cases nals) (auto simp: picture_def)
  have "mem_read b 4 = Some ((x @ [0]) ! 0)"
    unfolding b nals by (cases x; cases ns) (simp_all add: mem_read_def nth_append START_def)
  then have t: "mem_read b 4 = Some ((hd nals @ [0]) ! 0)"
    by (simp add: nals)
  have fr: "fread READ_BUF_SIZ f = (xs, f\<lparr>f_pos := f_pos f + length xs\<rparr>)"
    by (simp add: fread_def xs_def remaining_def Let_def)
  have fs: "fseek_cur (int (length ?a) - int (length xs)) (f\<lparr>f_pos := f_pos f + length xs\<rparr>) =
      f\<lparr>f_pos := f_pos f + length ?a\<rparr>"
    by (cases f) (simp add: fseek_cur_def)
  have "xs \<noteq> []"
    using n by auto
  moreover obtain d where "s = \<lparr>ff_data = d, ff_file = Some f\<rparr>"
    using assms(1) by (cases s) simp
  ultimately have "Read s = Some (Some (int (length ?a), picture_type nals),
      s\<lparr>ff_data := b, ff_file := Some (f\<lparr>f_pos := f_pos f + length ?a\<rparr>)\<rparr>)"
    using off t fs by (simp add: Read_def fr b_def[symmetric] picture_type_def Let_def)
  then show ?thesis
    by (simp add: b)
qed

lemma Read_last:
  assumes "ff_file s = Some f" "picture nals" "remaining f = annexb nals" "length (annexb nals) \<le> READ_BUF_SIZ"
  shows "\<exists>s'. Read s = Some (None, s') \<and> ff_file s' = Some (f\<lparr>f_pos := f_pos f + length (annexb nals)\<rparr>)"
proof -
  let ?a = "annexb nals"
  let ?b = "?a @ replicate (READ_BUF_SIZ - length ?a) 0"
  have fr: "fread READ_BUF_SIZ f = (?a, f\<lparr>f_pos := f_pos f + length ?a\<rparr>)"
    using assms(3,4) by (simp add: fread_def remaining_def Let_def)
  have off: "read264frame ?b (int (length ?a) - 5) = Some (- 1)"
    using read264_last[OF assms(2), of _ "[]" ?b "replicate (READ_BUF_SIZ - length ?a) 0"] by (simp add: read264frame_def)
  moreover obtain d where "s = \<lparr>ff_data = d, ff_file = Some f\<rparr>"
    using assms(1) by (cases s) simp
  ultimately show ?thesis
    using annexb_slice_length[OF assms(2)] by (simp add: Read_def fr Let_def)
qed

subsection \<open>Property\<close>

lemma read_frames_pictures:
  assumes "ps \<noteq> []" "\<forall>p\<in>set ps. picture p \<and> 6 \<le> length (annexb p) \<and> length (annexb p) + 6 \<le> READ_BUF_SIZ"
    and "ff_file s = Some f" "remaining f = concat (map annexb ps)" "length ps \<le> k"
  shows "\<exists>s'. read_frames k s = Some (map (\<lambda>p. (annexb p, picture_type p)) (butlast ps), s') \<and>
    ff_file s' = Some (f\<lparr>f_pos := f_pos f + length (concat (map annexb ps))\<rparr>)"
  using assms
proof (induction ps arbitrary: s f k rule: induct_list012)
  case (2 p)
  then obtain n where n: "k = Suc n"
    by (cases k) auto
  obtain s' where "Read s = Some (None, s')" "ff_file s' = Some (f\<lparr>f_pos := f_pos f + length (annexb p)\<rparr>)"
    using Read_last[OF 2(3), of p] 2(2,4) by auto
  then show ?case
    by (simp add: n)
next
  case (3 p q ps)
  then obtain n where n: "k = Suc n"
    by (cases k) auto
  let ?rest = "concat (map annexb (q # ps))"
  have q: "picture q" "6 \<le> length (annexb q)"
    using 3 by simp_all
  then obtain x ns where "q = x # ns"
    by (cases q) (auto simp: picture_def)
  then obtain tail where tail: "?rest = START @ tail" "2 \<le> length tail"
    using q(2) by auto
  have "remaining f = annexb p @ START @ tail"
    using 3(6) tail(1) by simp
  then obtain t where t: "Read s = Some (Some (int (length (annexb p)), picture_type p), t)"
      "take (length (annexb p)) (ff_data t) = annexb p" "ff_file t = Some (f\<lparr>f_pos := f_pos f + length (annexb p)\<rparr>)"
    using Read_picture[OF 3(5), of p tail] tail(2) 3(4) by auto
  let ?f = "f\<lparr>f_pos := f_pos f + length (annexb p)\<rparr>"
  have "remaining ?f = drop (length (annexb p)) (remaining f)"
    by (simp add: remaining_def add.commute)
  then have "remaining ?f = ?rest"
    using 3(6) by simp
  from "3.IH"(2)[OF _ _ t(3) this, of n] 3(4,7) n obtain s' where
    "read_frames n t = Some (map (\<lambda>p. (annexb p, picture_type p)) (butlast (q # ps)), s')"
    "ff_file s' = Some (?f\<lparr>f_pos := f_pos ?f + length ?rest\<rparr>)"
    by auto
  then show ?case
    using t by (simp add: n add.assoc)
qed simp

text \<open>C5. A file of pictures (each some units that are no slices, then a slice; none with a start code inside; none longer than
  the buffer allows): opened and read frame by frame, it gives its pictures in order, each byte for byte and with the
  type of its first unit, except for the last one, which is never returned; the reading position is then at the end of the file.\<close>

theorem file_reads_pictures:
  assumes "ps \<noteq> []" "\<forall>p\<in>set ps. picture p \<and> 6 \<le> length (annexb p) \<and> length (annexb p) + 6 \<le> READ_BUF_SIZ"
    and "length ps \<le> k"
  shows "\<exists>s'. read_frames k (snd (Open (Some (concat (map annexb ps))) s)) =
      Some (map (\<lambda>p. (annexb p, picture_type p)) (butlast ps), s') \<and>
    ff_file s' = Some \<lparr>f_data = concat (map annexb ps), f_pos = length (concat (map annexb ps))\<rparr>"
proof -
  let ?c = "concat (map annexb ps)"
  have "ff_file (snd (Open (Some ?c) s)) = Some \<lparr>f_data = ?c, f_pos = 0\<rparr>"
    by (simp add: Open_def Let_def)
  from read_frames_pictures[OF assms(1,2) this _ assms(3)] show ?thesis
    by (simp add: remaining_def)
qed

theorem file_reads_pictures_witness:
  "\<exists>s'. read_frames 9 (snd (Open (Some (annexb [[0x67, 7], [0x65, 8]] @ annexb [[0x41, 9]] @ annexb [[0x41, 10]])) (File []))) =
     Some ([(annexb [[0x67, 7], [0x65, 8]], 1), (annexb [[0x41, 9]], 2)], s')"
proof -
  let ?ps = "[[[0x67, 7], [0x65, 8]], [[0x41, 9]], [[0x41, 10]]] :: bytes list list"
  have "\<forall>p\<in>set ?ps. picture p"
    by (auto simp: picture_def slice_unit_def no_start_def START_def)
  then have "\<forall>p\<in>set ?ps. picture p \<and> 6 \<le> length (annexb p) \<and> length (annexb p) + 6 \<le> READ_BUF_SIZ"
    by (simp add: READ_BUF_SIZ_def)
  from file_reads_pictures[OF _ this, of 9 "File []"] show ?thesis
    by (auto simp: picture_type_def)
qed

end
