(* ===== verification/Aes.thy ===== *)
theory Aes
  imports Aes_Tables
begin

section \<open>Rijndael in electronic code book mode (src/crypto/aes.h)\<close>

text \<open>
  The cipher with its tables, for keys of 128, 192 and 256 bits (the unrolled branch, which the file selects), and the
  two functions that cut data into blocks, pad the last one and use keys of 128 bits. An array on the stack is given with
  zeros for its undefined contents; every element is written before it is read. Lengths are not negative.
\<close>

subsection \<open>Bytes and words\<close>

definition GETU32 :: "bytes \<Rightarrow> nat \<Rightarrow> ulong" where
  "GETU32 p i = push_bit 24 (ucast (p ! i)) XOR push_bit 16 (ucast (p ! (i + 1))) XOR
     push_bit 8 (ucast (p ! (i + 2))) XOR ucast (p ! (i + 3))"

definition PUTU32 :: "ulong \<Rightarrow> bytes" where
  "PUTU32 st = [ucast (drop_bit 24 st), ucast (drop_bit 16 st), ucast (drop_bit 8 st), ucast st]"

subsection \<open>Key schedules\<close>

text \<open>The two ways in which the schedule puts a word through the substitution: rotated, and not.\<close>

definition rot_word :: "ulong \<Rightarrow> ulong" where
  "rot_word temp =
     (Te4 ! unat (drop_bit 16 temp AND 0xff) AND 0xff000000) XOR
     (Te4 ! unat (drop_bit 8 temp AND 0xff) AND 0x00ff0000) XOR
     (Te4 ! unat (temp AND 0xff) AND 0x0000ff00) XOR
     (Te4 ! unat (drop_bit 24 temp) AND 0x000000ff)"

definition sub_word :: "ulong \<Rightarrow> ulong" where
  "sub_word temp =
     (Te4 ! unat (drop_bit 24 temp) AND 0xff000000) XOR
     (Te4 ! unat (drop_bit 16 temp AND 0xff) AND 0x00ff0000) XOR
     (Te4 ! unat (drop_bit 8 temp AND 0xff) AND 0x0000ff00) XOR
     (Te4 ! unat (temp AND 0xff) AND 0x000000ff)"

text \<open>\<open>rk[j] = rk[k] ^ rk[l]\<close>, at the place the pointer has reached.\<close>

definition chain :: "nat \<Rightarrow> nat \<Rightarrow> nat \<Rightarrow> ulong list \<Rightarrow> ulong list" where
  "chain j k l rk = rk[j := rk ! k XOR rk ! l]"

definition key_step_128 :: "nat \<Rightarrow> ulong list \<Rightarrow> ulong list" where
  "key_step_128 i rk =
     (let p = 4 * i;
          temp = rk ! (p + 3);
          rk = rk[p + 4 := rk ! p XOR rot_word temp XOR rcon ! i];
          rk = chain (p + 5) (p + 1) (p + 4) rk;
          rk = chain (p + 6) (p + 2) (p + 5) rk
      in chain (p + 7) (p + 3) (p + 6) rk)"

definition key_step_192 :: "nat \<Rightarrow> ulong list \<Rightarrow> ulong list" where
  "key_step_192 i rk =
     (let p = 6 * i;
          temp = rk ! (p + 5);
          rk = rk[p + 6 := rk ! p XOR rot_word temp XOR rcon ! i];
          rk = chain (p + 7) (p + 1) (p + 6) rk;
          rk = chain (p + 8) (p + 2) (p + 7) rk;
          rk = chain (p + 9) (p + 3) (p + 8) rk
      in if i + 1 = 8 then rk
         else (let rk = chain (p + 10) (p + 4) (p + 9) rk
               in chain (p + 11) (p + 5) (p + 10) rk))"

definition key_step_256 :: "nat \<Rightarrow> ulong list \<Rightarrow> ulong list" where
  "key_step_256 i rk =
     (let p = 8 * i;
          temp = rk ! (p + 7);
          rk = rk[p + 8 := rk ! p XOR rot_word temp XOR rcon ! i];
          rk = chain (p + 9) (p + 1) (p + 8) rk;
          rk = chain (p + 10) (p + 2) (p + 9) rk;
          rk = chain (p + 11) (p + 3) (p + 10) rk
      in if i + 1 = 7 then rk
         else (let temp = rk ! (p + 11);
                   rk = rk[p + 12 := rk ! (p + 4) XOR sub_word temp];
                   rk = chain (p + 13) (p + 5) (p + 12) rk;
                   rk = chain (p + 14) (p + 6) (p + 13) rk
               in chain (p + 15) (p + 7) (p + 14) rk))"

text \<open>The loops run 10, 8 and 7 times; the pointer advances by the size of the key.\<close>

definition aesSetupEncrypt :: "ulong list \<Rightarrow> bytes \<Rightarrow> nat \<Rightarrow> nat \<times> ulong list" where
  "aesSetupEncrypt rk key keybits =
     (let rk = rk[0 := GETU32 key 0];
          rk = rk[1 := GETU32 key 4];
          rk = rk[2 := GETU32 key 8];
          rk = rk[3 := GETU32 key 12]
      in if keybits = 128 then (10, fold key_step_128 [0..<10] rk)
         else
           (let rk = rk[4 := GETU32 key 16];
                rk = rk[5 := GETU32 key 20]
            in if keybits = 192 then (12, fold key_step_192 [0..<8] rk)
               else
                 (let rk = rk[6 := GETU32 key 24];
                      rk = rk[7 := GETU32 key 28]
                  in if keybits = 256 then (14, fold key_step_256 [0..<7] rk) else (0, rk))))"

definition swap :: "nat \<Rightarrow> nat \<Rightarrow> ulong list \<Rightarrow> ulong list" where
  "swap i j rk = (let temp = rk ! i; rk = rk[i := rk ! j] in rk[j := temp])"

function swap_loop :: "nat \<Rightarrow> nat \<Rightarrow> ulong list \<Rightarrow> ulong list" where
  "swap_loop i j rk =
     (if i < j then
        swap_loop (i + 4) (j - 4)
          (swap (i + 3) (j + 3) (swap (i + 2) (j + 2) (swap (i + 1) (j + 1) (swap i j rk))))
      else rk)"
  by pat_completeness auto
termination
  by (relation "measure (\<lambda>(i, j, rk). j - i)") auto

declare swap_loop.simps [simp del]

definition inv_mix :: "ulong \<Rightarrow> ulong" where
  "inv_mix w =
     Td0 ! unat (Te4 ! unat (drop_bit 24 w) AND 0xff) XOR
     Td1 ! unat (Te4 ! unat (drop_bit 16 w AND 0xff) AND 0xff) XOR
     Td2 ! unat (Te4 ! unat (drop_bit 8 w AND 0xff) AND 0xff) XOR
     Td3 ! unat (Te4 ! unat (w AND 0xff) AND 0xff)"

definition inv_mix_step :: "nat \<Rightarrow> ulong list \<Rightarrow> ulong list" where
  "inv_mix_step i rk =
     (let p = 4 * i;
          rk = rk[p := inv_mix (rk ! p)];
          rk = rk[p + 1 := inv_mix (rk ! (p + 1))];
          rk = rk[p + 2 := inv_mix (rk ! (p + 2))]
      in rk[p + 3 := inv_mix (rk ! (p + 3))])"

definition aesSetupDecrypt :: "ulong list \<Rightarrow> bytes \<Rightarrow> nat \<Rightarrow> nat \<times> ulong list" where
  "aesSetupDecrypt rk key keybits =
     (let (nrounds, rk) = aesSetupEncrypt rk key keybits;
          rk = swap_loop 0 (4 * nrounds) rk
      in (nrounds, fold inv_mix_step [1..<nrounds] rk))"

subsection \<open>One block\<close>

type_synonym four = "ulong \<times> ulong \<times> ulong \<times> ulong"

definition add_key :: "bytes \<Rightarrow> ulong list \<Rightarrow> four" where
  "add_key p rk = (GETU32 p 0 XOR rk ! 0, GETU32 p 4 XOR rk ! 1, GETU32 p 8 XOR rk ! 2, GETU32 p 12 XOR rk ! 3)"

definition enc_word :: "ulong \<Rightarrow> ulong \<Rightarrow> ulong \<Rightarrow> ulong \<Rightarrow> ulong \<Rightarrow> ulong" where
  "enc_word a b c d k =
     Te0 ! unat (drop_bit 24 a) XOR Te1 ! unat (drop_bit 16 b AND 0xff) XOR
     Te2 ! unat (drop_bit 8 c AND 0xff) XOR Te3 ! unat (d AND 0xff) XOR k"

fun enc_round :: "ulong list \<Rightarrow> nat \<Rightarrow> four \<Rightarrow> four" where
  "enc_round rk i (s0, s1, s2, s3) =
     (enc_word s0 s1 s2 s3 (rk ! i), enc_word s1 s2 s3 s0 (rk ! (i + 1)),
      enc_word s2 s3 s0 s1 (rk ! (i + 2)), enc_word s3 s0 s1 s2 (rk ! (i + 3)))"

definition dec_word :: "ulong \<Rightarrow> ulong \<Rightarrow> ulong \<Rightarrow> ulong \<Rightarrow> ulong \<Rightarrow> ulong" where
  "dec_word a b c d k =
     Td0 ! unat (drop_bit 24 a) XOR Td1 ! unat (drop_bit 16 b AND 0xff) XOR
     Td2 ! unat (drop_bit 8 c AND 0xff) XOR Td3 ! unat (d AND 0xff) XOR k"

fun dec_round :: "ulong list \<Rightarrow> nat \<Rightarrow> four \<Rightarrow> four" where
  "dec_round rk i (s0, s1, s2, s3) =
     (dec_word s0 s3 s2 s1 (rk ! i), dec_word s1 s0 s3 s2 (rk ! (i + 1)),
      dec_word s2 s1 s0 s3 (rk ! (i + 2)), dec_word s3 s2 s1 s0 (rk ! (i + 3)))"

text \<open>The last round uses the plain substitution (\<open>T\<close> is \<open>Te4\<close> or \<open>Td4\<close>).\<close>

definition last_word :: "ulong list \<Rightarrow> ulong \<Rightarrow> ulong \<Rightarrow> ulong \<Rightarrow> ulong \<Rightarrow> ulong \<Rightarrow> ulong" where
  "last_word T a b c d k =
     (T ! unat (drop_bit 24 a) AND 0xff000000) XOR (T ! unat (drop_bit 16 b AND 0xff) AND 0x00ff0000) XOR
     (T ! unat (drop_bit 8 c AND 0xff) AND 0x0000ff00) XOR (T ! unat (d AND 0xff) AND 0x000000ff) XOR k"

definition full_rounds :: "(ulong list \<Rightarrow> nat \<Rightarrow> four \<Rightarrow> four) \<Rightarrow> ulong list \<Rightarrow> nat \<Rightarrow> four \<Rightarrow> four" where
  "full_rounds round' rk nrounds s =
     (let t = round' rk 4 s; s = round' rk 8 t; t = round' rk 12 s; s = round' rk 16 t; t = round' rk 20 s;
          s = round' rk 24 t; t = round' rk 28 s; s = round' rk 32 t; t = round' rk 36 s
      in if nrounds > 10 then
           (let s = round' rk 40 t; t = round' rk 44 s
            in if nrounds > 12 then
                 (let s = round' rk 48 t; t = round' rk 52 s in t)
               else t)
         else t)"

definition aesDoEncrypt :: "ulong list \<Rightarrow> nat \<Rightarrow> bytes \<Rightarrow> bytes" where
  "aesDoEncrypt rk nrounds plaintext =
     (case full_rounds enc_round rk nrounds (add_key plaintext rk) of (t0, t1, t2, t3) \<Rightarrow>
        let p = 4 * nrounds in
        PUTU32 (last_word Te4 t0 t1 t2 t3 (rk ! p)) @ PUTU32 (last_word Te4 t1 t2 t3 t0 (rk ! (p + 1))) @
        PUTU32 (last_word Te4 t2 t3 t0 t1 (rk ! (p + 2))) @ PUTU32 (last_word Te4 t3 t0 t1 t2 (rk ! (p + 3))))"

definition aesDoDecrypt :: "ulong list \<Rightarrow> nat \<Rightarrow> bytes \<Rightarrow> bytes" where
  "aesDoDecrypt rk nrounds ciphertext =
     (case full_rounds dec_round rk nrounds (add_key ciphertext rk) of (t0, t1, t2, t3) \<Rightarrow>
        let p = 4 * nrounds in
        PUTU32 (last_word Td4 t0 t3 t2 t1 (rk ! p)) @ PUTU32 (last_word Td4 t1 t0 t3 t2 (rk ! (p + 1))) @
        PUTU32 (last_word Td4 t2 t1 t0 t3 (rk ! (p + 2))) @ PUTU32 (last_word Td4 t3 t2 t1 t0 (rk ! (p + 3))))"

subsection \<open>Data of any length\<close>

definition BLOCK_SIZE :: nat where
  "BLOCK_SIZE = 16"

definition KEYBITS :: nat where
  "KEYBITS = 128"

definition RKLENGTH :: "nat \<Rightarrow> nat" where
  "RKLENGTH keybits = keybits div 8 + 28"

text \<open>The loops of the two functions: \<open>None\<close> is the early return of -1; the output is what has been written.\<close>

function enc_loop :: "ulong list \<Rightarrow> nat \<Rightarrow> bytes \<Rightarrow> int \<Rightarrow> bytes \<Rightarrow> int option \<times> bytes" where
  "enc_loop rk nrounds inp outlen out =
     (if inp = [] then (Some outlen, out)
      else
        (let j = min (length inp) BLOCK_SIZE;
             plaintext = take BLOCK_SIZE inp;
             inp = drop BLOCK_SIZE inp;
             c = word_of_nat (BLOCK_SIZE - j);
             orig_block_size = j;
             plaintext = plaintext @ replicate (BLOCK_SIZE - j) c;
             ciphertext = aesDoEncrypt rk nrounds plaintext
         in if outlen < int BLOCK_SIZE then (None, out)
            else
              (let out = out @ ciphertext; outlen = outlen - int BLOCK_SIZE
               in if orig_block_size = BLOCK_SIZE \<and> inp = [] then
                    (let plaintext = replicate BLOCK_SIZE (word_of_nat BLOCK_SIZE);
                         ciphertext = aesDoEncrypt rk nrounds plaintext
                     in if outlen < int BLOCK_SIZE then (None, out)
                        else enc_loop rk nrounds inp (outlen - int BLOCK_SIZE) (out @ ciphertext))
                  else enc_loop rk nrounds inp outlen out)))"
  by pat_completeness auto
termination
  by (relation "measure (\<lambda>(rk, n, inp, outlen, out). length inp)") (auto simp: BLOCK_SIZE_def)

declare enc_loop.simps [simp del]

text \<open>The result and what is written to \<open>output\<close>; \<open>memcpy\<close> of the key reads 16 bytes of the password.\<close>

definition aesEncrypt :: "int \<Rightarrow> bytes \<Rightarrow> bytes \<Rightarrow> (int \<times> bytes) option" where
  "aesEncrypt outlen inp password = do {
     key \<leftarrow> mem_slice password 0 BLOCK_SIZE;
     let rk = replicate (RKLENGTH KEYBITS) 0;
     let (nrounds, rk) = aesSetupEncrypt rk key KEYBITS;
     (case enc_loop rk nrounds inp outlen [] of
        (None, out) \<Rightarrow> Some (-1, out)
      | (Some left, out) \<Rightarrow> Some (outlen - left, out))
   }"

function dec_loop :: "ulong list \<Rightarrow> nat \<Rightarrow> bytes \<Rightarrow> int \<Rightarrow> bytes \<Rightarrow> int option \<times> bytes" where
  "dec_loop rk nrounds inp outlen out =
     (if inp = [] then (Some outlen, out)
      else if length inp < BLOCK_SIZE then (None, out)
      else
        (let ciphertext = take BLOCK_SIZE inp;
             inp = drop BLOCK_SIZE inp;
             plaintext = aesDoDecrypt rk nrounds ciphertext
         in if length inp < BLOCK_SIZE then
              (let padlen = unat (plaintext ! (BLOCK_SIZE - 1))
               in if padlen < 1 \<or> padlen > 16 then (None, out)
                  else
                    (let datalen = BLOCK_SIZE - padlen
                     in if outlen < int datalen then (None, out)
                        else dec_loop rk nrounds inp (outlen - int datalen) (out @ take datalen plaintext)))
            else if outlen < int BLOCK_SIZE then (None, out)
            else dec_loop rk nrounds inp (outlen - int BLOCK_SIZE) (out @ plaintext)))"
  by pat_completeness auto
termination
  by (relation "measure (\<lambda>(rk, n, inp, outlen, out). length inp)") (auto simp: BLOCK_SIZE_def)

declare dec_loop.simps [simp del]

definition aesDecrypt :: "int \<Rightarrow> bytes \<Rightarrow> bytes \<Rightarrow> (int \<times> bytes) option" where
  "aesDecrypt outlen inp password = do {
     key \<leftarrow> mem_slice password 0 BLOCK_SIZE;
     let rk = replicate (RKLENGTH KEYBITS) 0;
     let (nrounds, rk) = aesSetupDecrypt rk key KEYBITS;
     (case dec_loop rk nrounds inp outlen [] of
        (None, out) \<Rightarrow> Some (-1, out)
      | (Some left, out) \<Rightarrow> Some (outlen - left, out))
   }"

subsection \<open>Rounds on bytes\<close>

type_synonym cols = "col \<times> col \<times> col \<times> col"

fun W4 :: "cols \<Rightarrow> four" where
  "W4 (a, b, c, d) = (W a, W b, W c, W d)"

fun map4 :: "(col \<Rightarrow> col) \<Rightarrow> cols \<Rightarrow> cols" where
  "map4 f (a, b, c, d) = (f a, f b, f c, f d)"

fun xor16 :: "cols \<Rightarrow> cols \<Rightarrow> cols" where
  "xor16 (a, b, c, d) (a', b', c', d') = (xor4 a a', xor4 b b', xor4 c c', xor4 d d')"

text \<open>Substitution and the shift of the rows, and back.\<close>

fun sub_shift :: "cols \<Rightarrow> cols" where
  "sub_shift ((a0, a1, a2, a3), (b0, b1, b2, b3), (c0, c1, c2, c3), (d0, d1, d2, d3)) =
     ((S a0, S b1, S c2, S d3), (S b0, S c1, S d2, S a3), (S c0, S d1, S a2, S b3), (S d0, S a1, S b2, S c3))"

fun unshift_sub :: "cols \<Rightarrow> cols" where
  "unshift_sub ((a0, a1, a2, a3), (b0, b1, b2, b3), (c0, c1, c2, c3), (d0, d1, d2, d3)) =
     ((IS a0, IS d1, IS c2, IS b3), (IS b0, IS a1, IS d2, IS c3), (IS c0, IS b1, IS a2, IS d3), (IS d0, IS c1, IS b2, IS a3))"

lemma unshift_sub_shift: "unshift_sub (sub_shift s) = s"
  by (cases s rule: sub_shift.cases) (simp add: IS_S)

lemmas word4_read = word4_bytes unat_ucast8

lemma enc_word_W:
  "enc_word (word4 a0 a1 a2 a3) (word4 b0 b1 b2 b3) (word4 c0 c1 c2 c3) (word4 d0 d1 d2 d3) (W k) =
     W (xor4 (mc (S a0, S b1, S c2, S d3)) k)"
  by (cases k) (simp add: enc_word_def word4_read Te_at word4_xor xor.assoc)

lemma dec_word_W:
  "dec_word (word4 a0 a1 a2 a3) (word4 b0 b1 b2 b3) (word4 c0 c1 c2 c3) (word4 d0 d1 d2 d3) (W k) =
     W (xor4 (imc (IS a0, IS b1, IS c2, IS d3)) k)"
  by (cases k) (simp add: dec_word_def word4_read Td_at word4_xor xor.assoc)

lemma last_word_W:
  "last_word Te4 (word4 a0 a1 a2 a3) (word4 b0 b1 b2 b3) (word4 c0 c1 c2 c3) (word4 d0 d1 d2 d3) (W k) =
     W (xor4 (S a0, S b1, S c2, S d3) k)"
  "last_word Td4 (word4 a0 a1 a2 a3) (word4 b0 b1 b2 b3) (word4 c0 c1 c2 c3) (word4 d0 d1 d2 d3) (W k) =
     W (xor4 (IS a0, IS b1, IS c2, IS d3) k)"
  unfolding last_word_def word4_read unfolding Te_at Td_at unfolding word4_masks
  by (cases k; simp add: word4_xor)+

lemma inv_mix_W: "inv_mix (W k) = W (imc k)"
  by (cases k) (simp add: inv_mix_def word4_read Te_at Td_at IS_S word4_xor)

text \<open>Four words of a key schedule.\<close>

definition key_at :: "ulong list \<Rightarrow> nat \<Rightarrow> cols \<Rightarrow> bool" where
  "key_at rk i k \<longleftrightarrow> (rk ! i, rk ! (i + 1), rk ! (i + 2), rk ! (i + 3)) = W4 k"

lemma enc_round_W: "key_at rk i k \<Longrightarrow> enc_round rk i (W4 s) = W4 (xor16 (map4 mc (sub_shift s)) k)"
proof -
  obtain k0 k1 k2 k3 where "k = (k0, k1, k2, k3)"
    by (metis prod_cases4)
  moreover assume "key_at rk i k"
  ultimately show ?thesis
    by (cases s rule: sub_shift.cases) (simp add: key_at_def enc_word_W del: mc.simps xor4.simps)
qed

lemma dec_round_W: "key_at rk i k \<Longrightarrow> dec_round rk i (W4 s) = W4 (xor16 (map4 imc (unshift_sub s)) k)"
proof -
  obtain k0 k1 k2 k3 where "k = (k0, k1, k2, k3)"
    by (metis prod_cases4)
  moreover assume "key_at rk i k"
  ultimately show ?thesis
    by (cases s rule: sub_shift.cases) (simp add: key_at_def dec_word_W del: imc.simps xor4.simps)
qed

lemma map4_imc_mc: "map4 imc (map4 mc s) = s"
  by (cases s) (simp add: imc_mc del: imc.simps mc.simps)

lemma map4_imc_xor: "map4 imc (xor16 s k) = xor16 (map4 imc s) (map4 imc k)"
  by (cases s; cases k) (simp add: imc_xor del: imc.simps xor4.simps)

lemma xor16_cancel: "xor16 (xor16 s k) k = s"
  by (cases s; cases k) (simp add: xor4_cancel xor.assoc)

text \<open>A round of the decryption undoes the round of the encryption with the same key.\<close>

lemma dec_enc_round:
  assumes "key_at rk i (map4 imc k)"
  shows "dec_round rk i (W4 (sub_shift (xor16 (map4 mc (sub_shift s)) k))) = W4 (sub_shift s)"
  by (simp add: dec_round_W[OF assms] unshift_sub_shift map4_imc_xor map4_imc_mc xor16_cancel)

subsection \<open>The schedules\<close>

text \<open>The first \<open>n\<close> words have been written, and have four bytes.\<close>

definition filled :: "nat \<Rightarrow> ulong list \<Rightarrow> bool" where
  "filled n rk \<longleftrightarrow> (\<forall>k<n. rk ! k \<in> range W)"

lemma W_xor_range: "v \<in> range W \<Longrightarrow> w \<in> range W \<Longrightarrow> v XOR w \<in> range W"
proof -
  assume "v \<in> range W" "w \<in> range W"
  then obtain k l where "v = W k" "w = W l"
    by blast
  then have "v XOR w = W (xor4 k l)"
    by (simp add: W_xor)
  then show ?thesis
    by (metis rangeI)
qed

lemma filled_nth: "filled n rk \<Longrightarrow> k < n \<Longrightarrow> rk ! k \<in> range W"
  by (simp add: filled_def)

lemma filled_put: "filled n rk \<Longrightarrow> n < length rk \<Longrightarrow> w \<in> range W \<Longrightarrow> m = Suc n \<Longrightarrow> filled m (rk[n := w])"
  by (auto simp: filled_def nth_list_update less_Suc_eq)

lemma filled_chain: "filled n rk \<Longrightarrow> n < length rk \<Longrightarrow> k < n \<Longrightarrow> l < n \<Longrightarrow> m = Suc n \<Longrightarrow>
    filled m (chain n k l rk)"
  unfolding chain_def by (intro filled_put W_xor_range filled_nth)

lemma length_chain [simp]: "length (chain j k l rk) = length rk"
  by (simp add: chain_def)

lemma word4_range: "word4 a b c d \<in> range W"
  using rangeI[of W "(a, b, c, d)"] by simp

lemma GETU32_word4: "GETU32 p i = word4 (p ! i) (p ! (i + 1)) (p ! (i + 2)) (p ! (i + 3))"
  by (simp add: GETU32_def word4_def)

lemma rot_word_range: "w \<in> range W \<Longrightarrow> rot_word w \<in> range W" "w \<in> range W \<Longrightarrow> sub_word w \<in> range W"
proof -
  assume "w \<in> range W"
  then obtain a b c d where w: "w = word4 a b c d"
    by auto
  show "rot_word w \<in> range W" "sub_word w \<in> range W"
    unfolding w rot_word_def sub_word_def word4_read unfolding Te_at unfolding word4_masks
    by (intro W_xor_range word4_range)+
qed

lemma rcon_range: "i < 10 \<Longrightarrow> rcon ! i \<in> range W"
proof -
  have "\<forall>w\<in>set rcon. w < 2 ^ 32" "length rcon = 10"
    by (simp_all add: rcon_def)
  moreover assume "i < 10"
  ultimately have "rcon ! i < 2 ^ 32"
    by (metis nth_mem)
  then show ?thesis
    using W_surj[of "rcon ! i"] by (metis rangeI)
qed

lemma first_word: "filled n rk \<Longrightarrow> n < length rk \<Longrightarrow> k < n \<Longrightarrow> l < n \<Longrightarrow> i < 10 \<Longrightarrow> m = Suc n \<Longrightarrow>
    filled m (rk[n := rk ! k XOR rot_word (rk ! l) XOR rcon ! i])"
  by (intro filled_put W_xor_range filled_nth rot_word_range rcon_range)

lemma middle_word: "filled n rk \<Longrightarrow> n < length rk \<Longrightarrow> k < n \<Longrightarrow> l < n \<Longrightarrow> m = Suc n \<Longrightarrow>
    filled m (rk[n := rk ! k XOR sub_word (rk ! l)])"
  by (intro filled_put W_xor_range filled_nth rot_word_range)

lemma length_key_steps [simp]:
  "length (key_step_128 i rk) = length rk" "length (key_step_192 i rk) = length rk" "length (key_step_256 i rk) = length rk"
  by (simp_all add: key_step_128_def key_step_192_def key_step_256_def Let_def)

lemma key_step_128_filled:
  assumes "filled (4 * i + 4) rk" "4 * i + 8 \<le> length rk" "i < 10"
  shows "filled (4 * i + 8) (key_step_128 i rk)"
  unfolding key_step_128_def Let_def
  by (rule filled_chain, rule filled_chain, rule filled_chain, rule first_word) (use assms in simp_all)

lemma key_step_192_filled:
  assumes "filled (6 * i + 6) rk" "6 * i + 10 \<le> length rk" "i < 8" "i = 7 \<or> 6 * i + 12 \<le> length rk"
  shows "filled (6 * i + (if i = 7 then 10 else 12)) (key_step_192 i rk)"
proof -
  have f: "filled (6 * i + 10) (chain (6 * i + 9) (6 * i + 3) (6 * i + 8) (chain (6 * i + 8) (6 * i + 2) (6 * i + 7)
      (chain (6 * i + 7) (6 * i + 1) (6 * i + 6)
        (rk[6 * i + 6 := rk ! (6 * i) XOR rot_word (rk ! (6 * i + 5)) XOR rcon ! i]))))" (is "filled _ ?r")
    by (rule filled_chain, rule filled_chain, rule filled_chain, rule first_word) (use assms in simp_all)
  have "filled (6 * i + 12) (chain (6 * i + 11) (6 * i + 5) (6 * i + 10)
      (chain (6 * i + 10) (6 * i + 4) (6 * i + 9) ?r))" if "i \<noteq> 7"
    by (rule filled_chain, rule filled_chain, rule f) (use assms that in simp_all)
  with f show ?thesis
    by (cases "i = 7") (simp_all add: key_step_192_def Let_def)
qed

lemma key_step_256_filled:
  assumes "filled (8 * i + 8) rk" "8 * i + 12 \<le> length rk" "i < 7" "i = 6 \<or> 8 * i + 16 \<le> length rk"
  shows "filled (8 * i + (if i = 6 then 12 else 16)) (key_step_256 i rk)"
proof -
  have f: "filled (8 * i + 12) (chain (8 * i + 11) (8 * i + 3) (8 * i + 10) (chain (8 * i + 10) (8 * i + 2) (8 * i + 9)
      (chain (8 * i + 9) (8 * i + 1) (8 * i + 8)
        (rk[8 * i + 8 := rk ! (8 * i) XOR rot_word (rk ! (8 * i + 7)) XOR rcon ! i]))))" (is "filled _ ?r")
    by (rule filled_chain, rule filled_chain, rule filled_chain, rule first_word) (use assms in simp_all)
  have "filled (8 * i + 16) (chain (8 * i + 15) (8 * i + 7) (8 * i + 14)
      (chain (8 * i + 14) (8 * i + 6) (8 * i + 13) (chain (8 * i + 13) (8 * i + 5) (8 * i + 12)
        (?r[8 * i + 12 := ?r ! (8 * i + 4) XOR sub_word (?r ! (8 * i + 11))]))))" if "i \<noteq> 6"
    by (rule filled_chain, rule filled_chain, rule filled_chain, rule middle_word, rule f) (use assms that in simp_all)
  with f show ?thesis
    by (cases "i = 6") (simp_all add: key_step_256_def Let_def)
qed

lemma fold_filled:
  assumes "filled (a 0) rk" "\<And>i r. i < n \<Longrightarrow> length r = length rk \<Longrightarrow> filled (a i) r \<Longrightarrow> filled (a (Suc i)) (f i r)"
    and "\<And>i r. length (f i r) = length r"
  shows "filled (a n) (fold f [0..<n] rk) \<and> length (fold f [0..<n] rk) = length rk"
  using assms by (induction n) auto

text \<open>Keys that the cipher knows, and the numbers of rounds.\<close>

definition rounds_of :: "nat \<Rightarrow> nat" where
  "rounds_of keybits = keybits div 32 + 6"

lemma aesSetupEncrypt_filled:
  assumes "keybits = 128 \<or> keybits = 192 \<or> keybits = 256" "4 * rounds_of keybits + 4 \<le> length rk"
  shows "\<exists>r. aesSetupEncrypt rk key keybits = (rounds_of keybits, r) \<and> filled (4 * rounds_of keybits + 4) r \<and> length r = length rk"
proof -
  have g: "GETU32 key i \<in> range W" for i
    by (simp add: GETU32_word4 word4_range)
  let ?r4 = "rk[0 := GETU32 key 0, Suc 0 := GETU32 key 4, 2 := GETU32 key 8, 3 := GETU32 key 12]"
  let ?r6 = "?r4[4 := GETU32 key 16, 5 := GETU32 key 20]"
  let ?r8 = "?r6[6 := GETU32 key 24, 7 := GETU32 key 28]"
  have r4: "filled 4 ?r4"
    using assms g by (intro filled_put[OF filled_put[OF filled_put[OF filled_put]]]) (auto simp: filled_def rounds_of_def)
  consider "keybits = 128" | "keybits = 192" | "keybits = 256"
    using assms(1) by blast
  then show ?thesis
  proof cases
    case 1
    have "filled (4 * 10 + 4) (fold key_step_128 [0..<10] ?r4) \<and> length (fold key_step_128 [0..<10] ?r4) = length ?r4"
    proof (rule fold_filled[where a = "\<lambda>i. 4 * i + 4"])
      fix i r
      assume "i < 10" "length r = length ?r4" "filled (4 * i + 4) r"
      then have "filled (4 * i + 8) (key_step_128 i r)"
        using key_step_128_filled assms(2) 1 by (simp add: rounds_of_def)
      then show "filled (4 * Suc i + 4) (key_step_128 i r)"
        by (simp add: add.commute)
    qed (use r4 in simp_all)
    then show ?thesis
      using 1 by (simp add: aesSetupEncrypt_def rounds_of_def)
  next
    case 2
    have r6: "filled 6 ?r6"
      using assms(2) g 2 by (intro filled_put[OF filled_put[OF r4]]) (auto simp: rounds_of_def)
    have "filled (if (8 :: nat) = 8 then 52 else 6 * 8 + 6) (fold key_step_192 [0..<8] ?r6) \<and>
        length (fold key_step_192 [0..<8] ?r6) = length ?r6"
    proof (rule fold_filled[where a = "\<lambda>i. if i = 8 then 52 else 6 * i + 6"])
      fix i r
      assume i: "i < 8" "length r = length ?r6" "filled (if i = 8 then 52 else 6 * i + 6) r"
      have "filled (6 * i + (if i = 7 then 10 else 12)) (key_step_192 i r)"
        using i assms(2) 2 by (intro key_step_192_filled) (auto simp: rounds_of_def)
      then show "filled (if Suc i = 8 then 52 else 6 * Suc i + 6) (key_step_192 i r)"
        using i(1) by (cases "i = 7") (simp_all add: add.commute)
    qed (use r6 in simp_all)
    then show ?thesis
      using 2 by (simp add: aesSetupEncrypt_def rounds_of_def)
  next
    case 3
    have r8: "filled 8 ?r8"
      using assms(2) g 3
      by (intro filled_put[OF filled_put[OF filled_put[OF filled_put[OF r4]]]]) (auto simp: rounds_of_def)
    have "filled (if (7 :: nat) = 7 then 60 else 8 * 7 + 8) (fold key_step_256 [0..<7] ?r8) \<and>
        length (fold key_step_256 [0..<7] ?r8) = length ?r8"
    proof (rule fold_filled[where a = "\<lambda>i. if i = 7 then 60 else 8 * i + 8"])
      fix i r
      assume i: "i < 7" "length r = length ?r8" "filled (if i = 7 then 60 else 8 * i + 8) r"
      have "filled (8 * i + (if i = 6 then 12 else 16)) (key_step_256 i r)"
        using i assms(2) 3 by (intro key_step_256_filled) (auto simp: rounds_of_def)
      then show "filled (if Suc i = 7 then 60 else 8 * Suc i + 8) (key_step_256 i r)"
        using i(1) by (cases "i = 6") (simp_all add: add.commute)
    qed (use r8 in simp_all)
    then show ?thesis
      using 3 by (simp add: aesSetupEncrypt_def rounds_of_def)
  qed
qed

text \<open>The decryption schedule: the rounds in reverse order, those inside through the inverse of the matrix.\<close>

lemma length_swap [simp]: "length (swap i j rk) = length rk"
  by (simp add: swap_def Let_def)

lemma swap_nth:
  "i < length rk \<Longrightarrow> j < length rk \<Longrightarrow> swap i j rk ! k = (if k = i then rk ! j else if k = j then rk ! i else rk ! k)"
  by (simp add: swap_def Let_def nth_list_update)

definition swap_round :: "nat \<Rightarrow> nat \<Rightarrow> ulong list \<Rightarrow> ulong list" where
  "swap_round a b rk = swap (4 * a + 3) (4 * b + 3) (swap (4 * a + 2) (4 * b + 2) (swap (4 * a + 1) (4 * b + 1) (swap (4 * a) (4 * b) rk)))"

lemma swap_round_nth:
  assumes "a < b" "4 * b + 4 \<le> length rk" "c < 4"
  shows "swap_round a b rk ! (4 * q + c) = rk ! (4 * (if q = a then b else if q = b then a else q) + c)"
proof -
  have eq: "4 * q + c = 4 * x + d \<longleftrightarrow> q = x \<and> c = d" if "d < 4" for x d
    using assms(3) that by presburger
  have c: "c = 0 \<or> c = 1 \<or> c = 2 \<or> c = 3"
    using assms(3) by linarith
  show ?thesis
    using assms(1,2) c eq[of 0] eq[of 1] eq[of 2] eq[of 3]
    by (elim disjE) (simp_all add: swap_round_def swap_nth)
qed

lemma swap_loop_rounds:
  assumes "4 * b + 4 \<le> length rk"
  shows "length (swap_loop (4 * a) (4 * b) rk) = length rk \<and> (\<forall>q c. c < 4 \<longrightarrow>
     swap_loop (4 * a) (4 * b) rk ! (4 * q + c) = rk ! (4 * (if a \<le> q \<and> q \<le> b then a + b - q else q) + c))"
  using assms
proof (induction "b - a" arbitrary: a b rk rule: less_induct)
  case less
  show ?case
  proof (cases "a < b")
    case False
    then have "a + b - q = q" if "a \<le> q" "q \<le> b" for q
      using that by simp
    then show ?thesis
      using False by (simp add: swap_loop.simps[of "4 * a"])
  next
    case True
    let ?rk = "swap_round a b rk"
    have len: "length ?rk = length rk"
      by (simp add: swap_round_def)
    have step: "swap_loop (4 * a) (4 * b) rk = swap_loop (4 * (a + 1)) (4 * (b - 1)) ?rk"
      using True by (subst swap_loop.simps) (simp add: swap_round_def diff_mult_distrib2 add.commute)
    have "length (swap_loop (4 * (a + 1)) (4 * (b - 1)) ?rk) = length ?rk \<and> (\<forall>q c. c < 4 \<longrightarrow>
        swap_loop (4 * (a + 1)) (4 * (b - 1)) ?rk ! (4 * q + c) =
        ?rk ! (4 * (if a + 1 \<le> q \<and> q \<le> b - 1 then a + 1 + (b - 1) - q else q) + c))"
      using True less(2) len by (intro less(1)) auto
    then show ?thesis
      using True less(2) unfolding step by (auto simp: len swap_round_nth)
  qed
qed

lemma inv_mix_step_nth:
  assumes "4 * i + 4 \<le> length rk" "c < 4"
  shows "inv_mix_step i rk ! (4 * q + c) = (if q = i then inv_mix (rk ! (4 * q + c)) else rk ! (4 * q + c))"
proof -
  have eq: "4 * q + c = 4 * i + d \<longleftrightarrow> q = i \<and> c = d" if "d < 4" for d
    using assms(2) that by presburger
  have c: "c = 0 \<or> c = 1 \<or> c = 2 \<or> c = 3"
    using assms(2) by linarith
  show ?thesis
    using assms(1) c eq[of 0] eq[of 1] eq[of 2] eq[of 3]
    by (elim disjE) (simp_all add: inv_mix_step_def Let_def nth_list_update)
qed

lemma length_inv_mix_step [simp]: "length (inv_mix_step i rk) = length rk"
  by (simp add: inv_mix_step_def Let_def)

lemma inv_mix_fold:
  assumes "4 * n \<le> length rk"
  shows "length (fold inv_mix_step [1..<n] rk) = length rk \<and> (\<forall>q c. c < 4 \<longrightarrow>
    fold inv_mix_step [1..<n] rk ! (4 * q + c) = (if 1 \<le> q \<and> q < n then inv_mix (rk ! (4 * q + c)) else rk ! (4 * q + c)))"
  using assms
proof (induction n)
  case (Suc n)
  then show ?case
    by (cases "n = 0") (auto simp: inv_mix_step_nth less_Suc_eq)
qed simp

lemma key_atI: "(\<And>c. c < 4 \<Longrightarrow> rk ! (i + c) \<in> range W) \<Longrightarrow> \<exists>k. key_at rk i k"
proof -
  assume r: "\<And>c. c < 4 \<Longrightarrow> rk ! (i + c) \<in> range W"
  obtain a b c d where "rk ! i = W a" "rk ! (i + 1) = W b" "rk ! (i + 2) = W c" "rk ! (i + 3) = W d"
    using r[of 0] r[of 1] r[of 2] r[of 3] by auto
  then have "key_at rk i (a, b, c, d)"
    by (simp add: key_at_def)
  then show ?thesis
    by blast
qed

lemma key_at_eq:
  assumes "key_at rk i k" "\<And>c. c < 4 \<Longrightarrow> rk' ! (j + c) = rk ! (i + c)"
  shows "key_at rk' j k"
  using assms(1) assms(2)[of 0] assms(2)[of 1] assms(2)[of 2] assms(2)[of 3] by (simp add: key_at_def)

lemma key_at_inv_mix:
  assumes "key_at rk i k" "\<And>c. c < 4 \<Longrightarrow> rk' ! (j + c) = inv_mix (rk ! (i + c))"
  shows "key_at rk' j (map4 imc k)"
  using assms(1) assms(2)[of 0] assms(2)[of 1] assms(2)[of 2] assms(2)[of 3]
  by (cases k) (simp add: key_at_def inv_mix_W del: imc.simps W.simps)

lemma aesSetupDecrypt_keys:
  assumes "keybits = 128 \<or> keybits = 192 \<or> keybits = 256" "4 * rounds_of keybits + 4 \<le> length rk"
  shows "\<exists>r d K. aesSetupEncrypt rk key keybits = (rounds_of keybits, r) \<and> aesSetupDecrypt rk key keybits = (rounds_of keybits, d) \<and>
    (\<forall>q\<le>rounds_of keybits. key_at r (4 * q) (K q)) \<and>
    (\<forall>q\<le>rounds_of keybits. key_at d (4 * q) (if q = 0 \<or> q = rounds_of keybits then K (rounds_of keybits - q)
       else map4 imc (K (rounds_of keybits - q))))"
proof -
  let ?n = "rounds_of keybits"
  obtain r where r: "aesSetupEncrypt rk key keybits = (?n, r)" "filled (4 * ?n + 4) r" "length r = length rk"
    using aesSetupEncrypt_filled[OF assms] by blast
  have "\<exists>k. key_at r (4 * q) k" if "q \<le> ?n" for q
    using that by (intro key_atI filled_nth[OF r(2)]) simp
  then obtain K where K: "\<And>q. q \<le> ?n \<Longrightarrow> key_at r (4 * q) (K q)"
    by metis
  let ?s = "swap_loop 0 (4 * ?n) r"
  let ?d = "fold inv_mix_step [1..<?n] ?s"
  have s: "length ?s = length r" "\<And>q c. c < 4 \<Longrightarrow> q \<le> ?n \<Longrightarrow> ?s ! (4 * q + c) = r ! (4 * (?n - q) + c)"
    using swap_loop_rounds[of ?n r 0] assms(2) r(3) by simp_all
  have d: "?d ! (4 * q + c) = (if q = 0 \<or> q = ?n then r ! (4 * (?n - q) + c) else inv_mix (r ! (4 * (?n - q) + c)))"
    if "c < 4" "q \<le> ?n" for q c
    using inv_mix_fold[of ?n ?s] assms(2) r(3) s(1) s(2)[OF that] s(2)[OF that(1), of 0] that by auto
  have "key_at ?d (4 * q) (if q = 0 \<or> q = ?n then K (?n - q) else map4 imc (K (?n - q)))" if "q \<le> ?n" for q
    using key_at_eq[OF K[of "?n - q"], of ?d "4 * q"] key_at_inv_mix[OF K[of "?n - q"], of ?d "4 * q"] d that by auto
  moreover have "aesSetupDecrypt rk key keybits = (?n, ?d)"
    by (simp add: aesSetupDecrypt_def r(1))
  ultimately show ?thesis
    using r(1) K by blast
qed

subsection \<open>Decrypting a block\<close>

fun bytes4 :: "col \<Rightarrow> bytes" where
  "bytes4 (a, b, c, d) = [a, b, c, d]"

fun bytes16 :: "cols \<Rightarrow> bytes" where
  "bytes16 (a, b, c, d) = bytes4 a @ bytes4 b @ bytes4 c @ bytes4 d"

definition cols_of :: "bytes \<Rightarrow> cols" where
  "cols_of p = ((p ! 0, p ! 1, p ! 2, p ! 3), (p ! 4, p ! 5, p ! 6, p ! 7), (p ! 8, p ! 9, p ! 10, p ! 11),
     (p ! 12, p ! 13, p ! 14, p ! 15))"

lemma cols_of_bytes16: "cols_of (bytes16 s) = s"
  by (cases s rule: sub_shift.cases) (simp add: cols_of_def)

lemma length_bytes16: "length (bytes16 s) = 16"
  by (cases s rule: sub_shift.cases) simp

lemma bytes16_cols_of: "length p = 16 \<Longrightarrow> bytes16 (cols_of p) = p"
  by (rule nth_equalityI) (auto simp: cols_of_def less_Suc_eq numeral_eq_Suc)

lemma PUTU32_W: "PUTU32 (W k) = bytes4 k"
  by (cases k) (simp add: PUTU32_def word4_put)

lemma key_atE:
  assumes "key_at rk i k"
  obtains k0 k1 k2 k3 where "k = (k0, k1, k2, k3)" "rk ! i = W k0" "rk ! (i + 1) = W k1" "rk ! (i + 2) = W k2" "rk ! (i + 3) = W k3"
proof -
  obtain k0 k1 k2 k3 where k: "k = (k0, k1, k2, k3)"
    by (metis prod_cases4)
  show ?thesis
    using assms unfolding key_at_def k by (intro that[OF k]) (simp_all only: W4.simps prod.inject)
qed

lemma add_key_W:
  assumes "key_at rk 0 k"
  shows "add_key p rk = W4 (xor16 (cols_of p) k)"
proof -
  obtain k0 k1 k2 k3 where k: "k = (k0, k1, k2, k3)" and r: "rk ! 0 = W k0" "rk ! 1 = W k1" "rk ! 2 = W k2" "rk ! 3 = W k3"
    by (rule key_atE[OF assms]) (simp add: numeral_2_eq_2)
  have g: "GETU32 p j = W (p ! j, p ! (j + 1), p ! (j + 2), p ! (j + 3))" for j
    by (simp add: GETU32_word4)
  show ?thesis
    unfolding add_key_def r g W_xor[symmetric] k cols_of_def by (simp add: numeral_2_eq_2)
qed

lemma last_words_W:
  assumes "key_at rk i k" "W4 s = (t0, t1, t2, t3)"
  shows "PUTU32 (last_word Te4 t0 t1 t2 t3 (rk ! i)) @ PUTU32 (last_word Te4 t1 t2 t3 t0 (rk ! (i + 1))) @
      PUTU32 (last_word Te4 t2 t3 t0 t1 (rk ! (i + 2))) @ PUTU32 (last_word Te4 t3 t0 t1 t2 (rk ! (i + 3))) =
      bytes16 (xor16 (sub_shift s) k)"
    and "PUTU32 (last_word Td4 t0 t3 t2 t1 (rk ! i)) @ PUTU32 (last_word Td4 t1 t0 t3 t2 (rk ! (i + 1))) @
      PUTU32 (last_word Td4 t2 t1 t0 t3 (rk ! (i + 2))) @ PUTU32 (last_word Td4 t3 t2 t1 t0 (rk ! (i + 3))) =
      bytes16 (xor16 (unshift_sub s) k)"
proof -
  obtain k0 k1 k2 k3 where k: "k = (k0, k1, k2, k3)"
    and r: "rk ! i = W k0" "rk ! (i + 1) = W k1" "rk ! (i + 2) = W k2" "rk ! (i + 3) = W k3"
    by (rule key_atE[OF assms(1)])
  obtain a0 a1 a2 a3 b0 b1 b2 b3 c0 c1 c2 c3 d0 d1 d2 d3 where
    s: "s = ((a0, a1, a2, a3), (b0, b1, b2, b3), (c0, c1, c2, c3), (d0, d1, d2, d3))"
    by (cases s rule: sub_shift.cases)
  have t: "t0 = word4 a0 a1 a2 a3" "t1 = word4 b0 b1 b2 b3" "t2 = word4 c0 c1 c2 c3" "t3 = word4 d0 d1 d2 d3"
    using assms(2) by (simp_all add: s)
  show "PUTU32 (last_word Te4 t0 t1 t2 t3 (rk ! i)) @ PUTU32 (last_word Te4 t1 t2 t3 t0 (rk ! (i + 1))) @
      PUTU32 (last_word Te4 t2 t3 t0 t1 (rk ! (i + 2))) @ PUTU32 (last_word Te4 t3 t0 t1 t2 (rk ! (i + 3))) =
      bytes16 (xor16 (sub_shift s) k)"
    unfolding r t last_word_W PUTU32_W by (simp only: s k sub_shift.simps xor16.simps bytes16.simps)
  show "PUTU32 (last_word Td4 t0 t3 t2 t1 (rk ! i)) @ PUTU32 (last_word Td4 t1 t0 t3 t2 (rk ! (i + 1))) @
      PUTU32 (last_word Td4 t2 t1 t0 t3 (rk ! (i + 2))) @ PUTU32 (last_word Td4 t3 t2 t1 t0 (rk ! (i + 3))) =
      bytes16 (xor16 (unshift_sub s) k)"
    unfolding r t last_word_W PUTU32_W by (simp only: s k unshift_sub.simps xor16.simps bytes16.simps)
qed

lemma full_rounds_fold:
  "n = 10 \<or> n = 12 \<or> n = 14 \<Longrightarrow> full_rounds f rk n s = fold (\<lambda>q. f rk (4 * q)) [1..<n] s"
proof -
  assume n: "n = 10 \<or> n = 12 \<or> n = 14"
  have "[1..<10] = [1, 2, 3, 4, 5, 6, 7, 8, 9 :: nat]"
    by code_simp
  moreover have "[1..<12] = [1..<10] @ [10, 11]" "[1..<14] = [1..<12] @ [12, 13]"
    by code_simp+
  ultimately show ?thesis
    using n by (elim disjE) (simp_all add: full_rounds_def Let_def del: upt_Suc One_nat_def)
qed

text \<open>The states of the encryption, with the keys \<open>K\<close>.\<close>

primrec state_after :: "(nat \<Rightarrow> cols) \<Rightarrow> cols \<Rightarrow> nat \<Rightarrow> cols" where
  "state_after K p 0 = xor16 p (K 0)"
| "state_after K p (Suc q) = xor16 (map4 mc (sub_shift (state_after K p q))) (K (Suc q))"

lemma enc_rounds_states:
  assumes "\<And>q. q < n \<Longrightarrow> key_at rk (4 * q) (K q)" "m < n"
  shows "fold (\<lambda>q. enc_round rk (4 * q)) [1..<Suc m] (W4 (xor16 p (K 0))) = W4 (state_after K p m)"
  using assms(2)
proof (induction m)
  case (Suc m)
  then show ?case
    using enc_round_W[OF assms(1)[of "Suc m"]] by simp
qed simp

lemma dec_rounds_states:
  assumes "\<And>q. 0 < q \<Longrightarrow> q < n \<Longrightarrow> key_at d (4 * q) (map4 imc (K (n - q)))" "m < n"
  shows "fold (\<lambda>q. dec_round d (4 * q)) [1..<Suc m] (W4 (sub_shift (state_after K p (n - 1)))) =
    W4 (sub_shift (state_after K p (n - 1 - m)))"
  using assms(2)
proof (induction m)
  case (Suc m)
  obtain q where q: "n - 1 - m = Suc q" "n - Suc m = Suc q"
    using Suc.prems by (metis Suc_diff_Suc diff_Suc_eq_diff_pred)
  then have "n - 1 - Suc m = q"
    by simp
  moreover have "key_at d (4 * Suc m) (map4 imc (K (Suc q)))"
    using assms(1)[of "Suc m"] Suc.prems q(2) by simp
  ultimately show ?case
    using Suc q(1) dec_enc_round[of d "4 * Suc m" "K (Suc q)"] by simp
qed simp

theorem aes_block_roundtrip:
  assumes "keybits = 128 \<or> keybits = 192 \<or> keybits = 256" "4 * rounds_of keybits + 4 \<le> length rk" "length p = 16"
    and "aesSetupEncrypt rk key keybits = (n, e)" "aesSetupDecrypt rk key keybits = (n', d)"
  shows "length (aesDoEncrypt e n p) = 16 \<and> aesDoDecrypt d n' (aesDoEncrypt e n p) = p"
proof -
  obtain K where n: "n = rounds_of keybits" "n' = n"
    and K: "\<And>q. q \<le> n \<Longrightarrow> key_at e (4 * q) (K q)"
    and D: "\<And>q. q \<le> n \<Longrightarrow> key_at d (4 * q) (if q = 0 \<or> q = n then K (n - q) else map4 imc (K (n - q)))"
    using aesSetupDecrypt_keys[OF assms(1,2), of key] assms(4,5) by auto
  have n3: "n = 10 \<or> n = 12 \<or> n = 14"
    using assms(1) n(1) by (auto simp: rounds_of_def)
  then have n1: "n - 1 < n" "Suc (n - 1) = n"
    by auto
  have D1: "key_at d (4 * q) (map4 imc (K (n - q)))" if "0 < q" "q < n" for q
    using D[of q] that by simp
  define s where "s = state_after K (cols_of p)"
  have "full_rounds enc_round e n (add_key p e) = W4 (s (n - 1))"
    using enc_rounds_states[of n e K "n - 1" "cols_of p"] K add_key_W[of e "K 0" p] K[of 0]
    unfolding full_rounds_fold[OF n3] n1(2) s_def using n1(1) by simp
  then have enc: "aesDoEncrypt e n p = bytes16 (xor16 (sub_shift (s (n - 1))) (K n))"
    using last_words_W(1)[OF K[of n], of "s (n - 1)"] by (cases "W4 (s (n - 1))") (simp add: aesDoEncrypt_def Let_def)
  have "add_key (aesDoEncrypt e n p) d = W4 (sub_shift (s (n - 1)))"
    using add_key_W[of d "K n"] D[of 0] n3 unfolding enc by (simp add: cols_of_bytes16 xor16_cancel)
  then have "full_rounds dec_round d n (add_key (aesDoEncrypt e n p) d) = W4 (sub_shift (s 0))"
    using dec_rounds_states[OF D1 n1(1), of "cols_of p"] unfolding full_rounds_fold[OF n3] n1(2) s_def by simp
  then have "aesDoDecrypt d n (aesDoEncrypt e n p) = bytes16 (xor16 (s 0) (K 0))"
    using last_words_W(2)[of d "4 * n" "K 0" "sub_shift (s 0)"] D[of n] n3
    by (cases "W4 (sub_shift (s 0))") (simp add: aesDoDecrypt_def Let_def unshift_sub_shift)
  then show ?thesis
    using assms(3) n(2) by (simp add: s_def xor16_cancel bytes16_cols_of enc length_bytes16)
qed

subsection \<open>Decrypting data\<close>

lemma padding:
  assumes "length xs < 16"
  shows "length (xs @ replicate (16 - length xs) (c :: u8)) = 16" "(xs @ replicate (16 - length xs) c) ! 15 = c"
  using assms by (simp_all add: nth_append)

lemma unat_small: "n \<le> 16 \<Longrightarrow> unat (word_of_nat n :: u8) = n"
  by (simp add: unsigned_of_nat take_bit_nat_eq_self)

lemma loops_roundtrip:
  assumes block: "\<And>p. length p = 16 \<Longrightarrow> length (aesDoEncrypt e n p) = 16 \<and> aesDoDecrypt d m (aesDoEncrypt e n p) = p"
    and "xs \<noteq> []" "int (16 * (length xs div 16 + 1)) \<le> room"
  shows "\<exists>ct. enc_loop e n xs room out = (Some (room - int (16 * (length xs div 16 + 1))), out @ ct) \<and>
    length ct = 16 * (length xs div 16 + 1) \<and>
    (\<forall>room' out'. int (length xs) \<le> room' \<longrightarrow> dec_loop d m ct room' out' = (Some (room' - int (length xs)), out' @ xs))"
  using assms(2,3)
proof (induction "length xs" arbitrary: xs room out rule: less_induct)
  case less
  note BLOCK_SIZE_def [simp]
  consider (short) "length xs < 16" | (full) "length xs = 16" | (long) "16 < length xs"
    by linarith
  then show ?case
  proof cases
    case short
    let ?p = "xs @ replicate (16 - length xs) (word_of_nat (16 - length xs))"
    let ?ct = "aesDoEncrypt e n ?p"
    have p: "length ?ct = 16" "aesDoDecrypt d m ?ct = ?p" "unat (?p ! 15) = 16 - length xs"
      using block[of ?p] padding[OF short] unat_small[of "16 - length xs"] by simp_all
    have "enc_loop e n xs room out = (Some (room - 16), out @ ?ct)"
      using less.prems short by (simp add: enc_loop.simps[of e n xs] enc_loop.simps[of e n "[]"] Let_def min_absorb1)
    moreover have "dec_loop d m ?ct room' out' = (Some (room' - int (length xs)), out' @ xs)"
      if "int (length xs) \<le> room'" for room' out'
    proof -
      have ne: "?ct \<noteq> []"
        using p(1) by auto
      show ?thesis
        using that less.prems(1) short p ne
        by (subst dec_loop.simps) (simp add: Let_def dec_loop.simps[of d m "[]"] del: append_eq_conv_conj)
    qed
    ultimately show ?thesis
      using short p(1) by (intro exI[of _ ?ct]) simp
  next
    case full
    let ?a = "aesDoEncrypt e n xs"
    let ?q = "replicate 16 (16 :: u8)"
    let ?b = "aesDoEncrypt e n ?q"
    have p: "length ?a = 16" "aesDoDecrypt d m ?a = xs" "length ?b = 16" "aesDoDecrypt d m ?b = ?q"
      using block[of xs] block[of ?q] full by simp_all
    have "enc_loop e n xs room out = (Some (room - 32), out @ ?a @ ?b)"
      using less.prems full by (simp add: enc_loop.simps[of e n xs] enc_loop.simps[of e n "[]"] Let_def)
    moreover have "dec_loop d m (?a @ ?b) room' out' = (Some (room' - 16), out' @ xs)" if "16 \<le> room'" for room' out'
    proof -
      have ne: "?a @ ?b \<noteq> []" "?b \<noteq> []"
        using p(1,3) by auto
      have "dec_loop d m (?a @ ?b) room' out' = dec_loop d m ?b (room' - 16) (out' @ xs)"
        using that p ne by (subst dec_loop.simps) (simp add: Let_def)
      also have "\<dots> = (Some (room' - 16), out' @ xs)"
        using that p ne by (subst dec_loop.simps) (simp add: Let_def dec_loop.simps[of d m "[]"])
      finally show ?thesis .
    qed
    ultimately show ?thesis
      using full p by (intro exI[of _ "?a @ ?b"]) simp
  next
    case long
    let ?p = "take 16 xs"
    let ?xs = "drop 16 xs"
    let ?a = "aesDoEncrypt e n ?p"
    have p: "length ?a = 16" "aesDoDecrypt d m ?a = ?p"
      using block[of ?p] long by simp_all
    have len: "length xs div 16 = Suc (length ?xs div 16)"
      using long by (simp add: le_div_geq)
    have "length ?xs < length xs" "?xs \<noteq> []" "int (16 * (length ?xs div 16 + 1)) \<le> room - 16"
      using long less.prems(2) len by simp_all
    from less.hyps[OF this, of "out @ ?a"] obtain ct where
      ct: "enc_loop e n ?xs (room - 16) (out @ ?a) = (Some (room - 16 - int (16 * (length ?xs div 16 + 1))), (out @ ?a) @ ct)"
        "length ct = 16 * (length ?xs div 16 + 1)"
        "\<And>room' out'. int (length ?xs) \<le> room' \<Longrightarrow> dec_loop d m ct room' out' = (Some (room' - int (length ?xs)), out' @ ?xs)"
      by blast
    have "enc_loop e n xs room out = enc_loop e n ?xs (room - 16) (out @ ?a)"
      using long less.prems by (subst enc_loop.simps) (simp add: Let_def)
    moreover have "dec_loop d m (?a @ ct) room' out' = (Some (room' - int (length xs)), out' @ xs)"
      if "int (length xs) \<le> room'" for room' out'
    proof -
      have ne: "?a \<noteq> []"
        using p(1) by auto
      have "dec_loop d m (?a @ ct) room' out' = dec_loop d m ct (room' - 16) (out' @ ?p)"
        using that long p ne ct(2) by (subst dec_loop.simps) (simp add: Let_def)
      then show ?thesis
        using ct(3)[of "room' - 16" "out' @ ?p"] that long by simp
    qed
    ultimately show ?thesis
      using ct(1,2) p(1) len by (intro exI[of _ "?a @ ct"]) simp
  qed
qed

text \<open>C27. What \<open>aesEncrypt\<close> makes of data that is not empty, \<open>aesDecrypt\<close> with the same password turns back into the data: with
  room for the padded data in the one and for the data in the other, both succeed, the encryption yields the next multiple
  of 16 bytes above the length, and the decryption the length and the data.\<close>

theorem aes_roundtrip:
  assumes "16 \<le> length password" "xs \<noteq> []" "int (16 * (length xs div 16 + 1)) \<le> room" "int (length xs) \<le> room'"
  shows "\<exists>ct. aesEncrypt room xs password = Some (int (16 * (length xs div 16 + 1)), ct) \<and>
    length ct = 16 * (length xs div 16 + 1) \<and> aesDecrypt room' ct password = Some (int (length xs), xs)"
proof -
  let ?key = "take 16 password"
  let ?rk = "replicate (RKLENGTH KEYBITS) 0 :: ulong list"
  have key: "mem_slice password 0 BLOCK_SIZE = Some ?key"
    using assms(1) by (simp add: mem_slice_def BLOCK_SIZE_def)
  have rk: "KEYBITS = 128 \<or> KEYBITS = 192 \<or> KEYBITS = 256" "4 * rounds_of KEYBITS + 4 \<le> length ?rk"
    by (simp_all add: rounds_of_def RKLENGTH_def KEYBITS_def)
  obtain n e where e: "aesSetupEncrypt ?rk ?key KEYBITS = (n, e)"
    by fastforce
  obtain m d where d: "aesSetupDecrypt ?rk ?key KEYBITS = (m, d)"
    by fastforce
  have "length (aesDoEncrypt e n p) = 16 \<and> aesDoDecrypt d m (aesDoEncrypt e n p) = p" if "length p = 16" for p
    by (rule aes_block_roundtrip[OF rk that e d])
  from loops_roundtrip[of e n d m, OF this assms(2,3), of "[]"] obtain ct where
    "enc_loop e n xs room [] = (Some (room - int (16 * (length xs div 16 + 1))), ct)"
    "length ct = 16 * (length xs div 16 + 1)"
    "dec_loop d m ct room' [] = (Some (room' - int (length xs)), xs)"
    using assms(4) by auto
  then show ?thesis
    by (intro exI[of _ ct]) (simp add: aesEncrypt_def aesDecrypt_def key e d)
qed

theorem aes_roundtrip_witness:
  "\<exists>ct. aesEncrypt 256 (replicate 26 65) (replicate 17 66) = Some (32, ct) \<and> length ct = 32 \<and>
     aesDecrypt 256 ct (replicate 17 66) = Some (26, replicate 26 65)"
  using aes_roundtrip[of "replicate 17 66" "replicate 26 65" 256 256] by simp

end
