(* ===== verification/Md5.thy ===== *)
theory Md5
  imports Prelude
begin

section \<open>MD5 (src/crypto/md5.h)\<close>

text \<open>
  The hash that the digest authentication of the RTSP client uses, with its incremental interface. The state holds the
  message length in bits as two words, the four registers and a block of 64 bytes that collects what does not fill a
  block. Words are read in little-endian order (the branch for big-endian machines spells out what the other branch gets
  from the memory layout).
\<close>

type_synonym quad = "u32 \<times> u32 \<times> u32 \<times> u32"

record md5_state =
  count0 :: u32
  count1 :: u32
  abcd :: quad
  buf :: bytes

definition T_MASK :: u32 where "T_MASK = NOT 0"

definition T_table :: "u32 list" where
  "T_table =
    [T_MASK XOR 0x28955b87, T_MASK XOR 0x173848a9, 0x242070db, T_MASK XOR 0x3e423111,
     T_MASK XOR 0x0a83f050, 0x4787c62a, T_MASK XOR 0x57cfb9ec, T_MASK XOR 0x02b96afe,
     0x698098d8, T_MASK XOR 0x74bb0850, T_MASK XOR 0x0000a44e, T_MASK XOR 0x76a32841,
     0x6b901122, T_MASK XOR 0x02678e6c, T_MASK XOR 0x5986bc71, 0x49b40821,
     T_MASK XOR 0x09e1da9d, T_MASK XOR 0x3fbf4cbf, 0x265e5a51, T_MASK XOR 0x16493855,
     T_MASK XOR 0x29d0efa2, 0x02441453, T_MASK XOR 0x275e197e, T_MASK XOR 0x182c0437,
     0x21e1cde6, T_MASK XOR 0x3cc8f829, T_MASK XOR 0x0b2af278, 0x455a14ed,
     T_MASK XOR 0x561c16fa, T_MASK XOR 0x03105c07, 0x676f02d9, T_MASK XOR 0x72d5b375,
     T_MASK XOR 0x0005c6bd, T_MASK XOR 0x788e097e, 0x6d9d6122, T_MASK XOR 0x021ac7f3,
     T_MASK XOR 0x5b4115bb, 0x4bdecfa9, T_MASK XOR 0x0944b49f, T_MASK XOR 0x4140438f,
     0x289b7ec6, T_MASK XOR 0x155ed805, T_MASK XOR 0x2b10cf7a, 0x04881d05,
     T_MASK XOR 0x262b2fc6, T_MASK XOR 0x1924661a, 0x1fa27cf8, T_MASK XOR 0x3b53a99a,
     T_MASK XOR 0x0bd6ddbb, 0x432aff97, T_MASK XOR 0x546bdc58, T_MASK XOR 0x036c5fc6,
     0x655b59c3, T_MASK XOR 0x70f3336d, T_MASK XOR 0x00100b82, T_MASK XOR 0x7a7ba22e,
     0x6fa87e4f, T_MASK XOR 0x01d3191f, T_MASK XOR 0x5cfebceb, 0x4e0811a1,
     T_MASK XOR 0x08ac817d, T_MASK XOR 0x42c50dca, 0x2ad7d2bb, T_MASK XOR 0x14792c6e]"

definition ZSW_MD5_T :: "nat \<Rightarrow> u32" where "ZSW_MD5_T i = T_table ! (i - 1)"

subsection \<open>One block\<close>

definition ROTATE_LEFT :: "u32 \<Rightarrow> nat \<Rightarrow> u32" where
  "ROTATE_LEFT x n = push_bit n x OR drop_bit (32 - n) x"

definition MD5_F :: "u32 \<Rightarrow> u32 \<Rightarrow> u32 \<Rightarrow> u32" where "MD5_F x y z = (x AND y) OR (NOT x AND z)"
definition MD5_G :: "u32 \<Rightarrow> u32 \<Rightarrow> u32 \<Rightarrow> u32" where "MD5_G x y z = (x AND z) OR (y AND NOT z)"
definition MD5_H :: "u32 \<Rightarrow> u32 \<Rightarrow> u32 \<Rightarrow> u32" where "MD5_H x y z = (x XOR y) XOR z"
definition MD5_I :: "u32 \<Rightarrow> u32 \<Rightarrow> u32 \<Rightarrow> u32" where "MD5_I x y z = y XOR (x OR NOT z)"

text \<open>The macro \<open>SET\<close>, which is defined anew for each round: the new value of its first argument.\<close>

definition SET :: "(u32 \<Rightarrow> u32 \<Rightarrow> u32 \<Rightarrow> u32) \<Rightarrow> u32 list \<Rightarrow> u32 \<Rightarrow> u32 \<Rightarrow> u32 \<Rightarrow> u32 \<Rightarrow> nat \<Rightarrow> nat \<Rightarrow> u32 \<Rightarrow> u32" where
  "SET f X a b c d k s Ti = (let t = a + f b c d + X ! k + Ti in ROTATE_LEFT t s + b)"

definition round_1 :: "u32 list \<Rightarrow> quad \<Rightarrow> quad" where
  "round_1 X = (\<lambda>(a, b, c, d).
    let a = SET MD5_F X a b c d 0 7 (ZSW_MD5_T 1);
        d = SET MD5_F X d a b c 1 12 (ZSW_MD5_T 2);
        c = SET MD5_F X c d a b 2 17 (ZSW_MD5_T 3);
        b = SET MD5_F X b c d a 3 22 (ZSW_MD5_T 4);
        a = SET MD5_F X a b c d 4 7 (ZSW_MD5_T 5);
        d = SET MD5_F X d a b c 5 12 (ZSW_MD5_T 6);
        c = SET MD5_F X c d a b 6 17 (ZSW_MD5_T 7);
        b = SET MD5_F X b c d a 7 22 (ZSW_MD5_T 8);
        a = SET MD5_F X a b c d 8 7 (ZSW_MD5_T 9);
        d = SET MD5_F X d a b c 9 12 (ZSW_MD5_T 10);
        c = SET MD5_F X c d a b 10 17 (ZSW_MD5_T 11);
        b = SET MD5_F X b c d a 11 22 (ZSW_MD5_T 12);
        a = SET MD5_F X a b c d 12 7 (ZSW_MD5_T 13);
        d = SET MD5_F X d a b c 13 12 (ZSW_MD5_T 14);
        c = SET MD5_F X c d a b 14 17 (ZSW_MD5_T 15);
        b = SET MD5_F X b c d a 15 22 (ZSW_MD5_T 16)
    in (a, b, c, d))"

definition round_2 :: "u32 list \<Rightarrow> quad \<Rightarrow> quad" where
  "round_2 X = (\<lambda>(a, b, c, d).
    let a = SET MD5_G X a b c d 1 5 (ZSW_MD5_T 17);
        d = SET MD5_G X d a b c 6 9 (ZSW_MD5_T 18);
        c = SET MD5_G X c d a b 11 14 (ZSW_MD5_T 19);
        b = SET MD5_G X b c d a 0 20 (ZSW_MD5_T 20);
        a = SET MD5_G X a b c d 5 5 (ZSW_MD5_T 21);
        d = SET MD5_G X d a b c 10 9 (ZSW_MD5_T 22);
        c = SET MD5_G X c d a b 15 14 (ZSW_MD5_T 23);
        b = SET MD5_G X b c d a 4 20 (ZSW_MD5_T 24);
        a = SET MD5_G X a b c d 9 5 (ZSW_MD5_T 25);
        d = SET MD5_G X d a b c 14 9 (ZSW_MD5_T 26);
        c = SET MD5_G X c d a b 3 14 (ZSW_MD5_T 27);
        b = SET MD5_G X b c d a 8 20 (ZSW_MD5_T 28);
        a = SET MD5_G X a b c d 13 5 (ZSW_MD5_T 29);
        d = SET MD5_G X d a b c 2 9 (ZSW_MD5_T 30);
        c = SET MD5_G X c d a b 7 14 (ZSW_MD5_T 31);
        b = SET MD5_G X b c d a 12 20 (ZSW_MD5_T 32)
    in (a, b, c, d))"

definition round_3 :: "u32 list \<Rightarrow> quad \<Rightarrow> quad" where
  "round_3 X = (\<lambda>(a, b, c, d).
    let a = SET MD5_H X a b c d 5 4 (ZSW_MD5_T 33);
        d = SET MD5_H X d a b c 8 11 (ZSW_MD5_T 34);
        c = SET MD5_H X c d a b 11 16 (ZSW_MD5_T 35);
        b = SET MD5_H X b c d a 14 23 (ZSW_MD5_T 36);
        a = SET MD5_H X a b c d 1 4 (ZSW_MD5_T 37);
        d = SET MD5_H X d a b c 4 11 (ZSW_MD5_T 38);
        c = SET MD5_H X c d a b 7 16 (ZSW_MD5_T 39);
        b = SET MD5_H X b c d a 10 23 (ZSW_MD5_T 40);
        a = SET MD5_H X a b c d 13 4 (ZSW_MD5_T 41);
        d = SET MD5_H X d a b c 0 11 (ZSW_MD5_T 42);
        c = SET MD5_H X c d a b 3 16 (ZSW_MD5_T 43);
        b = SET MD5_H X b c d a 6 23 (ZSW_MD5_T 44);
        a = SET MD5_H X a b c d 9 4 (ZSW_MD5_T 45);
        d = SET MD5_H X d a b c 12 11 (ZSW_MD5_T 46);
        c = SET MD5_H X c d a b 15 16 (ZSW_MD5_T 47);
        b = SET MD5_H X b c d a 2 23 (ZSW_MD5_T 48)
    in (a, b, c, d))"

definition round_4 :: "u32 list \<Rightarrow> quad \<Rightarrow> quad" where
  "round_4 X = (\<lambda>(a, b, c, d).
    let a = SET MD5_I X a b c d 0 6 (ZSW_MD5_T 49);
        d = SET MD5_I X d a b c 7 10 (ZSW_MD5_T 50);
        c = SET MD5_I X c d a b 14 15 (ZSW_MD5_T 51);
        b = SET MD5_I X b c d a 5 21 (ZSW_MD5_T 52);
        a = SET MD5_I X a b c d 12 6 (ZSW_MD5_T 53);
        d = SET MD5_I X d a b c 3 10 (ZSW_MD5_T 54);
        c = SET MD5_I X c d a b 10 15 (ZSW_MD5_T 55);
        b = SET MD5_I X b c d a 1 21 (ZSW_MD5_T 56);
        a = SET MD5_I X a b c d 8 6 (ZSW_MD5_T 57);
        d = SET MD5_I X d a b c 15 10 (ZSW_MD5_T 58);
        c = SET MD5_I X c d a b 6 15 (ZSW_MD5_T 59);
        b = SET MD5_I X b c d a 13 21 (ZSW_MD5_T 60);
        a = SET MD5_I X a b c d 4 6 (ZSW_MD5_T 61);
        d = SET MD5_I X d a b c 11 10 (ZSW_MD5_T 62);
        c = SET MD5_I X c d a b 2 15 (ZSW_MD5_T 63);
        b = SET MD5_I X b c d a 9 21 (ZSW_MD5_T 64)
    in (a, b, c, d))"

text \<open>The sixteen words of the block at \<open>data\<close>.\<close>

definition block_words :: "bytes \<Rightarrow> u32 list" where
  "block_words data =
     map (\<lambda>i. ucast (data ! (4 * i)) + push_bit 8 (ucast (data ! (4 * i + 1))) + push_bit 16 (ucast (data ! (4 * i + 2))) +
       push_bit 24 (ucast (data ! (4 * i + 3)))) [0..<16]"

definition md5_process :: "md5_state \<Rightarrow> bytes \<Rightarrow> md5_state" where
  "md5_process pms data =
     (let (a0, b0, c0, d0) = abcd pms;
          X = block_words data;
          (a, b, c, d) = round_4 X (round_3 X (round_2 X (round_1 X (a0, b0, c0, d0))))
      in pms\<lparr>abcd := (a0 + a, b0 + b, c0 + c, d0 + d)\<rparr>)"

subsection \<open>The incremental interface\<close>

definition md5_init :: "md5_state \<Rightarrow> md5_state" where
  "md5_init pms = pms\<lparr>count0 := 0, count1 := 0, abcd := (0x67452301, T_MASK XOR 0x10325476, T_MASK XOR 0x67452301, 0x10325476)\<rparr>"

text \<open>The loop over full blocks; \<open>p\<close> is what is left of the data.\<close>

function full_blocks :: "md5_state \<Rightarrow> bytes \<Rightarrow> md5_state \<times> bytes" where
  "full_blocks pms p = (if 64 \<le> length p then full_blocks (md5_process pms p) (drop 64 p) else (pms, p))"
  by pat_completeness auto
termination by (relation "measure (\<lambda>(_, p). length p)") auto

declare full_blocks.simps [simp del]

definition buf_store :: "nat \<Rightarrow> bytes \<Rightarrow> md5_state \<Rightarrow> md5_state" where
  "buf_store i xs pms = pms\<lparr>buf := take i (buf pms) @ xs @ drop (i + length xs) (buf pms)\<rparr>"

definition md5_append :: "md5_state \<Rightarrow> bytes \<Rightarrow> md5_state" where
  "md5_append pms data =
     (let nbytes = length data;
          offset = unat (drop_bit 3 (count0 pms) AND 63);
          nbits = (word_of_nat (nbytes * 8) :: u32)
      in if nbytes = 0 then pms
         else
           (let pms = pms\<lparr>count1 := count1 pms + word_of_nat (nbytes div 2 ^ 29)\<rparr>;
                pms = pms\<lparr>count0 := count0 pms + nbits\<rparr>;
                pms = (if count0 pms < nbits then pms\<lparr>count1 := count1 pms + 1\<rparr> else pms);
                copied = (if offset + nbytes > 64 then 64 - offset else nbytes)
            in if offset \<noteq> 0 \<and> offset + copied < 64 then buf_store offset (take copied data) pms
               else
                 (let (pms, p) =
                        (if offset \<noteq> 0 then
                           (let pms = buf_store offset (take copied data) pms in (md5_process pms (buf pms), drop copied data))
                         else (pms, data));
                      (pms, p) = full_blocks pms p
                  in if p \<noteq> [] then buf_store 0 p pms else pms)))"

definition pad :: bytes where "pad = 0x80 # replicate 63 0"

definition md5_finish :: "md5_state \<Rightarrow> bytes" where
  "md5_finish pms =
     (let data = map (\<lambda>i. ucast (drop_bit ((i mod 4) * 8) (if i div 4 = 0 then count0 pms else count1 pms))) [0..<8];
          pms = md5_append pms (take (unat ((55 - drop_bit 3 (count0 pms)) AND 63) + 1) pad);
          pms = md5_append pms data;
          (a, b, c, d) = abcd pms
      in map (\<lambda>i. ucast (drop_bit ((i mod 4) * 8) ([a, b, c, d] ! (i div 4)))) [0..<16])"

text \<open>The state of \<open>md5_hash_string\<close> is a local variable: its members hold arbitrary values before \<open>md5_init\<close>.\<close>

definition md5_hash_string :: "md5_state \<Rightarrow> bytes \<Rightarrow> bytes" where
  "md5_hash_string state s = md5_finish (md5_append (md5_init state) s)"

definition hexval :: bytes where
  "hexval = [48, 49, 50, 51, 52, 53, 54, 55, 56, 57, 97, 98, 99, 100, 101, 102]"

definition md5_hash_hex :: "md5_state \<Rightarrow> bytes \<Rightarrow> bytes" where
  "md5_hash_hex state input =
     concat (map (\<lambda>h. [hexval ! unat (drop_bit 4 h AND 0xF), hexval ! unat (h AND 0x0F)]) (md5_hash_string state input))"

subsection \<open>The algorithm of RFC 1321\<close>

text \<open>The sixty-four steps as a loop, the four words of the state rotating by one position in each.\<close>

definition rfc_T :: "u32 list" where
  "rfc_T =
    [0xd76aa478, 0xe8c7b756, 0x242070db, 0xc1bdceee, 0xf57c0faf, 0x4787c62a, 0xa8304613, 0xfd469501,
     0x698098d8, 0x8b44f7af, 0xffff5bb1, 0x895cd7be, 0x6b901122, 0xfd987193, 0xa679438e, 0x49b40821,
     0xf61e2562, 0xc040b340, 0x265e5a51, 0xe9b6c7aa, 0xd62f105d, 0x02441453, 0xd8a1e681, 0xe7d3fbc8,
     0x21e1cde6, 0xc33707d6, 0xf4d50d87, 0x455a14ed, 0xa9e3e905, 0xfcefa3f8, 0x676f02d9, 0x8d2a4c8a,
     0xfffa3942, 0x8771f681, 0x6d9d6122, 0xfde5380c, 0xa4beea44, 0x4bdecfa9, 0xf6bb4b60, 0xbebfbc70,
     0x289b7ec6, 0xeaa127fa, 0xd4ef3085, 0x04881d05, 0xd9d4d039, 0xe6db99e5, 0x1fa27cf8, 0xc4ac5665,
     0xf4292244, 0x432aff97, 0xab9423a7, 0xfc93a039, 0x655b59c3, 0x8f0ccc92, 0xffeff47d, 0x85845dd1,
     0x6fa87e4f, 0xfe2ce6e0, 0xa3014314, 0x4e0811a1, 0xf7537e82, 0xbd3af235, 0x2ad7d2bb, 0xeb86d391]"

definition rfc_f :: "nat \<Rightarrow> u32 \<Rightarrow> u32 \<Rightarrow> u32 \<Rightarrow> u32" where
  "rfc_f i b c d =
     (if i < 16 then (b AND c) OR (NOT b AND d)
      else if i < 32 then (b AND d) OR (c AND NOT d)
      else if i < 48 then b XOR c XOR d
      else c XOR (b OR NOT d))"

definition rfc_k :: "nat \<Rightarrow> nat" where
  "rfc_k i = (if i < 16 then i else if i < 32 then (5 * i + 1) mod 16 else if i < 48 then (3 * i + 5) mod 16 else 7 * i mod 16)"

definition rfc_s :: "nat \<Rightarrow> nat" where
  "rfc_s i = ([[7, 12, 17, 22], [5, 9, 14, 20], [4, 11, 16, 23], [6, 10, 15, 21]] ! (i div 16)) ! (i mod 4)"

definition rfc_step :: "u32 list \<Rightarrow> nat \<Rightarrow> quad \<Rightarrow> quad" where
  "rfc_step X i = (\<lambda>(a, b, c, d). (d, b + word_rotl (rfc_s i) (a + rfc_f i b c d + X ! rfc_k i + rfc_T ! i), b, c))"

definition rfc_block :: "bytes \<Rightarrow> quad \<Rightarrow> quad" where
  "rfc_block data = (\<lambda>(a0, b0, c0, d0).
     let (a, b, c, d) = fold (rfc_step (map (\<lambda>i. of_le (take 4 (drop (4 * i) data))) [0..<16])) [0..<64] (a0, b0, c0, d0)
     in (a0 + a, b0 + b, c0 + c, d0 + d))"

text \<open>The message, a one bit, zeros up to 56 bytes beyond a multiple of 64, and the length in bits.\<close>

definition rfc_padded :: "bytes \<Rightarrow> bytes" where
  "rfc_padded m =
     m @ [0x80] @ replicate (nat ((55 - int (length m)) mod 64)) 0 @ le64 (word_of_nat (8 * length m))"

definition rfc_init :: quad where "rfc_init = (0x67452301, 0xefcdab89, 0x98badcfe, 0x10325476)"

text \<open>The blocks of a message that ends on a block's end; what is left over else does not count.\<close>

definition rfc_blocks :: "bytes \<Rightarrow> quad" where
  "rfc_blocks m = fold (\<lambda>j. rfc_block (take 64 (drop (64 * j) m))) [0..<length m div 64] rfc_init"

definition rfc_md5 :: "bytes \<Rightarrow> bytes" where
  "rfc_md5 m = (let (a, b, c, d) = rfc_blocks (rfc_padded m) in le32 a @ le32 b @ le32 c @ le32 d)"

subsection \<open>The unrolled rounds are the loop\<close>

lemma T_table_rfc: "T_table = rfc_T"
  unfolding T_table_def rfc_T_def T_MASK_def by simp

lemma ROTATE_LEFT_rotl: "0 < n \<Longrightarrow> n < 32 \<Longrightarrow> ROTATE_LEFT x n = word_rotl n x"
proof (rule bit_word_eqI)
  fix i assume "0 < n" "n < 32" and "i < LENGTH(32)"
  then have i: "i < 32"
    by simp
  have "(i + 32 - n) mod 32 = (if n \<le> i then i - n else 32 + i - n)"
    using i \<open>n < 32\<close> by (cases "n \<le> i") (simp_all add: mod_if add.commute)
  moreover have "\<not> bit x (32 + i - n)" if "n \<le> i"
    using that bit_imp_le_length[of x "32 + i - n"] by auto
  ultimately show "bit (ROTATE_LEFT x n) i = bit (word_rotl n x) i"
    using i \<open>n < 32\<close> by (auto simp: ROTATE_LEFT_def bit_simps bit_word_rotl_iff)
qed

definition rfc_new :: "u32 list \<Rightarrow> nat \<Rightarrow> u32 \<Rightarrow> u32 \<Rightarrow> u32 \<Rightarrow> u32 \<Rightarrow> u32" where
  "rfc_new X i a b c d = b + word_rotl (rfc_s i) (a + rfc_f i b c d + X ! rfc_k i + rfc_T ! i)"

lemma four_steps: "fold (rfc_step X) [i, j, k, l] (a, b, c, d) =
    (let a = rfc_new X i a b c d; d = rfc_new X j d a b c; c = rfc_new X k c d a b; b = rfc_new X l b c d a in (a, b, c, d))"
  by (simp add: rfc_step_def rfc_new_def Let_def)

lemma fold_Let: "fold f xs (let x = e in h x) = (let x = e in fold f xs (h x))"
  by (simp add: Let_def)

lemma rfc_s_range: "i < 64 \<Longrightarrow> 0 < rfc_s i \<and> rfc_s i < 32"
proof -
  have "list_all (\<lambda>i. 0 < rfc_s i \<and> rfc_s i < 32) [0..<64]"
    by code_simp
  then show "i < 64 \<Longrightarrow> 0 < rfc_s i \<and> rfc_s i < 32"
    unfolding list_all_iff by simp
qed

lemma SET_new:
  assumes "i < 64" "f b c d = rfc_f i b c d"
  shows "rfc_new X i a b c d = SET f X a b c d (rfc_k i) (rfc_s i) (ZSW_MD5_T (i + 1))"
  using rfc_s_range[OF assms(1)] assms(2)
  by (simp add: rfc_new_def SET_def Let_def ROTATE_LEFT_rotl ZSW_MD5_T_def T_table_rfc add.commute)

lemma SET_1: "i < 16 \<Longrightarrow> rfc_new X i a b c d = SET MD5_F X a b c d (rfc_k i) (rfc_s i) (ZSW_MD5_T (i + 1))"
  by (rule SET_new) (simp_all add: rfc_f_def MD5_F_def)

lemma SET_2: "16 \<le> i \<Longrightarrow> i < 32 \<Longrightarrow> rfc_new X i a b c d = SET MD5_G X a b c d (rfc_k i) (rfc_s i) (ZSW_MD5_T (i + 1))"
  by (rule SET_new) (simp_all add: rfc_f_def MD5_G_def)

lemma SET_3: "32 \<le> i \<Longrightarrow> i < 48 \<Longrightarrow> rfc_new X i a b c d = SET MD5_H X a b c d (rfc_k i) (rfc_s i) (ZSW_MD5_T (i + 1))"
  by (rule SET_new) (simp_all add: rfc_f_def MD5_H_def xor.assoc)

lemma SET_4: "48 \<le> i \<Longrightarrow> i < 64 \<Longrightarrow> rfc_new X i a b c d = SET MD5_I X a b c d (rfc_k i) (rfc_s i) (ZSW_MD5_T (i + 1))"
  by (rule SET_new) (simp_all add: rfc_f_def MD5_I_def)

lemma new_1:
  "rfc_new X 0 a b c d = SET MD5_F X a b c d 0 7 (ZSW_MD5_T 1)"
  "rfc_new X 1 a b c d = SET MD5_F X a b c d 1 12 (ZSW_MD5_T 2)"
  "rfc_new X 2 a b c d = SET MD5_F X a b c d 2 17 (ZSW_MD5_T 3)"
  "rfc_new X 3 a b c d = SET MD5_F X a b c d 3 22 (ZSW_MD5_T 4)"
  "rfc_new X 4 a b c d = SET MD5_F X a b c d 4 7 (ZSW_MD5_T 5)"
  "rfc_new X 5 a b c d = SET MD5_F X a b c d 5 12 (ZSW_MD5_T 6)"
  "rfc_new X 6 a b c d = SET MD5_F X a b c d 6 17 (ZSW_MD5_T 7)"
  "rfc_new X 7 a b c d = SET MD5_F X a b c d 7 22 (ZSW_MD5_T 8)"
  "rfc_new X 8 a b c d = SET MD5_F X a b c d 8 7 (ZSW_MD5_T 9)"
  "rfc_new X 9 a b c d = SET MD5_F X a b c d 9 12 (ZSW_MD5_T 10)"
  "rfc_new X 10 a b c d = SET MD5_F X a b c d 10 17 (ZSW_MD5_T 11)"
  "rfc_new X 11 a b c d = SET MD5_F X a b c d 11 22 (ZSW_MD5_T 12)"
  "rfc_new X 12 a b c d = SET MD5_F X a b c d 12 7 (ZSW_MD5_T 13)"
  "rfc_new X 13 a b c d = SET MD5_F X a b c d 13 12 (ZSW_MD5_T 14)"
  "rfc_new X 14 a b c d = SET MD5_F X a b c d 14 17 (ZSW_MD5_T 15)"
  "rfc_new X 15 a b c d = SET MD5_F X a b c d 15 22 (ZSW_MD5_T 16)"
  by (simp_all add: SET_1 rfc_k_def rfc_s_def del: One_nat_def)

lemma round_1_steps: "fold (rfc_step X) ([0, 1, 2, 3] @ [4, 5, 6, 7] @ [8, 9, 10, 11] @ [12, 13, 14, 15]) st = round_1 X st"
proof (cases st)
  case (fields a b c d)
  show ?thesis
    unfolding fields round_1_def case_prod_conv fold_append comp_apply four_steps fold_Let
    by (simp only: new_1)
qed

lemma new_2:
  "rfc_new X 16 a b c d = SET MD5_G X a b c d 1 5 (ZSW_MD5_T 17)"
  "rfc_new X 17 a b c d = SET MD5_G X a b c d 6 9 (ZSW_MD5_T 18)"
  "rfc_new X 18 a b c d = SET MD5_G X a b c d 11 14 (ZSW_MD5_T 19)"
  "rfc_new X 19 a b c d = SET MD5_G X a b c d 0 20 (ZSW_MD5_T 20)"
  "rfc_new X 20 a b c d = SET MD5_G X a b c d 5 5 (ZSW_MD5_T 21)"
  "rfc_new X 21 a b c d = SET MD5_G X a b c d 10 9 (ZSW_MD5_T 22)"
  "rfc_new X 22 a b c d = SET MD5_G X a b c d 15 14 (ZSW_MD5_T 23)"
  "rfc_new X 23 a b c d = SET MD5_G X a b c d 4 20 (ZSW_MD5_T 24)"
  "rfc_new X 24 a b c d = SET MD5_G X a b c d 9 5 (ZSW_MD5_T 25)"
  "rfc_new X 25 a b c d = SET MD5_G X a b c d 14 9 (ZSW_MD5_T 26)"
  "rfc_new X 26 a b c d = SET MD5_G X a b c d 3 14 (ZSW_MD5_T 27)"
  "rfc_new X 27 a b c d = SET MD5_G X a b c d 8 20 (ZSW_MD5_T 28)"
  "rfc_new X 28 a b c d = SET MD5_G X a b c d 13 5 (ZSW_MD5_T 29)"
  "rfc_new X 29 a b c d = SET MD5_G X a b c d 2 9 (ZSW_MD5_T 30)"
  "rfc_new X 30 a b c d = SET MD5_G X a b c d 7 14 (ZSW_MD5_T 31)"
  "rfc_new X 31 a b c d = SET MD5_G X a b c d 12 20 (ZSW_MD5_T 32)"
  by (simp_all add: SET_2 rfc_k_def rfc_s_def)

lemma round_2_steps: "fold (rfc_step X) ([16, 17, 18, 19] @ [20, 21, 22, 23] @ [24, 25, 26, 27] @ [28, 29, 30, 31]) st = round_2 X st"
proof (cases st)
  case (fields a b c d)
  show ?thesis
    unfolding fields round_2_def case_prod_conv fold_append comp_apply four_steps fold_Let
    by (simp only: new_2)
qed

lemma new_3:
  "rfc_new X 32 a b c d = SET MD5_H X a b c d 5 4 (ZSW_MD5_T 33)"
  "rfc_new X 33 a b c d = SET MD5_H X a b c d 8 11 (ZSW_MD5_T 34)"
  "rfc_new X 34 a b c d = SET MD5_H X a b c d 11 16 (ZSW_MD5_T 35)"
  "rfc_new X 35 a b c d = SET MD5_H X a b c d 14 23 (ZSW_MD5_T 36)"
  "rfc_new X 36 a b c d = SET MD5_H X a b c d 1 4 (ZSW_MD5_T 37)"
  "rfc_new X 37 a b c d = SET MD5_H X a b c d 4 11 (ZSW_MD5_T 38)"
  "rfc_new X 38 a b c d = SET MD5_H X a b c d 7 16 (ZSW_MD5_T 39)"
  "rfc_new X 39 a b c d = SET MD5_H X a b c d 10 23 (ZSW_MD5_T 40)"
  "rfc_new X 40 a b c d = SET MD5_H X a b c d 13 4 (ZSW_MD5_T 41)"
  "rfc_new X 41 a b c d = SET MD5_H X a b c d 0 11 (ZSW_MD5_T 42)"
  "rfc_new X 42 a b c d = SET MD5_H X a b c d 3 16 (ZSW_MD5_T 43)"
  "rfc_new X 43 a b c d = SET MD5_H X a b c d 6 23 (ZSW_MD5_T 44)"
  "rfc_new X 44 a b c d = SET MD5_H X a b c d 9 4 (ZSW_MD5_T 45)"
  "rfc_new X 45 a b c d = SET MD5_H X a b c d 12 11 (ZSW_MD5_T 46)"
  "rfc_new X 46 a b c d = SET MD5_H X a b c d 15 16 (ZSW_MD5_T 47)"
  "rfc_new X 47 a b c d = SET MD5_H X a b c d 2 23 (ZSW_MD5_T 48)"
  by (simp_all add: SET_3 rfc_k_def rfc_s_def)

lemma round_3_steps: "fold (rfc_step X) ([32, 33, 34, 35] @ [36, 37, 38, 39] @ [40, 41, 42, 43] @ [44, 45, 46, 47]) st = round_3 X st"
proof (cases st)
  case (fields a b c d)
  show ?thesis
    unfolding fields round_3_def case_prod_conv fold_append comp_apply four_steps fold_Let
    by (simp only: new_3)
qed

lemma new_4:
  "rfc_new X 48 a b c d = SET MD5_I X a b c d 0 6 (ZSW_MD5_T 49)"
  "rfc_new X 49 a b c d = SET MD5_I X a b c d 7 10 (ZSW_MD5_T 50)"
  "rfc_new X 50 a b c d = SET MD5_I X a b c d 14 15 (ZSW_MD5_T 51)"
  "rfc_new X 51 a b c d = SET MD5_I X a b c d 5 21 (ZSW_MD5_T 52)"
  "rfc_new X 52 a b c d = SET MD5_I X a b c d 12 6 (ZSW_MD5_T 53)"
  "rfc_new X 53 a b c d = SET MD5_I X a b c d 3 10 (ZSW_MD5_T 54)"
  "rfc_new X 54 a b c d = SET MD5_I X a b c d 10 15 (ZSW_MD5_T 55)"
  "rfc_new X 55 a b c d = SET MD5_I X a b c d 1 21 (ZSW_MD5_T 56)"
  "rfc_new X 56 a b c d = SET MD5_I X a b c d 8 6 (ZSW_MD5_T 57)"
  "rfc_new X 57 a b c d = SET MD5_I X a b c d 15 10 (ZSW_MD5_T 58)"
  "rfc_new X 58 a b c d = SET MD5_I X a b c d 6 15 (ZSW_MD5_T 59)"
  "rfc_new X 59 a b c d = SET MD5_I X a b c d 13 21 (ZSW_MD5_T 60)"
  "rfc_new X 60 a b c d = SET MD5_I X a b c d 4 6 (ZSW_MD5_T 61)"
  "rfc_new X 61 a b c d = SET MD5_I X a b c d 11 10 (ZSW_MD5_T 62)"
  "rfc_new X 62 a b c d = SET MD5_I X a b c d 2 15 (ZSW_MD5_T 63)"
  "rfc_new X 63 a b c d = SET MD5_I X a b c d 9 21 (ZSW_MD5_T 64)"
  by (simp_all add: SET_4 rfc_k_def rfc_s_def)

lemma round_4_steps: "fold (rfc_step X) ([48, 49, 50, 51] @ [52, 53, 54, 55] @ [56, 57, 58, 59] @ [60, 61, 62, 63]) st = round_4 X st"
proof (cases st)
  case (fields a b c d)
  show ?thesis
    unfolding fields round_4_def case_prod_conv fold_append comp_apply four_steps fold_Let
    by (simp only: new_4)
qed

lemma upt_64: "[0..<64] =
    ([0, 1, 2, 3] @ [4, 5, 6, 7] @ [8, 9, 10, 11] @ [12, 13, 14, 15]) @ ([16, 17, 18, 19] @ [20, 21, 22, 23] @ [24, 25, 26, 27] @ [28, 29, 30, 31]) @
    ([32, 33, 34, 35] @ [36, 37, 38, 39] @ [40, 41, 42, 43] @ [44, 45, 46, 47]) @
    ([48, 49, 50, 51] @ [52, 53, 54, 55] @ [56, 57, 58, 59] @ [60, 61, 62, 63 :: nat])"
  by code_simp

lemma rounds_are_steps: "round_4 X (round_3 X (round_2 X (round_1 X st))) = fold (rfc_step X) [0..<64] st"
  unfolding upt_64 round_1_steps [symmetric] round_2_steps [symmetric] round_3_steps [symmetric] round_4_steps [symmetric]
    fold_append comp_apply ..

text \<open>The words of a block: the sum of shifted bytes is the little-endian word.\<close>

lemma word_of_bytes: "ucast a + push_bit 8 (ucast b) + push_bit 16 (ucast c) + push_bit 24 (ucast d) = (of_le [a, b, c, d] :: u32)"
  for a b c d :: u8
proof -
  have "ucast a + push_bit 8 (ucast b) = (ucast a OR push_bit 8 (ucast b) :: u32)"
    by (rule disjunctive_add) (auto simp: bit_simps dest: bit_imp_le_length)
  moreover have "(ucast a OR push_bit 8 (ucast b)) + push_bit 16 (ucast c) = ((ucast a OR push_bit 8 (ucast b)) OR push_bit 16 (ucast c) :: u32)"
    by (rule disjunctive_add) (auto simp: bit_simps dest: bit_imp_le_length)
  moreover have "((ucast a OR push_bit 8 (ucast b)) OR push_bit 16 (ucast c)) + push_bit 24 (ucast d) =
      (((ucast a OR push_bit 8 (ucast b)) OR push_bit 16 (ucast c)) OR push_bit 24 (ucast d) :: u32)"
    by (rule disjunctive_add) (auto simp: bit_simps dest: bit_imp_le_length)
  moreover have "((ucast a OR push_bit 8 (ucast b)) OR push_bit 16 (ucast c)) OR push_bit 24 (ucast d) = (of_le [a, b, c, d] :: u32)"
    by (simp add: push_bit_or push_bit_push_bit or.assoc)
  ultimately show ?thesis
    by (simp only:)
qed

lemma take_4: "4 \<le> length xs \<Longrightarrow> take 4 xs = [xs ! 0, xs ! 1, xs ! 2, xs ! 3]"
  by (auto simp: numeral_eq_Suc Suc_le_length_iff)

lemma block_words_of_le: "64 \<le> length data \<Longrightarrow> block_words data = map (\<lambda>i. of_le (take 4 (drop (4 * i) data))) [0..<16]"
proof -
  assume *: "64 \<le> length data"
  have "take 4 (drop (4 * i) data) = [data ! (4 * i), data ! (4 * i + 1), data ! (4 * i + 2), data ! (4 * i + 3)]" if "i < 16" for i
    using that * take_4[of "drop (4 * i) data"] by simp
  then show ?thesis
    unfolding block_words_def by (intro map_cong refl) (simp only: word_of_bytes set_upt atLeastLessThan_iff)
qed

lemma md5_process_rfc: "64 \<le> length data \<Longrightarrow> md5_process pms data = pms\<lparr>abcd := rfc_block data (abcd pms)\<rparr>"
  by (cases "abcd pms") (simp add: md5_process_def rfc_block_def rounds_are_steps block_words_of_le split: prod.split)

lemma rfc_block_take: "64 \<le> length data \<Longrightarrow> rfc_block (take 64 data) = rfc_block data"
proof -
  have "map (\<lambda>i. of_le (take 4 (drop (4 * i) (take 64 data)))) [0..<16] = (map (\<lambda>i. of_le (take 4 (drop (4 * i) data))) [0..<16] :: u32 list)"
    by (rule map_cong) (auto simp: drop_take min_def)
  then show ?thesis
    unfolding rfc_block_def by (simp only:)
qed

subsection \<open>The state represents a message\<close>

text \<open>What the state says about the message appended so far; the rest of the block holds stale bytes.\<close>

definition md5_rep :: "bytes \<Rightarrow> md5_state \<Rightarrow> bool" where
  "md5_rep m st \<longleftrightarrow>
     count0 st = word_of_nat (8 * length m) \<and> count1 st = word_of_nat (8 * length m div 2 ^ 32) \<and>
     abcd st = rfc_blocks m \<and> length (buf st) = 64 \<and>
     take (length m mod 64) (buf st) = drop (64 * (length m div 64)) m"

lemma rfc_blocks_block:
  assumes "length m mod 64 = 0" "64 \<le> length b"
  shows "rfc_blocks (m @ take 64 b) = rfc_block b (rfc_blocks m)"
proof -
  obtain k where k: "length m = 64 * k"
    using assms(1) by (auto simp: mod_eq_0_iff_dvd elim: dvdE)
  have "fold (\<lambda>j. rfc_block (take 64 (drop (64 * j) (m @ take 64 b)))) [0..<k] rfc_init =
      fold (\<lambda>j. rfc_block (take 64 (drop (64 * j) m))) [0..<k] rfc_init"
    by (rule fold_cong) (auto simp: k)
  then show ?thesis
    using assms(2) rfc_block_take[OF assms(2)] by (simp add: rfc_blocks_def k)
qed

lemma rfc_blocks_rest:
  assumes "length m mod 64 = 0" "length r < 64"
  shows "rfc_blocks (m @ r) = rfc_blocks m"
proof -
  obtain k where k: "length m = 64 * k"
    using assms(1) by (auto simp: mod_eq_0_iff_dvd elim: dvdE)
  have "fold (\<lambda>j. rfc_block (take 64 (drop (64 * j) (m @ r)))) [0..<k] rfc_init =
      fold (\<lambda>j. rfc_block (take 64 (drop (64 * j) m))) [0..<k] rfc_init"
    by (rule fold_cong) (auto simp: k)
  then show ?thesis
    using assms(2) by (simp add: rfc_blocks_def k)
qed

lemma full_blocks_eq:
  assumes "length m mod 64 = 0" "abcd pms = rfc_blocks m"
  shows "full_blocks pms p = (pms\<lparr>abcd := rfc_blocks (m @ p)\<rparr>, drop (64 * (length p div 64)) p)"
  using assms
proof (induction pms p arbitrary: m rule: full_blocks.induct)
  case (1 pms p)
  show ?case
  proof (cases "64 \<le> length p")
    case True
    let ?pms = "md5_process pms p"
    have a: "abcd ?pms = rfc_blocks (m @ take 64 p)"
      using True by (simp add: md5_process_rfc rfc_blocks_block 1)
    have l: "length (m @ take 64 p) mod 64 = 0"
      using True 1(2) by simp
    have "length p div 64 = length (drop 64 p) div 64 + 1"
      using True by (simp add: le_div_geq)
    then show ?thesis
      using 1(1)[OF True l a] True
      by (subst full_blocks.simps) (simp add: md5_process_rfc add.commute)
  next
    case False
    with 1 show ?thesis
      by (subst full_blocks.simps) (simp add: rfc_blocks_rest)
  qed
qed

text \<open>The counters.\<close>

lemma unat_count: "unat (word_of_nat N :: u32) = N mod 2 ^ 32"
  by (simp add: unat_of_nat)

lemma low_6_bits: "unat (w AND 63) = unat w mod 64" for w :: u32
proof -
  have "w AND 63 = take_bit 6 w"
    by (simp add: take_bit_eq_mask mask_eq_exp_minus_1)
  then have "unat (w AND 63) = take_bit 6 (unat w)"
    by (simp only: unsigned_take_bit_eq)
  then show ?thesis
    by (simp add: take_bit_eq_mod)
qed

lemma count_offset: "unat (drop_bit 3 (word_of_nat (8 * L) :: u32) AND 63) = L mod 64"
proof -
  have "unat (drop_bit 3 (word_of_nat (8 * L) :: u32) AND 63) = (8 * L) mod 2 ^ 32 div 8 mod 64"
    unfolding low_6_bits unsigned_drop_bit_eq unat_count by (simp add: drop_bit_eq_div take_bit_eq_mod)
  also have "8 * L mod 2 ^ 32 = 8 * (L mod 2 ^ 29)"
    using mult_mod_right[of 8 L "2 ^ 29"] by simp
  also have "8 * (L mod 2 ^ 29) div 8 mod 64 = L mod 64"
    by (simp add: mod_mod_cancel)
  finally show ?thesis .
qed

lemma carry_iff: "a < M \<Longrightarrow> b < M \<Longrightarrow> (a + b) mod M < b \<longleftrightarrow> M \<le> a + b" for a b M :: nat
  by (cases "a + b < M") (auto simp: mod_if)

lemma count_carry:
  "(word_of_nat x + word_of_nat y < (word_of_nat y :: u32)) \<longleftrightarrow> 2 ^ 32 \<le> x mod 2 ^ 32 + y mod 2 ^ 32"
  unfolding word_less_nat_alt of_nat_add [symmetric] unat_count mod_add_eq [symmetric, of x]
  by (rule carry_iff) simp_all

lemma div_add_carry: "0 < M \<Longrightarrow> (x + y) div M = x div M + y div M + (if M \<le> x mod M + y mod M then 1 else 0)" for x y M :: nat
proof -
  assume M: "0 < M"
  have "x mod M + y mod M < 2 * M"
    using mod_less_divisor[OF M, of x] mod_less_divisor[OF M, of y] by linarith
  then have "(x mod M + y mod M) div M = (if M \<le> x mod M + y mod M then 1 else 0)"
    using M by (auto simp: le_div_geq)
  then show ?thesis
    by (simp only: div_add1_eq[of x y M])
qed

lemma count_high:
  "8 * (L + n) div 2 ^ 32 =
     8 * L div 2 ^ 32 + n div 2 ^ 29 + (if 2 ^ 32 \<le> 8 * L mod 2 ^ 32 + 8 * n mod 2 ^ 32 then 1 else 0 :: nat)"
proof -
  have "n div 2 ^ 29 = 8 * n div 2 ^ 32"
    by simp
  then show ?thesis
    using div_add_carry[of "2 ^ 32" "8 * L" "8 * n"] by (simp only: distrib_left) simp
qed

subsection \<open>Appending and finishing\<close>

definition bump :: "md5_state \<Rightarrow> nat \<Rightarrow> md5_state" where
  "bump pms n =
     (let pms = pms\<lparr>count1 := count1 pms + word_of_nat (n div 2 ^ 29)\<rparr>;
          pms = pms\<lparr>count0 := count0 pms + word_of_nat (n * 8)\<rparr>
      in if count0 pms < word_of_nat (n * 8) then pms\<lparr>count1 := count1 pms + 1\<rparr> else pms)"

lemma bump_fields:
  "bump st n = st\<lparr>count0 := count0 st + word_of_nat (n * 8),
     count1 := count1 st + word_of_nat (n div 2 ^ 29) + (if count0 st + word_of_nat (n * 8) < word_of_nat (n * 8) then 1 else 0)\<rparr>"
  by (simp add: bump_def Let_def)

lemma bump_counts:
  assumes "count0 st = word_of_nat (8 * L)" "count1 st = word_of_nat (8 * L div 2 ^ 32)"
  shows "bump st n = st\<lparr>count0 := word_of_nat (8 * (L + n)), count1 := word_of_nat (8 * (L + n) div 2 ^ 32)\<rparr>"
proof -
  have "(word_of_nat (8 * (L + n) div 2 ^ 32) :: u32) = word_of_nat (8 * L div 2 ^ 32) + word_of_nat (n div 2 ^ 29) +
      (if 2 ^ 32 \<le> 8 * L mod 2 ^ 32 + 8 * n mod 2 ^ 32 then 1 else 0)"
    unfolding count_high of_nat_add by (simp only: of_nat_1 of_nat_0 split: if_split) simp
  then show ?thesis
    unfolding bump_fields assms count_carry mult.commute[of n] distrib_left of_nat_add by (simp only:)
qed

text \<open>The part after the counters, for a state that holds \<open>r\<close> in its block.\<close>

definition store_rest :: "md5_state \<Rightarrow> bytes \<Rightarrow> md5_state" where
  "store_rest pms p = (let (pms, p) = full_blocks pms p in if p \<noteq> [] then buf_store 0 p pms else pms)"

definition consume :: "md5_state \<Rightarrow> nat \<Rightarrow> bytes \<Rightarrow> md5_state" where
  "consume pms offset data =
     (let copied = (if offset + length data > 64 then 64 - offset else length data)
      in if offset \<noteq> 0 \<and> offset + copied < 64 then buf_store offset (take copied data) pms
         else
           (let (pms, p) =
                  (if offset \<noteq> 0 then
                     (let pms = buf_store offset (take copied data) pms in (md5_process pms (buf pms), drop copied data))
                   else (pms, data))
            in store_rest pms p))"

lemma md5_append_eq: "md5_append pms data =
    (if data = [] then pms else consume (bump pms (length data)) (unat (drop_bit 3 (count0 pms) AND 63)) data)"
  by (simp add: md5_append_def consume_def store_rest_def bump_def Let_def)

text \<open>What has been consumed when the state is \<open>st\<close> but for registers and block.\<close>

definition consumed :: "md5_state \<Rightarrow> bytes \<Rightarrow> bytes \<Rightarrow> md5_state \<Rightarrow> bool" where
  "consumed st m p st' \<longleftrightarrow>
     count0 st' = count0 st \<and> count1 st' = count1 st \<and> abcd st' = rfc_blocks (m @ p) \<and> length (buf st') = 64 \<and>
     take (length p mod 64) (buf st') = drop (64 * (length p div 64)) p"

lemma store_rest_consumed:
  assumes "length m mod 64 = 0" "abcd st = rfc_blocks m" "length (buf st) = 64"
  shows "consumed st m p (store_rest st p)"
proof -
  let ?q = "drop (64 * (length p div 64)) p"
  have "length ?q = length p mod 64"
    by (simp add: minus_mult_div_eq_mod)
  moreover from this have "length ?q < 64"
    by simp
  moreover have "store_rest st p = (if ?q = [] then st\<lparr>abcd := rfc_blocks (m @ p)\<rparr>
      else st\<lparr>abcd := rfc_blocks (m @ p), buf := ?q @ drop (length ?q) (buf st)\<rparr>)"
    by (simp add: store_rest_def full_blocks_eq[OF assms(1,2)] buf_store_def)
  ultimately show ?thesis
    using assms(3) unfolding consumed_def by (cases "?q = []") simp_all
qed

lemma rest_append:
  assumes "length x = 64 * k"
  shows "drop (64 * (length (x @ y) div 64)) (x @ y) = drop (64 * (length y div 64)) y" "length (x @ y) mod 64 = length y mod 64"
proof -
  have "length (x @ y) div 64 = k + length y div 64"
    using assms by simp
  then show "drop (64 * (length (x @ y) div 64)) (x @ y) = drop (64 * (length y div 64)) y"
    using assms by (simp only: drop_append) simp
  show "length (x @ y) mod 64 = length y mod 64"
    using assms by simp
qed

lemma consume_consumed:
  assumes m: "length m mod 64 = 0" and a: "abcd st = rfc_blocks m" and b: "length (buf st) = 64" and r: "take (length r) (buf st) = r"
    and "length r < 64"
  shows "consumed st m (r @ data) (consume st (length r) data)"
proof -
  consider "r = []" | "r \<noteq> []" "length r + length data < 64" | "r \<noteq> []" "64 \<le> length r + length data"
    by linarith
  then show ?thesis
  proof cases
    case 1
    then show ?thesis
      using store_rest_consumed[OF m a b] by (simp add: consume_def)
  next
    case 2
    then have "consume st (length r) data = buf_store (length r) data st"
      by (simp add: consume_def)
    then show ?thesis
      using 2 a b r unfolding consumed_def
      by (simp add: buf_store_def rfc_blocks_rest[OF m])
  next
    case 3
    let ?c = "take (64 - length r) data" and ?p = "drop (64 - length r) data"
    let ?st = "md5_process (buf_store (length r) ?c st) (r @ ?c)"
    have l: "length (r @ ?c) = 64"
      using 3 assms(5) by simp
    have st: "?st = st\<lparr>buf := r @ ?c, abcd := rfc_blocks (m @ (r @ ?c))\<rparr>"
      using l a b r rfc_blocks_block[OF m, of "r @ ?c"] by (simp add: buf_store_def md5_process_rfc)
    have "consume st (length r) data = store_rest ?st ?p"
      using 3 b r assms(5) by (auto simp: consume_def Let_def buf_store_def)
    moreover have "consumed ?st (m @ r @ ?c) ?p (store_rest ?st ?p)"
      using l m by (intro store_rest_consumed) (simp_all add: st)
    moreover have "r @ data = (r @ ?c) @ ?p" "count0 ?st = count0 st" "count1 ?st = count1 st"
      by (simp_all add: st)
    ultimately show ?thesis
      using rest_append[of "r @ ?c" 1 ?p] l unfolding consumed_def by (simp only: append_assoc mult_1_right)
  qed
qed

lemma md5_append_rep:
  assumes "md5_rep m st"
  shows "md5_rep (m @ data) (md5_append st data)"
proof (cases "data = []")
  case True
  with assms show ?thesis
    by (simp add: md5_append_eq)
next
  case False
  define M r where "M = take (64 * (length m div 64)) m" and "r = drop (64 * (length m div 64)) m"
  have split: "m = M @ r" "length M = 64 * (length m div 64)" "length r = length m mod 64"
    by (simp_all add: M_def r_def minus_mult_div_eq_mod)
  have st: "count0 st = word_of_nat (8 * length m)" "count1 st = word_of_nat (8 * length m div 2 ^ 32)" "abcd st = rfc_blocks m"
    "length (buf st) = 64" "take (length r) (buf st) = r"
    using assms by (simp_all add: md5_rep_def split(3) r_def[symmetric])
  have M: "length M mod 64 = 0" "length r < 64"
    using split(2,3) by simp_all
  then have "abcd st = rfc_blocks M"
    using rfc_blocks_rest[OF M] st(3) split(1) by simp
  then have *: "consumed (bump st (length data)) M (r @ data) (consume (bump st (length data)) (length r) data)"
    using st M by (intro consume_consumed) (simp_all add: bump_fields)
  have "md5_append st data = consume (bump st (length data)) (length r) data"
    using False unfolding md5_append_eq st(1) split(3) count_offset by simp
  moreover have "m @ data = M @ r @ data" "length m + length data = length (m @ data)"
    by (simp_all add: split(1))
  ultimately show ?thesis
    using * rest_append[OF split(2), of "r @ data"] unfolding md5_rep_def consumed_def bump_counts[OF st(1,2)]
    by (cases st) (simp only: md5_state.simps)
qed

lemma le64_bytes: "le64 w = map (\<lambda>i. ucast (drop_bit (8 * i) w)) [0..<8]"
proof -
  have "[0..<8] = [0, 1, 2, 3, 4, 5, 6, 7 :: nat]"
    by code_simp
  then show ?thesis
    by (simp add: le64_def)
qed

lemma md5_length_bytes:
  "map (\<lambda>i. ucast (drop_bit ((i mod 4) * 8) (if i div 4 = 0 then word_of_nat n else word_of_nat (n div 2 ^ 32) :: u32))) [0..<8] =
     le64 (word_of_nat n)"
proof -
  have lo: "ucast (drop_bit k (word_of_nat n :: u32)) = (ucast (drop_bit k (word_of_nat n :: u64)) :: u8)" if "k \<le> 24" for k
    using that by (intro bit_word_eqI) (simp add: bit_simps bit_of_nat_iff_bit)
  have hi: "ucast (drop_bit k (word_of_nat (n div 2 ^ 32) :: u32)) = (ucast (drop_bit (k + 32) (word_of_nat n :: u64)) :: u8)" if "k \<le> 24" for k
  proof -
    have d: "n div 2 ^ 32 = drop_bit 32 n"
      by (simp add: drop_bit_eq_div)
    show ?thesis
      unfolding d using that by (intro bit_word_eqI) (simp add: bit_simps bit_of_nat_iff_bit ac_simps)
  qed
  have u: "[0..<8] = [0, 1, 2, 3, 4, 5, 6, 7 :: nat]"
    by code_simp
  show ?thesis
    unfolding u le64_def using lo[of 0] lo[of 8] lo[of 16] lo[of 24] hi[of 0] hi[of 8] hi[of 16] hi[of 24]
    by simp
qed

lemma unat_count_bytes: "unat (drop_bit 3 (word_of_nat (8 * L) :: u32)) = L mod 2 ^ 29"
proof -
  have "unat (drop_bit 3 (word_of_nat (8 * L) :: u32)) = (8 * L) mod 2 ^ 32 div 8"
    unfolding unsigned_drop_bit_eq unat_count by (simp add: drop_bit_eq_div take_bit_eq_mod)
  also have "8 * L mod 2 ^ 32 = 8 * (L mod 2 ^ 29)"
    using mult_mod_right[of 8 L "2 ^ 29"] by simp
  finally show ?thesis
    by simp
qed

lemma pad_count: "unat ((55 - drop_bit 3 (word_of_nat (8 * L))) AND 63 :: u32) = nat ((55 - int L) mod 64)"
proof -
  let ?x = "drop_bit 3 (word_of_nat (8 * L)) :: u32"
  have x: "uint ?x = int (L mod 2 ^ 29)"
    unfolding uint_nat unat_count_bytes ..
  have "uint (55 - ?x) = (55 - int (L mod 2 ^ 29)) mod 2 ^ 32"
    unfolding uint_word_ariths x by simp
  then have "int (unat (55 - ?x)) mod 64 = (55 - int (L mod 2 ^ 29)) mod 2 ^ 32 mod 64"
    by (simp only: uint_nat)
  also have "\<dots> = (55 - int L mod 2 ^ 29) mod 64"
    by (simp add: mod_mod_cancel zmod_int)
  also have "\<dots> = (55 - int L mod 2 ^ 29 mod 64) mod 64"
    by (simp only: mod_diff_right_eq)
  also have "\<dots> = (55 - int L) mod 64"
    by (simp add: mod_mod_cancel mod_diff_right_eq)
  finally have "int (unat (55 - ?x) mod 64) = (55 - int L) mod 64"
    by (simp only: zmod_int of_nat_numeral)
  from arg_cong[OF this, of nat] show ?thesis
    by (simp only: low_6_bits nat_int)
qed

lemma take_pad: "k < 64 \<Longrightarrow> take (k + 1) pad = 0x80 # replicate k 0"
  by (simp add: pad_def)

lemma digest_bytes:
  "map (\<lambda>i. ucast (drop_bit ((i mod 4) * 8) ([a, b, c, d] ! (i div 4)))) [0..<16] = le32 a @ le32 b @ le32 c @ le32 d"
proof -
  have u: "[0..<16] = [0, 1, 2, 3, 4, 5, 6, 7, 8, 9, 10, 11, 12, 13, 14, 15 :: nat]"
    by code_simp
  show ?thesis
    unfolding u le32_def by simp
qed

lemma md5_finish_rep:
  assumes "md5_rep m st"
  shows "md5_finish st = rfc_md5 m"
proof -
  have c: "count0 st = word_of_nat (8 * length m)" "count1 st = word_of_nat (8 * length m div 2 ^ 32)"
    using assms by (simp_all add: md5_rep_def)
  let ?k = "nat ((55 - int (length m)) mod 64)"
  let ?st = "md5_append (md5_append st (0x80 # replicate ?k 0)) (le64 (word_of_nat (8 * length m)))"
  have "?k < 64"
    by (simp add: nat_less_iff)
  then have fin: "md5_finish st = (case abcd ?st of (a, b, c, d) \<Rightarrow> le32 a @ le32 b @ le32 c @ le32 d)"
    unfolding md5_finish_def c pad_count md5_length_bytes Let_def digest_bytes by (simp only: take_pad)
  have "md5_rep ((m @ 0x80 # replicate ?k 0) @ le64 (word_of_nat (8 * length m))) ?st"
    by (intro md5_append_rep assms)
  then have "abcd ?st = rfc_blocks (rfc_padded m)"
    unfolding md5_rep_def rfc_padded_def by (simp only: append_assoc append_Cons append_Nil)
  with fin show ?thesis
    unfolding rfc_md5_def by (simp only: Let_def)
qed

lemma md5_init_rep: "length (buf st) = 64 \<Longrightarrow> md5_rep [] (md5_init st)"
  by (simp add: md5_rep_def md5_init_def rfc_blocks_def rfc_init_def T_MASK_def)

subsection \<open>A test vector\<close>

definition zero_state :: md5_state where
  "zero_state = \<lparr>count0 = 0, count1 = 0, abcd = (0, 0, 0, 0), buf = replicate 64 0\<rparr>"

definition abc_words :: "u32 list" where
  "abc_words = [0x80636261, 0, 0, 0, 0, 0, 0, 0, 0, 0, 0, 0, 0, 0, 24, 0]"

lemmas rfc_eval = rfc_step_def rfc_f_def rfc_k_def rfc_s_def rfc_T_def ROTATE_LEFT_rotl [symmetric] ROTATE_LEFT_def abc_words_def

lemma abc_1: "fold (rfc_step abc_words) ([0, 1, 2, 3] @ [4, 5, 6, 7] @ [8, 9, 10, 11] @ [12, 13, 14, 15])
    (0x67452301, 0xefcdab89, 0x98badcfe, 0x10325476) =
    (0xdda9b9a6, 0x72aff2e0, 0xe396856b, 0xa1051895)"
  by (simp add: rfc_eval)

lemma abc_2: "fold (rfc_step abc_words) ([16, 17, 18, 19] @ [20, 21, 22, 23] @ [24, 25, 26, 27] @ [28, 29, 30, 31])
    (0xdda9b9a6, 0x72aff2e0, 0xe396856b, 0xa1051895) =
    (0x790a77fb, 0x726342d3, 0xa62884aa, 0x9f47e4f8)"
  by (simp add: rfc_eval)

lemma abc_3: "fold (rfc_step abc_words) ([32, 33, 34, 35] @ [36, 37, 38, 39] @ [40, 41, 42, 43] @ [44, 45, 46, 47])
    (0x790a77fb, 0x726342d3, 0xa62884aa, 0x9f47e4f8) =
    (0x7f2e507b, 0x7beb9700, 0x8fae6399, 0x99d9679d)"
  by (simp add: rfc_eval)

lemma abc_4: "fold (rfc_step abc_words) ([48, 49, 50, 51] @ [52, 53, 54, 55] @ [56, 57, 58, 59] @ [60, 61, 62, 63])
    (0x7f2e507b, 0x7beb9700, 0x8fae6399, 0x99d9679d) =
    (0x310ade8f, 0xc08226b3, 0xe484b9d8, 0x624d8cb2)"
  by (simp add: rfc_eval)

lemma abc_block: "rfc_md5 [97, 98, 99] =
    [0x90, 0x01, 0x50, 0x98, 0x3c, 0xd2, 0x4f, 0xb0, 0xd6, 0x96, 0x3f, 0x7d, 0x28, 0xe1, 0x7f, 0x72]"
proof -
  have p: "rfc_padded [97, 98, 99] = [97, 98, 99, 0x80] @ replicate 52 0 @ [24, 0, 0, 0, 0, 0, 0, 0]"
    by code_simp
  have w: "map (\<lambda>i. of_le (take 4 (drop (4 * i) (take 64 (drop (64 * 0) ([97, 98, 99, 0x80] @ replicate 52 0 @ [24, 0, 0, 0, 0, 0, 0, 0])))))) [0..<16] = abc_words"
    by code_simp
  have s: "fold (rfc_step abc_words) [0..<64] rfc_init = (0x310ade8f, 0xc08226b3, 0xe484b9d8, 0x624d8cb2)"
    unfolding upt_64 fold_append comp_apply rfc_init_def
    by (simp only: abc_1 [simplified fold_append comp_apply] abc_2 [simplified fold_append comp_apply]
      abc_3 [simplified fold_append comp_apply] abc_4 [simplified fold_append comp_apply])
  have b: "rfc_block (take 64 (drop (64 * 0) ([97, 98, 99, 0x80] @ replicate 52 0 @ [24, 0, 0, 0, 0, 0, 0, 0]))) rfc_init = (0x98500190, 0xb04fd23c, 0x7d3f96d6, 0x727fe128)"
    using s unfolding rfc_block_def w by (simp add: rfc_init_def)
  show ?thesis
    unfolding rfc_md5_def rfc_blocks_def p using b by (simp add: le32_def)
qed

subsection \<open>Properties\<close>

lemma md5_hash_string_rfc: "length (buf state) = 64 \<Longrightarrow> md5_hash_string state s = rfc_md5 s"
  using md5_append_rep[OF md5_init_rep, of state s] by (simp add: md5_finish_rep md5_hash_string_def)

text \<open>C38. The incremental hash: however a message is cut into pieces, appending them to an initialised state (whatever was in it before) and
  finishing yields the digest of RFC 1321 of the whole message: one bit, padding and length appended, sixty-four steps in a loop for each block.\<close>

theorem md5_pieces_rfc:
  assumes "length (buf state) = 64"
  shows "md5_finish (fold (\<lambda>data st. md5_append st data) pieces (md5_init state)) = rfc_md5 (concat pieces) \<and>
    md5_hash_string state s = rfc_md5 s"
proof -
  have "md5_rep (m @ concat pieces) (fold (\<lambda>data st. md5_append st data) pieces st)" if "md5_rep m st" for m st
    using that
  proof (induction pieces arbitrary: m st)
    case (Cons p ps)
    then show ?case
      using Cons.IH[OF md5_append_rep[OF Cons.prems, of p]] by simp
  qed simp
  from this[OF md5_init_rep[OF assms]] md5_hash_string_rfc[OF assms] show ?thesis
    by (simp add: md5_finish_rep)
qed

theorem md5_pieces_rfc_witness: "md5_hash_string zero_state [97, 98, 99] =
    [0x90, 0x01, 0x50, 0x98, 0x3c, 0xd2, 0x4f, 0xb0, 0xd6, 0x96, 0x3f, 0x7d, 0x28, 0xe1, 0x7f, 0x72]"
  using md5_pieces_rfc[of zero_state "[]" "[97, 98, 99]"] by (simp add: zero_state_def abc_block)

end
