(* ===== verification/Sha1.thy ===== *)
theory Sha1
  imports Md5
begin

section \<open>SHA-1 (src/crypto/sha1.h)\<close>

text \<open>
  The hash in one call. The array \<open>w\<close> of 80 words on the stack is given with zeros for its undefined contents; its first 16
  words are written before each block, the others as the rounds reach them. \<open>bytelength\<close> is not negative.
\<close>

type_synonym five = "u32 \<times> u32 \<times> u32 \<times> u32 \<times> u32"

definition rol :: "u32 \<Rightarrow> nat \<Rightarrow> u32" where
  "rol value' steps = push_bit steps value' OR drop_bit (32 - steps) value'"

definition clearWBuffert :: "u32 list \<Rightarrow> u32 list" where
  "clearWBuffert buffert = fold (\<lambda>pos b. b[pos := 0]) (rev [0..<16]) buffert"

text \<open>The macro of the rounds, with the function it is given.\<close>

fun sha1macro :: "(u32 \<Rightarrow> u32 \<Rightarrow> u32 \<Rightarrow> u32) \<Rightarrow> u32 \<Rightarrow> u32 list \<Rightarrow> nat \<Rightarrow> five \<Rightarrow> five" where
  "sha1macro func val w round' (a, b, c, d, e) =
     (let t = rol a 5 + func b c d + e + val + w ! round' in (t, a, rol b 30, c, d))"

definition extend :: "nat \<Rightarrow> u32 list \<Rightarrow> u32 list" where
  "extend round' w = w[round' := rol (((w ! (round' - 3) XOR w ! (round' - 8)) XOR w ! (round' - 14)) XOR w ! (round' - 16)) 1]"

definition rounds :: "nat \<Rightarrow> nat \<Rightarrow> (u32 \<Rightarrow> u32 \<Rightarrow> u32 \<Rightarrow> u32) \<Rightarrow> u32 \<Rightarrow> five \<times> u32 list \<Rightarrow> five \<times> u32 list" where
  "rounds from' to func val =
     fold (\<lambda>round' (s, w). let w = extend round' w in (sha1macro func val w round' s, w)) [from'..<to]"

definition innerHash :: "five \<Rightarrow> u32 list \<Rightarrow> five \<times> u32 list" where
  "innerHash result w =
     (let s = fold (\<lambda>round' s. sha1macro (\<lambda>b c d. (b AND c) OR (NOT b AND d)) 0x5a827999 w round' s) [0..<16] result;
          r = rounds 16 20 (\<lambda>b c d. (b AND c) OR (NOT b AND d)) 0x5a827999 (s, w);
          r = rounds 20 40 (\<lambda>b c d. (b XOR c) XOR d) 0x6ed9eba1 r;
          r = rounds 40 60 (\<lambda>b c d. ((b AND c) OR (b AND d)) OR (c AND d)) 0x8f1bbcdc r;
          r = rounds 60 80 (\<lambda>b c d. (b XOR c) XOR d) 0xca62c1d6 r
      in case (result, r) of ((r0, r1, r2, r3, r4), ((a, b, c, d, e), w)) \<Rightarrow>
           ((r0 + a, r1 + b, r2 + c, r3 + d, r4 + e), w))"

text \<open>One full block is read into the first 16 words.\<close>

definition load_block :: "bytes \<Rightarrow> nat \<Rightarrow> u32 list \<Rightarrow> u32 list" where
  "load_block sarray currentBlock w =
     fold (\<lambda>roundPos w. let p = currentBlock + 4 * roundPos in
         w[roundPos := ((ucast (sarray ! (p + 3)) OR push_bit 8 (ucast (sarray ! (p + 2)))) OR
             push_bit 16 (ucast (sarray ! (p + 1)))) OR push_bit 24 (ucast (sarray ! p))]) [0..<16] w"

function full_loop :: "bytes \<Rightarrow> int \<Rightarrow> int \<Rightarrow> five \<times> u32 list \<Rightarrow> int \<times> five \<times> u32 list" where
  "full_loop sarray endOfFullBlocks currentBlock r =
     (if currentBlock \<le> endOfFullBlocks then
        full_loop sarray endOfFullBlocks (currentBlock + 64)
          (innerHash (fst r) (load_block sarray (nat currentBlock) (snd r)))
      else (currentBlock, r))"
  by pat_completeness auto
termination
  by (relation "measure (\<lambda>(s, e, c, r). nat (e - c + 1))") auto

declare full_loop.simps [simp del]

text \<open>\<open>w[k >> 2] |= byte << ((3 - (k & 3)) << 3)\<close>\<close>

definition put_byte :: "nat \<Rightarrow> u8 \<Rightarrow> u32 list \<Rightarrow> u32 list" where
  "put_byte k b w = w[k div 4 := w ! (k div 4) OR push_bit (8 * (3 - k mod 4)) (ucast b)]"

definition calc :: "bytes \<Rightarrow> bytes" where
  "calc sarray =
     (let bytelength = int (length sarray);
          result = (0x67452301, 0xefcdab89, 0x98badcfe, 0x10325476, 0xc3d2e1f0);
          (currentBlock, result, w) = full_loop sarray (bytelength - 64) 0 (result, replicate 80 0);
          endCurrentBlock = nat (bytelength - currentBlock);
          w = clearWBuffert w;
          w = fold (\<lambda>lastBlockBytes w. put_byte lastBlockBytes (sarray ! (lastBlockBytes + nat currentBlock)) w)
                [0..<endCurrentBlock] w;
          w = put_byte endCurrentBlock 0x80 w;
          (result, w) = (if 56 \<le> endCurrentBlock then (case innerHash result w of (result, w) \<Rightarrow> (result, clearWBuffert w))
                         else (result, w));
          w = w[15 := word_of_int (bytelength * 8)];
          (result, w) = innerHash result w
      in case result of (r0, r1, r2, r3, r4) \<Rightarrow>
           map (\<lambda>hashByte. ucast (drop_bit (8 * (3 - hashByte mod 4)) ([r0, r1, r2, r3, r4] ! (hashByte div 4)) AND 0xff)) [0..<20])"

subsection \<open>The standard\<close>

text \<open>FIPS 180-4: the message schedule, the round functions and constants, a step, a block, padding, the digest.\<close>

function schedule :: "u32 list \<Rightarrow> nat \<Rightarrow> u32" where
  "schedule M t =
     (if t < 16 then M ! t
      else word_rotl 1 (schedule M (t - 3) XOR schedule M (t - 8) XOR schedule M (t - 14) XOR schedule M (t - 16)))"
  by pat_completeness auto
termination
  by (relation "measure snd") auto

declare schedule.simps [simp del]

definition fips_f :: "nat \<Rightarrow> u32 \<Rightarrow> u32 \<Rightarrow> u32 \<Rightarrow> u32" where
  "fips_f t b c d =
     (if t < 20 then (b AND c) XOR (NOT b AND d)
      else if 40 \<le> t \<and> t < 60 then (b AND c) XOR (b AND d) XOR (c AND d)
      else b XOR c XOR d)"

definition fips_K :: "nat \<Rightarrow> u32" where
  "fips_K t = [0x5a827999, 0x6ed9eba1, 0x8f1bbcdc, 0xca62c1d6] ! (t div 20)"

fun fips_step :: "u32 list \<Rightarrow> nat \<Rightarrow> five \<Rightarrow> five" where
  "fips_step M t (a, b, c, d, e) =
     (word_rotl 5 a + fips_f t b c d + e + fips_K t + schedule M t, a, word_rotl 30 b, c, d)"

definition be_words :: "bytes \<Rightarrow> u32 list" where
  "be_words data = map (\<lambda>i. of_le (rev (take 4 (drop (4 * i) data)))) [0..<16]"

fun add5 :: "five \<Rightarrow> five \<Rightarrow> five" where
  "add5 (a, b, c, d, e) (a', b', c', d', e') = (a + a', b + b', c + c', d + d', e + e')"

definition fips_block :: "bytes \<Rightarrow> five \<Rightarrow> five" where
  "fips_block data H = add5 H (fold (fips_step (be_words data)) [0..<80] H)"

definition fips_padded :: "bytes \<Rightarrow> bytes" where
  "fips_padded m =
     m @ [0x80] @ replicate (nat ((55 - int (length m)) mod 64)) 0 @ be64 (word_of_nat (8 * length m))"

definition fips_init :: five where
  "fips_init = (0x67452301, 0xefcdab89, 0x98badcfe, 0x10325476, 0xc3d2e1f0)"

definition fips_blocks :: "bytes \<Rightarrow> five" where
  "fips_blocks m = fold (\<lambda>j. fips_block (take 64 (drop (64 * j) m))) [0..<length m div 64] fips_init"

definition fips_sha1 :: "bytes \<Rightarrow> bytes" where
  "fips_sha1 m = (case fips_blocks (fips_padded m) of (a, b, c, d, e) \<Rightarrow> be32 a @ be32 b @ be32 c @ be32 d @ be32 e)"

subsection \<open>One block\<close>

lemma rol_rotl: "0 < n \<Longrightarrow> n < 32 \<Longrightarrow> rol x n = word_rotl n x"
  using ROTATE_LEFT_rotl[of n x] by (simp add: rol_def ROTATE_LEFT_def)

lemma choose_or: "(b AND c) OR (NOT b AND d) = (b AND c) XOR (NOT b AND (d :: u32))"
  by (rule bit_word_eqI) (auto simp: bit_simps)

lemma majority_or: "((b AND c) OR (b AND d)) OR (c AND d) = (b AND c) XOR (b AND d) XOR (c AND (d :: u32))"
  by (rule bit_word_eqI) (auto simp: bit_simps)

lemma macro_step:
  assumes "func b c d = fips_f t b c d" "val = fips_K t" "w ! t = schedule M t"
  shows "sha1macro func val w t (a, b, c, d, e) = fips_step M t (a, b, c, d, e)"
  using assms by (simp add: rol_rotl Let_def)

text \<open>The array holds the schedule up to \<open>n\<close>.\<close>

definition scheduled :: "u32 list \<Rightarrow> nat \<Rightarrow> u32 list \<Rightarrow> bool" where
  "scheduled M n w \<longleftrightarrow> length w = 80 \<and> (\<forall>i<n. w ! i = schedule M i)"

lemma extend_scheduled:
  assumes "scheduled M t w" "16 \<le> t" "t < 80"
  shows "scheduled M (Suc t) (extend t w)"
proof -
  have "rol (((w ! (t - 3) XOR w ! (t - 8)) XOR w ! (t - 14)) XOR w ! (t - 16)) 1 = schedule M t"
    using assms by (subst schedule.simps) (simp add: scheduled_def rol_rotl xor.assoc)
  then show ?thesis
    using assms by (auto simp: scheduled_def extend_def nth_list_update less_Suc_eq)
qed

lemma rounds_fips:
  assumes "scheduled M from' w" "16 \<le> from'" "from' \<le> to" "to \<le> 80"
    and "\<And>t b c d. from' \<le> t \<Longrightarrow> t < to \<Longrightarrow> func b c d = fips_f t b c d \<and> val = fips_K t"
  shows "\<exists>w'. rounds from' to func val (s, w) = (fold (fips_step M) [from'..<to] s, w') \<and> scheduled M to w'"
  using assms(3,4,5)
proof (induction to rule: dec_induct)
  case base
  then show ?case
    using assms(1) by (simp add: rounds_def)
next
  case (step n)
  have "\<exists>w'. rounds from' n func val (s, w) = (fold (fips_step M) [from'..<n] s, w') \<and> scheduled M n w'"
    using step.prems by (intro step.IH) auto
  then obtain w' where w': "rounds from' n func val (s, w) = (fold (fips_step M) [from'..<n] s, w')" "scheduled M n w'"
    by blast
  have e: "scheduled M (Suc n) (extend n w')"
    using w'(2) step assms(2) by (intro extend_scheduled) auto
  obtain a b c d e' where "fold (fips_step M) [from'..<n] s = (a, b, c, d, e')"
    by (metis prod_cases5)
  moreover have "sha1macro func val (extend n w') n (a, b, c, d, e') = fips_step M n (a, b, c, d, e')"
    using e step.hyps step.prems(2)[of n] by (intro macro_step) (auto simp: scheduled_def)
  ultimately show ?case
    using w'(1) e step.hyps by (simp add: rounds_def Let_def del: sha1macro.simps fips_step.simps)
qed

lemma first_rounds:
  assumes "scheduled M 16 w" "n \<le> 16"
  shows "fold (\<lambda>round' s. sha1macro (\<lambda>b c d. (b AND c) OR (NOT b AND d)) 0x5a827999 w round' s) [0..<n] s =
    fold (fips_step M) [0..<n] s"
  using assms(2)
proof (induction n)
  case (Suc n)
  obtain a b c d e where "fold (fips_step M) [0..<n] s = (a, b, c, d, e)"
    by (metis prod_cases5)
  moreover have "sha1macro (\<lambda>b c d. (b AND c) OR (NOT b AND d)) 0x5a827999 w n (a, b, c, d, e) = fips_step M n (a, b, c, d, e)"
    using assms(1) Suc.prems
    by (intro macro_step) (auto simp: scheduled_def fips_f_def fips_K_def choose_or)
  ultimately show ?case
    using Suc by (simp del: sha1macro.simps fips_step.simps)
qed simp

lemma div_20: "20 * k \<le> t \<Longrightarrow> t < 20 * Suc k \<Longrightarrow> t div 20 = k" for t :: nat
  by (auto intro: div_nat_eqI)

lemma innerHash_fips:
  assumes "length w = 80" "take 16 w = be_words data"
  shows "\<exists>w'. innerHash H w = (fips_block data H, w') \<and> length w' = 80"
proof -
  let ?M = "be_words data"
  have "w ! i = schedule ?M i" if "i < 16" for i
    using that assms by (subst schedule.simps) (simp flip: assms(2))
  then have w: "scheduled ?M 16 w"
    using assms(1) by (simp add: scheduled_def)
  define s where "s = fold (\<lambda>round' s. sha1macro (\<lambda>b c d. (b AND c) OR (NOT b AND d)) 0x5a827999 w round' s) [0..<16] H"
  have s: "s = fold (fips_step ?M) [0..<16] H"
    unfolding s_def by (rule first_rounds[OF w]) simp
  obtain w1 where r1: "rounds 16 20 (\<lambda>b c d. (b AND c) OR (NOT b AND d)) 0x5a827999 (s, w) =
      (fold (fips_step ?M) [16..<20] s, w1)" "scheduled ?M 20 w1"
    using rounds_fips[OF w, of 20 "\<lambda>b c d. (b AND c) OR (NOT b AND d)" "0x5a827999" s]
    by (auto simp: fips_f_def fips_K_def choose_or)
  obtain w2 where r2: "rounds 20 40 (\<lambda>b c d. (b XOR c) XOR d) 0x6ed9eba1 (fold (fips_step ?M) [16..<20] s, w1) =
      (fold (fips_step ?M) [20..<40] (fold (fips_step ?M) [16..<20] s), w2)" "scheduled ?M 40 w2"
    using rounds_fips[OF r1(2), of 40 "\<lambda>b c d. (b XOR c) XOR d" "0x6ed9eba1" "fold (fips_step ?M) [16..<20] s"] div_20[of 1]
    by (auto simp: fips_f_def fips_K_def xor.assoc)
  obtain w3 where r3: "rounds 40 60 (\<lambda>b c d. ((b AND c) OR (b AND d)) OR (c AND d)) 0x8f1bbcdc
      (fold (fips_step ?M) [20..<40] (fold (fips_step ?M) [16..<20] s), w2) =
      (fold (fips_step ?M) [40..<60] (fold (fips_step ?M) [20..<40] (fold (fips_step ?M) [16..<20] s)), w3)" "scheduled ?M 60 w3"
    using rounds_fips[OF r2(2), of 60 "\<lambda>b c d. ((b AND c) OR (b AND d)) OR (c AND d)" "0x8f1bbcdc"
        "fold (fips_step ?M) [20..<40] (fold (fips_step ?M) [16..<20] s)"] div_20[of 2]
    by (auto simp: fips_f_def fips_K_def majority_or)
  obtain w4 where r4: "rounds 60 80 (\<lambda>b c d. (b XOR c) XOR d) 0xca62c1d6
      (fold (fips_step ?M) [40..<60] (fold (fips_step ?M) [20..<40] (fold (fips_step ?M) [16..<20] s)), w3) =
      (fold (fips_step ?M) [60..<80] (fold (fips_step ?M) [40..<60] (fold (fips_step ?M) [20..<40]
        (fold (fips_step ?M) [16..<20] s))), w4)" "scheduled ?M 80 w4"
    using rounds_fips[OF r3(2), of 80 "\<lambda>b c d. (b XOR c) XOR d" "0xca62c1d6"
        "fold (fips_step ?M) [40..<60] (fold (fips_step ?M) [20..<40] (fold (fips_step ?M) [16..<20] s))"] div_20[of 3]
    by (auto simp: fips_f_def fips_K_def xor.assoc)
  have "[0..<80] = [0..<16] @ [16..<20] @ [20..<40] @ [40..<60] @ [60..<80]"
    by code_simp
  then have all: "fold (fips_step ?M) [60..<80] (fold (fips_step ?M) [40..<60] (fold (fips_step ?M) [20..<40]
      (fold (fips_step ?M) [16..<20] s))) = fold (fips_step ?M) [0..<80] H"
    by (simp only: s fold_append o_apply)
  show ?thesis
    unfolding innerHash_def s_def[symmetric] r1(1) r2(1) r3(1) r4(1) all Let_def fips_block_def
    using r4(2) by (cases H; cases "fold (fips_step ?M) [0..<80] H") (simp add: scheduled_def)
qed

subsection \<open>The words of a block\<close>

lemma be_word: "((ucast x3 OR push_bit 8 (ucast x2)) OR push_bit 16 (ucast x1)) OR push_bit 24 (ucast x0) = (of_le [x3, x2, x1, x0] :: u32)"
  for x0 x1 x2 x3 :: u8
  by (simp add: push_bit_or push_bit_push_bit or.assoc)

lemma take_4_at: "4 * i + 4 \<le> length xs \<Longrightarrow>
    take 4 (drop (4 * i) xs) = [xs ! (4 * i), xs ! (4 * i + 1), xs ! (4 * i + 2), xs ! (4 * i + 3)]"
  using take_4[of "drop (4 * i) xs"] by simp

lemma be_words_nth: "i < 16 \<Longrightarrow> length bs = 64 \<Longrightarrow>
    be_words bs ! i = of_le [bs ! (4 * i + 3), bs ! (4 * i + 2), bs ! (4 * i + 1), bs ! (4 * i)]"
  by (simp add: be_words_def take_4_at)

lemma length_be_words [simp]: "length (be_words bs) = 16"
  by (simp add: be_words_def)

lemma fold_list_update: "n \<le> length w \<Longrightarrow> fold (\<lambda>i w. w[i := f i]) [0..<n] w = map f [0..<n] @ drop n w"
  by (induction n) (simp_all add: list_update_append Cons_nth_drop_Suc[symmetric])

lemma load_block_words:
  assumes "length w = 80" "p + 64 \<le> length m"
  shows "length (load_block m p w) = 80" "take 16 (load_block m p w) = be_words (take 64 (drop p m))"
proof -
  have eq: "load_block m p w = map (\<lambda>i. of_le [m ! (p + 4 * i + 3), m ! (p + 4 * i + 2), m ! (p + 4 * i + 1), m ! (p + 4 * i)]) [0..<16]
      @ drop 16 w"
    unfolding load_block_def Let_def be_word using assms(1) by (subst fold_list_update) simp_all
  then show "length (load_block m p w) = 80"
    using assms(1) by simp
  show "take 16 (load_block m p w) = be_words (take 64 (drop p m))"
    using assms by (intro nth_equalityI) (simp_all add: eq be_words_nth add.assoc nth_append)
qed

lemma put_byte_words:
  assumes "length bs = 64" "k < 64" "bs ! k = 0" "take 16 w = be_words bs" "length w = 80"
  shows "take 16 (put_byte k b w) = be_words (bs[k := b])" "length (put_byte k b w) = 80"
proof -
  let ?j = "k div 4"
  have j: "?j < 16" "k = 4 * ?j + k mod 4"
    using assms(2) by auto
  have wj: "w ! ?j = be_words bs ! ?j"
    using j(1) assms(5) by (simp flip: assms(4))
  have c: "k mod 4 = 0 \<or> k mod 4 = 1 \<or> k mod 4 = 2 \<or> k mod 4 = 3"
    by linarith
  have other: "be_words (bs[k := b]) ! i = be_words bs ! i" if "i < 16" "i \<noteq> ?j" for i
    using that assms(1) by (auto simp: be_words_nth)
  have "be_words bs ! ?j OR push_bit (8 * (3 - k mod 4)) (ucast b) = be_words (bs[k := b]) ! ?j"
    using c
  proof (elim disjE)
    assume r: "k mod 4 = 0"
    then have "bs ! (4 * ?j) = 0" "(bs[k := b]) ! (4 * ?j) = b" using j assms by auto
    then show ?thesis using r j assms(1) by (simp add: be_words_nth be_word[symmetric] nth_list_update ac_simps)
  next
    assume r: "k mod 4 = 1"
    then have "bs ! (4 * ?j + 1) = 0" "(bs[k := b]) ! (4 * ?j + 1) = b" using j assms by auto
    then show ?thesis using r j assms(1) by (simp add: be_words_nth be_word[symmetric] nth_list_update ac_simps)
  next
    assume r: "k mod 4 = 2"
    then have "bs ! (4 * ?j + 2) = 0" "(bs[k := b]) ! (4 * ?j + 2) = b" using j assms by auto
    then show ?thesis using r j assms(1) by (simp add: be_words_nth be_word[symmetric] nth_list_update ac_simps)
  next
    assume r: "k mod 4 = 3"
    then have "bs ! (4 * ?j + 3) = 0" "(bs[k := b]) ! (4 * ?j + 3) = b" using j assms by auto
    then show ?thesis using r j assms(1) by (simp add: be_words_nth be_word[symmetric] nth_list_update ac_simps)
  qed
  then have new: "(be_words bs)[?j := be_words bs ! ?j OR push_bit (8 * (3 - k mod 4)) (ucast b)] = be_words (bs[k := b])"
    using j(1) by (intro nth_equalityI) (simp_all add: nth_list_update other)
  show "take 16 (put_byte k b w) = be_words (bs[k := b])"
    unfolding put_byte_def take_update_swap wj assms(4) by (rule new)
  show "length (put_byte k b w) = 80"
    using assms(5) by (simp add: put_byte_def)
qed

text \<open>The bytes of an unfinished block, with zeros for those to come.\<close>

definition zero_filled :: "bytes \<Rightarrow> bytes" where
  "zero_filled p = p @ replicate (64 - length p) 0"

definition holds_block :: "bytes \<Rightarrow> u32 list \<Rightarrow> bool" where
  "holds_block p w \<longleftrightarrow> length w = 80 \<and> take 16 w = be_words (zero_filled p)"

lemma put_next:
  assumes "holds_block p w" "length p < 64"
  shows "holds_block (p @ [b]) (put_byte (length p) b w)"
proof -
  have "(zero_filled p)[length p := b] = zero_filled (p @ [b])"
    using assms(2) by (simp add: zero_filled_def list_update_append replicate_Suc[symmetric] Suc_diff_Suc[symmetric] del: replicate_Suc)
       (simp add: Suc_diff_Suc[symmetric])
  then show ?thesis
    using assms put_byte_words[of "zero_filled p" "length p" w b] by (simp add: holds_block_def zero_filled_def nth_append)
qed

lemma put_all:
  assumes "holds_block [] w" "n \<le> 64"
  shows "holds_block (map f [0..<n]) (fold (\<lambda>k. put_byte k (f k)) [0..<n] w)"
  using assms(2)
proof (induction n)
  case (Suc n)
  then show ?case
    using put_next[of "map f [0..<n]" _ "f n"] by simp
qed (simp add: assms)

lemma clear_holds: "length w = 80 \<Longrightarrow> holds_block [] (clearWBuffert w)"
proof -
  assume "length w = 80"
  moreover have "length (fold (\<lambda>pos b. b[pos := 0]) ps w) = length w" for ps and w :: "u32 list"
    by (induction ps arbitrary: w) simp_all
  moreover have "i < length w \<Longrightarrow> fold (\<lambda>pos b. b[pos := 0]) ps w ! i = (if i \<in> set ps then 0 else w ! i)" for ps i and w :: "u32 list"
    by (induction ps arbitrary: w) (auto simp: nth_list_update)
  moreover have "be_words (zero_filled []) = replicate 16 0"
    by code_simp
  ultimately show ?thesis
    by (auto simp: holds_block_def clearWBuffert_def intro!: nth_equalityI)
qed

subsection \<open>The blocks of a message\<close>

lemma fips_blocks_block:
  assumes "length m mod 64 = 0" "length b = 64"
  shows "fips_blocks (m @ b) = fips_block b (fips_blocks m)"
proof -
  obtain k where k: "length m = 64 * k"
    using assms(1) by (auto simp: mod_eq_0_iff_dvd elim: dvdE)
  have "fold (\<lambda>j. fips_block (take 64 (drop (64 * j) (m @ b)))) [0..<k] fips_init =
      fold (\<lambda>j. fips_block (take 64 (drop (64 * j) m))) [0..<k] fips_init"
    by (rule fold_cong) (auto simp: k)
  then show ?thesis
    using assms(2) by (simp add: fips_blocks_def k)
qed

lemma full_loop_fips:
  assumes "64 * j \<le> length m" "length w = 80"
  shows "\<exists>w'. full_loop m (int (length m) - 64) (int (64 * j)) (fips_blocks (take (64 * j) m), w) =
      (int (64 * (length m div 64)), fips_blocks (take (64 * (length m div 64)) m), w') \<and> length w' = 80"
  using assms
proof (induction "length m div 64 - j" arbitrary: j w)
  case 0
  then have "j = length m div 64" "length m < 64 * j + 64"
    by auto
  then show ?case
    using 0 by (subst full_loop.simps) simp
next
  case (Suc n)
  then have "Suc j \<le> length m div 64"
    by linarith
  then have l: "64 * Suc j \<le> length m"
    by (rule order_trans[OF mult_le_mono2 times_div_less_eq_dividend])
  let ?b = "take 64 (drop (64 * j) m)"
  obtain w' where w': "innerHash (fips_blocks (take (64 * j) m)) (load_block m (64 * j) w) = (fips_block ?b (fips_blocks (take (64 * j) m)), w')"
      "length w' = 80"
    using innerHash_fips[OF load_block_words[of w "64 * j" m], of "fips_blocks (take (64 * j) m)"] Suc.prems l by fastforce
  have b: "fips_block ?b (fips_blocks (take (64 * j) m)) = fips_blocks (take (64 * Suc j) m)"
  proof -
    have "length (take (64 * j) m) mod 64 = 0" "length ?b = 64"
      using l by (simp_all add: min_absorb2)
    then show ?thesis
      using fips_blocks_block[of "take (64 * j) m" ?b] by (simp add: take_add[symmetric] add.commute)
  qed
  have "full_loop m (int (length m) - 64) (int (64 * j)) (fips_blocks (take (64 * j) m), w) =
      full_loop m (int (length m) - 64) (int (64 * Suc j)) (fips_blocks (take (64 * Suc j) m), w')"
    using l by (subst full_loop.simps) (simp add: w'(1) b nat_mult_distrib add.commute)
  then show ?case
    using Suc.hyps(1)[of "Suc j" w'] Suc.hyps(2) l w'(2) by simp
qed

lemma be64_words: "n < 2 ^ 32 \<Longrightarrow> be64 (word_of_nat n) = replicate 4 0 @ be32 (word_of_nat n)"
proof -
  assume n: "n < 2 ^ 32"
  then have i: "i < 32" if "bit n i" for i
    using that by (metis bit_take_bit_iff take_bit_nat_eq_self)
  have "drop_bit j (word_of_nat n :: u64) = 0" if "32 \<le> j" for j
    using that by (intro bit_word_eqI) (auto simp: bit_simps dest!: i)
  moreover have "(ucast (drop_bit j (word_of_nat n :: u64)) :: u8) = ucast (drop_bit j (word_of_nat n :: u32))" for j
    using i[of "j + _"] by (intro bit_word_eqI) (auto simp: bit_simps dest: i)
  moreover have "(ucast (word_of_nat n :: u64) :: u8) = ucast (word_of_nat n :: u32)"
    using i by (intro bit_word_eqI) (auto simp: bit_simps)
  ultimately show ?thesis
    by (simp add: wire_defs numeral_eq_Suc)
qed


subsection \<open>The rest of the message\<close>

lemma hash_held:
  assumes "holds_block p w" "length p \<le> 64"
  shows "\<exists>w'. innerHash H w = (fips_block (zero_filled p) H, w') \<and> length w' = 80"
  using assms innerHash_fips[of w "zero_filled p" H] by (simp add: holds_block_def)

text \<open>Storing the length in word 15 writes the last four bytes.\<close>

lemma be_words_last:
  assumes "length q = 60"
  shows "(be_words (q @ replicate 4 0))[15 := v] = be_words (q @ be32 v)"
proof -
  have "of_le [be32 v ! 3, be32 v ! 2, be32 v ! 1, be32 v ! 0] = v"
    using of_be32[of v] by (simp add: be32_def le32_def)
  then have "be_words (q @ be32 v) ! 15 = v"
    using assms by (simp add: be_words_nth nth_append del: of_le_simps)
  moreover have "be_words (q @ replicate 4 0) ! i = be_words (q @ be32 v) ! i" if "i < 16" "i \<noteq> 15" for i
    using that assms by (simp add: be_words_nth nth_append)
  ultimately show ?thesis
    by (intro nth_equalityI) (auto simp: nth_list_update)
qed

lemma hash_length:
  assumes "holds_block p w" "length p \<le> 56" "n < 2 ^ 32"
  shows "fst (innerHash H (w[15 := word_of_nat n])) = fips_block (p @ replicate (56 - length p) 0 @ be64 (word_of_nat n)) H"
proof -
  let ?q = "p @ replicate (56 - length p) 0 @ replicate 4 (0 :: u8)"
  have z: "zero_filled p = ?q @ replicate 4 0"
    using assms(2) by (simp add: zero_filled_def flip: replicate_add)
  have b: "p @ replicate (56 - length p) 0 @ be64 (word_of_nat n) = ?q @ be32 (word_of_nat n)"
    by (simp only: be64_words[OF assms(3)] append_assoc)
  have "take 16 (w[15 := word_of_nat n]) = be_words (?q @ be32 (word_of_nat n))"
    using assms(1,2) be_words_last[of ?q "word_of_nat n"] by (simp add: holds_block_def take_update_swap z del: replicate.simps)
  then show ?thesis
    using assms(1) innerHash_fips[of "w[15 := word_of_nat n]" "?q @ be32 (word_of_nat n)" H] unfolding b
    by (auto simp: holds_block_def)
qed

lemma sha_digest_bytes: "map (\<lambda>k. ucast (drop_bit (8 * (3 - k mod 4)) ([a, b, c, d, e] ! (k div 4)) AND 0xff)) [0..<20] =
    be32 a @ be32 b @ be32 c @ be32 d @ be32 e"
  by (simp add: be32_def le32_def upt_rec)

subsection \<open>A test vector\<close>

text \<open>Three bytes fill one block with their padding; its schedule and the state after every ten steps.\<close>

definition sha_abc_data :: bytes where
  "sha_abc_data = [97, 98, 99, 0x80] @ replicate 59 0 @ [24]"

definition sha_abc_W :: "u32 list" where
  "sha_abc_W = [
    0x61626380, 0x00000000, 0x00000000, 0x00000000, 0x00000000, 0x00000000, 0x00000000, 0x00000000,
    0x00000000, 0x00000000, 0x00000000, 0x00000000, 0x00000000, 0x00000000, 0x00000000, 0x00000018,
    0xc2c4c700, 0x00000000, 0x00000030, 0x85898e01, 0x00000000, 0x00000060, 0x0b131c03, 0x00000030,
    0x85898ec1, 0x16263806, 0x00000000, 0x00000180, 0x2c4c700c, 0x000000f0, 0x93afb507, 0x5898e048,
    0x8e9a9202, 0x00000600, 0xb131c0f0, 0x16263bc6, 0x4ebed41e, 0x626380a1, 0x16263806, 0x000018c0,
    0xd2e138c4, 0x00000f00, 0x3afb5079, 0x898e04e5, 0xe2ba3c2b, 0x000060c0, 0x053a37cd, 0x74458547,
    0xda9415ed, 0x26380a16, 0x626383a1, 0x4ebf54de, 0x3835b44b, 0x0000f600, 0x1e84c7a3, 0x98e04d98,
    0x651d16a0, 0x62658ca1, 0x458544d6, 0x44584cb7, 0x7ba06619, 0x6380aea2, 0x0ae55269, 0x627b49a1,
    0x7cd45c9d, 0x000f0000, 0xfb50753a, 0xec6765e8, 0xba3c2be2, 0x0060c000, 0x3a37cd05, 0x458546f4,
    0xb8599dd6, 0x380a1a26, 0x01e02203, 0xe7cc3456, 0xe6e60b69, 0x00f60a00, 0x5795ef4f, 0x822e0879]"

lemma sha_abc_extends: "\<forall>t \<in> set [16..<80]. rol (((sha_abc_W ! (t - 3) XOR sha_abc_W ! (t - 8)) XOR sha_abc_W ! (t - 14)) XOR sha_abc_W ! (t - 16)) 1 = sha_abc_W ! t"
  by (simp add: upt_rec sha_abc_W_def rol_def)

lemma sha_abc_starts: "be_words sha_abc_data = take 16 sha_abc_W"
  by code_simp

lemma sha_abc_schedule: "t < 80 \<Longrightarrow> schedule (be_words sha_abc_data) t = sha_abc_W ! t"
proof (induction t rule: less_induct)
  case (less t)
  show ?case
  proof (cases "t < 16")
    case True
    then show ?thesis
      by (subst schedule.simps) (simp add: sha_abc_starts)
  next
    case False
    then have "t \<in> set [16..<80]"
      using less.prems unfolding set_upt atLeastLessThan_iff by linarith
    from bspec[OF sha_abc_extends this] show ?thesis
      using False less by (subst schedule.simps) (simp add: rol_rotl xor.assoc)
  qed
qed

lemmas sha_abc_steps = fips_f_def fips_K_def sha_abc_schedule sha_abc_W_def rol_rotl[symmetric] rol_def

lemma sha_abc_0: "fold (fips_step (be_words sha_abc_data)) [0, 1, 2, 3, 4, 5, 6, 7, 8, 9] (0x67452301, 0xefcdab89, 0x98badcfe, 0x10325476, 0xc3d2e1f0) =
    (0x8351f929, 0x4b6ae328, 0x27a301f5, 0x664f8c30, 0x0ff1f290)"
  by (simp add: sha_abc_steps)

lemma sha_abc_1: "fold (fips_step (be_words sha_abc_data)) [10, 11, 12, 13, 14, 15, 16, 17, 18, 19] (0x8351f929, 0x4b6ae328, 0x27a301f5, 0x664f8c30, 0x0ff1f290) =
    (0xfd9e1d7d, 0xdc64901d, 0x20aa99ca, 0xd3a49608, 0xc82f758b)"
  by (simp add: sha_abc_steps)

lemma sha_abc_2: "fold (fips_step (be_words sha_abc_data)) [20, 21, 22, 23, 24, 25, 26, 27, 28, 29] (0xfd9e1d7d, 0xdc64901d, 0x20aa99ca, 0xd3a49608, 0xc82f758b) =
    (0xc5fbaf5d, 0x8370b52e, 0xd2aa1365, 0x6f8d7ef5, 0x12104ee9)"
  by (simp add: sha_abc_steps)

lemma sha_abc_3: "fold (fips_step (be_words sha_abc_data)) [30, 31, 32, 33, 34, 35, 36, 37, 38, 39] (0xc5fbaf5d, 0x8370b52e, 0xd2aa1365, 0x6f8d7ef5, 0x12104ee9) =
    (0x32de1cba, 0x4c986405, 0xf718e5cf, 0x03d447f6, 0xf72eec32)"
  by (simp add: sha_abc_steps)

lemma sha_abc_4: "fold (fips_step (be_words sha_abc_data)) [40, 41, 42, 43, 44, 45, 46, 47, 48, 49] (0x32de1cba, 0x4c986405, 0xf718e5cf, 0x03d447f6, 0xf72eec32) =
    (0x120731c5, 0xbaf39337, 0xafab40b2, 0x2806e11b, 0x8714787c)"
  by (simp add: sha_abc_steps)

lemma sha_abc_5: "fold (fips_step (be_words sha_abc_data)) [50, 51, 52, 53, 54, 55, 56, 57, 58, 59] (0x120731c5, 0xbaf39337, 0xafab40b2, 0x2806e11b, 0x8714787c) =
    (0x3f52de5a, 0x09d785fd, 0x3498bfd4, 0xf211824f, 0xd79915ab)"
  by (simp add: sha_abc_steps)

lemma sha_abc_6: "fold (fips_step (be_words sha_abc_data)) [60, 61, 62, 63, 64, 65, 66, 67, 68, 69] (0x3f52de5a, 0x09d785fd, 0x3498bfd4, 0xf211824f, 0xd79915ab) =
    (0x3f2588c2, 0x497093c0, 0xde37534a, 0x030f7cad, 0x4405957e)"
  by (simp add: sha_abc_steps)

lemma sha_abc_7: "fold (fips_step (be_words sha_abc_data)) [70, 71, 72, 73, 74, 75, 76, 77, 78, 79] (0x3f2588c2, 0x497093c0, 0xde37534a, 0x030f7cad, 0x4405957e) =
    (0x42541b35, 0x5738d5e1, 0x21834873, 0x681e6df6, 0xd8fdf6ad)"
  by (simp add: sha_abc_steps)

lemma sha_abc_block: "fips_block sha_abc_data fips_init = (0xa9993e36, 0x4706816a, 0xba3e2571, 0x7850c26c, 0x9cd0d89d)"
proof -
  have "[0..<80] = [0, 1, 2, 3, 4, 5, 6, 7, 8, 9] @ [10, 11, 12, 13, 14, 15, 16, 17, 18, 19] @ [20, 21, 22, 23, 24, 25, 26, 27, 28, 29] @
      [30, 31, 32, 33, 34, 35, 36, 37, 38, 39] @ [40, 41, 42, 43, 44, 45, 46, 47, 48, 49] @ [50, 51, 52, 53, 54, 55, 56, 57, 58, 59] @
      [60, 61, 62, 63, 64, 65, 66, 67, 68, 69] @ [70, 71, 72, 73, 74, 75, 76, 77, 78, 79]"
    by code_simp
  then have "fold (fips_step (be_words sha_abc_data)) [0..<80] fips_init = (0x42541b35, 0x5738d5e1, 0x21834873, 0x681e6df6, 0xd8fdf6ad)"
    unfolding fips_init_def by (simp only: fold_append o_apply sha_abc_0 sha_abc_1 sha_abc_2 sha_abc_3 sha_abc_4 sha_abc_5 sha_abc_6 sha_abc_7)
  then show ?thesis
    by (simp add: fips_block_def fips_init_def)
qed

lemma sha_abc_digest: "fips_sha1 [97, 98, 99] =
    [0xa9, 0x99, 0x3e, 0x36, 0x47, 0x06, 0x81, 0x6a, 0xba, 0x3e, 0x25, 0x71, 0x78, 0x50, 0xc2, 0x6c, 0x9c, 0xd0, 0xd8, 0x9d]"
proof -
  have "fips_padded [97, 98, 99] = sha_abc_data"
    by code_simp
  moreover have "fips_blocks sha_abc_data = fips_block sha_abc_data fips_init"
    by (simp add: fips_blocks_def) (simp add: sha_abc_data_def)
  ultimately show ?thesis
    unfolding fips_sha1_def sha_abc_block by (simp add: be32_def le32_def)
qed

subsection \<open>The property\<close>

text \<open>C39. The 20 bytes written are the SHA-1 digest of the standard, for every message whose length in bits an \<open>int\<close> holds.
\<close>

theorem calc_is_sha1:
  assumes "length m < 2 ^ 28"
  shows "calc m = fips_sha1 m"
proof -
  define q where "q = 64 * (length m div 64)"
  define r where "r = length m mod 64"
  have qr: "length m = q + r" "r < 64" "q mod 64 = 0" "q \<le> length m"
    by (auto simp: q_def r_def)
  let ?p = "drop q m"
  let ?n = "8 * length m"
  have n: "?n < 2 ^ 32" and n': "(word_of_int (int (length m) * 8) :: u32) = word_of_nat ?n"
    using assms by (auto simp: mult.commute)
  obtain w where w: "full_loop m (int (length m) - 64) 0 (fips_init, replicate 80 0) = (int q, fips_blocks (take q m), w)" "length w = 80"
    using full_loop_fips[of 0 m "replicate 80 0"] by (auto simp: q_def fips_blocks_def)
  have p: "map (\<lambda>k. m ! (k + q)) [0..<r] = ?p"
    using qr by (intro nth_equalityI) (auto simp: add.commute)
  define v where "v = put_byte r 0x80 (fold (\<lambda>k. put_byte k (m ! (k + q))) [0..<r] (clearWBuffert w))"
  have v: "holds_block (?p @ [0x80]) v"
    using put_next[OF put_all[OF clear_holds[OF w(2)], of r "\<lambda>k. m ! (k + q)"], of "0x80"] qr by (simp add: v_def p)
  have r': "nat (int (length m) - int q) = r"
    using qr by simp
  let ?H = "fips_blocks (take q m)"
  define Hv where "Hv = (if 56 \<le> r then (case innerHash ?H v of (H, v) \<Rightarrow> (H, clearWBuffert v)) else (?H, v))"
  have calc: "calc m = (case fst (innerHash (fst Hv) ((snd Hv)[15 := word_of_nat ?n])) of (a, b, c, d, e) \<Rightarrow> be32 a @ be32 b @ be32 c @ be32 d @ be32 e)"
    using w(1)[unfolded fips_init_def] r'
    by (cases "innerHash (fst Hv) ((snd Hv)[15 := word_of_nat ?n])"; cases "innerHash ?H v")
      (auto simp: calc_def Let_def n' Hv_def v_def sha_digest_bytes simp del: low_byte drop_bit_and of_nat_mult of_int_mult)
  have pad: "(55 - int (length m)) mod 64 = (55 - int r) mod 64"
    by (simp add: r_def zmod_int mod_diff_right_eq)
  have "fst (innerHash (fst Hv) ((snd Hv)[15 := word_of_nat ?n])) = fips_blocks (fips_padded m)"
  proof (cases "56 \<le> r")
    case False
    then have "nat ((55 - int (length m)) mod 64) = 55 - r"
      by (simp add: pad nat_diff_distrib')
    then have "fips_padded m = take q m @ ((?p @ [0x80]) @ replicate (56 - length (?p @ [0x80])) 0 @ be64 (word_of_nat ?n))"
      using qr by (simp add: fips_padded_def)
    moreover have "length ((?p @ [0x80]) @ replicate (56 - length (?p @ [0x80])) 0 @ be64 (word_of_nat ?n)) = 64"
      using qr False by simp
    ultimately show ?thesis
      using hash_length[OF v _ n] fips_blocks_block[of "take q m"] qr False by (simp add: Hv_def min_def)
  next
    case True
    have "(55 - int r) mod 64 = (119 - int r) mod 64"
      using mod_add_self2[of "55 - int r" 64] by simp
    then have "nat ((55 - int (length m)) mod 64) = (63 - r) + 56"
      using True qr(2) unfolding pad by simp
    then have "fips_padded m = (take q m @ zero_filled (?p @ [0x80])) @ (replicate 56 0 @ be64 (word_of_nat ?n))"
      using qr replicate_add[of "63 - r" 56 "0 :: u8"] True by (simp add: fips_padded_def zero_filled_def)
    moreover obtain v' where v': "innerHash ?H v = (fips_block (zero_filled (?p @ [0x80])) ?H, v')" "length v' = 80"
      using hash_held[OF v, of ?H] qr by auto
    moreover have "fips_blocks (take q m @ zero_filled (?p @ [0x80])) = fips_block (zero_filled (?p @ [0x80])) ?H"
      using qr by (intro fips_blocks_block) (auto simp: zero_filled_def min_def)
    ultimately show ?thesis
      using hash_length[OF clear_holds[OF v'(2)] _ n] fips_blocks_block[of "take q m @ zero_filled (?p @ [0x80])"] qr True
      by (simp add: Hv_def zero_filled_def min_def)
  qed
  then show ?thesis
    by (simp add: calc fips_sha1_def)
qed


theorem calc_is_sha1_witness: "calc [97, 98, 99] =
    [0xa9, 0x99, 0x3e, 0x36, 0x47, 0x06, 0x81, 0x6a, 0xba, 0x3e, 0x25, 0x71, 0x78, 0x50, 0xc2, 0x6c, 0x9c, 0xd0, 0xd8, 0x9d]"
  using calc_is_sha1[of "[97, 98, 99]"] by (simp add: sha_abc_digest)

end
