(* ===== verification/C_Text.thy ===== *)
theory C_Text
  imports Prelude
begin

section \<open>Text: C strings, std::string, and src/string.hpp\<close>

text \<open>
  Text is a list of bytes. A C string is memory with a zero byte in it; a function that scans memory
  without finding one runs out of it, which is the result \<open>None\<close>. The members of \<open>std::string\<close> that the
  code uses follow, then number conversion and formatting, then the functions of \<open>libstring\<close>.
\<close>

definition str :: "string \<Rightarrow> bytes" where
  "str s = map of_char s"

definition crlf :: bytes where "crlf = [13, 10]"

subsection \<open>C strings\<close>

text \<open>The C string at the front of memory.\<close>

fun cstr :: "bytes \<Rightarrow> bytes option" where
  "cstr [] = None"
| "cstr (c # m) = (if c = 0 then Some [] else map_option ((#) c) (cstr m))"

text \<open>What a callee that takes \<open>s.c_str()\<close> sees of a \<open>std::string\<close>.\<close>

definition c_str :: "bytes \<Rightarrow> bytes" where
  "c_str s = takeWhile (\<lambda>c. c \<noteq> 0) s"

fun is_prefix :: "bytes \<Rightarrow> bytes \<Rightarrow> bool" where
  "is_prefix [] s = True"
| "is_prefix (p # ps) [] = False"
| "is_prefix (p # ps) (c # s) = (p = c \<and> is_prefix ps s)"

text \<open>\<open>strstr\<close>: the offset of the first occurrence before the end of the C string.\<close>

fun strstr_from :: "nat \<Rightarrow> bytes \<Rightarrow> bytes \<Rightarrow> nat option option" where
  "strstr_from i [] pat = None"
| "strstr_from i (c # m) pat =
     (if is_prefix pat (c # m) then Some (Some i) else if c = 0 then Some None else strstr_from (i + 1) m pat)"

definition strstr :: "bytes \<Rightarrow> bytes \<Rightarrow> nat option option" where
  "strstr m pat = strstr_from 0 m pat"

text \<open>\<open>strchr\<close> on the text of a C string.\<close>

fun strchr_from :: "nat \<Rightarrow> bytes \<Rightarrow> u8 \<Rightarrow> nat option" where
  "strchr_from i [] c = None"
| "strchr_from i (x # s) c = (if x = c then Some i else strchr_from (i + 1) s c)"

definition strchr :: "bytes \<Rightarrow> u8 \<Rightarrow> nat option" where
  "strchr s c = strchr_from 0 s c"

subsection \<open>std::string\<close>

fun find_at :: "nat \<Rightarrow> bytes \<Rightarrow> bytes \<Rightarrow> nat option" where
  "find_at i pat [] = (if pat = [] then Some i else None)"
| "find_at i pat (c # s) = (if is_prefix pat (c # s) then Some i else find_at (i + 1) pat s)"

text \<open>\<open>s.find(pat, pos)\<close>; \<open>npos\<close> is \<open>None\<close>.\<close>

definition string_find :: "bytes \<Rightarrow> bytes \<Rightarrow> nat \<Rightarrow> nat option" where
  "string_find s pat pos = (if pos \<le> length s then find_at pos pat (drop pos s) else None)"

definition contains :: "bytes \<Rightarrow> bytes \<Rightarrow> bool" where
  "contains s pat = (string_find s pat 0 \<noteq> None)"

text \<open>\<open>s.rfind("c")\<close> for a single character.\<close>

definition string_rfind :: "bytes \<Rightarrow> u8 \<Rightarrow> nat option" where
  "string_rfind s c = map_option (\<lambda>i. length s - 1 - i) (strchr (rev s) c)"

text \<open>\<open>s.substr(pos, n)\<close> for \<open>pos \<le> s.size()\<close>; beyond, it throws \<open>out_of_range\<close>.\<close>

definition substr :: "bytes \<Rightarrow> nat \<Rightarrow> nat \<Rightarrow> bytes option" where
  "substr s pos n = (if pos \<le> length s then Some (take n (drop pos s)) else None)"

definition substr_from :: "bytes \<Rightarrow> nat \<Rightarrow> bytes option" where
  "substr_from s pos = (if pos \<le> length s then Some (drop pos s) else None)"

subsection \<open>Numbers\<close>

definition is_space :: "u8 \<Rightarrow> bool" where
  "is_space c \<longleftrightarrow> c = 32 \<or> (9 \<le> c \<and> c \<le> 13)"

definition is_digit :: "u8 \<Rightarrow> bool" where
  "is_digit c \<longleftrightarrow> 48 \<le> c \<and> c \<le> 57"

fun digits :: "nat \<Rightarrow> bytes \<Rightarrow> nat \<times> bytes" where
  "digits v [] = (v, [])"
| "digits v (c # s) = (if is_digit c then digits (10 * v + (unat c - 48)) s else (v, c # s))"

text \<open>Blanks, a sign, digits: the value (when there is a digit) and the rest of the text.\<close>

definition parse_int :: "bytes \<Rightarrow> int option \<times> bytes" where
  "parse_int s =
     (let s = dropWhile is_space s;
          (neg, t) = (case s of c # t \<Rightarrow> if c = 45 then (True, t) else if c = 43 then (False, t) else (False, s) | [] \<Rightarrow> (False, s));
          (v, r) = digits 0 t
      in if t \<noteq> [] \<and> is_digit (hd t) then (Some (if neg then - int v else int v), r) else (None, t))"

definition in_int :: "int \<Rightarrow> bool" where
  "in_int v \<longleftrightarrow> - (2 ^ 31) \<le> v \<and> v < 2 ^ 31"

text \<open>\<open>atoi\<close>: 0 without a number; undefined when the number is no \<open>int\<close>.\<close>

definition atoi :: "bytes \<Rightarrow> int option" where
  "atoi s = (case fst (parse_int s) of None \<Rightarrow> Some 0 | Some v \<Rightarrow> if in_int v then Some v else None)"

text \<open>Decimal digits.\<close>

fun dec_nat :: "nat \<Rightarrow> bytes" where
  "dec_nat n = (if n < 10 then [word_of_nat (48 + n)] else dec_nat (n div 10) @ [word_of_nat (48 + n mod 10)])"

declare dec_nat.simps [simp del]

definition dec :: "int \<Rightarrow> bytes" where
  "dec v = (if v < 0 then 45 # dec_nat (nat (- v)) else dec_nat (nat v))"

subsection \<open>sprintf\<close>

text \<open>
  The conversions the program uses: \<open>%s\<close>, \<open>%d\<close> and \<open>%0.<d>f\<close>. A missing argument or one of the wrong type is
  undefined, with one exception: a floating-point conversion that meets an \<open>int\<close> prints some text \<open>junk\<close> (the
  callee looks for it in a register that the caller has not set).
\<close>

datatype arg = Arg_s bytes | Arg_d int

function sprintf :: "bytes \<Rightarrow> bytes \<Rightarrow> arg list \<Rightarrow> bytes option" where
  "sprintf junk [] args = Some []"
| "sprintf junk (c # f) args =
     (if c \<noteq> 37 then map_option ((#) c) (sprintf junk f args)
      else if is_prefix [115] f then
        (case args of Arg_s s # args \<Rightarrow> map_option ((@) s) (sprintf junk (drop 1 f) args) | _ \<Rightarrow> None)
      else if is_prefix [100] f then
        (case args of Arg_d v # args \<Rightarrow> map_option ((@) (dec v)) (sprintf junk (drop 1 f) args) | _ \<Rightarrow> None)
      else if is_prefix [48, 46] f \<and> is_prefix [102] (drop 3 f) then
        (case args of Arg_d v # args \<Rightarrow> map_option ((@) junk) (sprintf junk (drop 4 f) args) | _ \<Rightarrow> None)
      else None)"
  by pat_completeness auto
termination by (relation "measure (\<lambda>(_, f, _). length f)") auto

subsection \<open>libstring (src/string.hpp)\<close>

text \<open>\<open>Split\<close>: with an empty separator the search succeeds at the same place forever, which is the result \<open>None\<close>.\<close>

partial_function (option) Split_loop :: "bytes \<Rightarrow> bytes \<Rightarrow> nat \<Rightarrow> bytes list \<Rightarrow> bytes list option" where
  "Split_loop s p pos v =
     (case string_find s p pos of
        None \<Rightarrow> Some (v @ [drop pos s])
      | Some e \<Rightarrow> Split_loop s p (e + length p) (v @ [take (e - pos) (drop pos s)]))"

declare Split_loop.simps [code]

definition Split :: "bytes \<Rightarrow> bytes \<Rightarrow> bytes list option" where
  "Split s p = Split_loop s p 0 []"

text \<open>The fields that \<open>getline\<close> delivers: a delimiter at the end starts no field.\<close>

fun getlines :: "bytes \<Rightarrow> u8 \<Rightarrow> bytes \<Rightarrow> bytes list" where
  "getlines [] flag token = (if token = [] then [] else [token])"
| "getlines (c # s) flag token = (if c = flag then token # getlines s flag [] else getlines s flag (token @ [c]))"

datatype std_exn = Invalid_argument | Out_of_range

definition stoi :: "bytes \<Rightarrow> std_exn + int" where
  "stoi s = (case fst (parse_int s) of None \<Rightarrow> Inl Invalid_argument | Some v \<Rightarrow> if in_int v then Inr v else Inl Out_of_range)"

fun Split2Bit_loop :: "bytes list \<Rightarrow> u32 \<Rightarrow> std_exn + u32" where
  "Split2Bit_loop [] ret = Inr ret"
| "Split2Bit_loop (token # ts) ret =
     (case stoi token of
        Inl e \<Rightarrow> Inl e
      | Inr num \<Rightarrow>
          (let ret = (if num > 0 \<and> num < 33 then ret OR push_bit (nat (num - 1)) 1 else ret)
           in Split2Bit_loop ts ret))"

definition Split2Bit :: "bytes \<Rightarrow> u8 \<Rightarrow> std_exn + u32" where
  "Split2Bit s flag = Split2Bit_loop (getlines s flag []) 0"

text \<open>
  \<open>Sprintf\<close>: a text that does not fit the 1024 bytes on the stack is printed again into a string with one byte
  more, the zero that \<open>vsnprintf\<close> writes, which stays in the result.
\<close>

definition Sprintf :: "bytes \<Rightarrow> bytes \<Rightarrow> arg list \<Rightarrow> bytes option" where
  "Sprintf junk fmt args =
     map_option (\<lambda>s. if 1024 \<le> length s then s @ [0] else s) (sprintf junk fmt args)"

subsection \<open>Searching\<close>

lemma is_prefix_append: "is_prefix p s \<longleftrightarrow> (\<exists>t. s = p @ t)"
  by (induction p s rule: is_prefix.induct) auto

lemma is_prefix_self [simp]: "is_prefix p (p @ t)"
  by (auto simp: is_prefix_append)

lemma is_prefix_length: "is_prefix p s \<Longrightarrow> length p \<le> length s"
  by (auto simp: is_prefix_append)

lemma find_at_hit: "is_prefix pat s \<Longrightarrow> find_at i pat s = Some i"
  by (cases s; cases pat) auto

lemma strstr_from_hit: "is_prefix pat s \<Longrightarrow> s \<noteq> [] \<Longrightarrow> strstr_from i s pat = Some (Some i)"
  by (cases s) auto

text \<open>Text without the first character of the pattern is skipped.\<close>

lemma find_at_skip: "c \<notin> set s \<Longrightarrow> find_at i (c # p) (s @ t) = find_at (i + length s) (c # p) t"
  by (induction s arbitrary: i) auto

lemma find_at_absent: "c \<notin> set s \<Longrightarrow> find_at i (c # p) s = None"
  using find_at_skip[of c s i p "[]"] by simp

lemma strstr_from_skip:
  "c \<notin> set s \<Longrightarrow> 0 \<notin> set s \<Longrightarrow> strstr_from i (s @ t) (c # p) = strstr_from (i + length s) t (c # p)"
  by (induction s arbitrary: i) auto

lemma strchr_from_skip: "c \<notin> set s \<Longrightarrow> strchr_from i (s @ t) c = strchr_from (i + length s) t c"
  by (induction s arbitrary: i) auto

lemma strchr_absent: "c \<notin> set s \<Longrightarrow> strchr s c = None"
  using strchr_from_skip[of c s 0 "[]"] by (simp add: strchr_def)

lemma strchr_first: "c \<notin> set s \<Longrightarrow> strchr (s @ c # t) c = Some (length s)"
  by (simp add: strchr_def strchr_from_skip)

lemma find_at_bounds: "find_at i pat s = Some k \<Longrightarrow> i \<le> k \<and> k - i + length pat \<le> length s \<and> is_prefix pat (drop (k - i) s)"
proof (induction i pat s rule: find_at.induct)
  case (2 i pat c s)
  show ?case
  proof (cases "is_prefix pat (c # s)")
    case True
    with 2(2) show ?thesis
      using is_prefix_length[OF True] by simp
  next
    case False
    with 2(2) have "find_at (i + 1) pat s = Some k"
      by simp
    from 2(1)[OF False this] show ?thesis
      by (auto simp: Suc_diff_le[symmetric] drop_Cons')
  qed
qed (auto split: if_splits)

lemma strstr_from_first: "strstr_from i m pat = Some (Some k) \<Longrightarrow> is_prefix pat (drop j m) \<Longrightarrow> pat \<noteq> [] \<Longrightarrow> 0 \<notin> set (take j m) \<Longrightarrow> k \<le> i + j"
proof (induction m arbitrary: i j)
  case (Cons c m)
  then show ?case
  proof (cases j)
    case (Suc j')
    with Cons.prems Cons.IH[of "i + 1" j'] show ?thesis
      by (auto split: if_splits)
  qed (auto split: if_splits)
qed simp

text \<open>Without a match and without a zero byte the search leaves the memory.\<close>

lemma strstr_from_overrun: "0 \<notin> set m \<Longrightarrow> (\<And>j. j < length m \<Longrightarrow> \<not> is_prefix pat (drop j m)) \<Longrightarrow> strstr_from i m pat = None"
proof (induction m arbitrary: i)
  case (Cons c m)
  have "\<not> is_prefix pat (c # m)"
    using Cons.prems(2)[of 0] by simp
  moreover have "strstr_from (i + 1) m pat = None"
    using Cons.prems(1) Cons.prems(2)[of "Suc j" for j] by (intro Cons.IH) auto
  ultimately show ?case
    using Cons.prems(1) by simp
qed simp

lemma strstr_prefix_overrun:
  assumes "strstr (m @ t) pat = Some (Some k)" and "length m < k + length pat" and "pat \<noteq> []" and "0 \<notin> set m"
  shows "strstr m pat = None"
  unfolding strstr_def
proof (rule strstr_from_overrun)
  fix j
  assume "j < length m"
  show "\<not> is_prefix pat (drop j m)"
  proof
    assume p: "is_prefix pat (drop j m)"
    then have "is_prefix pat (drop j (m @ t))"
      by (auto simp: is_prefix_append)
    then have "k \<le> j"
      using strstr_from_first[OF assms(1)[unfolded strstr_def], of j] assms(3,4) \<open>j < length m\<close> by (auto dest: in_set_takeD)
    then show False
      using is_prefix_length[OF p] assms(2) \<open>j < length m\<close> by simp
  qed
qed (fact assms(4))

lemma c_str_id: "0 \<notin> set s \<Longrightarrow> c_str s = s"
  by (auto simp: c_str_def takeWhile_eq_all_conv)

lemma c_str_append: "0 \<notin> set s \<Longrightarrow> c_str (s @ t) = s @ c_str t"
  by (simp add: c_str_def takeWhile_append)

lemma zero_c_str: "0 \<notin> set (c_str s)"
  by (auto simp: c_str_def dest: set_takeWhileD)

subsection \<open>Decimal numbers\<close>

lemma digit_value: "d < 10 \<Longrightarrow> is_digit (word_of_nat (48 + d)) \<and> unat (word_of_nat (48 + d) :: u8) - 48 = d"
proof -
  assume "d < 10"
  then have "unat (word_of_nat (48 + d) :: u8) = 48 + d"
    by (simp add: unat_of_nat del: of_nat_add)
  with \<open>d < 10\<close> show ?thesis
    by (simp add: is_digit_def word_le_nat_alt)
qed

lemma digits_dec_nat: "digits v (dec_nat n @ s) = digits (v * 10 ^ length (dec_nat n) + n) s"
proof (induction n arbitrary: v s rule: dec_nat.induct)
  case (1 n)
  show ?case
  proof (cases "n < 10")
    case True
    with digit_value[OF True] show ?thesis
      by (subst (1 2) dec_nat.simps) (simp add: mult.commute)
  next
    case False
    have "n mod 10 < 10"
      by simp
    from digit_value[OF this] have "digits (10 * w) (word_of_nat (48 + n mod 10) # s) = digits (10 * (10 * w) + n mod 10) s" for w
      by simp
    then show ?thesis
      using False 1[OF False] digit_value[OF \<open>n mod 10 < 10\<close>]
      by (subst (1 2) dec_nat.simps) (simp add: algebra_simps)
  qed
qed

lemma dec_nat_digits: "dec_nat n \<noteq> [] \<and> (\<forall>c \<in> set (dec_nat n). is_digit c)"
proof (induction n rule: dec_nat.induct)
  case (1 n)
  show ?case
  proof (cases "n < 10")
    case True
    then show ?thesis
      using digit_value[OF True] by (subst (1 2) dec_nat.simps) simp
  next
    case False
    then show ?thesis
      using 1 digit_value[of "n mod 10"] by (subst (1 2) dec_nat.simps) auto
  qed
qed

lemma digit_facts: "is_digit c \<Longrightarrow> c \<noteq> 0 \<and> c \<noteq> 13 \<and> c \<noteq> 10 \<and> c \<noteq> 45 \<and> c \<noteq> 43 \<and> c \<noteq> 47 \<and> c \<noteq> 58 \<and> c \<noteq> 64 \<and> \<not> is_space c"
  unfolding is_digit_def is_space_def word_le_nat_alt by auto

text \<open>A printed number followed by anything but a digit is read back.\<close>

lemma digits_stop: "s = [] \<or> \<not> is_digit (hd s) \<Longrightarrow> digits v s = (v, s)"
  by (cases s) auto

lemma atoi_dec_nat:
  assumes "n < 2 ^ 31" "s = [] \<or> \<not> is_digit (hd s)"
  shows "atoi (dec_nat n @ s) = Some (int n)"
proof -
  obtain c t where c: "dec_nat n = c # t" "is_digit c"
    using dec_nat_digits[of n] by (cases "dec_nat n") auto
  have "digits 0 (dec_nat n @ s) = (n, s)"
    using digits_dec_nat[of 0 n s] digits_stop[OF assms(2)] by simp
  then have "parse_int (dec_nat n @ s) = (Some (int n), s)"
    using c digit_facts[OF c(2)] by (simp add: parse_int_def)
  then show ?thesis
    using assms(1) by (simp add: atoi_def in_int_def)
qed

lemma dec_nonneg: "0 \<le> v \<Longrightarrow> dec v = dec_nat (nat v)"
  by (simp add: dec_def)

subsection \<open>Split\<close>

lemma find_at_first: "find_at i pat s = Some k \<Longrightarrow> is_prefix pat (drop j s) \<Longrightarrow> k \<le> i + j"
proof (induction s arbitrary: i j)
  case Nil
  then show ?case
    by (auto split: if_splits)
next
  case (Cons c s)
  show ?case
  proof (cases j)
    case (Suc j')
    with Cons.prems Cons.IH[of "i + 1" j'] show ?thesis
      by (auto split: if_splits)
  qed (use Cons.prems in \<open>auto split: if_splits\<close>)
qed

lemma find_at_None: "find_at i pat s = None \<Longrightarrow> j \<le> length s \<Longrightarrow> \<not> is_prefix pat (drop j s)"
proof (induction s arbitrary: i j)
  case Nil
  then show ?case
    by (cases pat) (auto split: if_splits)
next
  case (Cons c s)
  show ?case
  proof (cases j)
    case (Suc j')
    with Cons.prems Cons.IH[of "i + 1" j'] show ?thesis
      by (auto split: if_splits)
  qed (use Cons.prems in \<open>auto split: if_splits\<close>)
qed

lemma find_at_some_iff: "(\<exists>k. find_at i pat s = Some k) \<longleftrightarrow> (\<exists>j \<le> length s. is_prefix pat (drop j s))"
proof
  assume "\<exists>k. find_at i pat s = Some k"
  then obtain k where "find_at i pat s = Some k" ..
  from find_at_bounds[OF this] show "\<exists>j \<le> length s. is_prefix pat (drop j s)"
    by (intro exI[of _ "k - i"]) simp
next
  assume "\<exists>j \<le> length s. is_prefix pat (drop j s)"
  then show "\<exists>k. find_at i pat s = Some k"
    using find_at_None[of i pat s] by (cases "find_at i pat s") auto
qed

text \<open>A piece before the first match contains no match.\<close>

lemma piece_free:
  assumes "find_at i pat s = Some k" "pat \<noteq> []"
  shows "find_at 0 pat (take (k - i) s) = None"
proof (rule ccontr)
  assume "find_at 0 pat (take (k - i) s) \<noteq> None"
  then obtain q where q: "find_at 0 pat (take (k - i) s) = Some q"
    by auto
  from find_at_bounds[OF this] have p: "q + length pat \<le> k - i" "is_prefix pat (drop q (take (k - i) s))"
    by simp_all
  from p(2) have "is_prefix pat (drop q s)"
    unfolding is_prefix_append drop_take by (metis append_assoc append_take_drop_id drop_drop)
  from find_at_first[OF assms(1) this] have "k \<le> i + q" .
  moreover have "0 < length pat"
    using assms(2) by simp
  ultimately show False
    using p(1) find_at_bounds[OF assms(1)] by linarith
qed

fun join :: "bytes \<Rightarrow> bytes list \<Rightarrow> bytes" where
  "join p [] = []"
| "join p [x] = x"
| "join p (x # y # ys) = x @ p @ join p (y # ys)"

lemma join_Cons: "ys \<noteq> [] \<Longrightarrow> join p (x # ys) = x @ p @ join p ys"
  by (cases ys) auto

lemma Split_loop_defined:
  assumes "p \<noteq> []" "pos \<le> length s"
  shows "\<exists>w. Split_loop s p pos v = Some (v @ w) \<and> w \<noteq> [] \<and> join p w = drop pos s \<and> list_all (\<lambda>x. \<not> contains x p) w"
  using assms(2)
proof (induction "length s - pos" arbitrary: pos v rule: less_induct)
  case less
  show ?case
  proof (cases "string_find s p pos")
    case None
    then have "\<not> contains (drop pos s) p"
      using less(2) find_at_some_iff[of pos p "drop pos s"] find_at_some_iff[of 0 p "drop pos s"]
      by (auto simp: string_find_def contains_def)
    with None show ?thesis
      by (subst Split_loop.simps) (auto intro!: exI[of _ "[drop pos s]"])
  next
    case (Some e)
    then have e: "find_at pos p (drop pos s) = Some e"
      using less(2) by (simp add: string_find_def)
    note b = find_at_bounds[OF e]
    let ?x = "take (e - pos) (drop pos s)"
    have pl: "0 < length p"
      using assms(1) by simp
    have "pos \<le> e" "e - pos + length p \<le> length s - pos"
      using b unfolding length_drop by blast+
    then have "e + length p \<le> length s" "length s - (e + length p) < length s - pos"
      using less(2) pl by linarith+
    from less(1)[OF this(2,1), of "v @ [?x]"] obtain w where
      w: "Split_loop s p (e + length p) (v @ [?x]) = Some ((v @ [?x]) @ w)" "w \<noteq> []" "join p w = drop (e + length p) s"
        "list_all (\<lambda>x. \<not> contains x p) w"
      by auto
    have "drop (e - pos) (drop pos s) = p @ drop (e + length p) s"
    proof -
      obtain t where t: "drop (e - pos) (drop pos s) = p @ t"
        using b by (auto simp only: is_prefix_append)
      then have "drop (length p) (drop (e - pos) (drop pos s)) = t"
        by simp
      then have "t = drop (e + length p) s"
        using \<open>pos \<le> e\<close> by (simp add: add.commute)
      with t show ?thesis
        by (simp only:)
    qed
    then have "?x @ p @ drop (e + length p) s = drop pos s"
      using append_take_drop_id[of "e - pos" "drop pos s"] by simp
    moreover have "\<not> contains ?x p"
      using piece_free[OF e assms(1)] by (simp add: contains_def string_find_def)
    ultimately show ?thesis
      using w Some by (subst Split_loop.simps) (auto simp: join_Cons intro!: exI[of _ "?x # w"])
  qed
qed

text \<open>For a separator that is not empty, the pieces joined by it are the text again, and none of them contains it.\<close>

lemma Split_join:
  assumes "p \<noteq> []"
  shows "\<exists>v. Split s p = Some v \<and> join p v = s \<and> list_all (\<lambda>x. \<not> contains x p) v"
  using Split_loop_defined[OF assms, of 0 s "[]"] by (auto simp: Split_def)

lemma Split_loop_empty: "Split_loop s p pos v = Some r \<Longrightarrow> p = [] \<Longrightarrow> pos \<le> length s \<Longrightarrow> False"
proof (induct rule: Split_loop.raw_induct[rotated, consumes 1, case_names loop])
  case (loop split s p pos v r)
  have "string_find s p pos = Some pos"
    using loop(3,4) by (simp add: string_find_def find_at_hit)
  with loop show False
    by simp
qed

lemma Split_empty: "Split s [] = None"
  using Split_loop_empty[of s "[]" 0 "[]"] by (cases "Split s []") (auto simp: Split_def)

end
