(* ===== verification/Ftp_Line.thy ===== *)
theory Ftp_Line
  imports C_Text "HOL-Library.Monad_Syntax"
begin

section \<open>Lines and data of an FTP connection (src/net/ftp.hpp)\<close>

text \<open>
  The connection record \<open>context\<close> with its input buffer, and what reads and writes through it: \<open>readline\<close>,
  \<open>writeline\<close>, \<open>FtpRead\<close>, \<open>FtpWrite\<close>. What arrives on a socket is a list of the results that further reads find; on
  an empty list nothing more arrives. The result \<open>None\<close> is an access out of an array, or a call that never returns.
  No operation installs \<open>idlecb\<close> (it is private and has no setter), so it is null and the branches it guards are dead.
  The log callback is a flag and a list of what it has been given.
\<close>

definition FTPLIB_BUFSIZ :: nat where "FTPLIB_BUFSIZ = 4096"
definition FTPLIB_CONTROL :: int where "FTPLIB_CONTROL = 0"
definition FTPLIB_READ :: int where "FTPLIB_READ = 1"
definition FTPLIB_WRITE :: int where "FTPLIB_WRITE = 2"

text \<open>
  \<open>cput\<close> and \<open>cget\<close> are offsets into the buffer. The callback is told how much has been transferred and answers whether
  to go on. \<open>has_ctrl\<close> says that \<open>ctrl\<close> points to the control connection.
\<close>

record ftp_context =
  cput :: nat
  cget :: nat
  handle :: int
  cavail :: int
  cleft :: int
  buf :: "bytes option"
  dir :: int
  has_ctrl :: bool
  cmode :: int
  idletime :: "int \<times> int"
  xfercb :: "(int \<Rightarrow> bool) option"
  logcb :: bool
  xfered :: int
  cbbytes :: int
  xfered1 :: int
  response :: bytes
  offset :: int
  correctpasv :: bool

datatype rx = Data bytes | Eof | Fail

text \<open>A read of at most \<open>n\<close> bytes: its result, the bytes stored, and what is left. End of file stays.\<close>

fun net_read :: "int \<Rightarrow> rx list \<Rightarrow> (int \<times> bytes \<times> rx list) option" where
  "net_read n [] = None"
| "net_read n (Data bs # net) =
     (let k = min (nat n) (length bs) in
      Some (int k, take k bs, if k < length bs then Data (drop k bs) # net else net))"
| "net_read n (Eof # net) = Some (0, [], Eof # net)"
| "net_read n (Fail # net) = Some (-1, [], net)"

text \<open>
  The kernel's answer to the \<open>i\<close>-th write of \<open>n\<close> bytes, which takes a prefix or fails; \<open>sent\<close> collects what it took.
\<close>

type_synonym writer = "nat \<Rightarrow> nat \<Rightarrow> int"

definition net_write :: "writer \<Rightarrow> bytes \<Rightarrow> bytes list \<Rightarrow> int \<times> bytes list" where
  "net_write wr data sent = (let w = wr (length sent) (length data) in (w, sent @ [take (nat w) data]))"

subsection \<open>Waiting\<close>

definition socket_wait_Control :: "rx list \<Rightarrow> bool" where
  "socket_wait_Control net = (net \<noteq> [])"

text \<open>Without \<open>idlecb\<close> a data connection does not wait.\<close>

definition socket_wait :: "ftp_context \<Rightarrow> rx list \<Rightarrow> bool" where
  "socket_wait ctl net = (if dir ctl = FTPLIB_CONTROL then socket_wait_Control net else True)"

subsection \<open>readline\<close>

text \<open>
  \<open>memccpy\<close> of at most \<open>n\<close> bytes from \<open>src + g\<close> to \<open>dst + b\<close>, up to and with the first \<open>c\<close>: the memory and the offset
  behind \<open>c\<close> if it was met. Running out of either array is \<open>None\<close>.
\<close>

definition memccpy :: "bytes \<Rightarrow> nat \<Rightarrow> bytes \<Rightarrow> nat \<Rightarrow> u8 \<Rightarrow> nat \<Rightarrow> (bytes \<times> nat option) option" where
  "memccpy dst b src g c n =
     (let s = drop g src; p = takeWhile (\<lambda>x. x \<noteq> c) s;
          copied = (if n \<le> length p then take n s else take (length p + 1) s)
      in if n \<le> length p \<or> length p < length s then
           (if b + length copied \<le> length dst
            then Some (take b dst @ copied @ drop (b + length copied) dst, if n \<le> length p then None else Some (b + length p + 1))
            else None)
         else None)"

text \<open>A negative count becomes a huge \<open>size_t\<close>.\<close>

definition as_size :: "int \<Rightarrow> nat" where
  "as_size x = nat (x mod 2 ^ 64)"

text \<open>
  What has been read is moved to the caller's buffer: the memory, the position in it, the count, the space left, whether the
  line has ended, and the context. The comparison with CR LF looks at the two bytes before the position.
\<close>

definition take_line :: "ftp_context \<Rightarrow> bytes \<Rightarrow> int \<Rightarrow> nat \<Rightarrow> int \<Rightarrow> (bytes \<times> int \<times> nat \<times> int \<times> bool \<times> ftp_context) option" where
  "take_line ctl dst max' bp retval =
     (if cavail ctl > 0 then do {
        src \<leftarrow> buf ctl;
        let x = (if max' \<ge> cavail ctl then cavail ctl else max' - 1);
        (dst, e) \<leftarrow> memccpy dst bp src (cget ctl) 10 (as_size x);
        let x = (case e of Some i \<Rightarrow> int i - int bp | None \<Rightarrow> x);
        let bp = bp + nat x;
        dst \<leftarrow> (if bp < length dst then Some (dst[bp := 0]) else None);
        let ctl = ctl\<lparr>cget := cget ctl + nat x, cavail := cavail ctl - x\<rparr>;
        (if e = None then Some (dst, max' - x, bp, retval + x, False, ctl)
         else if bp < 2 then None
         else if dst ! (bp - 2) = 13 \<and> dst ! (bp - 1) = 10
         then Some (dst[bp - 2 := 10, bp - 1 := 0], max' - x, bp, retval + x - 1, True, ctl)
         else Some (dst, max' - x, bp, retval + x, True, ctl))
      } else Some (dst, max', bp, retval, False, ctl))"

text \<open>The buffer is empty: start at its front.\<close>

definition rewind :: "ftp_context \<Rightarrow> ftp_context" where
  "rewind ctl = (if cput ctl = cget ctl then ctl\<lparr>cput := 0, cget := 0, cavail := 0, cleft := int FTPLIB_BUFSIZ\<rparr> else ctl)"

type_synonym logs = "(bytes \<times> bool) list"

text \<open>What a read has stored, and the log of the control connection, which ends the text with a zero behind it.\<close>

definition stored :: "ftp_context \<Rightarrow> bytes \<Rightarrow> logs \<Rightarrow> (ftp_context \<times> logs) option" where
  "stored ctl bs lg = do {
     m \<leftarrow> buf ctl;
     m \<leftarrow> (if cput ctl + length bs \<le> length m
            then Some (take (cput ctl) m @ bs @ drop (cput ctl + length bs) m) else None);
     (m, lg) \<leftarrow> (if dir ctl = FTPLIB_CONTROL \<and> logcb ctl then
                  (if cput ctl + length bs < length m
                   then (let m = m[cput ctl + length bs := 0] in
                         map_option (\<lambda>t. (m, lg @ [(t, True)])) (cstr (drop (cput ctl) m)))
                   else None)
                else Some (m, lg));
     Some (ctl\<lparr>buf := Some m, cleft := cleft ctl - int (length bs), cavail := cavail ctl + int (length bs),
              cput := cput ctl + length bs\<rparr>, lg)
   }"

fun rx_size :: "rx list \<Rightarrow> nat" where
  "rx_size [] = 0"
| "rx_size (Data bs # net) = length bs + rx_size net"
| "rx_size (_ # net) = rx_size net"

lemma net_read_size: "net_read n net = Some (x, bs, net') \<Longrightarrow> x \<noteq> 0 \<Longrightarrow> x \<noteq> -1 \<Longrightarrow> rx_size net' < rx_size net"
  by (cases "(n, net)" rule: net_read.cases) (auto simp: Let_def split: if_splits)

lemma net_read_size_le: "net_read n net = Some (x, bs, net') \<Longrightarrow> rx_size net' \<le> rx_size net"
  by (cases "(n, net)" rule: net_read.cases) (auto simp: Let_def split: if_splits)

lemma net_read_result: "net_read n net = Some (x, bs, net') \<Longrightarrow> x = int (length bs) \<or> x = -1"
  by (cases "(n, net)" rule: net_read.cases) (auto simp: Let_def split: if_splits)

function readline_loop :: "bytes \<Rightarrow> int \<Rightarrow> nat \<Rightarrow> int \<Rightarrow> bool \<Rightarrow> ftp_context \<Rightarrow> rx list \<Rightarrow> logs \<Rightarrow>
    (int \<times> bytes \<times> ftp_context \<times> rx list \<times> logs) option" where
  "readline_loop dst max' bp retval eof ctl net lg =
     (case take_line ctl dst max' bp retval of
        None \<Rightarrow> None
      | Some (dst, max', bp, retval, ended, ctl) \<Rightarrow>
          if ended then Some (retval, dst, ctl, net, lg)
          else if max' = 1 then (if dst = [] then None else Some (retval, dst[0 := 0], ctl, net, lg))
          else if eof then Some (if retval = 0 then -1 else retval, dst, rewind ctl, net, lg)
          else if \<not> socket_wait (rewind ctl) net then Some (retval, dst, rewind ctl, net, lg)
          else (case net_read (cleft (rewind ctl)) net of
              None \<Rightarrow> None
            | Some (x, bs, net') \<Rightarrow>
                if x = -1 then Some (-1, dst, rewind ctl, net', lg)
                else (case stored (rewind ctl) bs lg of
                    None \<Rightarrow> None
                  | Some (ctl', lg') \<Rightarrow> readline_loop dst max' bp retval (x = 0) ctl' net' lg')))"
  by pat_completeness auto
termination
proof (relation "measure (\<lambda>(dst, max', bp, retval, eof, ctl, net, lg). 2 * rx_size net + (if eof then 0 else 1))", goal_cases)
  case 1
  then show ?case
    by simp
next
  case 2
  note r = this
  show ?case
    by (use r in \<open>auto dest: net_read_size net_read_size_le split: if_splits\<close>)
qed


declare readline_loop.simps [simp del]

definition readline :: "bytes \<Rightarrow> int \<Rightarrow> ftp_context \<Rightarrow> rx list \<Rightarrow> logs \<Rightarrow> (int \<times> bytes \<times> ftp_context \<times> rx list \<times> logs) option" where
  "readline dst max' ctl net lg =
     (if dir ctl \<noteq> FTPLIB_CONTROL \<and> dir ctl \<noteq> FTPLIB_READ then Some (-1, dst, ctl, net, lg)
      else if max' = 0 then Some (0, dst, ctl, net, lg)
      else readline_loop dst max' 0 0 False ctl net lg)"

subsection \<open>writeline\<close>

text \<open>A full buffer is written out; \<open>None\<close> says that the kernel did not take all of it.\<close>

definition write_out :: "writer \<Rightarrow> bytes \<Rightarrow> bytes list \<Rightarrow> bytes list \<times> bool" where
  "write_out wr nbp sent = (case net_write wr nbp sent of (w, sent) \<Rightarrow> (sent, w = int (length nbp)))"

text \<open>One byte more into the buffer.\<close>

definition put_out :: "writer \<Rightarrow> u8 \<Rightarrow> bytes \<times> bytes list \<Rightarrow> (bytes \<times> bytes list) \<times> bool" where
  "put_out wr c s =
     (case s of (nbp, sent) \<Rightarrow>
        if length nbp = FTPLIB_BUFSIZ then
          (case write_out wr nbp sent of (sent, ok) \<Rightarrow> if ok then (([c], sent), True) else ((nbp, sent), False))
        else ((nbp @ [c], sent), True))"

fun writeline_loop :: "writer \<Rightarrow> bytes \<Rightarrow> u8 \<Rightarrow> bytes \<times> bytes list \<Rightarrow> (bytes \<times> bytes list) \<times> bool" where
  "writeline_loop wr [] lc s = (s, True)"
| "writeline_loop wr (ub # ubp) lc s =
     (case (if ub = 10 \<and> lc \<noteq> 13 then put_out wr 13 s else (s, True)) of
        (s, False) \<Rightarrow> (s, False)
      | (s, True) \<Rightarrow>
          (case put_out wr ub s of
             (s, False) \<Rightarrow> (s, False)
           | (s, True) \<Rightarrow> writeline_loop wr ubp ub s))"

definition writeline :: "writer \<Rightarrow> bytes \<Rightarrow> ftp_context \<Rightarrow> bytes list \<Rightarrow> int \<times> bytes list" where
  "writeline wr data nData sent =
     (if dir nData \<noteq> FTPLIB_WRITE then (-1, sent)
      else (case writeline_loop wr data 0 ([], sent) of
          ((nbp, sent), False) \<Rightarrow> (-1, sent)
        | ((nbp, sent), True) \<Rightarrow>
            if nbp \<noteq> [] then (case write_out wr nbp sent of (sent, ok) \<Rightarrow> (if ok then int (length data) else -1, sent))
            else (int (length data), sent)))"

subsection \<open>FtpRead, FtpWrite\<close>

text \<open>The progress of a transfer: the context, and whether the callback lets it go on.\<close>

definition progress :: "int \<Rightarrow> ftp_context \<Rightarrow> ftp_context \<times> bool" where
  "progress i nData =
     (let nData = nData\<lparr>xfered := xfered nData + i\<rparr> in
      case xfercb nData of
        Some f \<Rightarrow>
          if cbbytes nData \<noteq> 0 then
            (let nData = nData\<lparr>xfered1 := xfered1 nData + i\<rparr> in
             if xfered1 nData > cbbytes nData then
               (if f (xfered nData) then (nData\<lparr>xfered1 := 0\<rparr>, True) else (nData, False))
             else (nData, True))
          else (nData, True)
      | None \<Rightarrow> (nData, True))"

text \<open>The array \<open>dst\<close> is the caller's, of \<open>max'\<close> bytes.\<close>

definition FtpRead :: "bytes \<Rightarrow> int \<Rightarrow> ftp_context \<Rightarrow> rx list \<Rightarrow> (int \<times> bytes \<times> ftp_context \<times> rx list) option" where
  "FtpRead dst max' nData net =
     (if dir nData \<noteq> FTPLIB_READ then Some (0, dst, nData, net)
      else do {
        (i, dst, nData, net) \<leftarrow>
          (if buf nData \<noteq> None then map_option (\<lambda>(i, d, c, n, _). (i, d, c, n)) (readline dst max' nData net [])
           else map_option (\<lambda>(i, bs, n). (i, bs @ drop (length bs) dst, nData, n)) (net_read max' net));
        (if i = -1 then Some (0, dst, nData, net)
         else (case progress i nData of (nData, go) \<Rightarrow> Some (if go then i else 0, dst, nData, net)))
      })"

definition FtpWrite :: "writer \<Rightarrow> bytes \<Rightarrow> ftp_context \<Rightarrow> bytes list \<Rightarrow> int \<times> ftp_context \<times> bytes list" where
  "FtpWrite wr data nData sent =
     (if dir nData \<noteq> FTPLIB_WRITE then (0, nData, sent)
      else (case (if buf nData \<noteq> None then writeline wr data nData sent else net_write wr data sent) of
          (i, sent) \<Rightarrow>
            if i = -1 then (0, nData, sent)
            else (case progress i nData of (nData, go) \<Rightarrow> (if go then i else 0, nData, sent))))"

subsection \<open>A line that arrives in pieces\<close>

text \<open>What has been read and not yet been taken; the buffer as every call of \<open>readline\<close> leaves it.\<close>

definition pending :: "ftp_context \<Rightarrow> bytes" where
  "pending c = (case buf c of None \<Rightarrow> [] | Some m \<Rightarrow> take (nat (cavail c)) (drop (cget c) m))"

definition line_buffer :: "ftp_context \<Rightarrow> bool" where
  "line_buffer c \<longleftrightarrow> (\<exists>m. buf c = Some m \<and> length m = FTPLIB_BUFSIZ) \<and> cget c \<le> cput c \<and> cput c \<le> FTPLIB_BUFSIZ \<and>
     cavail c = int (cput c) - int (cget c)"

text \<open>Reading changes nothing but the input buffer.\<close>

definition buffer_only :: "ftp_context \<Rightarrow> ftp_context \<Rightarrow> bool" where
  "buffer_only c c' \<longleftrightarrow> handle c' = handle c \<and> dir c' = dir c \<and> has_ctrl c' = has_ctrl c \<and> cmode c' = cmode c \<and>
     idletime c' = idletime c \<and> xfercb c' = xfercb c \<and> logcb c' = logcb c \<and> xfered c' = xfered c \<and> cbbytes c' = cbbytes c \<and>
     xfered1 c' = xfered1 c \<and> response c' = response c \<and> offset c' = offset c \<and> correctpasv c' = correctpasv c"

lemma buffer_only_trans: "buffer_only a b \<Longrightarrow> buffer_only b c \<Longrightarrow> buffer_only a c"
  by (simp add: buffer_only_def)

lemma as_size_eq: "0 \<le> x \<Longrightarrow> x < 2 ^ 64 \<Longrightarrow> as_size x = nat x"
  by (simp add: as_size_def)

lemma buffer_memory:
  assumes "line_buffer c"
  obtains m behind where "buf c = Some m" "length m = FTPLIB_BUFSIZ" "drop (cget c) m = pending c @ behind" "cavail c = int (length (pending c))"
proof -
  obtain m where m: "buf c = Some m" "length m = FTPLIB_BUFSIZ"
    using assms by (auto simp: line_buffer_def)
  moreover have "drop (cget c) m = pending c @ drop (nat (cavail c)) (drop (cget c) m)"
    using m by (simp add: pending_def del: drop_drop)
  moreover have "cavail c = int (length (pending c))"
    using assms m by (auto simp: pending_def line_buffer_def)
  ultimately show ?thesis
    using that by blast
qed

lemma takeWhile_10: "10 \<notin> set p \<Longrightarrow> takeWhile (\<lambda>x. x \<noteq> 10) (p @ 10 # r) = (p :: bytes)"
  by (induction p) auto

lemma append_upto: "xs @ ys = zs @ x # w \<Longrightarrow> x \<notin> set xs \<Longrightarrow> \<exists>s. xs @ s = zs \<and> ys = s @ x # w"
proof (induction xs arbitrary: zs)
  case (Cons a xs)
  then show ?case
    by (cases zs) auto
qed simp

lemma copy_part:
  assumes "10 \<notin> set p" "drop g src = p @ behind" "b + length p \<le> length dst"
  shows "memccpy dst b src g 10 (length p) = Some (take b dst @ p @ drop (b + length p) dst, None)"
proof -
  have "length p \<le> length (takeWhile (\<lambda>x. x \<noteq> 10) (p @ behind))"
    using assms(1) by (subst takeWhile_append2) auto
  then show ?thesis
    using assms(2,3) by (simp add: memccpy_def Let_def)
qed

lemma copy_line:
  assumes "10 \<notin> set p" "drop g src = p @ 10 # behind" "b + length p + 1 \<le> length dst" "length p < n"
  shows "memccpy dst b src g 10 n = Some (take b dst @ (p @ [10]) @ drop (b + length p + 1) dst, Some (b + length p + 1))"
  using assms takeWhile_10[OF assms(1), of behind] by (simp add: memccpy_def Let_def)

lemma take_part:
  assumes c: "line_buffer c" and p: "pending c \<noteq> []" "10 \<notin> set (pending c)" "int (length (pending c)) < max'"
    and b: "b + length (pending c) < length dst" "max' < 2 ^ 32"
  shows "take_line c dst max' b r = Some ((take b dst @ pending c @ drop (b + length (pending c)) dst)[b + length (pending c) := 0],
    max' - cavail c, b + length (pending c), r + cavail c, False, c\<lparr>cget := cput c, cavail := 0\<rparr>)"
proof -
  obtain m behind where m: "buf c = Some m" "drop (cget c) m = pending c @ behind" "cavail c = int (length (pending c))"
    using buffer_memory[OF c] by metis
  have "cavail c > 0" "cavail c = int (length (pending c))"
    using m(3) p(1) by auto
  moreover have "cget c + length (pending c) = cput c"
    using c m(3) by (auto simp: line_buffer_def)
  ultimately show ?thesis
    using copy_part[OF p(2) m(2), of b dst] b p m(1) by (simp add: take_line_def as_size_eq Let_def)
qed

lemma take_end:
  assumes c: "line_buffer c" and p: "pending c = l @ 10 # rest" "10 \<notin> set l" "int (length l) + 1 < max'"
    and b: "b + length l + 1 < length dst" "max' < 2 ^ 32" "take b dst @ l = L @ [13]"
  shows "\<exists>dst' max'' b' c'. take_line c dst max' b (int b) = Some (dst', max'', b', int (length L) + 1, True, c') \<and>
    take (length L + 2) dst' = L @ [10, 0] \<and> length dst' = length dst \<and> line_buffer c' \<and> pending c' = rest \<and>
    buffer_only c c'"
proof -
  obtain m behind where m: "buf c = Some m" "length m = FTPLIB_BUFSIZ" "drop (cget c) m = pending c @ behind" "cavail c = int (length (pending c))"
    using buffer_memory[OF c] by metis
  have a: "cavail c > 0" "cavail c = int (length l + 1 + length rest)"
    using m(4) p(1) by auto
  let ?x = "if max' \<ge> cavail c then cavail c else max' - 1"
  have x: "length l < as_size ?x"
    using a p(3) b(2) by (auto simp: as_size_eq)
  have m3: "drop (cget c) m = l @ 10 # (rest @ behind)"
    using m(3) p(1) by simp
  define D where "D = take b dst @ (l @ [10]) @ drop (b + length l + 1) dst"
  have mem: "memccpy dst b m (cget c) 10 (as_size ?x) = Some (D, Some (b + length l + 1))"
    unfolding D_def using copy_line[OF p(2) m3 _ x, of b dst] b(1) by simp
  have bL: "b + length l = length L + 1"
    using arg_cong[OF b(3), of length] b(1) by simp
  have lenD: "length D = length dst"
    using b(1) by (simp add: D_def)
  have d: "D[b + length l + 1 := 0] = (L @ [13, 10]) @ 0 # drop (b + length l + 2) dst"
  proof -
    have "take b dst @ (l @ [10]) = L @ [13, 10]"
      using b(3) by (metis append.assoc append_Cons append_Nil)
    moreover have "drop (b + length l + 1) dst = dst ! (b + length l + 1) # drop (b + length l + 2) dst"
      using b(1) by (simp add: Cons_nth_drop_Suc)
    ultimately have "D = (L @ [13, 10]) @ dst ! (b + length l + 1) # drop (b + length l + 2) dst"
      unfolding D_def by (metis append.assoc)
    moreover have "b + length l + 1 = length (L @ [13, 10])"
      using bL by simp
    ultimately show ?thesis
      by (simp only: list_update_length)
  qed
  let ?d = "D[b + length l + 1 := 0]"
  let ?c = "c\<lparr>cget := cget c + (length l + 1), cavail := cavail c - (int (length l) + 1)\<rparr>"
  have L': "length L = b + length l - 1" "1 \<le> b + length l"
    using bL by auto
  have "?d ! length L = 13" "?d ! (length L + 1) = 10"
    unfolding d by (simp_all add: nth_append)
  then have "?d ! (b + length l - 1) = 13" "?d ! (b + length l) = 10" "b > 0 \<or> l \<noteq> []"
    using bL by auto
  then have "take_line c dst max' b (int b) = Some (?d[length L := 10, length L + 1 := 0], max' - (int (length l) + 1), b + length l + 1,
      int (length L) + 1, True, ?c)"
    using a m(1) mem lenD b(1) L' by (simp add: take_line_def Let_def nat_add_distrib of_nat_diff)
  moreover have "line_buffer ?c"
    using c a by (auto simp: line_buffer_def)
  moreover have "pending ?c = rest"
  proof -
    have "drop (length l + 1) (drop (cget c) m) = rest @ behind"
      by (simp add: m3 del: drop_drop)
    then show ?thesis
      using a m(1) by (simp add: pending_def add.commute)
  qed
  moreover have "take (length L + 2) (?d[length L := 10, length L + 1 := 0]) = L @ [10, 0]"
    unfolding d by (simp add: list_update_append)
  moreover have "length (?d[length L := 10, length L + 1 := 0]) = length dst"
    by (simp add: lenD)
  moreover have "buffer_only c ?c"
    by (simp add: buffer_only_def)
  ultimately show ?thesis
    by blast
qed

lemma rewind_empty: "cput c = cget c \<Longrightarrow> rewind c = c\<lparr>cput := 0, cget := 0, cavail := 0, cleft := int FTPLIB_BUFSIZ\<rparr>"
  by (simp add: rewind_def)

definition chunk_ok :: "ftp_context \<Rightarrow> bytes \<Rightarrow> bool" where
  "chunk_ok c b \<longleftrightarrow> b \<noteq> [] \<and> (logcb c \<longrightarrow> length b < FTPLIB_BUFSIZ)"

lemma cstr_zero: "0 \<in> set m \<Longrightarrow> \<exists>t. cstr m = Some t"
  by (induction m) auto

lemma stored_read:
  assumes "line_buffer c" "cput c = cget c" "length bs \<le> FTPLIB_BUFSIZ" "logcb c \<Longrightarrow> length bs < FTPLIB_BUFSIZ"
  shows "\<exists>c' lg'. stored (rewind c) bs lg = Some (c', lg') \<and> line_buffer c' \<and> pending c' = bs \<and>
    buffer_only c c'"
proof -
  obtain m where m: "buf c = Some m" "length m = FTPLIB_BUFSIZ"
    using assms(1) by (auto simp: line_buffer_def)
  let ?m = "bs @ drop (length bs) m"
  show ?thesis
  proof (cases "dir c = FTPLIB_CONTROL \<and> logcb c")
    case False
    then show ?thesis
      using assms m by (auto simp: stored_def rewind_empty line_buffer_def pending_def buffer_only_def)
  next
    case True
    then have l: "length bs < length m"
      using assms(4) m by simp
    then have "0 \<in> set (?m[length bs := 0])"
      by (intro set_update_memI) simp
    then obtain t where "cstr (?m[length bs := 0]) = Some t"
      using cstr_zero by blast
    then show ?thesis
      using assms m l True by (auto simp: stored_def rewind_empty line_buffer_def pending_def Let_def list_update_append buffer_only_def)
  qed
qed

lemma net_read_chunk:
  assumes "list_all (chunk_ok c) (b # cs)"
  shows "\<exists>bs cs'. net_read (int FTPLIB_BUFSIZ) (Data b # map Data cs @ net) = Some (int (length bs), bs, map Data cs' @ net) \<and>
    bs \<noteq> [] \<and> length bs \<le> FTPLIB_BUFSIZ \<and> (logcb c \<longrightarrow> length bs < FTPLIB_BUFSIZ) \<and> bs @ concat cs' = concat (b # cs) \<and>
    list_all (chunk_ok c) cs'"
proof (cases "FTPLIB_BUFSIZ < length b")
  case True
  then show ?thesis
    using assms by (intro exI[of _ "take FTPLIB_BUFSIZ b"] exI[of _ "drop FTPLIB_BUFSIZ b # cs"])
      (auto simp: chunk_ok_def FTPLIB_BUFSIZ_def simp flip: append_assoc)
next
  case False
  then show ?thesis
    using assms by (intro exI[of _ b] exI[of _ cs]) (auto simp: chunk_ok_def FTPLIB_BUFSIZ_def)
qed

lemma take_some:
  assumes c: "line_buffer c" and p: "10 \<notin> set (pending c)" "int (length (pending c)) < max'"
    and b: "b + length (pending c) < length dst" "max' < 2 ^ 32"
  shows "\<exists>dst'. take_line c dst max' b r = Some (dst', max' - int (length (pending c)), b + length (pending c), r + int (length (pending c)), False,
      c\<lparr>cget := cput c, cavail := 0\<rparr>) \<and> take (b + length (pending c)) dst' = take b dst @ pending c \<and> length dst' = length dst"
proof -
  have a: "cavail c = int (length (pending c))"
    using buffer_memory[OF c] by metis
  show ?thesis
  proof (cases "pending c = []")
    case True
    then have "c\<lparr>cget := cput c, cavail := 0\<rparr> = c"
      using a c by (simp add: line_buffer_def)
    then show ?thesis
      using True a b by (simp add: take_line_def)
  next
    case False
    then show ?thesis
      using take_part[OF c False p b, of r] a b(1) by simp
  qed
qed

text \<open>A line that arrives in any pieces.\<close>

lemma readline_loop_line:
  assumes "line_buffer c" "list_all (chunk_ok c) cs" "10 \<notin> set (take b dst)" "10 \<notin> set L"
    and "take b dst @ pending c @ concat cs = L @ [13, 10] @ rest" "b \<le> length dst"
    and "int (length L) + 2 < M" "M \<le> int (length dst)" "M < 2 ^ 32"
  shows "\<exists>dst' c' cs' lg'. readline_loop dst (M - int b) b (int b) False c (map Data cs @ net) lg =
      Some (int (length L) + 1, dst', c', map Data cs' @ net, lg') \<and> take (length L + 2) dst' = L @ [10, 0] \<and> length dst' = length dst \<and>
      line_buffer c' \<and> pending c' @ concat cs' = rest \<and> list_all (chunk_ok c) cs' \<and>
      buffer_only c c'"
  using assms
proof (induction "length (concat cs)" arbitrary: cs c b dst lg rule: less_induct)
  case less
  have acc: "length (take b dst) = b"
    using less.prems by simp
  show ?case
  proof (cases "10 \<in> set (pending c)")
    case True
    then obtain l r where p: "pending c = l @ 10 # r" "10 \<notin> set l"
      by (meson split_list_first)
    have e: "take b dst @ l = L @ [13] \<and> r @ concat cs = rest"
    proof -
      have *: "(take b dst @ l) @ 10 # (r @ concat cs) = (L @ [13]) @ 10 # rest"
        using less.prems(5) p by simp
      have "10 \<notin> set (take b dst @ l)" "10 \<notin> set (L @ [13])"
        using less.prems(3,4) p by auto
      then have "take b dst @ l = L @ [13]"
        using takeWhile_10 * by metis
      then show ?thesis
        using * by (metis list.inject same_append_eq)
    qed
    have bl: "b + length l = length L + 1"
      using arg_cong[OF conjunct1[OF e], of length] acc by simp
    obtain dst' max'' b' c' where t: "take_line c dst (M - int b) b (int b) = Some (dst', max'', b', int (length L) + 1, True, c')"
      "take (length L + 2) dst' = L @ [10, 0]" "length dst' = length dst" "line_buffer c'" "pending c' = r"
      "buffer_only c c'"
      using take_end[OF less.prems(1) p, of "M - int b" b dst L] e bl less.prems by fastforce
    show ?thesis
      using t e less.prems(2)
      by (intro exI[of _ dst'] exI[of _ c'] exI[of _ cs] exI[of _ lg]) (auto simp: readline_loop.simps[of dst])
  next
    case False
    let ?b = "b + length (pending c)"
    let ?c = "c\<lparr>cget := cput c, cavail := 0\<rparr>"
    have no: "10 \<notin> set (take b dst @ pending c)"
      using False less.prems(3) by simp
    have pre: "\<exists>s. (take b dst @ pending c) @ s = L @ [13] \<and> concat cs = s @ 10 # rest"
    proof -
      have "(take b dst @ pending c) @ concat cs = (L @ [13]) @ 10 # rest"
        using less.prems(5) by simp
      then show ?thesis
        using no by (rule append_upto)
    qed
    have bl: "?b \<le> length L + 1"
      using pre acc by (metis length_append length_append_singleton le_add1 Suc_eq_plus1)
    obtain b' cs' where cs: "cs = b' # cs'"
      using pre by (cases cs) auto
    obtain dst1 where t: "take_line c dst (M - int b) b (int b) = Some (dst1, M - int ?b, ?b, int ?b, False, ?c)"
      "take ?b dst1 = take b dst @ pending c" "length dst1 = length dst"
      using take_some[OF less.prems(1) False, of "M - int b" b dst "int b"] bl less.prems by auto
    obtain bs cs2 where n: "net_read (int FTPLIB_BUFSIZ) (map Data cs @ net) = Some (int (length bs), bs, map Data cs2 @ net)"
      "bs \<noteq> []" "length bs \<le> FTPLIB_BUFSIZ" "logcb c \<longrightarrow> length bs < FTPLIB_BUFSIZ" "bs @ concat cs2 = concat cs" "list_all (chunk_ok c) cs2"
      using net_read_chunk[of c b' cs' net] less.prems(2) cs by auto
    have "line_buffer ?c"
      using less.prems(1) by (simp add: line_buffer_def)
    then obtain c1 lg1 where s: "stored (rewind ?c) bs lg = Some (c1, lg1)" "line_buffer c1" "pending c1 = bs"
      "buffer_only ?c c1"
      using stored_read[of ?c bs lg] n by auto
    have log: "logcb c1 = logcb c"
      using s(4) by (simp add: buffer_only_def)
    have ok: "chunk_ok c1 = chunk_ok c"
      by (intro ext) (simp add: chunk_ok_def log)
    have step: "readline_loop dst (M - int b) b (int b) False c (map Data cs @ net) lg =
        readline_loop dst1 (M - int ?b) ?b (int ?b) False c1 (map Data cs2 @ net) lg1"
      using t(1) n s(1) bl less.prems(7) cs
      by (subst readline_loop.simps) (simp add: rewind_empty socket_wait_def socket_wait_Control_def)
    have "length (concat cs2) < length (concat cs)"
      using n(2,5) by (metis length_append length_greater_0_conv less_add_same_cancel2)
    then obtain dst' c' cs' lg' where r: "readline_loop dst1 (M - int ?b) ?b (int ?b) False c1 (map Data cs2 @ net) lg1 =
      Some (int (length L) + 1, dst', c', map Data cs' @ net, lg')" "take (length L + 2) dst' = L @ [10, 0]" "length dst' = length dst1"
      "line_buffer c'" "pending c' @ concat cs' = rest" "list_all (chunk_ok c1) cs'"
      "buffer_only c1 c'"
      using less.hyps[of cs2 c1 ?b dst1 lg1] less.prems no n s t bl ok by auto
    have "buffer_only c c'"
      using s(4) r(7) by (simp add: buffer_only_def)
    then show ?thesis
      using r step t(3) ok by auto
  qed
qed

lemma readline_line:
  assumes "line_buffer c" "dir c \<noteq> FTPLIB_WRITE" "dir c = FTPLIB_CONTROL \<or> dir c = FTPLIB_READ"
    and "list_all (chunk_ok c) cs" "10 \<notin> set L" "pending c @ concat cs = L @ [13, 10] @ rest"
    and "int (length L) + 2 < M" "M \<le> int (length dst)" "M < 2 ^ 32"
  shows "\<exists>dst' c' cs' lg'. readline dst M c (map Data cs @ net) lg =
      Some (int (length L) + 1, dst', c', map Data cs' @ net, lg') \<and> take (length L + 2) dst' = L @ [10, 0] \<and> length dst' = length dst \<and>
      line_buffer c' \<and> pending c' @ concat cs' = rest \<and> list_all (chunk_ok c) cs' \<and> buffer_only c c'"
  using readline_loop_line[of c cs 0 dst L rest M net lg] assms by (auto simp: readline_def)

text \<open>Nothing arrives: the answer is 0 and the old contents of the array.\<close>

lemma readline_silence:
  assumes "dir c = FTPLIB_CONTROL" "cavail c \<le> 0" "1 < M"
  shows "readline dst M c [] lg = Some (0, dst, rewind c, [], lg)"
  using assms
  by (simp add: readline_def readline_loop.simps[of dst] take_line_def socket_wait_def socket_wait_Control_def rewind_def)

subsection \<open>Text with line ends as the standard wants them\<close>

text \<open>A line feed gets a carriage return before it unless it has one; \<open>lc\<close> is the character before.\<close>

fun to_crlf :: "u8 \<Rightarrow> bytes \<Rightarrow> bytes" where
  "to_crlf lc [] = []"
| "to_crlf lc (c # cs) = (if c = 10 \<and> lc \<noteq> 13 then [13, 10] else [c]) @ to_crlf c cs"

definition takes_all :: "writer \<Rightarrow> bool" where
  "takes_all wr \<longleftrightarrow> (\<forall>i n. wr i n = int n)"

lemma write_out_all: "takes_all wr \<Longrightarrow> write_out wr nbp sent = (sent @ [nbp], True)"
  by (simp add: write_out_def net_write_def takes_all_def Let_def)

lemma put_out_all:
  assumes "takes_all wr"
  shows "\<exists>nbp' sent'. put_out wr c (nbp, sent) = ((nbp', sent'), True) \<and> concat sent' @ nbp' = concat sent @ nbp @ [c]"
  using assms by (simp add: put_out_def write_out_all)

lemma writeline_loop_all:
  assumes "takes_all wr"
  shows "\<exists>nbp' sent'. writeline_loop wr data lc (nbp, sent) = ((nbp', sent'), True) \<and>
    concat sent' @ nbp' = concat sent @ nbp @ to_crlf lc data"
proof (induction data arbitrary: lc nbp sent)
  case (Cons c data)
  have "\<exists>n1 s1. (if c = 10 \<and> lc \<noteq> 13 then put_out wr 13 (nbp, sent) else ((nbp, sent), True)) = ((n1, s1), True) \<and>
    concat s1 @ n1 = concat sent @ nbp @ (if c = 10 \<and> lc \<noteq> 13 then [13] else [])"
    using put_out_all[OF assms, of 13 nbp sent] by simp
  then obtain n1 s1 where 1: "(if c = 10 \<and> lc \<noteq> 13 then put_out wr 13 (nbp, sent) else ((nbp, sent), True)) = ((n1, s1), True)"
    "concat s1 @ n1 = concat sent @ nbp @ (if c = 10 \<and> lc \<noteq> 13 then [13] else [])"
    by blast
  obtain n2 s2 where 2: "put_out wr c (n1, s1) = ((n2, s2), True)" "concat s2 @ n2 = concat s1 @ n1 @ [c]"
    using put_out_all[OF assms] by blast
  obtain n3 s3 where 3: "writeline_loop wr data c (n2, s2) = ((n3, s3), True)" "concat s3 @ n3 = concat s2 @ n2 @ to_crlf c data"
    using Cons.IH by blast
  have "concat s3 @ n3 = (concat s1 @ n1) @ c # to_crlf c data"
    using 2(2) 3(2) by (metis append.assoc append_Cons append_Nil)
  then show ?case
    using 1 2(1) 3(1) by (auto simp del: concat_append)
qed simp

lemma writeline_all:
  assumes "takes_all wr" "dir nData = FTPLIB_WRITE"
  shows "\<exists>sent'. writeline wr data nData sent = (int (length data), sent') \<and> concat sent' = concat sent @ to_crlf 0 data"
proof -
  obtain nbp' sent' where "writeline_loop wr data 0 ([], sent) = ((nbp', sent'), True)" "concat sent' @ nbp' = concat sent @ to_crlf 0 data"
    using writeline_loop_all[OF assms(1), of data 0 "[]" sent] by auto
  then show ?thesis
    using assms by (auto simp: writeline_def write_out_all)
qed

end
