(* ===== verification/Ftp.thy ===== *)
theory Ftp
  imports Ftp_Line
begin

section \<open>The FTP client (src/net/ftp.hpp)\<close>

text \<open>
  The dialogue on the control connection and the transfers. What the system answers is in the record \<open>os\<close>; a socket
  that is connected at once, or after some rounds of \<open>select\<close>, or not at all is a \<open>dialing\<close>. Local files open or not;
  reads and writes of an open one succeed. Texts are without zeros, as they come from C strings. The arguments that
  \<open>Get\<close> and \<open>Put\<close> are given are not null. What \<open>malloc\<close> returns is given with zeros.
\<close>

datatype sel = Sel_none | Sel_error | Sel_ready "int option"

record dialing =
  d_connect :: int
  d_select :: "nat \<Rightarrow> sel"

record os =
  os_wr :: writer
  os_serv :: "bytes \<Rightarrow> u16 option"
  os_aton :: "bytes \<Rightarrow> u32 option"
  os_resolve :: "bytes \<Rightarrow> u32 option"
  os_socket :: int
  os_opts :: "bool \<times> bool"
  os_dial :: "bytes \<Rightarrow> dialing"
  os_peer :: "bytes option"
  os_data_socket :: int
  os_data_opts :: "bool \<times> bool"
  os_data_dial :: "bytes \<Rightarrow> dialing"
  os_junk :: int

text \<open>The client, and around it what arrives on the control connection, what has been sent, logged and closed.\<close>

record ftp =
  context' :: ftp_context
  ip :: bytes
  ctl_rx :: "rx list"
  ctl_tx :: "bytes list"
  ftp_log :: logs
  closed :: "int list"

definition pasv :: int where "pasv = 1"
definition port :: int where "port = 2"

definition ClearHandle :: "ftp_context \<Rightarrow> ftp_context" where
  "ClearHandle c =
     c\<lparr>dir := FTPLIB_CONTROL, has_ctrl := False, cmode := pasv, idletime := (0, 0), xfered := 0, xfered1 := 0, cbbytes := 1,
       offset := 0, handle := 0, logcb := False, xfercb := None, correctpasv := False\<rparr>"

definition calloc_context :: ftp_context where
  "calloc_context =
     \<lparr>cput = 0, cget = 0, handle = 0, cavail = 0, cleft = 0, buf = None, dir = 0, has_ctrl = False, cmode = 0, idletime = (0, 0),
      xfercb = None, logcb = False, xfered = 0, cbbytes = 0, xfered1 = 0, response = replicate 1024 0, offset = 0, correctpasv = False\<rparr>"

definition Client :: "rx list \<Rightarrow> ftp" where
  "Client net =
     \<lparr>context' = ClearHandle (calloc_context\<lparr>buf := Some (replicate FTPLIB_BUFSIZ 0)\<rparr>), ip = [], ctl_rx = net, ctl_tx = [],
      ftp_log = [], closed = []\<rparr>"

definition SetCallbackXferFunction :: "(int \<Rightarrow> bool) option \<Rightarrow> ftp \<Rightarrow> ftp" where
  "SetCallbackXferFunction pointer s = s\<lparr>context' := (context' s)\<lparr>xfercb := pointer\<rparr>\<rparr>"

definition SetCallbackLogFunction :: "bool \<Rightarrow> ftp \<Rightarrow> ftp" where
  "SetCallbackLogFunction pointer s = s\<lparr>context' := (context' s)\<lparr>logcb := pointer\<rparr>\<rparr>"

text \<open>C division truncates.\<close>

definition SetCallbackIdletime :: "int \<Rightarrow> ftp \<Rightarrow> ftp" where
  "SetCallbackIdletime time s =
     s\<lparr>context' := (context' s)\<lparr>idletime := (sgn time * (\<bar>time\<bar> div 1000), sgn time * (\<bar>time\<bar> mod 1000) * 1000)\<rparr>\<rparr>"

definition SetConnmode :: "int \<Rightarrow> ftp \<Rightarrow> ftp" where
  "SetConnmode mode s = s\<lparr>context' := (context' s)\<lparr>cmode := mode\<rparr>\<rparr>"

subsection \<open>Connecting a socket\<close>

text \<open>At most \<open>left\<close> rounds of one second.\<close>

fun select_loop :: "(nat \<Rightarrow> sel) \<Rightarrow> nat \<Rightarrow> nat \<Rightarrow> sel" where
  "select_loop f selects 0 = Sel_none"
| "select_loop f selects (Suc left) = (case f selects of Sel_none \<Rightarrow> select_loop f (selects + 1) left | r \<Rightarrow> r)"

definition AsynConnect :: "dialing \<Rightarrow> nat \<Rightarrow> int" where
  "AsynConnect d tm_us =
     (if d_connect d = 0 then 1
      else if d_connect d \<noteq> 115 then 0
      else
        (let select_nums = tm_us div (1000 * 1000);
             select_nums = (if select_nums = 0 then 1 else select_nums)
         in case select_loop (d_select d) 0 select_nums of
              Sel_ready (Some ierror) \<Rightarrow> if ierror \<noteq> 0 then 0 else 1
            | _ \<Rightarrow> 0))"

subsection \<open>Replies and commands\<close>

text \<open>One line into \<open>response\<close>, of which 256 bytes are offered.\<close>

definition read_response :: "ftp \<Rightarrow> (int \<times> ftp) option" where
  "read_response s = do {
     (r, d, c, net, lg) \<leftarrow> readline (response (context' s)) 256 (context' s) (ctl_rx s) (ftp_log s);
     Some (r, s\<lparr>context' := c\<lparr>response := d\<rparr>, ctl_rx := net, ftp_log := lg\<rparr>)
   }"

fun strncmp_eq :: "nat \<Rightarrow> bytes \<Rightarrow> bytes \<Rightarrow> bool" where
  "strncmp_eq 0 a b = True"
| "strncmp_eq (Suc n) (x # a) (y # b) = (x = y \<and> (x = 0 \<or> strncmp_eq n a b))"
| "strncmp_eq (Suc n) a b = False"

definition strncpy :: "bytes \<Rightarrow> nat \<Rightarrow> bytes" where
  "strncpy src n = (let t = takeWhile (\<lambda>x. x \<noteq> 0) (take n src) in t @ replicate (n - length t) 0)"

text \<open>The rest of a reply of several lines; \<open>False\<close> when the socket failed.\<close>

partial_function (option) skip_lines :: "bytes \<Rightarrow> ftp \<Rightarrow> (bool \<times> ftp) option" where
  "skip_lines match s = do {
     (r, s) \<leftarrow> read_response s;
     if r = -1 then Some (False, s)
     else if strncmp_eq 4 (response (context' s)) match then Some (True, s)
     else skip_lines match s
   }"

declare skip_lines.simps [code]

definition readresp :: "u8 \<Rightarrow> ftp \<Rightarrow> (int \<times> ftp) option" where
  "readresp c s = do {
     (r, s) \<leftarrow> read_response s;
     if r = -1 then Some (0, s)
     else do {
       (ok, s) \<leftarrow> (if response (context' s) ! 3 = 45 then skip_lines (strncpy (response (context' s)) 3 @ [32, 0]) s else Some (True, s));
       Some (if ok \<and> response (context' s) ! 0 = c then 1 else 0, s)
     }
   }"

definition FtpSendCmd :: "os \<Rightarrow> bytes \<Rightarrow> u8 \<Rightarrow> ftp \<Rightarrow> (int \<times> ftp) option" where
  "FtpSendCmd os cmd expresp s =
     (if handle (context' s) = 0 then Some (0, s)
      else if dir (context' s) \<noteq> FTPLIB_CONTROL then Some (0, s)
      else if 256 < length cmd + 3 then None
      else
        (let line = cmd @ crlf; (x, tx) = net_write (os_wr os) line (ctl_tx s); s = s\<lparr>ctl_tx := tx\<rparr> in
         if x \<le> 0 then Some (0, s)
         else readresp expresp (if logcb (context' s) then s\<lparr>ftp_log := ftp_log s @ [(line, False)]\<rparr> else s)))"

text \<open>A null pointer when the connection is not a control connection.\<close>

definition LastResponse :: "ftp \<Rightarrow> bytes option" where
  "LastResponse s = (if dir (context' s) = FTPLIB_CONTROL then Some (response (context' s)) else None)"

definition Login :: "os \<Rightarrow> bytes \<Rightarrow> bytes \<Rightarrow> ftp \<Rightarrow> (int \<times> ftp) option" where
  "Login os user pass s =
     (if 64 < length user + 7 \<or> 64 < length pass + 7 then Some (0, s)
      else do {
        (r, s) \<leftarrow> FtpSendCmd os (str ''USER '' @ user) 51 s;
        if r = 0 then
          (if has_ctrl (context' s) then Some (1, s)
           else do { t \<leftarrow> LastResponse s; Some (if t ! 0 = 50 then 1 else 0, s) })
        else FtpSendCmd os (str ''PASS '' @ pass) 50 s
      })"

definition Mkdir :: "os \<Rightarrow> bytes \<Rightarrow> ftp \<Rightarrow> (int \<times> ftp) option" where
  "Mkdir os path s =
     (if 256 < length path + 6 then Some (0, s)
      else do {
        (r, s) \<leftarrow> FtpSendCmd os (str ''MKD '' @ path) 50 s;
        Some (if r = 0 then 0 else 1, s)
      })"

datatype transfermode = ascii | image

fun mode_char :: "transfermode \<Rightarrow> u8" where
  "mode_char ascii = 65"
| "mode_char image = 73"

text \<open>\<open>sscanf\<close> of two ints; a number that is no \<open>int\<close> is undefined.\<close>

definition scan_2 :: "bytes \<Rightarrow> (int \<times> int) option option" where
  "scan_2 t =
     (case parse_int t of
        (Some a, r) \<Rightarrow>
          (case fst (parse_int r) of
             Some b \<Rightarrow> if in_int a \<and> in_int b then Some (Some (a, b)) else None
           | None \<Rightarrow> if in_int a then Some None else None)
      | (None, _) \<Rightarrow> Some None)"

text \<open>The result, and the size when it is stored.\<close>

definition Size :: "os \<Rightarrow> bytes \<Rightarrow> transfermode \<Rightarrow> ftp \<Rightarrow> (int \<times> int option \<times> ftp) option" where
  "Size os path mode s =
     (if 256 < length path + 7 then Some (0, None, s)
      else do {
        (r, s) \<leftarrow> FtpSendCmd os (str ''TYPE '' @ [mode_char mode]) 50 s;
        if r = 0 then Some (0, None, s)
        else do {
          (r, s) \<leftarrow> FtpSendCmd os (str ''SIZE '' @ path) 50 s;
          if r = 0 then Some (0, None, s)
          else do {
            t \<leftarrow> cstr (response (context' s));
            v \<leftarrow> scan_2 t;
            Some (case v of Some (resp, sz) \<Rightarrow> (1, Some sz, s) | None \<Rightarrow> (0, None, s))
          }
        }
      })"

subsection \<open>Opening a data connection\<close>

datatype accesstype = dir_list | dirverbose | fileread | filewrite | filereadappend | filewriteappend

text \<open>\<open>sscanf\<close> of at most \<open>n\<close> unsigned numbers with a separator between them; a number stops where the text does not go on.\<close>

fun scan_u :: "u8 \<Rightarrow> nat \<Rightarrow> bytes \<Rightarrow> u32 list" where
  "scan_u sep 0 s = []"
| "scan_u sep (Suc n) s =
     (case parse_int s of
        (None, _) \<Rightarrow> []
      | (Some v, r) \<Rightarrow> word_of_int v # (case r of c # r' \<Rightarrow> if c = sep then scan_u sep n r' else [] | [] \<Rightarrow> []))"

text \<open>\<open>v[2..5]\<close> and then \<open>v[0..1]\<close> from the reply, the first four over from the address that was connected to.\<close>

definition overlay :: "'a list \<Rightarrow> 'a option list \<Rightarrow> 'a option list" where
  "overlay new old = map Some new @ drop (length new) old"

definition CorrectPasvResponse :: "os \<Rightarrow> u32 option list \<Rightarrow> ftp \<Rightarrow> int \<times> u32 option list \<times> ftp" where
  "CorrectPasvResponse os v s =
     (case os_peer os of
        None \<Rightarrow> (0, v, s\<lparr>closed := closed s @ [handle (context' s)]\<rparr>)
      | Some sa_data \<Rightarrow> (1, overlay (map scast (take 4 (drop 2 sa_data))) v, s))"

text \<open>The six bytes of the address, in the order of \<open>sa_data\<close>: port and then address. A number that was not read is undefined.\<close>

definition sa_data :: "u32 option list \<Rightarrow> bytes option" where
  "sa_data v = (if None \<in> set v then None else Some (map ucast (drop 4 (map the v) @ take 4 (map the v))))"

definition data_context :: "ftp_context \<Rightarrow> transfermode \<Rightarrow> int \<Rightarrow> int \<Rightarrow> ftp_context" where
  "data_context nControl mode sData d =
     calloc_context\<lparr>buf := (if mode = ascii then Some (replicate FTPLIB_BUFSIZ 0) else None), handle := sData, dir := d,
       has_ctrl := (cmode nControl = pasv), idletime := idletime nControl, xfered := 0, xfered1 := 0, cbbytes := cbbytes nControl,
       xfercb := (if cbbytes nControl \<noteq> 0 then xfercb nControl else None)\<rparr>"

text \<open>
  The end of \<open>FtpOpenPasv\<close>: it returns \<open>ret\<close>, and unless that is 1 closes the socket. \<open>ret\<close> has not been set before the
  command is written; then it is the number of bytes written.
\<close>

definition pasv_done :: "os \<Rightarrow> int \<Rightarrow> ftp_context option \<Rightarrow> ftp \<Rightarrow> int \<times> ftp_context option \<times> ftp" where
  "pasv_done os ret nData s =
     (ret, nData, if ret \<noteq> 1 \<and> os_data_socket os > 0 then s\<lparr>closed := closed s @ [os_data_socket os]\<rparr> else s)"

definition pasv_transfer :: "os \<Rightarrow> transfermode \<Rightarrow> int \<Rightarrow> bytes \<Rightarrow> bytes \<Rightarrow> ftp \<Rightarrow> (int \<times> ftp_context option \<times> ftp) option" where
  "pasv_transfer os mode d cmd addr s =
     (if os_data_socket os = -1 \<or> \<not> fst (os_data_opts os) \<or> \<not> snd (os_data_opts os) then Some (pasv_done os (os_junk os) None s)
      else if 256 < length cmd + 3 then None
      else
        (let line = cmd @ crlf; (ret, tx) = net_write (os_wr os) line (ctl_tx s); s = s\<lparr>ctl_tx := tx\<rparr> in
         if ret \<le> 0 then Some (pasv_done os ret None s)
         else
           (let s = (if logcb (context' s) then s\<lparr>ftp_log := ftp_log s @ [(line, False)]\<rparr> else s) in
            if AsynConnect (os_data_dial os addr) 30000000 \<noteq> 1 then Some (pasv_done os ret None s)
            else do {
              (r, s) \<leftarrow> readresp 49 s;
              Some (if r = 0 then pasv_done os ret None s
                    else pasv_done os 1 (Some (data_context (context' s) mode (os_data_socket os) d)) s)
            })))"

definition FtpOpenPasv :: "os \<Rightarrow> transfermode \<Rightarrow> int \<Rightarrow> bytes \<Rightarrow> ftp \<Rightarrow> (int \<times> ftp_context option \<times> ftp) option" where
  "FtpOpenPasv os mode d cmd s =
     (if dir (context' s) \<noteq> FTPLIB_CONTROL then Some (-1, None, s)
      else do {
        (r, s) \<leftarrow> FtpSendCmd os (str ''PASV'') 50 s;
        if r = 0 then Some (-1, None, s)
        else do {
          t \<leftarrow> cstr (response (context' s));
          case strchr t 40 of
            None \<Rightarrow> Some (-1, None, s)
          | Some cp \<Rightarrow> do {
              let v = overlay (scan_u 44 6 (drop (cp + 1) t)) (replicate 6 None);
              let (r, v, s) = (if correctpasv (context' s) then CorrectPasvResponse os v s else (1, v, s));
              if r = 0 then Some (-1, None, s)
              else do {
                let v = (if ip s \<noteq> [] then overlay (scan_u 46 4 (ip s)) v else v);
                addr \<leftarrow> sa_data v;
                (r, s) \<leftarrow> (if offset (context' s) \<noteq> 0 then FtpSendCmd os (str ''REST '' @ dec (offset (context' s))) 51 s else Some (1, s));
                if r = 0 then Some (0, None, s) else pasv_transfer os mode d cmd addr s
              }
            }
        }
      })"

fun verb :: "accesstype \<Rightarrow> bytes \<times> int" where
  "verb dir_list = (str ''NLST'', FTPLIB_READ)"
| "verb dirverbose = (str ''LIST -aL'', FTPLIB_READ)"
| "verb filereadappend = (str ''RETR'', FTPLIB_READ)"
| "verb fileread = (str ''RETR'', FTPLIB_READ)"
| "verb filewriteappend = (str ''STOR'', FTPLIB_WRITE)"
| "verb filewrite = (str ''STOR'', FTPLIB_WRITE)"

text \<open>\<open>None\<close> for the data connection: what the caller's pointer refers to has not been set.\<close>

definition FtpAccess :: "os \<Rightarrow> bytes \<Rightarrow> accesstype \<Rightarrow> transfermode \<Rightarrow> ftp \<Rightarrow> (int \<times> ftp_context option \<times> ftp) option" where
  "FtpAccess os path type mode s = do {
     (r, s) \<leftarrow> FtpSendCmd os (str ''TYPE '' @ [mode_char mode]) 50 s;
     if r = 0 then Some (0, None, s)
     else
       (let (v, d) = verb type; cmd = v @ [32] in
        if 256 \<le> length path + length cmd then Some (0, None, s)
        else do {
          (ret, nData, s) \<leftarrow> (if cmode (context' s) = pasv then FtpOpenPasv os mode d (cmd @ path) s else Some (1, None, s));
          Some (if cmode (context' s) = pasv \<and> ret = -1 then 0 else if cmode (context' s) = port then 0 else 1, nData, s)
        })
   }"

subsection \<open>Transfers\<close>

text \<open>
  The data connection ends: nothing is left to write, the socket is closed, and the reply that ends the transfer is awaited.
\<close>

definition FtpClose :: "ftp_context \<Rightarrow> ftp \<Rightarrow> (int \<times> ftp) option" where
  "FtpClose nData s =
     (if dir nData \<noteq> FTPLIB_WRITE \<and> dir nData \<noteq> FTPLIB_READ then Some (0, s)
      else
        (let s = s\<lparr>closed := closed s @ [handle nData]\<rparr> in
         if has_ctrl nData then readresp 50 s else Some (1, s)))"

text \<open>\<open>fread\<close> hands the file over in pieces of the size of the buffer.\<close>

fun pieces :: "nat \<Rightarrow> bytes \<Rightarrow> bytes list" where
  "pieces n bs = (if bs = [] \<or> n = 0 then [] else take n bs # pieces n (drop n bs))"

declare pieces.simps [simp del]

fun upload :: "writer \<Rightarrow> bytes list \<Rightarrow> ftp_context \<Rightarrow> bytes list \<Rightarrow> bool \<times> ftp_context \<times> bytes list" where
  "upload wr [] nData sent = (True, nData, sent)"
| "upload wr (l # ls) nData sent =
     (case FtpWrite wr l nData sent of
        (c, nData, sent) \<Rightarrow> if c < int (length l) then (False, nData, sent) else upload wr ls nData sent)"

partial_function (option) download :: "bytes \<Rightarrow> bytes \<Rightarrow> ftp_context \<Rightarrow> rx list \<Rightarrow> (bytes \<times> ftp_context \<times> rx list) option" where
  "download out dbuf nData net = do {
     (l, dbuf, nData, net) \<leftarrow> FtpRead dbuf (int FTPLIB_BUFSIZ) nData net;
     if l > 0 then download (out @ take (nat l) dbuf) dbuf nData net else Some (out, nData, net)
   }"

declare download.simps [code]

definition is_write :: "accesstype \<Rightarrow> bool" where
  "is_write type \<longleftrightarrow> type = filewrite \<or> type = filewriteappend"

text \<open>
  \<open>local\<close> is the content of the local file, or \<open>None\<close> when it cannot be opened; a missing file that is opened for writing is
  \<open>Some []\<close>. Opening for a plain read of the remote file empties it.
\<close>

definition open_local :: "accesstype \<Rightarrow> bytes option \<Rightarrow> bytes option" where
  "open_local type local = (if type = filewrite \<or> type = filewriteappend \<or> type = filereadappend then local else map_option (\<lambda>_. []) local)"

definition fread_from :: "accesstype \<Rightarrow> int \<Rightarrow> bytes \<Rightarrow> bytes" where
  "fread_from type off content = (if type = filewriteappend \<and> 0 \<le> off then drop (nat off) content else content)"

text \<open>
  The result, the local file, what the data connection was sent, and the client. The strings of \<open>fopen\<close>'s errors are \<open>e\<close>.
\<close>

definition FtpXfer :: "os \<Rightarrow> bytes \<Rightarrow> bytes option \<Rightarrow> bytes \<Rightarrow> accesstype \<Rightarrow> transfermode \<Rightarrow> rx list \<Rightarrow> writer \<Rightarrow> ftp \<Rightarrow>
    (int \<times> bytes option \<times> bytes list \<times> ftp) option" where
  "FtpXfer os e local path type mode data_rx data_wr s =
     (case open_local type local of
        None \<Rightarrow> Some (0, local, [], s\<lparr>context' := (context' s)\<lparr>response := strncpy e 1024\<rparr>\<rparr>)
      | Some content \<Rightarrow> do {
          (r, nData, s) \<leftarrow> FtpAccess os path type mode s;
          if r = 0 then Some (0, Some content, [], s)
          else do {
            nData \<leftarrow> nData;
            if is_write type then
              (case upload data_wr (pieces FTPLIB_BUFSIZ (fread_from type (offset (context' s)) content)) nData [] of
                 (ok, nData, sent) \<Rightarrow> do {
                   (rv, s) \<leftarrow> FtpClose nData s;
                   Some (if \<not> ok then 0 else if rv = 0 then -1 else rv, Some content, sent, s)
                 })
            else do {
              (content, nData, net) \<leftarrow> download content (replicate FTPLIB_BUFSIZ 0) nData data_rx;
              (rv, s) \<leftarrow> FtpClose nData s;
              Some (if rv = 0 then -1 else rv, Some content, [], s)
            }
          }
        })"

definition Put :: "os \<Rightarrow> bytes \<Rightarrow> bytes option \<Rightarrow> bytes \<Rightarrow> transfermode \<Rightarrow> int \<Rightarrow> rx list \<Rightarrow> writer \<Rightarrow> ftp \<Rightarrow>
    (int \<times> bytes option \<times> bytes list \<times> ftp) option" where
  "Put os e local path mode off data_rx data_wr s =
     FtpXfer os e local path (if off = 0 then filewrite else filewriteappend) mode data_rx data_wr
       (s\<lparr>context' := (context' s)\<lparr>offset := off\<rparr>\<rparr>)"

definition Get :: "os \<Rightarrow> bytes \<Rightarrow> bytes option \<Rightarrow> bytes \<Rightarrow> transfermode \<Rightarrow> int \<Rightarrow> rx list \<Rightarrow> writer \<Rightarrow> ftp \<Rightarrow>
    (int \<times> bytes option \<times> bytes list \<times> ftp) option" where
  "Get os e local path mode off data_rx data_wr s =
     FtpXfer os e local path (if off = 0 then fileread else filereadappend) mode data_rx data_wr
       (s\<lparr>context' := (context' s)\<lparr>offset := off\<rparr>\<rparr>)"

subsection \<open>Connecting and quitting\<close>

text \<open>\<open>close_handle\<close> is the common end: an open handle is closed and forgotten.\<close>

definition close_handle :: "ftp \<Rightarrow> ftp" where
  "close_handle s =
     (if handle (context' s) > 0
      then s\<lparr>closed := closed s @ [handle (context' s)], context' := (context' s)\<lparr>handle := 0\<rparr>\<rparr> else s)"

definition inet_ntoa :: "u32 \<Rightarrow> bytes" where
  "inet_ntoa a = (let d = \<lambda>n. dec_nat (unat (take_bit 8 (drop_bit n a))) in d 0 @ [46] @ d 8 @ [46] @ d 16 @ [46] @ d 24)"

text \<open>The port in network order: of the service \<open>ftp\<close>, a number, or a named service, which is not checked.\<close>

definition target_port :: "os \<Rightarrow> bytes option \<Rightarrow> u16 option option" where
  "target_port os pnum =
     (case pnum of
        None \<Rightarrow> Some (os_serv os (str ''ftp''))
      | Some p \<Rightarrow>
          if p \<noteq> [] \<and> is_digit (hd p) then
            (case atoi p of Some n \<Rightarrow> (let w = word_of_int n :: u16 in Some (Some (push_bit 8 w OR drop_bit 8 w))) | None \<Rightarrow> None)
          else (case os_serv os p of Some w \<Rightarrow> Some (Some w) | None \<Rightarrow> None))"

definition Connect :: "os \<Rightarrow> bytes \<Rightarrow> ftp \<Rightarrow> (int \<times> ftp) option" where
  "Connect os host s = do {
     let s = s\<lparr>context' := (context' s)\<lparr>dir := FTPLIB_CONTROL, has_ctrl := False, xfered := 0, xfered1 := 0, offset := 0, handle := 0\<rparr>\<rparr>;
     let colon = strchr host 58;
     let lhost = (case colon of Some i \<Rightarrow> take i host | None \<Rightarrow> host);
     sin_port \<leftarrow> target_port os (map_option (\<lambda>i. drop (i + 1) host) colon);
     case sin_port of
       None \<Rightarrow> Some (0, s)
     | Some sin_port \<Rightarrow>
         (case (case os_aton os lhost of Some a \<Rightarrow> Some (a, lhost) | None \<Rightarrow> map_option (\<lambda>a. (a, inet_ntoa a)) (os_resolve os lhost)) of
            None \<Rightarrow> Some (0, s)
          | Some (s_addr, text') \<Rightarrow>
              if 128 \<le> length text' then None
              else
                (let s = s\<lparr>ip := text', context' := (context' s)\<lparr>handle := os_socket os\<rparr>\<rparr> in
                 if os_socket os = -1 \<or> \<not> fst (os_opts os) \<or> \<not> snd (os_opts os) \<or>
                   AsynConnect (os_dial os (le16 sin_port @ le32 s_addr)) 30000000 \<noteq> 1
                 then Some (0, close_handle s)
                 else do {
                   (r, s) \<leftarrow> readresp 50 s;
                   Some (if r = 0 then (0, close_handle s) else (1, s))
                 }))
   }"

definition Quit :: "os \<Rightarrow> ftp \<Rightarrow> (int \<times> ftp) option" where
  "Quit os s =
     (if dir (context' s) \<noteq> FTPLIB_CONTROL then Some (0, close_handle s)
      else if handle (context' s) = 0 then
        (let t = str ''error: no anwser from server'' @ [10, 0] in
         Some (0, close_handle (s\<lparr>context' := (context' s)\<lparr>response := t @ drop (length t) (response (context' s))\<rparr>\<rparr>)))
      else do {
        (r, s) \<leftarrow> FtpSendCmd os (str ''QUIT'') 50 s;
        Some (if r = 0 then 0 else 1, close_handle s)
      })"

subsection \<open>Replies\<close>

text \<open>
  The client is connected and has these lines of the server before it, in any pieces; \<open>same_client\<close>: only the input buffer and
  \<open>response\<close> have changed.
\<close>

definition line_ok :: "bytes \<Rightarrow> bool" where
  "line_ok l \<longleftrightarrow> 10 \<notin> set l \<and> 0 \<notin> set l \<and> length l \<le> 253"

definition ready :: "ftp \<Rightarrow> bytes list \<Rightarrow> bool" where
  "ready s ls \<longleftrightarrow> line_buffer (context' s) \<and> dir (context' s) = FTPLIB_CONTROL \<and> handle (context' s) \<noteq> 0 \<and>
     length (response (context' s)) = 1024 \<and> list_all line_ok ls \<and>
     (\<exists>cs. ctl_rx s = map Data cs \<and> list_all (chunk_ok (context' s)) cs \<and>
       pending (context' s) @ concat cs = concat (map (\<lambda>l. l @ [13, 10]) ls))"

definition same_client :: "ftp \<Rightarrow> ftp \<Rightarrow> bool" where
  "same_client s s' \<longleftrightarrow> ip s' = ip s \<and> closed s' = closed s \<and>
     buffer_only (context' s) ((context' s')\<lparr>response := response (context' s)\<rparr>)"

lemma same_client_refl [simp]: "same_client s s"
  by (simp add: same_client_def buffer_only_def)

lemma same_client_trans: "same_client a b \<Longrightarrow> same_client b c \<Longrightarrow> same_client a c"
  by (simp add: same_client_def buffer_only_def)

text \<open>The line that \<open>response\<close> holds.\<close>

definition holds_line :: "ftp \<Rightarrow> bytes \<Rightarrow> bool" where
  "holds_line s l \<longleftrightarrow> (\<exists>stale. response (context' s) = l @ [10, 0] @ stale)"

lemma chunk_ok_same: "logcb c' = logcb c \<Longrightarrow> chunk_ok c' = chunk_ok c"
  by (intro ext) (simp add: chunk_ok_def)

lemma read_response_line:
  assumes "ready s (l # ls)"
  shows "\<exists>s'. read_response s = Some (int (length l) + 1, s') \<and> ready s' ls \<and> same_client s s' \<and> ctl_tx s' = ctl_tx s \<and> holds_line s' l"
proof -
  let ?c = "context' s"
  obtain cs where cs: "ctl_rx s = map Data cs" "list_all (chunk_ok ?c) cs" "pending ?c @ concat cs = l @ [13, 10] @ concat (map (\<lambda>l. l @ [13, 10]) ls)"
    using assms by (auto simp: ready_def)
  have r: "line_buffer ?c" "dir ?c = FTPLIB_CONTROL" "10 \<notin> set l" "int (length l) + 2 < 256" "int 256 \<le> int (length (response ?c))"
    using assms by (auto simp: ready_def line_ok_def)
  obtain d c' cs' lg where l: "readline (response ?c) 256 ?c (map Data cs @ []) (ftp_log s) = Some (int (length l) + 1, d, c', map Data cs' @ [], lg)"
    "take (length l + 2) d = l @ [10, 0]" "length d = length (response ?c)" "line_buffer c'"
    "pending c' @ concat cs' = concat (map (\<lambda>l. l @ [13, 10]) ls)" "list_all (chunk_ok ?c) cs'" "buffer_only ?c c'"
    using readline_line[of ?c cs l "concat (map (\<lambda>l. l @ [13, 10]) ls)" 256 "response ?c" "[]" "ftp_log s"] r cs
    by (auto simp: FTPLIB_CONTROL_def FTPLIB_WRITE_def)
  let ?s = "s\<lparr>context' := c'\<lparr>response := d\<rparr>, ctl_rx := map Data cs', ftp_log := lg\<rparr>"
  have "pending (c'\<lparr>response := d\<rparr>) = pending c'" "line_buffer (c'\<lparr>response := d\<rparr>) = line_buffer c'"
    by (simp_all add: pending_def line_buffer_def split: option.split)
  then have "ready ?s ls"
    using assms l chunk_ok_same[of "c'\<lparr>response := d\<rparr>" ?c] by (auto simp: ready_def buffer_only_def)
  moreover have "d = l @ [10, 0] @ drop (length l + 2) d"
    using l(2) by (metis append.assoc append_take_drop_id)
  ultimately show ?thesis
    using l cs(1) by (intro exI[of _ ?s]) (auto simp: read_response_def same_client_def buffer_only_def holds_line_def)
qed

text \<open>A reply: one line, or several that begin with the code and a hyphen and end with the code and a blank.\<close>

definition reply :: "bytes \<Rightarrow> bytes list \<Rightarrow> bool" where
  "reply code ls \<longleftrightarrow> length code = 3 \<and>
     (\<exists>t. ls = [code @ 32 # t] \<or>
        (\<exists>t0 ms. ls = (code @ 45 # t0) # ms @ [code @ 32 # t] \<and> (\<forall>m\<in>set ms. take 4 m \<noteq> code @ [32])))"

lemma three: "length code = 3 \<Longrightarrow> \<exists>a b c. code = [a, b, c]"
  by (auto simp: numeral_eq_Suc length_Suc_conv)

lemma strncmp_line:
  assumes "length code = 3" "0 \<notin> set code" "10 \<notin> set code"
  shows "strncmp_eq 4 (l @ 10 # 0 # stale) (code @ [32, 0]) \<longleftrightarrow> take 4 l = code @ [32]"
proof -
  obtain a b c where "code = [a, b, c]"
    using three[OF assms(1)] by blast
  moreover have 4: "(4 :: nat) = Suc (Suc (Suc (Suc 0)))"
    by simp
  ultimately show ?thesis
    using assms unfolding 4 by (cases l; cases "tl l"; cases "tl (tl l)"; cases "tl (tl (tl l))") auto
qed

lemma skip_lines_reply:
  assumes "ready s (ms @ (code @ 32 # t) # ls)" "length code = 3" "0 \<notin> set code" "10 \<notin> set code" "\<forall>m\<in>set ms. take 4 m \<noteq> code @ [32]"
  shows "\<exists>s'. skip_lines (code @ [32, 0]) s = Some (True, s') \<and> ready s' ls \<and> same_client s s' \<and> ctl_tx s' = ctl_tx s \<and> holds_line s' (code @ 32 # t)"
  using assms(1,5)
proof (induction ms arbitrary: s)
  case Nil
  then obtain s' where s': "read_response s = Some (int (length (code @ 32 # t)) + 1, s')" "ready s' ls" "same_client s s'" "ctl_tx s' = ctl_tx s"
    "holds_line s' (code @ 32 # t)"
    using read_response_line[of s "code @ 32 # t" ls] by auto
  moreover have "strncmp_eq 4 (response (context' s')) (code @ [32, 0])"
    using s'(5) strncmp_line[OF assms(2,3,4), of "code @ 32 # t"] assms(2) by (auto simp: holds_line_def)
  ultimately show ?case
    by (intro exI[of _ s']) (simp add: skip_lines.simps)
next
  case (Cons m ms)
  then obtain s' where s': "read_response s = Some (int (length m) + 1, s')" "ready s' (ms @ (code @ 32 # t) # ls)" "same_client s s'"
    "ctl_tx s' = ctl_tx s" "holds_line s' m"
    using read_response_line[of s m "ms @ (code @ 32 # t) # ls"] by auto
  moreover have "\<not> strncmp_eq 4 (response (context' s')) (code @ [32, 0])"
    using s'(5) strncmp_line[OF assms(2,3,4), of m] Cons.prems(2) by (auto simp: holds_line_def)
  moreover obtain s2 where "skip_lines (code @ [32, 0]) s' = Some (True, s2)" "ready s2 ls" "same_client s' s2" "ctl_tx s2 = ctl_tx s'"
    "holds_line s2 (code @ 32 # t)"
    using Cons.IH[OF s'(2)] Cons.prems(2) by auto
  ultimately show ?case
    using same_client_trans by (intro exI[of _ s2]) (auto simp: skip_lines.simps[of _ s])
qed

text \<open>A whole reply is consumed, and its first digit decides.\<close>

lemma readresp_reply:
  assumes "ready s (r @ ls)" "reply code r"
  shows "\<exists>s' t. readresp c s = Some (if hd code = c then 1 else 0, s') \<and> ready s' ls \<and> same_client s s' \<and> ctl_tx s' = ctl_tx s \<and>
    holds_line s' (code @ 32 # t) \<and> last r = code @ 32 # t"
proof -
  have len: "length code = 3"
    using assms(2) by (simp add: reply_def)
  then obtain x y z where code: "code = [x, y, z]"
    using three by blast
  have z: "0 \<notin> set code" "10 \<notin> set code"
    using assms by (auto simp: reply_def ready_def line_ok_def)
  from assms(2) consider t where "r = [code @ 32 # t]"
    | t0 ms t where "r = (code @ 45 # t0) # ms @ [code @ 32 # t]" "\<forall>m\<in>set ms. take 4 m \<noteq> code @ [32]"
    by (auto simp: reply_def)
  then show ?thesis
  proof cases
    case 1
    then obtain s' where s': "read_response s = Some (int (length (code @ 32 # t)) + 1, s')" "ready s' ls" "same_client s s'" "ctl_tx s' = ctl_tx s"
      "holds_line s' (code @ 32 # t)"
      using read_response_line[of s "code @ 32 # t" ls] assms(1) by auto
    moreover have "response (context' s') ! 3 = 32" "response (context' s') ! 0 = hd code"
      using s'(5) code by (auto simp: holds_line_def)
    ultimately show ?thesis
      using 1 by (intro exI[of _ s'] exI[of _ t]) (simp add: readresp_def)
  next
    case 2
    then obtain s' where s': "read_response s = Some (int (length (code @ 45 # t0)) + 1, s')" "ready s' (ms @ (code @ 32 # t) # ls)"
      "same_client s s'" "ctl_tx s' = ctl_tx s" "holds_line s' (code @ 45 # t0)"
      using read_response_line[of s "code @ 45 # t0" "ms @ (code @ 32 # t) # ls"] assms(1) by auto
    obtain s2 where s2: "skip_lines (code @ [32, 0]) s' = Some (True, s2)" "ready s2 ls" "same_client s' s2" "ctl_tx s2 = ctl_tx s'"
      "holds_line s2 (code @ 32 # t)"
      using skip_lines_reply[OF s'(2) len z 2(2)] by blast
    have "response (context' s') ! 3 = 45" "strncpy (response (context' s')) 3 = code"
      using s'(5) z code by (auto simp: holds_line_def strncpy_def)
    moreover have "response (context' s2) ! 0 = hd code"
      using s2(5) code by (auto simp: holds_line_def)
    ultimately show ?thesis
      using 2(1) s' s2 same_client_trans by (intro exI[of _ s2] exI[of _ t]) (auto simp: readresp_def)
  qed
qed


end
