(* ===== verification/Ftp_Transfer.thy ===== *)
theory Ftp_Transfer
  imports Ftp
begin

section \<open>FTP dialogues and transfers\<close>

text \<open>
  Commands and their replies, the opening of a data connection, and whole transfers: lemmas and properties of the client of
  \<open>Ftp\<close> (src/net/ftp.hpp).
\<close>

subsection \<open>Commands\<close>

lemma FtpSendCmd_reply:
  assumes "ready s (r @ ls)" "reply code r" "takes_all (os_wr os)" "length cmd \<le> 253"
  shows "\<exists>s'. FtpSendCmd os cmd e s = Some (if hd code = e then 1 else 0, s') \<and> ready s' ls \<and> same_client s s' \<and>
    ctl_tx s' = ctl_tx s @ [cmd @ crlf] \<and> holds_line s' (last r)"
proof -
  let ?s = "s\<lparr>ctl_tx := ctl_tx s @ [cmd @ crlf]\<rparr>"
  let ?t = "if logcb (context' ?s) then ?s\<lparr>ftp_log := ftp_log ?s @ [(cmd @ crlf, False)]\<rparr> else ?s"
  have "ready ?t (r @ ls)"
    using assms(1) by (simp add: ready_def)
  then obtain s' where s': "readresp e ?t = Some (if hd code = e then 1 else 0, s')" "ready s' ls" "same_client ?t s'" "ctl_tx s' = ctl_tx ?t"
    "holds_line s' (last r)"
    using readresp_reply[OF _ assms(2), of ?t ls e] by auto
  moreover have "net_write (os_wr os) (cmd @ crlf) (ctl_tx s) = (int (length cmd) + 2, ctl_tx s @ [cmd @ crlf])"
    using assms(3) by (simp add: net_write_def takes_all_def crlf_def Let_def)
  moreover have "same_client s ?t"
    by (simp add: same_client_def buffer_only_def)
  then have "same_client s s'"
    using s'(3) same_client_trans by blast
  ultimately show ?thesis
    using assms(1,4) by (intro exI[of _ s']) (auto simp: FtpSendCmd_def ready_def Let_def split: if_splits)
qed

text \<open>The server is silent, or waits longer than five seconds: the first character of the reply before decides.\<close>

lemma FtpSendCmd_silence:
  assumes "takes_all (os_wr os)" "length cmd \<le> 253" "dir (context' s) = FTPLIB_CONTROL" "handle (context' s) \<noteq> 0" "ctl_rx s = []"
    "cavail (context' s) \<le> 0" "response (context' s) ! 3 \<noteq> 45"
  shows "\<exists>s'. FtpSendCmd os cmd e s = Some (if response (context' s) ! 0 = e then 1 else 0, s')"
  using assms
  by (auto simp: FtpSendCmd_def readresp_def read_response_def readline_silence net_write_def takes_all_def crlf_def Let_def rewind_def)

subsection \<open>Logging in\<close>

lemma Login_replies:
  assumes "ready s (r1 @ r2 @ ls)" "reply c1 r1" "reply c2 r2" "hd c1 = 51" "takes_all (os_wr os)" "length user \<le> 57" "length pass \<le> 57"
  shows "\<exists>s'. Login os user pass s = Some (if hd c2 = 50 then 1 else 0, s') \<and> ready s' ls \<and> same_client s s' \<and>
    ctl_tx s' = ctl_tx s @ [str ''USER '' @ user @ crlf, str ''PASS '' @ pass @ crlf]"
proof -
  obtain s1 where 1: "FtpSendCmd os (str ''USER '' @ user) 51 s = Some (1, s1)" "ready s1 (r2 @ ls)" "same_client s s1"
    "ctl_tx s1 = ctl_tx s @ [(str ''USER '' @ user) @ crlf]"
    using FtpSendCmd_reply[OF assms(1,2,5), of "str ''USER '' @ user" 51] assms(4,6) by (auto simp: str_def)
  obtain s2 where "FtpSendCmd os (str ''PASS '' @ pass) 50 s1 = Some (if hd c2 = 50 then 1 else 0, s2)" "ready s2 ls" "same_client s1 s2"
    "ctl_tx s2 = ctl_tx s1 @ [(str ''PASS '' @ pass) @ crlf]"
    using FtpSendCmd_reply[OF 1(2) assms(3,5), of "str ''PASS '' @ pass" 50] assms(7) by (auto simp: str_def)
  then show ?thesis
    using 1 assms(6,7) same_client_trans by (intro exI[of _ s2]) (auto simp: Login_def)
qed

subsection \<open>The address of the data connection\<close>

definition dotted :: "nat list \<Rightarrow> bytes" where
  "dotted ns = join [46] (map dec_nat ns)"

definition commas :: "nat list \<Rightarrow> bytes" where
  "commas ns = join [44] (map dec_nat ns)"

lemma parse_int_dec_nat:
  assumes "s = [] \<or> \<not> is_digit (hd s)"
  shows "parse_int (dec_nat n @ s) = (Some (int n), s)"
proof -
  obtain d ds where d: "dec_nat n = d # ds" "is_digit d"
    using dec_nat_digits[of n] by (cases "dec_nat n") auto
  have "digits 0 (dec_nat n @ s) = (n, s)"
    using digits_dec_nat[of 0 n s] digits_stop[OF assms] by simp
  then show ?thesis
    using d digit_facts[OF d(2)] by (simp add: parse_int_def Let_def)
qed

lemma scan_u_join:
  assumes "length ns \<le> k" "ns \<noteq> []" "\<not> is_digit sep" "s = [] \<or> \<not> is_digit (hd s)" "length ns = k \<or> s = [] \<or> hd s \<noteq> sep"
  shows "scan_u sep k (join [sep] (map dec_nat ns) @ s) = map word_of_nat ns"
  using assms
proof (induction ns arbitrary: k)
  case (Cons n ns)
  then obtain k' where k: "k = Suc k'"
    by (cases k) auto
  show ?case
  proof (cases ns)
    case Nil
    then show ?thesis
      using Cons.prems parse_int_dec_nat[of s n] k by (cases s; cases k') auto
  next
    case (Cons m ms)
    have "parse_int (dec_nat n @ sep # join [sep] (map dec_nat ns) @ s) = (Some (int n), sep # join [sep] (map dec_nat ns) @ s)"
      using Cons.prems(3) by (intro parse_int_dec_nat) simp
    then show ?thesis
      using Cons.IH[of k'] Cons.prems k Cons by simp
  qed
qed simp

lemma ucast_of_nat: "ucast (word_of_nat n :: u32) = (word_of_nat n :: u8)"
  by (rule bit_word_eqI) (auto simp: bit_simps)

lemma data_address:
  "sa_data (overlay (scan_u 46 4 (dotted [a, b, c, d])) (overlay (scan_u 44 6 (commas [h1, h2, h3, h4, p, q] @ 41 # post)) (replicate 6 None))) =
     Some (map word_of_nat [p, q, a, b, c, d])"
proof -
  have "scan_u 46 4 (dotted [a, b, c, d] @ []) = map word_of_nat [a, b, c, d]"
    unfolding dotted_def by (rule scan_u_join) (simp_all add: is_digit_def word_le_nat_alt)
  moreover have "scan_u 44 6 (commas [h1, h2, h3, h4, p, q] @ 41 # post) = map word_of_nat [h1, h2, h3, h4, p, q]"
    unfolding commas_def by (rule scan_u_join) (simp_all add: is_digit_def word_le_nat_alt)
  ultimately show ?thesis
    by (simp add: overlay_def sa_data_def ucast_of_nat numeral_eq_Suc)
qed

text \<open>What a transfer needs of the system: all writes go out, the data socket is there, and the address answers.\<close>

definition os_ok :: "os \<Rightarrow> bytes \<Rightarrow> bool" where
  "os_ok os addr \<longleftrightarrow> takes_all (os_wr os) \<and> os_data_socket os > 0 \<and> os_data_opts os = (True, True) \<and>
     AsynConnect (os_data_dial os addr) 30000000 = 1"

text \<open>The reply to \<open>PASV\<close> shows six numbers behind the first parenthesis.\<close>

definition pasv_line :: "bytes \<Rightarrow> nat \<Rightarrow> nat \<Rightarrow> bool" where
  "pasv_line l p q \<longleftrightarrow> (\<exists>pre h1 h2 h3 h4 post. l = pre @ 40 # commas [h1, h2, h3, h4, p, q] @ 41 # post \<and> 40 \<notin> set pre)"

lemma cstr_line: "0 \<notin> set l \<Longrightarrow> cstr (l @ [10, 0] @ stale) = Some (l @ [10])"
  by (induction l) auto

lemma pasv_transfer_reply:
  assumes "ready s (r1 @ ls)" "reply c1 r1" "os_ok os addr" "length cmd \<le> 253"
  shows "\<exists>s'. pasv_transfer os mode d cmd addr s =
      Some (if hd c1 = 49 then 1 else int (length cmd) + 2,
        if hd c1 = 49 then Some (data_context (context' s') mode (os_data_socket os) d) else None, s') \<and>
    ready s' ls \<and> ip s' = ip s \<and> buffer_only (context' s) ((context' s')\<lparr>response := response (context' s)\<rparr>) \<and>
    ctl_tx s' = ctl_tx s @ [cmd @ crlf] \<and> closed s' = closed s @ (if hd c1 = 49 then [] else [os_data_socket os])"
proof -
  let ?s = "s\<lparr>ctl_tx := ctl_tx s @ [cmd @ crlf]\<rparr>"
  let ?t = "if logcb (context' ?s) then ?s\<lparr>ftp_log := ftp_log ?s @ [(cmd @ crlf, False)]\<rparr> else ?s"
  have "ready ?t (r1 @ ls)"
    using assms(1) by (simp add: ready_def)
  then obtain s' where s': "readresp 49 ?t = Some (if hd c1 = 49 then 1 else 0, s')" "ready s' ls" "same_client ?t s'" "ctl_tx s' = ctl_tx ?t"
    using readresp_reply[OF _ assms(2), of ?t ls 49] by auto
  have w: "net_write (os_wr os) (cmd @ crlf) (ctl_tx s) = (int (length cmd) + 2, ctl_tx s @ [cmd @ crlf])"
    using assms(3) by (simp add: net_write_def takes_all_def crlf_def Let_def os_ok_def)
  have c: "same_client s s'"
    using s'(3) by (simp add: same_client_def buffer_only_def split: if_splits)
  show ?thesis
  proof (cases "hd c1 = 49")
    case True
    then show ?thesis
      using w s' c assms(3,4) by (intro exI[of _ s'])
        (auto simp: pasv_transfer_def os_ok_def Let_def pasv_done_def same_client_def split: if_splits)
  next
    case False
    let ?u = "s'\<lparr>closed := closed s' @ [os_data_socket os]\<rparr>"
    have "ready ?u ls"
      using s'(2) by (simp add: ready_def)
    then show ?thesis
      using False w s' c assms(3,4) by (intro exI[of _ ?u])
        (auto simp: pasv_transfer_def os_ok_def Let_def pasv_done_def same_client_def split: if_splits)
  qed
qed

text \<open>
  The dialogue that opens a transfer, up to the answer to its command: with an answer \<open>1xx\<close> there is a data connection.
\<close>

definition transfer_dialogue :: "ftp \<Rightarrow> os \<Rightarrow> bytes list \<Rightarrow> bytes list \<Rightarrow> bytes list \<Rightarrow> bytes \<Rightarrow> bytes list \<Rightarrow> bool" where
  "transfer_dialogue s os rt rp r1 c1 ls \<longleftrightarrow>
     ready s (rt @ rp @ r1 @ ls) \<and> (\<exists>ct. reply ct rt \<and> hd ct = 50) \<and> (\<exists>cp. reply cp rp \<and> hd cp = 50) \<and> reply c1 r1 \<and>
     cmode (context' s) = pasv \<and> \<not> correctpasv (context' s) \<and> offset (context' s) = 0 \<and>
     (\<exists>a b c d p q. ip s = dotted [a, b, c, d] \<and> pasv_line (last rp) p q \<and> os_ok os (map word_of_nat [p, q, a, b, c, d]))"

lemma FtpAccess_dialogue:
  assumes "transfer_dialogue s os rt rp r1 c1 ls" "verb type = (v, d)" "length v = 4" "length path \<le> 248"
  shows "\<exists>s'. FtpAccess os path type mode s =
      Some (1, if hd c1 = 49 then Some (data_context (context' s') mode (os_data_socket os) d) else None, s') \<and>
    ready s' ls \<and> buffer_only (context' s) ((context' s')\<lparr>response := response (context' s)\<rparr>) \<and>
    ctl_tx s' = ctl_tx s @ [str ''TYPE '' @ [mode_char mode] @ crlf, str ''PASV'' @ crlf, v @ [32] @ path @ crlf] \<and>
    closed s' = closed s @ (if hd c1 = 49 then [] else [os_data_socket os])"
proof -
  obtain ct cp a b c dd p q where t: "ready s (rt @ rp @ r1 @ ls)" "reply ct rt" "hd ct = 50" "reply cp rp" "hd cp = 50" "reply c1 r1"
    "cmode (context' s) = pasv" "\<not> correctpasv (context' s)" "offset (context' s) = 0"
    "ip s = dotted [a, b, c, dd]" "pasv_line (last rp) p q" "os_ok os (map word_of_nat [p, q, a, b, c, dd])"
    using assms(1) by (auto simp: transfer_dialogue_def)
  have wr: "takes_all (os_wr os)"
    using t(12) by (simp add: os_ok_def)
  obtain s1 where s1: "FtpSendCmd os (str ''TYPE '' @ [mode_char mode]) 50 s = Some (1, s1)" "ready s1 (rp @ r1 @ ls)" "same_client s s1"
    "ctl_tx s1 = ctl_tx s @ [str ''TYPE '' @ [mode_char mode] @ crlf]"
    using FtpSendCmd_reply[OF t(1,2) wr, of "str ''TYPE '' @ [mode_char mode]" 50] t(3) by (auto simp: str_def)
  obtain s2 where s2: "FtpSendCmd os (str ''PASV'') 50 s1 = Some (1, s2)" "ready s2 (r1 @ ls)" "same_client s1 s2"
    "ctl_tx s2 = ctl_tx s1 @ [str ''PASV'' @ crlf]" "holds_line s2 (last rp)"
    using FtpSendCmd_reply[OF s1(2) t(4) wr, of "str ''PASV''" 50] t(5) by (auto simp: str_def)
  have s02: "same_client s s2"
    using s1(3) s2(3) same_client_trans by blast
  have f: "cmode (context' s1) = pasv" "dir (context' s1) = FTPLIB_CONTROL" "correctpasv (context' s2) = False" "offset (context' s2) = 0"
    "ip s2 = dotted [a, b, c, dd]" "closed s2 = closed s" "cmode (context' s2) = pasv"
    using s1(2,3) s02 t(7-10) by (auto simp: same_client_def buffer_only_def ready_def)
  obtain pre h1 h2 h3 h4 post where l: "last rp = pre @ 40 # commas [h1, h2, h3, h4, p, q] @ 41 # post" "40 \<notin> set pre"
    using t(11) by (auto simp: pasv_line_def)
  have "rp \<noteq> []"
    using t(4) by (auto simp: reply_def)
  then have "last rp \<in> set (rp @ r1 @ ls)"
    by simp
  then have "0 \<notin> set (last rp)"
    using s1(2) by (auto simp: ready_def list_all_iff line_ok_def)
  then have cs: "cstr (response (context' s2)) = Some (last rp @ [10])"
    using s2(5) cstr_line by (auto simp: holds_line_def)
  have sc: "strchr (last rp @ [10]) 40 = Some (length pre)"
    using l strchr_first[of 40 pre] by simp
  have dr: "drop (length pre + 1) (last rp @ [10]) = commas [h1, h2, h3, h4, p, q] @ 41 # (post @ [10])"
    using l(1) by simp
  have ne: "ip s2 \<noteq> []"
    using f(5) dec_nat_digits[of a] by (auto simp: dotted_def)
  have len: "length (v @ [32] @ path) \<le> 253" "\<not> 256 \<le> length path + length (v @ [32])"
    using assms(3,4) by auto
  obtain s3 where s3: "pasv_transfer os mode d (v @ [32] @ path) (map word_of_nat [p, q, a, b, c, dd]) s2 =
      Some (if hd c1 = 49 then 1 else int (length (v @ [32] @ path)) + 2,
        if hd c1 = 49 then Some (data_context (context' s3) mode (os_data_socket os) d) else None, s3)"
    "ready s3 ls" "ip s3 = ip s2" "buffer_only (context' s2) ((context' s3)\<lparr>response := response (context' s2)\<rparr>)"
    "ctl_tx s3 = ctl_tx s2 @ [(v @ [32] @ path) @ crlf]" "closed s3 = closed s2 @ (if hd c1 = 49 then [] else [os_data_socket os])"
    using pasv_transfer_reply[OF s2(2) t(6,12) len(1)] by blast
  have pasv': "FtpOpenPasv os mode d (v @ [32] @ path) s1 = pasv_transfer os mode d (v @ [32] @ path) (map word_of_nat [p, q, a, b, c, dd]) s2"
    using f s2(1) cs sc dr ne data_address[of a b c dd h1 h2 h3 h4 p q "post @ [10]"]
    by (simp add: FtpOpenPasv_def del: drop_append)
  have bo: "buffer_only (context' s) ((context' s3)\<lparr>response := response (context' s)\<rparr>)"
    using s02 s3(4) by (simp add: same_client_def buffer_only_def)
  have cm: "cmode (context' s3) = pasv"
    using f(7) s3(4) by (simp add: buffer_only_def)
  show ?thesis
    using s1(1,4) s2(4) s3 pasv' assms(2) len(2) f(1,6) cm bo
    by (intro exI[of _ s3]) (auto simp: FtpAccess_def port_def pasv_def)
qed

subsection \<open>Moving the data\<close>

text \<open>The callback lets the transfer go on.\<close>

definition all_go :: "ftp_context \<Rightarrow> bool" where
  "all_go c \<longleftrightarrow> (\<forall>f. xfercb c = Some f \<longrightarrow> (\<forall>n. f n))"

definition same_data :: "ftp_context \<Rightarrow> ftp_context \<Rightarrow> bool" where
  "same_data c c' \<longleftrightarrow> handle c' = handle c \<and> dir c' = dir c \<and> has_ctrl c' = has_ctrl c \<and> xfercb c' = xfercb c \<and> logcb c' = logcb c"

lemma same_data_trans: "same_data a b \<Longrightarrow> same_data b c \<Longrightarrow> same_data a c"
  by (simp add: same_data_def)

lemma progress_go:
  assumes "all_go c"
  shows "\<exists>c'. progress i c = (c', True) \<and> same_data c c' \<and> buf c' = buf c \<and> cput c' = cput c \<and> cget c' = cget c \<and> cavail c' = cavail c"
  using assms by (auto simp: progress_def same_data_def all_go_def Let_def split: option.split)

lemma net_read_data:
  assumes "b \<noteq> []" "list_all (\<lambda>b. b \<noteq> []) cs"
  shows "\<exists>bs cs'. net_read (int FTPLIB_BUFSIZ) (Data b # map Data cs @ net) = Some (int (length bs), bs, map Data cs' @ net) \<and>
    bs \<noteq> [] \<and> length bs \<le> FTPLIB_BUFSIZ \<and> bs @ concat cs' = concat (b # cs) \<and> list_all (\<lambda>b. b \<noteq> []) cs'"
  using net_read_chunk[of "calloc_context" b cs net] assms by (auto simp: chunk_ok_def calloc_context_def list_all_iff)

lemma download_image:
  assumes "dir c = FTPLIB_READ" "buf c = None" "all_go c" "list_all (\<lambda>b. b \<noteq> []) ds"
  shows "\<exists>c'. download out dbuf c (map Data ds @ [Eof]) = Some (out @ concat ds, c', [Eof]) \<and> same_data c c'"
  using assms
proof (induction "length (concat ds)" arbitrary: ds c out dbuf rule: less_induct)
  case less
  show ?case
  proof (cases ds)
    case Nil
    obtain c' where "progress 0 c = (c', True)" "same_data c c'"
      using progress_go[OF less.prems(3)] by blast
    then show ?thesis
      using Nil less.prems by (subst download.simps) (simp add: FtpRead_def)
  next
    case (Cons b cs)
    obtain bs ds' where n: "net_read (int FTPLIB_BUFSIZ) (map Data ds @ [Eof]) = Some (int (length bs), bs, map Data ds' @ [Eof])"
      "bs \<noteq> []" "bs @ concat ds' = concat ds" "list_all (\<lambda>b. b \<noteq> []) ds'"
      using net_read_data[of b cs "[Eof]"] less.prems(4) Cons by auto
    obtain c1 where p: "progress (int (length bs)) c = (c1, True)" "same_data c c1" "buf c1 = buf c"
      using progress_go[OF less.prems(3)] by blast
    have c1: "dir c1 = FTPLIB_READ" "buf c1 = None" "all_go c1"
      using p(2,3) less.prems(1-3) by (simp_all add: same_data_def all_go_def)
    have step: "download out dbuf c (map Data ds @ [Eof]) =
        download (out @ bs) (bs @ drop (length bs) dbuf) c1 (map Data ds' @ [Eof])"
      using n(1,2) p(1) less.prems by (subst download.simps) (simp add: FtpRead_def)
    have "length (concat ds') < length (concat ds)"
      using n(2,3) by (metis length_append length_greater_0_conv less_add_same_cancel2)
    then obtain c' where "download (out @ bs) (bs @ drop (length bs) dbuf) c1 (map Data ds' @ [Eof]) = Some ((out @ bs) @ concat ds', c', [Eof])"
      "same_data c1 c'"
      using less.hyps[of ds' c1 "out @ bs"] n(4) c1 by blast
    then show ?thesis
      using step n(3) p(2) same_data_trans by fastforce
  qed
qed

text \<open>Lines of a text connection.\<close>

lemma download_text:
  assumes "dir c = FTPLIB_READ" "line_buffer c" "all_go c" "list_all (chunk_ok c) cs" "list_all (\<lambda>l. 10 \<notin> set l \<and> length l < 4090) ls"
    and "pending c @ concat cs = concat (map (\<lambda>l. l @ [13, 10]) ls)" "length dbuf = FTPLIB_BUFSIZ"
  shows "\<exists>c' net. download out dbuf c (map Data cs @ [Eof]) = Some (out @ concat (map (\<lambda>l. l @ [10]) ls), c', net) \<and> same_data c c'"
  using assms
proof (induction ls arbitrary: cs c out dbuf)
  case Nil
  then have e: "pending c = []" "concat cs = []"
    by auto
  have "cs = []"
    using e(2) Nil.prems(4) by (cases cs) (auto simp: chunk_ok_def)
  have "cavail c = 0" "cput c = cget c"
    using buffer_memory[OF Nil.prems(2)] e(1) Nil.prems(2) by (force simp: line_buffer_def)+
  moreover obtain m where "buf c = Some m" "length m = FTPLIB_BUFSIZ"
    using Nil.prems(2) by (auto simp: line_buffer_def)
  moreover have "FTPLIB_READ \<noteq> FTPLIB_CONTROL"
    by (simp add: FTPLIB_READ_def FTPLIB_CONTROL_def)
  ultimately show ?case
    using Nil.prems(1) \<open>cs = []\<close>
    by (subst download.simps) (simp add: FtpRead_def readline_def readline_loop.simps take_line_def rewind_empty socket_wait_def stored_def
        FTPLIB_BUFSIZ_def same_data_def)
next
  case (Cons l ls)
  have dirs: "dir c \<noteq> FTPLIB_WRITE" "dir c = FTPLIB_CONTROL \<or> dir c = FTPLIB_READ"
    using Cons.prems(1) by (auto simp: FTPLIB_READ_def FTPLIB_WRITE_def)
  obtain d c1 cs' lg where r: "readline dbuf (int FTPLIB_BUFSIZ) c (map Data cs @ [Eof]) [] = Some (int (length l) + 1, d, c1, map Data cs' @ [Eof], lg)"
    "take (length l + 2) d = l @ [10, 0]" "length d = length dbuf" "line_buffer c1"
    "pending c1 @ concat cs' = concat (map (\<lambda>l. l @ [13, 10]) ls)" "list_all (chunk_ok c) cs'" "buffer_only c c1"
    using readline_line[OF Cons.prems(2) dirs Cons.prems(4), of l "concat (map (\<lambda>l. l @ [13, 10]) ls)" "int FTPLIB_BUFSIZ" dbuf "[Eof]" "[]"] Cons.prems
    by (auto simp: FTPLIB_BUFSIZ_def)
  have "all_go c1"
    using Cons.prems(3) r(7) by (simp add: all_go_def buffer_only_def)
  then obtain c2 where p: "progress (int (length l) + 1) c1 = (c2, True)" "same_data c1 c2" "buf c2 = buf c1" "cput c2 = cput c1" "cget c2 = cget c1"
    "cavail c2 = cavail c1"
    using progress_go by blast
  have t: "take (Suc (length l)) d = l @ [10]"
    using arg_cong[OF r(2), of "take (Suc (length l))"] by simp
  have b: "buf c \<noteq> None"
    using Cons.prems(2) by (auto simp: line_buffer_def)
  have step: "download out dbuf c (map Data cs @ [Eof]) = download (out @ l @ [10]) d c2 (map Data cs' @ [Eof])"
    using r(1) p(1) b Cons.prems(1) t by (subst download.simps) (auto simp: FtpRead_def nat_add_distrib)
  have "line_buffer c2" "pending c2 = pending c1" "all_go c2" "dir c2 = FTPLIB_READ" "chunk_ok c2 = chunk_ok c"
    using p r(4,7) \<open>all_go c1\<close> Cons.prems(1) chunk_ok_same[of c2 c]
    by (auto simp: line_buffer_def pending_def all_go_def same_data_def buffer_only_def split: option.split)
  then obtain c' net where "download (out @ l @ [10]) d c2 (map Data cs' @ [Eof]) = Some ((out @ l @ [10]) @ concat (map (\<lambda>l. l @ [10]) ls), c', net)"
    "same_data c2 c'"
    using Cons.IH[of c2 cs' d "out @ l @ [10]"] r(3,5,6) Cons.prems(5,7) by auto
  then show ?case
    using step p(2) r(7) by (auto simp: same_data_def buffer_only_def)
qed

lemma to_crlf_append: "13 \<notin> set a \<Longrightarrow> lc \<noteq> 13 \<Longrightarrow> to_crlf lc (a @ b) = to_crlf 0 a @ to_crlf 0 b"
proof (induction a arbitrary: lc b)
  case Nil
  then show ?case
    by (cases b) auto
next
  case (Cons x a)
  have "to_crlf x a = to_crlf 0 a"
    using Cons.IH[of x "[]"] Cons.IH[of 0 "[]"] Cons.prems by simp
  then show ?case
    using Cons by auto
qed

lemma to_crlf_line: "13 \<notin> set l \<Longrightarrow> 10 \<notin> set l \<Longrightarrow> lc \<noteq> 13 \<Longrightarrow> to_crlf lc (l @ [10]) = l @ [13, 10]"
  by (induction l arbitrary: lc) auto

lemma to_crlf_lines: "\<forall>l\<in>set ls. 13 \<notin> set l \<and> 10 \<notin> set l \<Longrightarrow>
    to_crlf 0 (concat (map (\<lambda>l. l @ [10]) ls)) = concat (map (\<lambda>l. l @ [13, 10]) ls)"
proof (induction ls)
  case (Cons l ls)
  then show ?case
    using to_crlf_append[of "l @ [10]" 0 "concat (map (\<lambda>l. l @ [10]) ls)"] to_crlf_line[of l 0] by simp
qed simp

lemma to_crlf_concat: "13 \<notin> set (concat ps) \<Longrightarrow> concat (map (to_crlf 0) ps) = to_crlf 0 (concat ps)"
proof (induction ps)
  case (Cons p ps)
  then show ?case
    using to_crlf_append[of p 0 "concat ps"] by simp
qed simp

lemma concat_pieces: "0 < n \<Longrightarrow> concat (pieces n bs) = bs"
proof (induction n bs rule: pieces.induct)
  case (1 n bs)
  then show ?case
    by (subst pieces.simps) auto
qed

lemma upload_text:
  assumes "takes_all wr" "dir nData = FTPLIB_WRITE" "buf nData \<noteq> None" "all_go nData"
  shows "\<exists>n' sent'. upload wr ps nData sent = (True, n', sent') \<and> concat sent' = concat sent @ concat (map (to_crlf 0) ps) \<and> same_data nData n'"
  using assms
proof (induction ps arbitrary: nData sent)
  case Nil
  then show ?case
    by (simp add: same_data_def)
next
  case (Cons p ps)
  obtain s1 where w: "writeline wr p nData sent = (int (length p), s1)" "concat s1 = concat sent @ to_crlf 0 p"
    using writeline_all[OF Cons.prems(1,2)] by blast
  obtain n1 where n: "progress (int (length p)) nData = (n1, True)" "same_data nData n1" "buf n1 = buf nData"
    using progress_go[OF Cons.prems(4)] by blast
  have "FtpWrite wr p nData sent = (int (length p), n1, s1)"
    using w n Cons.prems by (simp add: FtpWrite_def)
  moreover have "dir n1 = FTPLIB_WRITE" "buf n1 \<noteq> None" "all_go n1"
    using n Cons.prems by (simp_all add: same_data_def all_go_def)
  then obtain n' sent' where "upload wr ps n1 s1 = (True, n', sent')" "concat sent' = concat s1 @ concat (map (to_crlf 0) ps)" "same_data n1 n'"
    using Cons.IH Cons.prems(1) by blast
  ultimately show ?case
    using w(2) n(2) same_data_trans by auto
qed

lemma FtpClose_reply:
  assumes "ready s (r @ ls)" "reply code r" "dir c = FTPLIB_READ \<or> dir c = FTPLIB_WRITE" "has_ctrl c"
  shows "\<exists>s'. FtpClose c s = Some (if hd code = 50 then 1 else 0, s') \<and> ready s' ls \<and> ctl_tx s' = ctl_tx s \<and> closed s' = closed s @ [handle c]"
proof -
  let ?s = "s\<lparr>closed := closed s @ [handle c]\<rparr>"
  have "ready ?s (r @ ls)"
    using assms(1) by (simp add: ready_def)
  then obtain s' where "readresp 50 ?s = Some (if hd code = 50 then 1 else 0, s')" "ready s' ls" "same_client ?s s'" "ctl_tx s' = ctl_tx ?s"
    using readresp_reply[OF _ assms(2)] by blast
  then show ?thesis
    using assms(3,4) by (intro exI[of _ s']) (auto simp: FtpClose_def same_client_def)
qed

lemma offset_same: "offset (context' s) = 0 \<Longrightarrow> s\<lparr>context' := (context' s)\<lparr>offset := 0\<rparr>\<rparr> = s"
  by (cases s; cases "context' s") simp

subsection \<open>A session\<close>

text \<open>A session to apply the properties at: the replies to \<open>TYPE\<close>, \<open>PASV\<close> and the command, and the one at the end.\<close>

definition demo_os :: os where
  "demo_os =
     \<lparr>os_wr = (\<lambda>i n. int n), os_serv = (\<lambda>_. None), os_aton = (\<lambda>_. None), os_resolve = (\<lambda>_. None), os_socket = 3, os_opts = (True, True),
      os_dial = (\<lambda>_. \<lparr>d_connect = 0, d_select = (\<lambda>_. Sel_none)\<rparr>), os_peer = None, os_data_socket = 4, os_data_opts = (True, True),
      os_data_dial = (\<lambda>_. \<lparr>d_connect = 0, d_select = (\<lambda>_. Sel_none)\<rparr>), os_junk = 0\<rparr>"

definition demo_pasv :: bytes where
  "demo_pasv = [50, 50, 55] @ 32 # [40] @ commas [10, 0, 0, 1, 4, 5] @ [41]"

definition demo_lines :: "u8 \<Rightarrow> bytes list" where
  "demo_lines c = [[50, 48, 48, 32], demo_pasv, [c, 53, 48, 32], [50, 50, 54, 32]]"

definition demo_client :: "u8 \<Rightarrow> ftp" where
  "demo_client c =
     (Client (map (\<lambda>l. Data (l @ [13, 10])) (demo_lines c)))
       \<lparr>context' := (ClearHandle (calloc_context\<lparr>buf := Some (replicate FTPLIB_BUFSIZ 0)\<rparr>))\<lparr>handle := 3\<rparr>, ip := dotted [127, 0, 0, 1]\<rparr>"

lemma demo_pasv_bytes: "demo_pasv = [50, 50, 55, 32, 40, 49, 48, 44, 48, 44, 48, 44, 49, 44, 52, 44, 53, 41]"
  by code_simp

lemma demo_ready: "c \<noteq> 0 \<Longrightarrow> c \<noteq> 10 \<Longrightarrow> ready (demo_client c) (demo_lines c)"
proof -
  assume c: "c \<noteq> 0" "c \<noteq> 10"
  have "list_all line_ok (demo_lines c)"
    using c by (auto simp: demo_lines_def demo_pasv_bytes line_ok_def)
  moreover have "list_all (chunk_ok (context' (demo_client c))) (map (\<lambda>l. l @ [13, 10]) (demo_lines c))"
    by (simp add: demo_lines_def chunk_ok_def demo_client_def Client_def ClearHandle_def calloc_context_def)
  ultimately show ?thesis
    by (auto simp: ready_def demo_client_def Client_def ClearHandle_def calloc_context_def line_buffer_def pending_def FTPLIB_BUFSIZ_def
        intro!: exI[of _ "map (\<lambda>l. l @ [13, 10]) (demo_lines c)"])
qed

lemma demo_dialogue:
  assumes "c \<noteq> 0" "c \<noteq> 10"
  shows "transfer_dialogue (demo_client c) demo_os [[50, 48, 48, 32]] [demo_pasv] [[c, 53, 48, 32]] [c, 53, 48] [[50, 50, 54, 32]]"
proof -
  have "reply [50, 48, 48] [[50, 48, 48, 32]]" "reply [50, 50, 55] [demo_pasv]" "reply [c, 53, 48] [[c, 53, 48, 32]]"
    by (auto simp: reply_def demo_pasv_def)
  moreover have "pasv_line demo_pasv 4 5"
    unfolding pasv_line_def demo_pasv_def by (intro exI[of _ "[50, 50, 55, 32]"] exI) auto
  moreover have "os_ok demo_os addr" for addr
    by (simp add: os_ok_def demo_os_def takes_all_def AsynConnect_def)
  ultimately show ?thesis
    using demo_ready[OF assms]
    by (fastforce simp: transfer_dialogue_def demo_lines_def demo_client_def ClearHandle_def Client_def calloc_context_def)
qed

subsection \<open>Properties\<close>

text \<open>C33. Fetching a file in image mode, from the first command to the last reply, however the network cuts the replies and the data: with
  replies of one or several lines (2xx to TYPE and PASV, 1xx to RETR, 2xx at the end) the local file holds exactly the bytes sent, the three
  commands went out in this order, the data socket was connected to the port of the reply at the address of the control connection, and was closed.\<close>

theorem ftp_get_file:
  assumes "transfer_dialogue s os rt rp r1 c1 (r2 @ ls)" "hd c1 = 49" "reply c2 r2" "hd c2 = 50" "length path \<le> 248"
    and "all_go (context' s)" "list_all (\<lambda>b. b \<noteq> []) ds"
  shows "\<exists>s'. Get os e (Some old) path image 0 (map Data ds @ [Eof]) wr s = Some (1, Some (concat ds), [], s') \<and>
    ready s' ls \<and> closed s' = closed s @ [os_data_socket os] \<and>
    ctl_tx s' = ctl_tx s @ [str ''TYPE I'' @ crlf, str ''PASV'' @ crlf, str ''RETR '' @ path @ crlf]"
proof -
  have type: "verb fileread = (str ''RETR'', FTPLIB_READ)"
    by simp
  obtain s1 where s1: "FtpAccess os path fileread image s = Some (1, Some (data_context (context' s1) image (os_data_socket os) FTPLIB_READ), s1)"
    "ready s1 (r2 @ ls)" "buffer_only (context' s) ((context' s1)\<lparr>response := response (context' s)\<rparr>)"
    "ctl_tx s1 = ctl_tx s @ [str ''TYPE '' @ [73] @ crlf, str ''PASV'' @ crlf, str ''RETR'' @ [32] @ path @ crlf]" "closed s1 = closed s"
    using FtpAccess_dialogue[OF assms(1) type _ assms(5), of image] assms(2) by (auto simp: str_def)
  let ?d = "data_context (context' s1) image (os_data_socket os) FTPLIB_READ"
  have cm: "cmode (context' s1) = pasv" "xfercb (context' s1) = xfercb (context' s)"
    using s1(3) assms(1) by (auto simp: buffer_only_def transfer_dialogue_def)
  have d: "dir ?d = FTPLIB_READ" "buf ?d = None" "all_go ?d" "has_ctrl ?d" "handle ?d = os_data_socket os"
    using cm assms(6) by (auto simp: data_context_def calloc_context_def all_go_def)
  obtain d' where d': "download [] (replicate FTPLIB_BUFSIZ 0) ?d (map Data ds @ [Eof]) = Some (concat ds, d', [Eof])" "same_data ?d d'"
    using download_image[OF d(1-3) assms(7), where out = "[]" and dbuf = "replicate FTPLIB_BUFSIZ 0"] by auto
  obtain s' where s': "FtpClose d' s1 = Some (1, s')" "ready s' ls" "ctl_tx s' = ctl_tx s1" "closed s' = closed s1 @ [handle d']"
    using FtpClose_reply[OF s1(2) assms(3), of d'] d d'(2) assms(4) by (auto simp: same_data_def)
  have "s\<lparr>context' := (context' s)\<lparr>offset := 0\<rparr>\<rparr> = s"
    using assms(1) by (intro offset_same) (simp add: transfer_dialogue_def)
  then have "Get os e (Some old) path image 0 (map Data ds @ [Eof]) wr s = Some (1, Some (concat ds), [], s')"
    using s1(1) d' s'(1) by (simp add: Get_def FtpXfer_def open_local_def is_write_def)
  moreover have "str ''TYPE I'' = str ''TYPE '' @ [73]" "str ''RETR '' = str ''RETR'' @ [32]"
    by (simp_all add: str_def)
  ultimately show ?thesis
    using s1(4,5) s'(2-4) d'(2) d(5) by (auto simp: same_data_def)
qed

lemma ftp_get_file_witness:
  "\<exists>s'. Get demo_os [] (Some [7]) [97] image 0 [Data [1, 2], Data [3], Eof] (\<lambda>i n. int n) (demo_client 49) = Some (1, Some [1, 2, 3], [], s')"
proof -
  have "reply [50, 50, 54] [[50, 50, 54, 32]]"
    by (auto simp: reply_def)
  moreover have "transfer_dialogue (demo_client 49) demo_os [[50, 48, 48, 32]] [demo_pasv] [[49, 53, 48, 32]] [49, 53, 48] ([[50, 50, 54, 32]] @ [])"
    using demo_dialogue[of 49] by simp
  ultimately show ?thesis
    using ftp_get_file[of "demo_client 49" demo_os "[[50, 48, 48, 32]]" "[demo_pasv]" "[[49, 53, 48, 32]]" "[49, 53, 48]" "[[50, 50, 54, 32]]" "[]" "[50, 50, 54]" "[97]" "[[1, 2], [3]]" "[]" "[7]"]
    by (auto simp: demo_client_def Client_def ClearHandle_def all_go_def)
qed

text \<open>C34. A transfer that the server refuses (no such file, no permission: anything but 1xx to its command) is reported as opened: \<open>FtpAccess\<close>
  returns 1 although there is no data connection, because \<open>FtpOpenPasv\<close> returns the length of the command and not -1. \<open>Get\<close> and \<open>Put\<close>
  then use a connection record that was never filled in.\<close>

theorem refused_transfer_undefined:
  assumes "transfer_dialogue s os rt rp r1 c1 ls" "hd c1 \<noteq> 49" "length path \<le> 248"
  shows "(\<exists>s'. FtpAccess os path (if put then filewrite else fileread) mode s = Some (1, None, s')) \<and>
    Get os e (Some content) path mode 0 data_rx wr s = None \<and> Put os e (Some content) path mode 0 data_rx wr s = None"
proof -
  have acc: "\<exists>s'. FtpAccess os path type mode s = Some (1, None, s')" if "type = filewrite \<or> type = fileread" for type
    using that FtpAccess_dialogue[OF assms(1), of type "fst (verb type)" "snd (verb type)" path mode] assms(2,3) by (auto simp: str_def)
  have "s\<lparr>context' := (context' s)\<lparr>offset := 0\<rparr>\<rparr> = s"
    using assms(1) by (intro offset_same) (simp add: transfer_dialogue_def)
  then show ?thesis
    using acc[of fileread] acc[of filewrite] by (auto simp: Get_def Put_def FtpXfer_def open_local_def)
qed

lemma refused_transfer_undefined_witness: "Get demo_os [] (Some [7]) [97] image 0 [] (\<lambda>i n. int n) (demo_client 53) = None"
  using refused_transfer_undefined[OF demo_dialogue[of 53], of "[97]"] by simp

text \<open>C35. Text mode: lines without carriage returns, each shorter than 4090 bytes, reach the server with CR LF line ends however the file falls
  into buffers, and the same bytes fetched in text mode, in any pieces, are the original text.\<close>

theorem ftp_text_roundtrip:
  assumes "\<forall>l\<in>set ls. 13 \<notin> set l \<and> 10 \<notin> set l \<and> length l < 4090"
    and "takes_all wr" "dir nData = FTPLIB_WRITE" "buf nData \<noteq> None" "all_go nData"
    and "dir c = FTPLIB_READ" "line_buffer c" "pending c = []" "all_go c" "length dbuf = FTPLIB_BUFSIZ"
  shows "\<exists>n' sent. upload wr (pieces FTPLIB_BUFSIZ (concat (map (\<lambda>l. l @ [10]) ls))) nData [] = (True, n', sent) \<and>
    concat sent = concat (map (\<lambda>l. l @ [13, 10]) ls) \<and>
    (\<forall>cs. list_all (chunk_ok c) cs \<and> concat cs = concat sent \<longrightarrow>
       (\<exists>c' net. download [] dbuf c (map Data cs @ [Eof]) = Some (concat (map (\<lambda>l. l @ [10]) ls), c', net)))"
proof -
  let ?t = "concat (map (\<lambda>l. l @ [10]) ls)"
  have p: "concat (pieces FTPLIB_BUFSIZ ?t) = ?t"
    by (rule concat_pieces) (simp add: FTPLIB_BUFSIZ_def)
  have "13 \<notin> set ?t"
    using assms(1) by auto
  then have "concat (map (to_crlf 0) (pieces FTPLIB_BUFSIZ ?t)) = concat (map (\<lambda>l. l @ [13, 10]) ls)"
    using to_crlf_concat[of "pieces FTPLIB_BUFSIZ ?t"] to_crlf_lines[of ls] assms(1) by (simp add: p)
  then obtain n' sent where u: "upload wr (pieces FTPLIB_BUFSIZ ?t) nData [] = (True, n', sent)" "concat sent = concat (map (\<lambda>l. l @ [13, 10]) ls)"
    using upload_text[OF assms(2-5), of "pieces FTPLIB_BUFSIZ ?t" "[]"] by auto
  have "\<exists>c' net. download [] dbuf c (map Data cs @ [Eof]) = Some (?t, c', net)" if "list_all (chunk_ok c) cs" "concat cs = concat sent" for cs
    using download_text[OF assms(6,7,9) that(1), of ls dbuf "[]"] assms(1,8,10) that(2) u(2) by (auto simp: list_all_iff)
  then show ?thesis
    using u by blast
qed

lemma ftp_text_roundtrip_witness:
  "\<exists>n' sent c' net. upload (\<lambda>i n. int n) (pieces FTPLIB_BUFSIZ [104, 105, 10]) (data_context (context' (demo_client 49)) ascii 4 FTPLIB_WRITE) [] = (True, n', sent) \<and>
    concat sent = [104, 105, 13, 10] \<and>
    download [] (replicate FTPLIB_BUFSIZ 0) (data_context (context' (demo_client 49)) ascii 4 FTPLIB_READ) [Data [104, 105], Data [13, 10], Eof] =
      Some ([104, 105, 10], c', net)"
proof -
  let ?w = "data_context (context' (demo_client 49)) ascii 4 FTPLIB_WRITE"
  let ?r = "data_context (context' (demo_client 49)) ascii 4 FTPLIB_READ"
  have "dir ?w = FTPLIB_WRITE" "buf ?w \<noteq> None" "all_go ?w" "dir ?r = FTPLIB_READ" "line_buffer ?r" "pending ?r = []" "all_go ?r"
    "list_all (chunk_ok ?r) [[104, 105], [13, 10]]"
    by (auto simp: data_context_def calloc_context_def all_go_def line_buffer_def pending_def FTPLIB_BUFSIZ_def chunk_ok_def
        demo_client_def Client_def ClearHandle_def)
  moreover have "takes_all (\<lambda>i n. int n)"
    by (simp add: takes_all_def)
  ultimately show ?thesis
    using ftp_text_roundtrip[of "[[104, 105]]" "\<lambda>i n. int n" ?w ?r "replicate FTPLIB_BUFSIZ 0"] by fastforce
qed

text \<open>A server that does not answer within five seconds: the command succeeds or fails by the first character of the reply before.\<close>

theorem silence_repeats_reply:
  assumes "takes_all (os_wr os)" "length cmd \<le> 253" "dir (context' s) = FTPLIB_CONTROL" "handle (context' s) \<noteq> 0" "ctl_rx s = []"
    "cavail (context' s) \<le> 0" "response (context' s) ! 3 \<noteq> 45"
  shows "\<exists>s'. FtpSendCmd os cmd expresp s = Some (if response (context' s) ! 0 = expresp then 1 else 0, s')"
  using assms by (rule FtpSendCmd_silence)

lemma silence_repeats_reply_witness:
  "\<exists>s'. FtpSendCmd demo_os (str ''NOOP'') 50 ((Client [])\<lparr>context' := (ClearHandle calloc_context)\<lparr>handle := 3, response := [50, 48, 48, 32, 10, 0]\<rparr>, ctl_rx := []\<rparr>) = Some (1, s')"
  using silence_repeats_reply[of demo_os "str ''NOOP''" "(Client [])\<lparr>context' := (ClearHandle calloc_context)\<lparr>handle := 3, response := [50, 48, 48, 32, 10, 0]\<rparr>, ctl_rx := []\<rparr>" 50]
  by (simp add: demo_os_def takes_all_def ClearHandle_def calloc_context_def str_def)

end
