(* ===== verification/Sigslot.thy ===== *)
theory Sigslot
  imports Prelude
begin

section \<open>Signals and slots (src/sigslot.hpp)\<close>

text \<open>
  Signals keep lists of connections, objects with slots keep the set of the signals that are connected to them. Both are
  named by numbers, as their addresses; a list node is named by its number in its signal, and an iterator is the
  name of a node, or \<open>None\<close> for the end. Using an object that is gone is the result \<open>None\<close>. The policy is
  \<open>single_threaded\<close>, the default, whose locks do nothing. What a slot does when it is called is a list of operations.
\<close>

record opaque_connection =
  uid :: nat
  pdest :: nat
  pmethod :: nat

record signal_base =
  m_connected_slots :: "opaque_connection list"
  m_current_iterator :: "nat option"
  next_uid :: nat

text \<open>\<open>m_senders\<close> of each object, in the order of the addresses.\<close>

record heap =
  sigs :: "nat \<Rightarrow> signal_base option"
  objs :: "nat \<Rightarrow> nat list option"

definition new_signal :: signal_base where
  "new_signal = \<lparr>m_connected_slots = [], m_current_iterator = None, next_uid = 0\<rparr>"

subsection \<open>Operations of a signal\<close>

definition is_empty :: "signal_base \<Rightarrow> bool" where
  "is_empty sb = (m_connected_slots sb = [])"

definition connected :: "nat \<Rightarrow> signal_base \<Rightarrow> bool" where
  "connected pclass sb = (\<exists>c\<in>set (m_connected_slots sb). pdest c = pclass)"

definition push_back :: "nat \<Rightarrow> nat \<Rightarrow> signal_base \<Rightarrow> signal_base" where
  "push_back d m sb =
     sb\<lparr>m_connected_slots := m_connected_slots sb @ [\<lparr>uid = next_uid sb, pdest = d, pmethod = m\<rparr>], next_uid := next_uid sb + 1\<rparr>"

text \<open>The node behind a node.\<close>

fun next_of :: "nat \<Rightarrow> opaque_connection list \<Rightarrow> nat option" where
  "next_of u (c # cs) = (if uid c = u then (case cs of [] \<Rightarrow> None | d # _ \<Rightarrow> Some (uid d)) else next_of u cs)"
| "next_of u [] = None"

text \<open>Erasing a node moves the current iterator on if it stands there.\<close>

definition erase :: "nat \<Rightarrow> signal_base \<Rightarrow> signal_base" where
  "erase u sb =
     sb\<lparr>m_connected_slots := filter (\<lambda>c. uid c \<noteq> u) (m_connected_slots sb),
        m_current_iterator := (if m_current_iterator sb = Some u then next_of u (m_connected_slots sb) else m_current_iterator sb)\<rparr>"

definition do_slot_disconnect :: "nat \<Rightarrow> signal_base \<Rightarrow> signal_base" where
  "do_slot_disconnect pslot sb = fold (\<lambda>c sb. if pdest c = pslot then erase (uid c) sb else sb) (m_connected_slots sb) sb"

text \<open>The copies are appended while the loop runs, but the loop does not copy them again: they have another target.\<close>

definition do_slot_duplicate :: "nat \<Rightarrow> nat \<Rightarrow> signal_base \<Rightarrow> signal_base" where
  "do_slot_duplicate oldtarget newtarget sb =
     fold (\<lambda>c sb. if pdest c = oldtarget then push_back newtarget (pmethod c) sb else sb) (m_connected_slots sb) sb"

subsection \<open>Operations of an object with slots\<close>

definition set_insert :: "nat \<Rightarrow> nat list \<Rightarrow> nat list" where
  "set_insert s ss = (if s \<in> set ss then ss else insort s ss)"

definition signal_connect :: "nat \<Rightarrow> nat \<Rightarrow> heap \<Rightarrow> heap option" where
  "signal_connect pdst sender h = (case objs h pdst of None \<Rightarrow> None | Some ss \<Rightarrow> Some (h\<lparr>objs := (objs h)(pdst \<mapsto> set_insert sender ss)\<rparr>))"

definition signal_disconnect :: "nat \<Rightarrow> nat \<Rightarrow> heap \<Rightarrow> heap option" where
  "signal_disconnect pdst sender h = (case objs h pdst of None \<Rightarrow> None | Some ss \<Rightarrow> Some (h\<lparr>objs := (objs h)(pdst \<mapsto> remove1 sender ss)\<rparr>))"

definition on_signal :: "nat \<Rightarrow> (signal_base \<Rightarrow> signal_base) \<Rightarrow> heap \<Rightarrow> heap option" where
  "on_signal s f h = (case sigs h s of None \<Rightarrow> None | Some sb \<Rightarrow> Some (h\<lparr>sigs := (sigs h)(s \<mapsto> f sb)\<rparr>))"

text \<open>The senders have been swapped out; no call puts one back, so the outer loop runs once.\<close>

fun leave_all :: "nat \<Rightarrow> nat list \<Rightarrow> heap \<Rightarrow> heap option" where
  "leave_all p [] h = Some h"
| "leave_all p (s # senders) h = do { h \<leftarrow> on_signal s (do_slot_disconnect p) h; leave_all p senders h }"

definition slots_disconnect_all :: "nat \<Rightarrow> heap \<Rightarrow> heap option" where
  "slots_disconnect_all p h =
     (case objs h p of None \<Rightarrow> None | Some senders \<Rightarrow> leave_all p senders (h\<lparr>objs := (objs h)(p \<mapsto> [])\<rparr>))"

definition destroy_slots :: "nat \<Rightarrow> heap \<Rightarrow> heap option" where
  "destroy_slots p h = do { h \<leftarrow> slots_disconnect_all p h; Some (h\<lparr>objs := (objs h)(p := None)\<rparr>) }"

fun duplicate_all :: "nat \<Rightarrow> nat \<Rightarrow> nat list \<Rightarrow> heap \<Rightarrow> heap option" where
  "duplicate_all old new [] h = Some h"
| "duplicate_all old new (s # senders) h = do {
     h \<leftarrow> on_signal s (do_slot_duplicate old new) h;
     h \<leftarrow> signal_connect new s h;
     duplicate_all old new senders h
   }"

text \<open>The copy constructor of an object, at the address \<open>new\<close>.\<close>

definition copy_slots :: "nat \<Rightarrow> nat \<Rightarrow> heap \<Rightarrow> heap option" where
  "copy_slots old new h =
     (case objs h old of None \<Rightarrow> None | Some senders \<Rightarrow> duplicate_all old new senders (h\<lparr>objs := (objs h)(new \<mapsto> [])\<rparr>))"

subsection \<open>Operations of a signal that reach its objects\<close>

definition connect :: "nat \<Rightarrow> nat \<Rightarrow> nat \<Rightarrow> heap \<Rightarrow> heap option" where
  "connect s pclass pmemfun h = do { h \<leftarrow> on_signal s (push_back pclass pmemfun) h; signal_connect pclass s h }"

definition disconnect :: "nat \<Rightarrow> nat \<Rightarrow> heap \<Rightarrow> heap option" where
  "disconnect s pclass h =
     (case sigs h s of
        None \<Rightarrow> None
      | Some sb \<Rightarrow>
          (case find (\<lambda>c. pdest c = pclass) (m_connected_slots sb) of
             None \<Rightarrow> Some h
           | Some c \<Rightarrow> do { h \<leftarrow> on_signal s (erase (uid c)) h; signal_disconnect pclass s h }))"

fun drop_all :: "nat \<Rightarrow> opaque_connection list \<Rightarrow> heap \<Rightarrow> heap option" where
  "drop_all s [] h = Some h"
| "drop_all s (c # cs) h = do { h \<leftarrow> signal_disconnect (pdest c) s h; drop_all s cs h }"

definition disconnect_all :: "nat \<Rightarrow> heap \<Rightarrow> heap option" where
  "disconnect_all s h =
     (case sigs h s of
        None \<Rightarrow> None
      | Some sb \<Rightarrow> do {
          h \<leftarrow> drop_all s (m_connected_slots sb) h;
          on_signal s (\<lambda>sb. sb\<lparr>m_connected_slots := [], m_current_iterator := None\<rparr>) h
        })"

definition destroy_signal :: "nat \<Rightarrow> heap \<Rightarrow> heap option" where
  "destroy_signal s h = do { h \<leftarrow> disconnect_all s h; Some (h\<lparr>sigs := (sigs h)(s := None)\<rparr>) }"

fun copy_all :: "nat \<Rightarrow> opaque_connection list \<Rightarrow> heap \<Rightarrow> heap option" where
  "copy_all s [] h = Some h"
| "copy_all s (c # cs) h = do {
     h \<leftarrow> signal_connect (pdest c) s h;
     h \<leftarrow> on_signal s (push_back (pdest c) (pmethod c)) h;
     copy_all s cs h
   }"

definition copy_signal :: "nat \<Rightarrow> nat \<Rightarrow> heap \<Rightarrow> heap option" where
  "copy_signal old new h =
     (case sigs h old of
        None \<Rightarrow> None
      | Some sb \<Rightarrow> copy_all new (m_connected_slots sb) (h\<lparr>sigs := (sigs h)(new \<mapsto> new_signal)\<rparr>))"

subsection \<open>Programs and firing\<close>

datatype op = New_signal nat | New_slots nat | Connect nat nat nat | Disconnect nat nat | Disconnect_all nat | Leave_all nat
  | Destroy_signal nat | Destroy_slots nat | Copy_signal nat nat | Copy_slots nat nat | Emit nat

text \<open>Work that is left: an operation to begin, or the loop of \<open>emit\<close> of a signal to go on with.\<close>

datatype item = Do op | Loop nat

record run =
  world :: heap
  todo :: "item list"
  calls :: "(nat \<times> nat) list"

fun perform :: "op \<Rightarrow> heap \<Rightarrow> heap option" where
  "perform (New_signal s) h = Some (h\<lparr>sigs := (sigs h)(s \<mapsto> new_signal)\<rparr>)"
| "perform (New_slots p) h = Some (h\<lparr>objs := (objs h)(p \<mapsto> [])\<rparr>)"
| "perform (Connect s p m) h = connect s p m h"
| "perform (Disconnect s p) h = disconnect s p h"
| "perform (Disconnect_all s) h = disconnect_all s h"
| "perform (Leave_all p) h = slots_disconnect_all p h"
| "perform (Destroy_signal s) h = destroy_signal s h"
| "perform (Destroy_slots p) h = destroy_slots p h"
| "perform (Copy_signal s t) h = copy_signal s t h"
| "perform (Copy_slots p q) h = copy_slots p q h"
| "perform (Emit s) h = on_signal s (\<lambda>sb. sb\<lparr>m_current_iterator := (case m_connected_slots sb of [] \<Rightarrow> None | c # _ \<Rightarrow> Some (uid c))\<rparr>) h"

text \<open>One round of the loop of \<open>emit\<close>: the iterator moves on before the slot is called.\<close>

definition emit_round :: "(nat \<Rightarrow> nat \<Rightarrow> op list) \<Rightarrow> nat \<Rightarrow> item list \<Rightarrow> run \<Rightarrow> run option" where
  "emit_round body s rest r =
     (case sigs (world r) s of
        None \<Rightarrow> None
      | Some sb \<Rightarrow>
          (case m_current_iterator sb of
             None \<Rightarrow> Some (r\<lparr>todo := rest\<rparr>)
           | Some u \<Rightarrow>
               (case find (\<lambda>c. uid c = u) (m_connected_slots sb) of
                  None \<Rightarrow> None
                | Some c \<Rightarrow>
                    if objs (world r) (pdest c) = None then None
                    else Some (r\<lparr>world := (world r)\<lparr>sigs := (sigs (world r))(s \<mapsto> sb\<lparr>m_current_iterator := next_of u (m_connected_slots sb)\<rparr>)\<rparr>,
                                 todo := map Do (body (pdest c) (pmethod c)) @ Loop s # rest,
                                 calls := calls r @ [(pdest c, pmethod c)]\<rparr>))))"

definition step :: "(nat \<Rightarrow> nat \<Rightarrow> op list) \<Rightarrow> run \<Rightarrow> run option" where
  "step body r =
     (case todo r of
        [] \<Rightarrow> Some r
      | Do x # rest \<Rightarrow>
          map_option (\<lambda>h. r\<lparr>world := h, todo := (case x of Emit s \<Rightarrow> Loop s # rest | _ \<Rightarrow> rest)\<rparr>) (perform x (world r))
      | Loop s # rest \<Rightarrow> emit_round body s rest r)"

fun steps :: "(nat \<Rightarrow> nat \<Rightarrow> op list) \<Rightarrow> nat \<Rightarrow> run \<Rightarrow> run option" where
  "steps body 0 r = Some r"
| "steps body (Suc n) r = (case step body r of None \<Rightarrow> None | Some r' \<Rightarrow> steps body n r')"

definition start :: run where
  "start = \<lparr>world = \<lparr>sigs = (\<lambda>_. None), objs = (\<lambda>_. None)\<rparr>, todo = [], calls = []\<rparr>"

subsection \<open>Lists of connections\<close>

definition dests :: "signal_base \<Rightarrow> nat list" where
  "dests sb = map pdest (m_connected_slots sb)"

text \<open>Nodes have different names, older than the next, and the iterator is at one of them or at the end.\<close>

definition node_ok :: "signal_base \<Rightarrow> bool" where
  "node_ok sb \<longleftrightarrow> distinct (map uid (m_connected_slots sb)) \<and> (\<forall>c\<in>set (m_connected_slots sb). uid c < next_uid sb) \<and>
     (\<forall>u. m_current_iterator sb = Some u \<longrightarrow> u \<in> uid ` set (m_connected_slots sb))"

lemma next_of_in: "next_of u cs = Some v \<Longrightarrow> distinct (map uid cs) \<Longrightarrow> v \<in> uid ` set cs \<and> v \<noteq> u"
  by (induction u cs rule: next_of.induct) (auto split: if_splits list.splits)

lemma erase_slots [simp]: "m_connected_slots (erase u sb) = filter (\<lambda>c. uid c \<noteq> u) (m_connected_slots sb)"
  by (simp add: erase_def)

lemma erase_node_ok:
  assumes "node_ok sb"
  shows "node_ok (erase u sb)"
proof -
  have "v \<in> uid ` set (filter (\<lambda>c. uid c \<noteq> u) (m_connected_slots sb))" if "m_current_iterator (erase u sb) = Some v" for v
  proof (cases "m_current_iterator sb = Some u")
    case True
    then have "next_of u (m_connected_slots sb) = Some v"
      using that by (simp add: erase_def)
    then show ?thesis
      using next_of_in assms by (fastforce simp: node_ok_def)
  next
    case False
    then show ?thesis
      using that assms by (auto simp: erase_def node_ok_def)
  qed
  then show ?thesis
    using assms by (auto simp: node_ok_def distinct_map_filter erase_def)
qed

lemma push_back_slots: "m_connected_slots (push_back d m sb) = m_connected_slots sb @ [\<lparr>uid = next_uid sb, pdest = d, pmethod = m\<rparr>]"
  by (simp add: push_back_def)

lemma push_back_dests [simp]: "dests (push_back d m sb) = dests sb @ [d]"
  by (simp add: push_back_def dests_def)

lemma push_back_node_ok: "node_ok sb \<Longrightarrow> node_ok (push_back d m sb)"
  by (auto simp: node_ok_def push_back_def less_Suc_eq)

lemma disconnect_fold:
  assumes "node_ok sb"
  shows "node_ok (fold (\<lambda>c sb. if pdest c = p then erase (uid c) sb else sb) cs sb) \<and>
    m_connected_slots (fold (\<lambda>c sb. if pdest c = p then erase (uid c) sb else sb) cs sb) =
      filter (\<lambda>d. \<forall>c\<in>set cs. pdest c = p \<longrightarrow> uid c \<noteq> uid d) (m_connected_slots sb)"
  using assms
proof (induction cs arbitrary: sb)
  case (Cons c cs)
  then show ?case
    using erase_node_ok[of sb "uid c"] by (auto intro!: filter_cong)
qed simp

lemma do_slot_disconnect_ok:
  assumes "node_ok sb"
  shows "node_ok (do_slot_disconnect p sb)" "dests (do_slot_disconnect p sb) = filter (\<lambda>d. d \<noteq> p) (dests sb)"
proof -
  let ?cs = "m_connected_slots sb"
  show "node_ok (do_slot_disconnect p sb)"
    unfolding do_slot_disconnect_def using disconnect_fold[OF assms] by blast
  have "(\<forall>c\<in>set ?cs. pdest c = p \<longrightarrow> uid c \<noteq> uid d) \<longleftrightarrow> pdest d \<noteq> p" if "d \<in> set ?cs" for d
  proof -
    have "c = d" if "c \<in> set ?cs" "uid c = uid d" for c
      using that \<open>d \<in> set ?cs\<close> assms by (auto simp: node_ok_def distinct_map dest: inj_onD)
    then show ?thesis
      using \<open>d \<in> set ?cs\<close> by blast
  qed
  then have "m_connected_slots (do_slot_disconnect p sb) = filter (\<lambda>d. pdest d \<noteq> p) ?cs"
    unfolding do_slot_disconnect_def using disconnect_fold[OF assms, of p ?cs] filter_cong[OF refl] by force
  then show "dests (do_slot_disconnect p sb) = filter (\<lambda>d. d \<noteq> p) (dests sb)"
    by (simp add: dests_def filter_map o_def)
qed

lemma duplicate_fold:
  assumes "node_ok sb"
  shows "node_ok (fold (\<lambda>c sb. if pdest c = old then push_back new (pmethod c) sb else sb) cs sb) \<and>
    dests (fold (\<lambda>c sb. if pdest c = old then push_back new (pmethod c) sb else sb) cs sb) =
      dests sb @ map (\<lambda>_. new) (filter (\<lambda>c. pdest c = old) cs)"
  using assms by (induction cs arbitrary: sb) (simp_all add: push_back_node_ok)

lemma do_slot_duplicate_ok:
  assumes "node_ok sb" "distinct (dests sb)"
  shows "node_ok (do_slot_duplicate old new sb)"
    "dests (do_slot_duplicate old new sb) = dests sb @ (if old \<in> set (dests sb) then [new] else [])"
proof -
  show "node_ok (do_slot_duplicate old new sb)"
    unfolding do_slot_duplicate_def using duplicate_fold[OF assms(1)] by blast
  have copies: "map (\<lambda>_. new) (filter (\<lambda>c. pdest c = old) cs) = (if old \<in> pdest ` set cs then [new] else [])" if "distinct (map pdest cs)" for cs
    using that by (induction cs) (auto simp: image_iff filter_empty_conv)
  then show "dests (do_slot_duplicate old new sb) = dests sb @ (if old \<in> set (dests sb) then [new] else [])"
    unfolding do_slot_duplicate_def using duplicate_fold[OF assms(1), of old new "m_connected_slots sb"] copies[of "m_connected_slots sb"] assms(2)
    by (simp only: dests_def set_map)
qed

subsection \<open>Loops over signals and objects\<close>

lemma leave_all_eq:
  assumes "distinct ss" "\<And>s. s \<in> set ss \<Longrightarrow> sigs h s \<noteq> None"
  shows "leave_all p ss h = Some (h\<lparr>sigs := (\<lambda>s. if s \<in> set ss then map_option (do_slot_disconnect p) (sigs h s) else sigs h s)\<rparr>)"
  using assms
proof (induction ss arbitrary: h)
  case (Cons s ss)
  then obtain sb where sb: "sigs h s = Some sb"
    by fastforce
  let ?h = "h\<lparr>sigs := (sigs h)(s \<mapsto> do_slot_disconnect p sb)\<rparr>"
  have "leave_all p ss ?h = Some (?h\<lparr>sigs := (\<lambda>s. if s \<in> set ss then map_option (do_slot_disconnect p) (sigs ?h s) else sigs ?h s)\<rparr>)"
    using Cons.prems by (intro Cons.IH) auto
  moreover have "(\<lambda>t. if t \<in> set ss then map_option (do_slot_disconnect p) (sigs ?h t) else sigs ?h t) =
      (\<lambda>t. if t \<in> set (s # ss) then map_option (do_slot_disconnect p) (sigs h t) else sigs h t)"
    using Cons.prems(1) sb by auto
  ultimately show ?case
    using sb by (simp add: on_signal_def)
qed simp

lemma drop_all_eq:
  assumes "distinct (map pdest cs)" "\<And>c. c \<in> set cs \<Longrightarrow> objs h (pdest c) \<noteq> None"
  shows "drop_all s cs h = Some (h\<lparr>objs := (\<lambda>p. if p \<in> pdest ` set cs then map_option (remove1 s) (objs h p) else objs h p)\<rparr>)"
  using assms
proof (induction cs arbitrary: h)
  case (Cons c cs)
  then obtain ss where ss: "objs h (pdest c) = Some ss"
    by fastforce
  let ?h = "h\<lparr>objs := (objs h)(pdest c \<mapsto> remove1 s ss)\<rparr>"
  have "drop_all s cs ?h = Some (?h\<lparr>objs := (\<lambda>p. if p \<in> pdest ` set cs then map_option (remove1 s) (objs ?h p) else objs ?h p)\<rparr>)"
    using Cons.prems by (intro Cons.IH) auto
  moreover have "(\<lambda>p. if p \<in> pdest ` set cs then map_option (remove1 s) (objs ?h p) else objs ?h p) =
      (\<lambda>p. if p \<in> pdest ` set (c # cs) then map_option (remove1 s) (objs h p) else objs h p)"
    using Cons.prems(1) ss by auto
  ultimately show ?case
    using ss by (simp add: signal_disconnect_def)
qed simp

lemma copy_all_eq:
  assumes "distinct (map pdest cs)" "\<And>c. c \<in> set cs \<Longrightarrow> objs h (pdest c) \<noteq> None" "sigs h s = Some sb"
  shows "copy_all s cs h = Some (h\<lparr>sigs := (sigs h)(s \<mapsto> fold (\<lambda>c. push_back (pdest c) (pmethod c)) cs sb),
    objs := (\<lambda>p. if p \<in> pdest ` set cs then map_option (set_insert s) (objs h p) else objs h p)\<rparr>)"
  using assms
proof (induction cs arbitrary: h sb)
  case Nil
  then show ?case
    by (cases h) auto
next
  case (Cons c cs)
  then obtain ss where ss: "objs h (pdest c) = Some ss"
    by fastforce
  let ?sb = "push_back (pdest c) (pmethod c) sb"
  let ?h = "h\<lparr>objs := (objs h)(pdest c \<mapsto> set_insert s ss), sigs := (sigs h)(s \<mapsto> ?sb)\<rparr>"
  have "copy_all s cs ?h = Some (?h\<lparr>sigs := (sigs ?h)(s \<mapsto> fold (\<lambda>c. push_back (pdest c) (pmethod c)) cs ?sb),
      objs := (\<lambda>p. if p \<in> pdest ` set cs then map_option (set_insert s) (objs ?h p) else objs ?h p)\<rparr>)"
    using Cons.prems by (intro Cons.IH) auto
  moreover have "(\<lambda>p. if p \<in> pdest ` set cs then map_option (set_insert s) (objs ?h p) else objs ?h p) =
      (\<lambda>p. if p \<in> pdest ` set (c # cs) then map_option (set_insert s) (objs h p) else objs h p)"
    using Cons.prems(1) ss by auto
  ultimately show ?case
    using ss Cons.prems(3) by (auto simp: signal_connect_def on_signal_def fun_upd_def cong: if_cong)
qed

lemma duplicate_all_eq:
  assumes "distinct ss" "\<And>s. s \<in> set ss \<Longrightarrow> sigs h s \<noteq> None" "objs h new = Some l"
  shows "duplicate_all old new ss h = Some (h\<lparr>sigs := (\<lambda>s. if s \<in> set ss then map_option (do_slot_duplicate old new) (sigs h s) else sigs h s),
    objs := (objs h)(new \<mapsto> fold set_insert ss l)\<rparr>)"
  using assms
proof (induction ss arbitrary: h l)
  case Nil
  then show ?case
    by (cases h) auto
next
  case (Cons s ss)
  then obtain sb where sb: "sigs h s = Some sb"
    by fastforce
  let ?h = "h\<lparr>sigs := (sigs h)(s \<mapsto> do_slot_duplicate old new sb), objs := (objs h)(new \<mapsto> set_insert s l)\<rparr>"
  have "duplicate_all old new ss ?h = Some (?h\<lparr>sigs := (\<lambda>s. if s \<in> set ss then map_option (do_slot_duplicate old new) (sigs ?h s) else sigs ?h s),
      objs := (objs ?h)(new \<mapsto> fold set_insert ss (set_insert s l))\<rparr>)"
    using Cons.prems by (intro Cons.IH) auto
  moreover have "(\<lambda>t. if t \<in> set ss then map_option (do_slot_duplicate old new) (sigs ?h t) else sigs ?h t) =
      (\<lambda>t. if t \<in> set (s # ss) then map_option (do_slot_duplicate old new) (sigs h t) else sigs h t)"
    using Cons.prems(1) sb by auto
  ultimately show ?case
    using sb Cons.prems(3) by (auto simp: on_signal_def signal_connect_def fun_upd_def cong: if_cong)
qed

subsection \<open>Both sides agree\<close>

definition linked :: "heap \<Rightarrow> nat \<Rightarrow> nat \<Rightarrow> bool" where
  "linked h s p \<longleftrightarrow> (\<exists>sb. sigs h s = Some sb \<and> p \<in> set (dests sb))"

definition knows :: "heap \<Rightarrow> nat \<Rightarrow> nat \<Rightarrow> bool" where
  "knows h p s \<longleftrightarrow> (\<exists>ss. objs h p = Some ss \<and> s \<in> set ss)"

text \<open>
  A signal has a connection to an object exactly when the object has the signal among its senders, so neither outlives what the other
  refers to; no object is connected twice to one signal.
\<close>

definition consistent :: "heap \<Rightarrow> bool" where
  "consistent h \<longleftrightarrow> (\<forall>s p. linked h s p \<longleftrightarrow> knows h p s) \<and>
     (\<forall>s sb. sigs h s = Some sb \<longrightarrow> node_ok sb \<and> distinct (dests sb)) \<and> (\<forall>p ss. objs h p = Some ss \<longrightarrow> distinct ss)"

lemma consistentI:
  assumes "\<And>s p. linked h s p \<longleftrightarrow> knows h p s" "\<And>s sb. sigs h s = Some sb \<Longrightarrow> node_ok sb \<and> distinct (dests sb)"
    "\<And>p ss. objs h p = Some ss \<Longrightarrow> distinct ss"
  shows "consistent h"
  using assms by (auto simp: consistent_def)

lemma consistentD:
  assumes "consistent h"
  shows "linked h s p \<longleftrightarrow> knows h p s" "sigs h s = Some sb \<Longrightarrow> node_ok sb" "sigs h s = Some sb \<Longrightarrow> distinct (dests sb)"
    "objs h p = Some ss \<Longrightarrow> distinct ss"
  using assms by (auto simp: consistent_def)

lemma set_set_insert [simp]: "set (set_insert s ss) = insert s (set ss)"
  by (auto simp: set_insert_def set_insort_key)

lemma distinct_set_insert [simp]: "distinct ss \<Longrightarrow> distinct (set_insert s ss)"
  by (simp add: set_insert_def distinct_insort)

lemma set_fold_insert: "set (fold set_insert ss l) = set ss \<union> set l"
  by (induction ss arbitrary: l) auto

lemma distinct_fold_insert: "distinct l \<Longrightarrow> distinct (fold set_insert ss l)"
  by (induction ss arbitrary: l) auto

lemma dest_alive: "consistent h \<Longrightarrow> sigs h s = Some sb \<Longrightarrow> p \<in> set (dests sb) \<Longrightarrow> \<exists>ss. objs h p = Some ss \<and> s \<in> set ss"
  using consistentD(1)[of h s p] by (auto simp: linked_def knows_def)

lemma sender_alive: "consistent h \<Longrightarrow> objs h p = Some ss \<Longrightarrow> s \<in> set ss \<Longrightarrow> \<exists>sb. sigs h s = Some sb \<and> p \<in> set (dests sb)"
  using consistentD(1)[of h s p] by (auto simp: linked_def knows_def)

lemma dests_alive: "consistent h \<Longrightarrow> sigs h s = Some sb \<Longrightarrow> c \<in> set (m_connected_slots sb) \<Longrightarrow> objs h (pdest c) \<noteq> None"
  using dest_alive[of h s sb "pdest c"] by (auto simp: dests_def)

lemma senders_alive: "consistent h \<Longrightarrow> objs h p = Some ss \<Longrightarrow> s \<in> set ss \<Longrightarrow> sigs h s \<noteq> None"
  using sender_alive by fastforce

lemma connect_consistent:
  assumes "consistent h" "sigs h s = Some sb" "objs h p = Some ss" "p \<notin> set (dests sb)"
  shows "\<exists>h'. connect s p m h = Some h' \<and> consistent h' \<and> dom (sigs h') = dom (sigs h)"
proof -
  let ?h = "h\<lparr>sigs := (sigs h)(s \<mapsto> push_back p m sb), objs := (objs h)(p \<mapsto> set_insert s ss)\<rparr>"
  have "connect s p m h = Some ?h"
    using assms by (simp add: connect_def on_signal_def signal_connect_def)
  moreover have "consistent ?h"
  proof (rule consistentI)
    fix t q
    show "linked ?h t q \<longleftrightarrow> knows ?h q t"
      using consistentD(1)[OF assms(1), of t q] assms(2,3) by (auto simp: linked_def knows_def)
  next
    fix t sc
    assume "sigs ?h t = Some sc"
    then show "node_ok sc \<and> distinct (dests sc)"
      using consistentD(2,3)[OF assms(1)] assms(2,4) push_back_node_ok by (auto split: if_splits)
  next
    fix q l
    assume "objs ?h q = Some l"
    then show "distinct l"
      using consistentD(4)[OF assms(1)] assms(3) by (auto split: if_splits)
  qed
  ultimately show ?thesis
    using assms(2) by auto
qed

lemma find_dest:
  assumes "distinct (map pdest cs)" "p \<in> pdest ` set cs"
  shows "\<exists>c\<in>set cs. find (\<lambda>c. pdest c = p) cs = Some c \<and> pdest c = p"
  using assms by (induction cs) auto

lemma disconnect_consistent:
  assumes "consistent h" "sigs h s = Some sb"
  shows "\<exists>h'. disconnect s p h = Some h' \<and> consistent h' \<and> dom (sigs h') = dom (sigs h)"
proof (cases "p \<in> set (dests sb)")
  case False
  then have "find (\<lambda>c. pdest c = p) (m_connected_slots sb) = None"
    by (auto simp: find_None_iff dests_def)
  then show ?thesis
    using assms by (simp add: disconnect_def)
next
  case True
  have ok: "node_ok sb" "distinct (dests sb)"
    using consistentD(2,3)[OF assms] by auto
  obtain c where c: "c \<in> set (m_connected_slots sb)" "find (\<lambda>c. pdest c = p) (m_connected_slots sb) = Some c" "pdest c = p"
    using find_dest[of "m_connected_slots sb" p] True ok(2) by (auto simp: dests_def)
  obtain ss where ss: "objs h p = Some ss" "s \<in> set ss"
    using dest_alive[OF assms True] by blast
  have "uid d = uid c \<longleftrightarrow> pdest d = p" if "d \<in> set (m_connected_slots sb)" for d
    using that c ok by (auto simp: node_ok_def dests_def distinct_map dest: inj_onD)
  then have d: "dests (erase (uid c) sb) = filter (\<lambda>q. q \<noteq> p) (dests sb)"
    by (auto simp: dests_def filter_map o_def intro!: arg_cong[where f = "map pdest"] filter_cong)
  let ?h = "h\<lparr>sigs := (sigs h)(s \<mapsto> erase (uid c) sb), objs := (objs h)(p \<mapsto> remove1 s ss)\<rparr>"
  have "disconnect s p h = Some ?h"
    using c assms(2) ss by (simp add: disconnect_def on_signal_def signal_disconnect_def)
  moreover have "consistent ?h"
  proof (rule consistentI)
    fix t q
    show "linked ?h t q \<longleftrightarrow> knows ?h q t"
      using consistentD(1)[OF assms(1), of t q] consistentD(4)[OF assms(1) ss(1)] assms(2) ss by (auto simp: linked_def knows_def d)
  next
    fix t sc
    assume "sigs ?h t = Some sc"
    then show "node_ok sc \<and> distinct (dests sc)"
      using consistentD(2,3)[OF assms(1)] ok erase_node_ok by (auto simp: d split: if_splits)
  next
    fix q l
    assume "objs ?h q = Some l"
    then show "distinct l"
      using consistentD(4)[OF assms(1)] ss(1) by (auto split: if_splits)
  qed
  ultimately show ?thesis
    using assms(2) by auto
qed

lemma disconnect_all_consistent:
  assumes "consistent h" "sigs h s = Some sb"
  shows "\<exists>h'. disconnect_all s h = Some h' \<and> consistent h' \<and> dom (sigs h') = dom (sigs h) \<and> (\<forall>p. \<not> linked h' s p)"
proof -
  let ?objs = "\<lambda>p. if p \<in> set (dests sb) then map_option (remove1 s) (objs h p) else objs h p"
  let ?sb = "sb\<lparr>m_connected_slots := [], m_current_iterator := None\<rparr>"
  let ?h = "h\<lparr>objs := ?objs, sigs := (sigs h)(s \<mapsto> ?sb)\<rparr>"
  have "drop_all s (m_connected_slots sb) h = Some (h\<lparr>objs := ?objs\<rparr>)"
    using drop_all_eq[of "m_connected_slots sb" h s] consistentD(3)[OF assms] dest_alive[OF assms] by (force simp: dests_def)
  then have "disconnect_all s h = Some ?h"
    using assms(2) by (simp add: disconnect_all_def on_signal_def)
  moreover have "consistent ?h"
  proof (rule consistentI)
    fix t q
    show "linked ?h t q \<longleftrightarrow> knows ?h q t"
      using consistentD(1)[OF assms(1), of t q] consistentD(4)[OF assms(1), of q] assms(2)
      by (cases "objs h q") (auto simp: linked_def knows_def dests_def)
  next
    fix t sc
    assume "sigs ?h t = Some sc"
    then show "node_ok sc \<and> distinct (dests sc)"
      using consistentD(2,3)[OF assms(1)] by (auto simp: node_ok_def dests_def split: if_splits)
  next
    fix q l
    assume "objs ?h q = Some l"
    then show "distinct l"
      using consistentD(4)[OF assms(1)] by (auto split: if_splits)
  qed
  moreover have "\<not> linked ?h s p" for p
    by (simp add: linked_def dests_def)
  ultimately show ?thesis
    using assms(2) by auto
qed

lemma destroy_signal_consistent:
  assumes "consistent h" "sigs h s = Some sb"
  shows "\<exists>h'. destroy_signal s h = Some h' \<and> consistent h' \<and> dom (sigs h') = dom (sigs h) - {s}"
proof -
  obtain h1 where h1: "disconnect_all s h = Some h1" "consistent h1" "dom (sigs h1) = dom (sigs h)" "\<forall>p. \<not> linked h1 s p"
    using disconnect_all_consistent[OF assms] by blast
  let ?h = "h1\<lparr>sigs := (sigs h1)(s := None)\<rparr>"
  have "linked ?h t q \<longleftrightarrow> linked h1 t q" "knows ?h q t \<longleftrightarrow> knows h1 q t" for t q
    using h1(4) by (auto simp: linked_def knows_def)
  then have "consistent ?h"
    using h1(2) by (auto simp: consistent_def split: if_splits)
  then show ?thesis
    using h1(1,3) by (auto simp: destroy_signal_def)
qed

lemma slots_disconnect_all_consistent:
  assumes "consistent h" "objs h p = Some ss"
  shows "\<exists>h'. slots_disconnect_all p h = Some h' \<and> consistent h' \<and> dom (sigs h') = dom (sigs h) \<and> objs h' p = Some []"
proof -
  let ?sigs = "\<lambda>s. if s \<in> set ss then map_option (do_slot_disconnect p) (sigs h s) else sigs h s"
  let ?h = "h\<lparr>objs := (objs h)(p \<mapsto> []), sigs := ?sigs\<rparr>"
  have "slots_disconnect_all p h = Some ?h"
    using leave_all_eq[of ss "h\<lparr>objs := (objs h)(p \<mapsto> [])\<rparr>" p] consistentD(4)[OF assms] senders_alive[OF assms] assms(2)
    by (simp add: slots_disconnect_all_def cong: if_cong)
  moreover have "consistent ?h"
  proof (rule consistentI)
    fix t q
    have d: "dests (do_slot_disconnect p sb) = filter (\<lambda>q. q \<noteq> p) (dests sb)" if "sigs h t = Some sb" for sb
      using do_slot_disconnect_ok(2) consistentD(2)[OF assms(1) that] by blast
    show "linked ?h t q \<longleftrightarrow> knows ?h q t"
      using consistentD(1)[OF assms(1), of t q] sender_alive[OF assms] assms(2) d
      by (cases "sigs h t") (auto simp: linked_def knows_def)
  next
    fix t sc
    assume "sigs ?h t = Some sc"
    then show "node_ok sc \<and> distinct (dests sc)"
      using consistentD(2,3)[OF assms(1)] do_slot_disconnect_ok by (auto split: if_splits)
  next
    fix q l
    assume "objs ?h q = Some l"
    then show "distinct l"
      using consistentD(4)[OF assms(1)] by (auto split: if_splits)
  qed
  moreover have "dom ?sigs = dom (sigs h)"
    by (auto simp: dom_def)
  ultimately show ?thesis
    by auto
qed

lemma destroy_slots_consistent:
  assumes "consistent h" "objs h p = Some ss"
  shows "\<exists>h'. destroy_slots p h = Some h' \<and> consistent h' \<and> dom (sigs h') = dom (sigs h)"
proof -
  obtain h1 where h1: "slots_disconnect_all p h = Some h1" "consistent h1" "dom (sigs h1) = dom (sigs h)" "objs h1 p = Some []"
    using slots_disconnect_all_consistent[OF assms] by blast
  let ?h = "h1\<lparr>objs := (objs h1)(p := None)\<rparr>"
  have "linked ?h t q \<longleftrightarrow> linked h1 t q" "knows ?h q t \<longleftrightarrow> knows h1 q t" for t q
    using h1(4) by (auto simp: linked_def knows_def)
  then have "consistent ?h"
    using h1(2) by (auto simp: consistent_def split: if_splits)
  then show ?thesis
    using h1(1,3) by (auto simp: destroy_slots_def)
qed

lemma copy_slots_consistent:
  assumes "consistent h" "objs h p = Some ss" "objs h q = None"
  shows "\<exists>h'. copy_slots p q h = Some h' \<and> consistent h' \<and> dom (sigs h') = dom (sigs h)"
proof -
  let ?sigs = "\<lambda>s. if s \<in> set ss then map_option (do_slot_duplicate p q) (sigs h s) else sigs h s"
  let ?h = "h\<lparr>sigs := ?sigs, objs := (objs h)(q \<mapsto> fold set_insert ss [])\<rparr>"
  have "copy_slots p q h = Some ?h"
    using duplicate_all_eq[of ss "h\<lparr>objs := (objs h)(q \<mapsto> [])\<rparr>" q "[]" p] consistentD(4)[OF assms(1,2)] senders_alive[OF assms(1,2)] assms(2)
    by (simp add: copy_slots_def cong: if_cong)
  moreover have "consistent ?h"
  proof (rule consistentI)
    fix t r
    have d: "dests (do_slot_duplicate p q sb) = dests sb @ (if p \<in> set (dests sb) then [q] else [])" if "sigs h t = Some sb" for sb
      using do_slot_duplicate_ok(2) consistentD(2,3)[OF assms(1) that] by blast
    show "linked ?h t r \<longleftrightarrow> knows ?h r t"
      using consistentD(1)[OF assms(1), of t r] consistentD(1)[OF assms(1), of t p] sender_alive[OF assms(1,2)] assms(2,3) d
      by (cases "sigs h t") (auto simp: linked_def knows_def set_fold_insert)
  next
    fix t sc
    assume sc: "sigs ?h t = Some sc"
    have "q \<notin> set (dests sb)" if "sigs h t = Some sb" for sb
      using dest_alive[OF assms(1) that] assms(3) by force
    then show "node_ok sc \<and> distinct (dests sc)"
      using sc consistentD(2,3)[OF assms(1)] do_slot_duplicate_ok by (auto split: if_splits)
  next
    fix r l
    assume "objs ?h r = Some l"
    then show "distinct l"
      using consistentD(4)[OF assms(1)] distinct_fold_insert[of "[]" ss] by (auto split: if_splits)
  qed
  moreover have "dom ?sigs = dom (sigs h)"
    by (auto simp: dom_def)
  ultimately show ?thesis
    by auto
qed

lemma push_all:
  assumes "node_ok sb"
  shows "node_ok (fold (\<lambda>c. push_back (pdest c) (pmethod c)) cs sb)"
    "dests (fold (\<lambda>c. push_back (pdest c) (pmethod c)) cs sb) = dests sb @ map pdest cs"
  using assms by (induction cs arbitrary: sb) (simp_all add: push_back_node_ok)

lemma new_signal_ok: "node_ok new_signal" "dests new_signal = []"
  by (simp_all add: node_ok_def new_signal_def dests_def)

lemma copy_signal_consistent:
  assumes "consistent h" "sigs h s = Some sb" "sigs h t = None"
  shows "\<exists>h'. copy_signal s t h = Some h' \<and> consistent h' \<and> dom (sigs h') = insert t (dom (sigs h))"
proof -
  let ?cs = "m_connected_slots sb"
  let ?sb = "fold (\<lambda>c. push_back (pdest c) (pmethod c)) ?cs new_signal"
  let ?objs = "\<lambda>p. if p \<in> set (dests sb) then map_option (set_insert t) (objs h p) else objs h p"
  let ?h = "h\<lparr>sigs := (sigs h)(t \<mapsto> ?sb), objs := ?objs\<rparr>"
  have sb: "node_ok ?sb" "dests ?sb = dests sb"
    using push_all[OF new_signal_ok(1), of ?cs] new_signal_ok(2) by (simp_all add: dests_def)
  have "copy_signal s t h = Some ?h"
    using copy_all_eq[of ?cs "h\<lparr>sigs := (sigs h)(t \<mapsto> new_signal)\<rparr>" t new_signal] consistentD(3)[OF assms(1,2)] dests_alive[OF assms(1,2)] assms(2)
    by (simp add: copy_signal_def dests_def cong: if_cong)
  moreover have "consistent ?h"
  proof (rule consistentI)
    fix u p
    have "\<not> linked h t p"
      using assms(3) by (simp add: linked_def)
    then show "linked ?h u p \<longleftrightarrow> knows ?h p u"
      using consistentD(1)[OF assms(1), of u p] consistentD(1)[OF assms(1), of t p] dest_alive[OF assms(1,2), of p]
      by (cases "objs h p") (auto simp: linked_def knows_def sb(2))
  next
    fix u sc
    assume "sigs ?h u = Some sc"
    then show "node_ok sc \<and> distinct (dests sc)"
      using consistentD(2,3)[OF assms(1)] sb assms(2) by (auto split: if_splits)
  next
    fix p l
    assume "objs ?h p = Some l"
    then show "distinct l"
      using consistentD(4)[OF assms(1)] by (auto split: if_splits)
  qed
  ultimately show ?thesis
    by auto
qed

subsection \<open>Runs of a program\<close>

text \<open>
  What a program must keep to: it uses only what exists, makes new things at free addresses, connects an object to a signal once, and does
  not destroy a signal that is firing.
\<close>

fun legal_op :: "op \<Rightarrow> item list \<Rightarrow> heap \<Rightarrow> bool" where
  "legal_op (New_signal s) rest h = (sigs h s = None)"
| "legal_op (New_slots p) rest h = (objs h p = None)"
| "legal_op (Connect s p m) rest h = (sigs h s \<noteq> None \<and> objs h p \<noteq> None \<and> \<not> linked h s p)"
| "legal_op (Disconnect s p) rest h = (sigs h s \<noteq> None)"
| "legal_op (Disconnect_all s) rest h = (sigs h s \<noteq> None)"
| "legal_op (Leave_all p) rest h = (objs h p \<noteq> None)"
| "legal_op (Destroy_signal s) rest h = (sigs h s \<noteq> None \<and> Loop s \<notin> set rest)"
| "legal_op (Destroy_slots p) rest h = (objs h p \<noteq> None)"
| "legal_op (Copy_signal s t) rest h = (sigs h s \<noteq> None \<and> sigs h t = None)"
| "legal_op (Copy_slots p q) rest h = (objs h p \<noteq> None \<and> objs h q = None)"
| "legal_op (Emit s) rest h = (sigs h s \<noteq> None)"

definition legal :: "run \<Rightarrow> bool" where
  "legal r = (case todo r of Do x # rest \<Rightarrow> legal_op x rest (world r) | _ \<Rightarrow> True)"

inductive reachable :: "(nat \<Rightarrow> nat \<Rightarrow> op list) \<Rightarrow> run \<Rightarrow> bool" for body where
  start: "reachable body start"
| call: "reachable body r \<Longrightarrow> todo r = [] \<Longrightarrow> reachable body (r\<lparr>todo := [Do x]\<rparr>)"
| step: "reachable body r \<Longrightarrow> legal r \<Longrightarrow> step body r = Some r' \<Longrightarrow> reachable body r'"

text \<open>The loops that are left to go on with belong to signals that exist.\<close>

definition run_ok :: "run \<Rightarrow> bool" where
  "run_ok r \<longleftrightarrow> consistent (world r) \<and> (\<forall>s. Loop s \<in> set (todo r) \<longrightarrow> s \<in> dom (sigs (world r)))"

lemma same_dests:
  assumes "consistent h" "sigs h s = Some sb" "node_ok sb'" "dests sb' = dests sb"
  shows "consistent (h\<lparr>sigs := (sigs h)(s \<mapsto> sb')\<rparr>)"
proof (rule consistentI)
  fix t p
  show "linked (h\<lparr>sigs := (sigs h)(s \<mapsto> sb')\<rparr>) t p \<longleftrightarrow> knows (h\<lparr>sigs := (sigs h)(s \<mapsto> sb')\<rparr>) p t"
    using consistentD(1)[OF assms(1), of t p] assms(2,4) by (auto simp: linked_def knows_def)
qed (use consistentD(2-4)[OF assms(1)] assms(2-4) in \<open>auto split: if_splits\<close>)

lemma perform_consistent:
  assumes "consistent h" "legal_op x rest h"
  shows "\<exists>h'. perform x h = Some h' \<and> consistent h' \<and> (\<forall>s. s \<in> dom (sigs h) \<longrightarrow> s \<in> dom (sigs h') \<or> x = Destroy_signal s) \<and>
    (\<forall>s. x = Emit s \<longrightarrow> s \<in> dom (sigs h'))"
proof (cases x)
  case (New_signal s)
  have "consistent (h\<lparr>sigs := (sigs h)(s \<mapsto> new_signal)\<rparr>)"
  proof (rule consistentI)
    fix t p
    show "linked (h\<lparr>sigs := (sigs h)(s \<mapsto> new_signal)\<rparr>) t p \<longleftrightarrow> knows (h\<lparr>sigs := (sigs h)(s \<mapsto> new_signal)\<rparr>) p t"
      using consistentD(1)[OF assms(1), of t p] assms(2) New_signal by (auto simp: linked_def knows_def new_signal_ok)
  qed (use consistentD(2-4)[OF assms(1)] new_signal_ok in \<open>auto split: if_splits\<close>)
  then show ?thesis
    using New_signal by auto
next
  case (New_slots p)
  have "consistent (h\<lparr>objs := (objs h)(p \<mapsto> [])\<rparr>)"
  proof (rule consistentI)
    fix t q
    show "linked (h\<lparr>objs := (objs h)(p \<mapsto> [])\<rparr>) t q \<longleftrightarrow> knows (h\<lparr>objs := (objs h)(p \<mapsto> [])\<rparr>) q t"
      using consistentD(1)[OF assms(1), of t q] assms(2) New_slots by (auto simp: linked_def knows_def)
  qed (use consistentD(2-4)[OF assms(1)] in \<open>auto split: if_splits\<close>)
  then show ?thesis
    using New_slots by auto
next
  case (Connect s p m)
  then obtain sb ss where "sigs h s = Some sb" "objs h p = Some ss" "p \<notin> set (dests sb)"
    using assms(2) by (auto simp: linked_def)
  then show ?thesis
    using connect_consistent[OF assms(1), of s sb p ss m] Connect by auto
next
  case (Disconnect s p)
  then show ?thesis
    using disconnect_consistent[OF assms(1), of s _ p] assms(2) by auto
next
  case (Disconnect_all s)
  then show ?thesis
    using disconnect_all_consistent[OF assms(1), of s] assms(2) by fastforce
next
  case (Leave_all p)
  then show ?thesis
    using slots_disconnect_all_consistent[OF assms(1), of p] assms(2) by fastforce
next
  case (Destroy_signal s)
  then show ?thesis
    using destroy_signal_consistent[OF assms(1), of s] assms(2) by fastforce
next
  case (Destroy_slots p)
  then show ?thesis
    using destroy_slots_consistent[OF assms(1), of p] assms(2) by fastforce
next
  case (Copy_signal s t)
  then show ?thesis
    using copy_signal_consistent[OF assms(1), of s _ t] assms(2) by fastforce
next
  case (Copy_slots p q)
  then show ?thesis
    using copy_slots_consistent[OF assms(1), of p _ q] assms(2) by fastforce
next
  case (Emit s)
  then obtain sb where sb: "sigs h s = Some sb"
    using assms(2) by auto
  let ?sb = "sb\<lparr>m_current_iterator := (case m_connected_slots sb of [] \<Rightarrow> None | c # _ \<Rightarrow> Some (uid c))\<rparr>"
  have "node_ok ?sb" "dests ?sb = dests sb"
    using consistentD(2)[OF assms(1) sb] by (auto simp: node_ok_def dests_def split: list.splits)
  then have "consistent (h\<lparr>sigs := (sigs h)(s \<mapsto> ?sb)\<rparr>)"
    using same_dests[OF assms(1) sb] by blast
  then show ?thesis
    using Emit sb by (auto simp: on_signal_def)
qed

lemma emit_round_ok:
  assumes "run_ok r" "todo r = Loop s # rest"
  shows "\<exists>r'. emit_round body s rest r = Some r' \<and> run_ok r'"
proof -
  obtain sb where sb: "sigs (world r) s = Some sb"
    using assms by (auto simp: run_ok_def)
  have con: "consistent (world r)"
    using assms(1) by (simp add: run_ok_def)
  have ok: "node_ok sb" "distinct (dests sb)"
    using consistentD(2,3)[OF con sb] by auto
  show ?thesis
  proof (cases "m_current_iterator sb")
    case None
    then show ?thesis
      using sb assms by (auto simp: emit_round_def run_ok_def)
  next
    case (Some u)
    then have "u \<in> uid ` set (m_connected_slots sb)"
      using ok(1) by (simp add: node_ok_def)
    then obtain c where c: "find (\<lambda>c. uid c = u) (m_connected_slots sb) = Some c" "c \<in> set (m_connected_slots sb)"
      by (cases "find (\<lambda>c. uid c = u) (m_connected_slots sb)") (auto simp: find_None_iff find_Some_iff)
    let ?sb = "sb\<lparr>m_current_iterator := next_of u (m_connected_slots sb)\<rparr>"
    have "node_ok ?sb" "dests ?sb = dests sb"
      using ok(1) next_of_in[of u "m_connected_slots sb"] by (auto simp: node_ok_def dests_def)
    then have "consistent ((world r)\<lparr>sigs := (sigs (world r))(s \<mapsto> ?sb)\<rparr>)"
      using same_dests[OF con sb] by blast
    then show ?thesis
      using Some c sb assms dests_alive[OF con sb c(2)] by (auto simp: emit_round_def run_ok_def)
  qed
qed

lemma step_ok:
  assumes "run_ok r" "legal r"
  shows "\<exists>r'. step body r = Some r' \<and> run_ok r'"
proof (cases "todo r")
  case Nil
  then show ?thesis
    using assms(1) by (simp add: step_def)
next
  case (Cons i rest)
  show ?thesis
  proof (cases i)
    case (Loop s)
    then show ?thesis
      using emit_round_ok[OF assms(1), of s rest body] Cons by (simp add: step_def)
  next
    case (Do x)
    then obtain h where h: "perform x (world r) = Some h" "consistent h"
      "\<forall>s. s \<in> dom (sigs (world r)) \<longrightarrow> s \<in> dom (sigs h) \<or> x = Destroy_signal s" "\<forall>s. x = Emit s \<longrightarrow> s \<in> dom (sigs h)"
      using perform_consistent[of "world r" x rest] assms Cons by (auto simp: run_ok_def legal_def)
    have "Loop s \<notin> set rest" if "x = Destroy_signal s" for s
      using assms(2) that Cons Do by (simp add: legal_def)
    then have keep: "s \<in> dom (sigs h)" if "Loop s \<in> set rest" for s
      using that h(3) assms(1) Cons by (metis run_ok_def list.set_intros(2))
    have "run_ok (r\<lparr>world := h, todo := (case x of Emit s \<Rightarrow> Loop s # rest | _ \<Rightarrow> rest)\<rparr>)"
      using h(2,4) keep by (auto simp: run_ok_def split: op.split)
    then show ?thesis
      using h(1) Cons Do by (simp add: step_def)
  qed
qed

lemma reachable_run_ok: "reachable body r \<Longrightarrow> run_ok r"
proof (induction rule: reachable.induct)
  case start
  then show ?case
    by (simp add: run_ok_def consistent_def start_def linked_def knows_def)
next
  case (call r x)
  then show ?case
    by (auto simp: run_ok_def)
next
  case (step r r')
  then show ?case
    using step_ok by (metis option.inject)
qed

subsection \<open>Firing\<close>

definition front :: "opaque_connection list \<Rightarrow> nat option" where
  "front cs = (case cs of [] \<Rightarrow> None | c # _ \<Rightarrow> Some (uid c))"

lemma next_of_split: "distinct (map uid (pre @ c # post)) \<Longrightarrow> next_of (uid c) (pre @ c # post) = front post"
  by (induction pre) (auto simp: front_def split: list.split)

lemma find_split: "distinct (map uid (pre @ c # post)) \<Longrightarrow> find (\<lambda>d. uid d = uid c) (pre @ c # post) = Some c"
  by (induction pre) auto

text \<open>Slots that do nothing to the program's signals are called once each, in the order of their connection.\<close>

lemma loop_calls:
  assumes "sigs (world r) s = Some sb" "m_connected_slots sb = pre @ post" "m_current_iterator sb = front post" "todo r = Loop s # rest"
    and "distinct (map uid (pre @ post))" "\<forall>c\<in>set post. objs (world r) (pdest c) \<noteq> None" "\<And>p m. body p m = []"
  shows "\<exists>r'. steps body (length post + 1) r = Some r' \<and> todo r' = rest \<and> calls r' = calls r @ map (\<lambda>c. (pdest c, pmethod c)) post"
  using assms(1-6)
proof (induction post arbitrary: r sb pre)
  case Nil
  then show ?case
    by (simp add: step_def emit_round_def front_def)
next
  case (Cons c post)
  let ?sb = "sb\<lparr>m_current_iterator := front post\<rparr>"
  let ?r = "r\<lparr>world := (world r)\<lparr>sigs := (sigs (world r))(s \<mapsto> ?sb)\<rparr>, todo := Loop s # rest, calls := calls r @ [(pdest c, pmethod c)]\<rparr>"
  have "step body r = Some ?r"
    using Cons.prems assms(7) next_of_split[OF Cons.prems(5)] find_split[OF Cons.prems(5)]
    by (simp add: step_def emit_round_def front_def[of "c # post"])
  moreover have "\<exists>r'. steps body (length post + 1) ?r = Some r' \<and> todo r' = rest \<and> calls r' = calls ?r @ map (\<lambda>c. (pdest c, pmethod c)) post"
    using Cons.prems by (intro Cons.IH[of _ ?sb "pre @ [c]"]) auto
  ultimately show ?case
    by auto
qed

lemma emit_calls_in_order:
  assumes "consistent (world r)" "sigs (world r) s = Some sb" "todo r = Do (Emit s) # rest" "\<And>p m. body p m = []"
  shows "\<exists>n r'. steps body n r = Some r' \<and> todo r' = rest \<and> calls r' = calls r @ map (\<lambda>c. (pdest c, pmethod c)) (m_connected_slots sb)"
proof -
  let ?sb = "sb\<lparr>m_current_iterator := front (m_connected_slots sb)\<rparr>"
  let ?r = "r\<lparr>world := (world r)\<lparr>sigs := (sigs (world r))(s \<mapsto> ?sb)\<rparr>, todo := Loop s # rest\<rparr>"
  have "step body r = Some ?r"
    using assms(2,3) by (simp add: step_def on_signal_def front_def)
  moreover obtain r' where "steps body (length (m_connected_slots sb) + 1) ?r = Some r'" "todo r' = rest"
    "calls r' = calls ?r @ map (\<lambda>c. (pdest c, pmethod c)) (m_connected_slots sb)"
    using loop_calls[of ?r s ?sb "[]" "m_connected_slots sb" rest body] assms(4) consistentD(2)[OF assms(1,2)] dests_alive[OF assms(1,2)]
    by (auto simp: node_ok_def)
  ultimately show ?thesis
    by (intro exI[of _ "Suc (length (m_connected_slots sb) + 1)"] exI[of _ r']) simp
qed

subsection \<open>Properties\<close>

text \<open>C18. A program that uses what exists, connects an object to a signal at most once and destroys no signal while it fires never reaches
  an object or a signal that is gone, whatever its slots do when they are called, including connecting, disconnecting, copying, destroying and
  firing again; and a signal is connected to an object exactly when the object has the signal among its senders.\<close>

theorem signals_consistent:
  assumes "reachable body r"
  shows "(linked (world r) s p \<longleftrightarrow> knows (world r) p s) \<and> (legal r \<longrightarrow> step body r \<noteq> None)"
  using reachable_run_ok[OF assms] step_ok[of r body] consistentD(1) by (auto simp: run_ok_def)

lemma reachable_perform:
  assumes "reachable body r" "todo r = []" "legal_op x [] (world r)" "perform x (world r) = Some h" "\<forall>s. x \<noteq> Emit s"
  shows "reachable body (r\<lparr>todo := [], world := h\<rparr>)"
proof -
  have "step body (r\<lparr>todo := [Do x]\<rparr>) = Some (r\<lparr>todo := [], world := h\<rparr>)"
    using assms(4,5) by (cases x) (simp_all add: step_def)
  then show ?thesis
    using reachable.step[OF reachable.call[OF assms(1,2), of x]] assms(3) by (simp add: legal_def)
qed

lemma signals_consistent_witness: "\<exists>r. reachable (\<lambda>_ _. []) r \<and> linked (world r) 1 7 \<and> knows (world r) 7 1"
proof -
  let ?sb = "\<lparr>m_connected_slots = [\<lparr>uid = 0, pdest = 7, pmethod = 0\<rparr>], m_current_iterator = None, next_uid = 1\<rparr>"
  let ?h1 = "(world start)\<lparr>sigs := (sigs (world start))(1 \<mapsto> new_signal)\<rparr>"
  let ?h2 = "?h1\<lparr>objs := (objs ?h1)(7 \<mapsto> [])\<rparr>"
  let ?h3 = "?h2\<lparr>sigs := (sigs ?h2)(1 \<mapsto> ?sb), objs := (objs ?h2)(7 \<mapsto> [1])\<rparr>"
  have 1: "reachable (\<lambda>_ _. []) (start\<lparr>todo := [], world := ?h1\<rparr>)"
    by (rule reachable_perform[OF reachable.start, of "New_signal 1"]) (simp_all add: start_def)
  have 2: "reachable (\<lambda>_ _. []) (start\<lparr>todo := [], world := ?h2\<rparr>)"
    using reachable_perform[OF 1, of "New_slots 7" ?h2] by (simp add: start_def)
  have 3: "reachable (\<lambda>_ _. []) (start\<lparr>todo := [], world := ?h3\<rparr>)"
    using reachable_perform[OF 2, of "Connect 1 7 0" ?h3]
    by (simp add: start_def linked_def dests_def new_signal_def connect_def on_signal_def signal_connect_def set_insert_def push_back_def)
  then show ?thesis
    using signals_consistent[OF 3, of 1 7] by (intro exI[of _ "start\<lparr>todo := [], world := ?h3\<rparr>"]) (simp add: linked_def dests_def)
qed

text \<open>
  Without the condition that an object is connected at most once: both sides still agree after further connections, but no longer after
  \<open>disconnect\<close>.
\<close>

definition agreed :: "heap \<Rightarrow> bool" where
  "agreed h \<longleftrightarrow> (\<forall>s p. linked h s p \<longleftrightarrow> knows h p s) \<and> (\<forall>s sb. sigs h s = Some sb \<longrightarrow> node_ok sb) \<and> (\<forall>p ss. objs h p = Some ss \<longrightarrow> distinct ss)"

lemma agreedD:
  assumes "agreed h"
  shows "linked h s p \<longleftrightarrow> knows h p s" "sigs h s = Some sb \<Longrightarrow> node_ok sb" "objs h p = Some ss \<Longrightarrow> distinct ss"
  using assms by (auto simp: agreed_def)

text \<open>The destructor of an object, when its senders are signals that exist.\<close>

lemma destroy_slots_eq:
  assumes "objs h p = Some ss" "distinct ss" "\<And>s. s \<in> set ss \<Longrightarrow> sigs h s \<noteq> None"
  shows "destroy_slots p h = Some (h\<lparr>objs := (objs h)(p := None),
    sigs := (\<lambda>s. if s \<in> set ss then map_option (do_slot_disconnect p) (sigs h s) else sigs h s)\<rparr>)"
  using leave_all_eq[of ss "h\<lparr>objs := (objs h)(p \<mapsto> [])\<rparr>" p] assms by (simp add: destroy_slots_def slots_disconnect_all_def cong: if_cong)

lemma second_of_two:
  assumes "distinct (map uid cs)" "2 \<le> count_list (map pdest cs) p" "c \<in> set cs"
  obtains d where "d \<in> set cs" "pdest d = p" "uid d \<noteq> uid c"
proof -
  have "length (filter (\<lambda>d. pdest d = p) cs) \<le> 1" if "\<forall>d\<in>set cs. pdest d = p \<longrightarrow> uid d = uid c"
  proof -
    have "set (map uid (filter (\<lambda>d. pdest d = p) cs)) \<subseteq> {uid c}"
      using that by auto
    then have "card (set (map uid (filter (\<lambda>d. pdest d = p) cs))) \<le> 1"
      using card_mono[of "{uid c}"] by simp
    moreover have "distinct (map uid (filter (\<lambda>d. pdest d = p) cs))"
      using assms(1) by (rule distinct_map_filter)
    ultimately show ?thesis
      by (metis distinct_card length_map)
  qed
  moreover have "count_list (map pdest cs) p = length (filter (\<lambda>d. pdest d = p) cs)"
    by (simp add: count_list_eq_length_filter filter_map o_def eq_commute)
  ultimately show ?thesis
    using assms(2) that by force
qed

text \<open>A firing signal that still has a connection to an object that is gone calls it, at the latest when the slots before it have returned.\<close>

lemma loop_reaches_gone:
  assumes "sigs (world r) s = Some sb" "m_connected_slots sb = pre @ post" "m_current_iterator sb = front post" "todo r = Loop s # rest"
    and "distinct (map uid (pre @ post))" "c \<in> set post" "objs (world r) (pdest c) = None" "\<And>p m. body p m = []"
  shows "\<exists>n. steps body n r = None"
  using assms(1-7)
proof (induction post arbitrary: r sb pre)
  case (Cons d post)
  note at = next_of_split[OF Cons.prems(5)] find_split[OF Cons.prems(5)]
  show ?case
  proof (cases "objs (world r) (pdest d)")
    case None
    then have "steps body 1 r = None"
      using Cons.prems at by (simp add: step_def emit_round_def front_def)
    then show ?thesis
      by blast
  next
    case (Some ss)
    let ?sb = "sb\<lparr>m_current_iterator := front post\<rparr>"
    let ?r = "r\<lparr>world := (world r)\<lparr>sigs := (sigs (world r))(s \<mapsto> ?sb)\<rparr>, todo := Loop s # rest, calls := calls r @ [(pdest d, pmethod d)]\<rparr>"
    have "step body r = Some ?r"
      using Cons.prems Some assms(8) at by (simp add: step_def emit_round_def front_def[of "d # post"])
    moreover have "\<exists>n. steps body n ?r = None"
      using Cons.prems Some by (intro Cons.IH[of _ ?sb "pre @ [d]"]) auto
    then obtain n where "steps body n ?r = None"
      by blast
    ultimately have "steps body (Suc n) r = None"
      by simp
    then show ?thesis
      by blast
  qed
qed simp

text \<open>C19. Whenever an object is connected twice to a signal, and both sides agree on who is connected: destroying it takes it off the signal, but
  after one \<open>disconnect\<close> (which removes one connection and takes the signal off the object's senders) the object's destructor leaves the other
  connection behind, and firing the signal calls a slot of the object that is gone (unless a slot that is called before does something about it:
  here the slots do nothing).\<close>

theorem second_connection_dangles:
  assumes "agreed h" "sigs h s = Some sb" "2 \<le> count_list (dests sb) p"
  shows "(\<exists>h0. destroy_slots p h = Some h0 \<and> \<not> linked h0 s p) \<and>
    (\<exists>h1 h2. disconnect s p h = Some h1 \<and> destroy_slots p h1 = Some h2 \<and> objs h2 p = None \<and> linked h2 s p \<and>
      (\<exists>n. steps (\<lambda>_ _. []) n \<lparr>world = h2, todo = Do (Emit s) # rest, calls = called\<rparr> = None))"
proof -
  have "p \<in> set (dests sb)"
    using assms(3) by (metis count_list_0_iff not_numeral_le_zero)
  then obtain ss where ss: "objs h p = Some ss" "s \<in> set ss"
    using agreedD(1)[OF assms(1), of s p] assms(2) by (auto simp: linked_def knows_def)
  have alive: "sigs h t \<noteq> None" if "t \<in> set ss" for t
    using agreedD(1)[OF assms(1), of t p] ss(1) that by (auto simp: linked_def knows_def)
  have ok: "node_ok sb" "distinct ss"
    using agreedD(2,3)[OF assms(1)] assms(2) ss(1) by auto
  obtain c where c: "find (\<lambda>c. pdest c = p) (m_connected_slots sb) = Some c" "c \<in> set (m_connected_slots sb)"
    using \<open>p \<in> set (dests sb)\<close> by (cases "find (\<lambda>c. pdest c = p) (m_connected_slots sb)") (auto simp: dests_def find_None_iff find_Some_iff)
  obtain d where d: "d \<in> set (m_connected_slots sb)" "pdest d = p" "uid d \<noteq> uid c"
    using second_of_two[of "m_connected_slots sb" p c] assms(3) ok(1) c(2) by (auto simp: dests_def node_ok_def)
  let ?sb = "erase (uid c) sb"
  let ?h1 = "h\<lparr>sigs := (sigs h)(s \<mapsto> ?sb), objs := (objs h)(p \<mapsto> remove1 s ss)\<rparr>"
  have h1: "disconnect s p h = Some ?h1"
    using c(1) assms(2) ss(1) by (simp add: disconnect_def on_signal_def signal_disconnect_def)
  obtain h2 where h2: "destroy_slots p ?h1 = Some h2" "objs h2 p = None" "sigs h2 s = Some ?sb"
    using destroy_slots_eq[of ?h1 p "remove1 s ss"] alive ok(2) by auto
  have left: "d \<in> set (m_connected_slots ?sb)"
    using d by simp
  have "node_ok ?sb"
    by (rule erase_node_ok[OF ok(1)])
  let ?fb = "?sb\<lparr>m_current_iterator := front (m_connected_slots ?sb)\<rparr>"
  let ?r = "\<lparr>world = h2\<lparr>sigs := (sigs h2)(s \<mapsto> ?fb)\<rparr>, todo = Loop s # rest, calls = called\<rparr>"
  obtain n where "steps (\<lambda>_ _. []) n ?r = None"
    using loop_reaches_gone[of ?r s ?fb "[]" "m_connected_slots ?sb" rest d "\<lambda>_ _. []"] left h2(2) d(2) \<open>node_ok ?sb\<close> by (auto simp: node_ok_def)
  moreover have "step (\<lambda>_ _. []) \<lparr>world = h2, todo = Do (Emit s) # rest, calls = called\<rparr> = Some ?r"
    using h2(3) by (simp add: step_def on_signal_def front_def)
  ultimately have fires: "steps (\<lambda>_ _. []) (Suc n) \<lparr>world = h2, todo = Do (Emit s) # rest, calls = called\<rparr> = None"
    by simp
  have "linked h2 s p"
    using h2(3) left d(2) by (auto simp: linked_def dests_def)
  moreover have "\<exists>h0. destroy_slots p h = Some h0 \<and> \<not> linked h0 s p"
    using destroy_slots_eq[of h p ss] ss alive ok assms(2) do_slot_disconnect_ok(2)[OF ok(1), of p] by (simp add: linked_def)
  ultimately show ?thesis
    using h1 h2(1,2) fires by blast
qed

text \<open>Signal 1, object 7 connected by two methods.\<close>

definition twice :: "op list" where
  "twice = [New_signal 1, New_slots 7, Connect 1 7 0, Connect 1 7 1]"

theorem second_connection_dangles_witness:
  "\<exists>r h1 h2. steps (\<lambda>_ _. []) 4 (start\<lparr>todo := map Do twice\<rparr>) = Some r \<and> todo r = [] \<and> disconnect 1 7 (world r) = Some h1 \<and>
    destroy_slots 7 h1 = Some h2 \<and> objs h2 7 = None \<and> linked h2 1 7"
proof -
  let ?sb = "\<lparr>m_connected_slots = [\<lparr>uid = 0, pdest = 7, pmethod = 0\<rparr>, \<lparr>uid = 1, pdest = 7, pmethod = 1\<rparr>], m_current_iterator = None, next_uid = 2\<rparr>"
  let ?h = "\<lparr>sigs = [1 \<mapsto> ?sb], objs = [7 \<mapsto> [1]]\<rparr>"
  have r: "steps (\<lambda>_ _. []) 4 (start\<lparr>todo := map Do twice\<rparr>) = Some \<lparr>world = ?h, todo = [], calls = []\<rparr>"
    by (simp add: numeral_eq_Suc twice_def start_def step_def connect_def on_signal_def signal_connect_def set_insert_def push_back_def new_signal_def)
  have "agreed ?h"
    by (auto simp: agreed_def linked_def knows_def dests_def node_ok_def)
  moreover have "sigs ?h 1 = Some ?sb" "2 \<le> count_list (dests ?sb) 7"
    by (simp_all add: dests_def)
  ultimately obtain h1 h2 where "disconnect 1 7 ?h = Some h1" "destroy_slots 7 h1 = Some h2" "objs h2 7 = None" "linked h2 1 7"
    using second_connection_dangles[of ?h 1 ?sb 7] by blast
  then show ?thesis
    using r by (intro exI[of _ "\<lparr>world = ?h, todo = [], calls = []\<rparr>"] exI[of _ h1] exI[of _ h2]) simp
qed

end
