(* ===== verification/Faac_Encoder.thy ===== *)
theory Faac_Encoder
  imports Prelude
begin

section \<open>The AAC encoder (src/stream/faac.hpp)\<close>

text \<open>
  The wrapper around libfaac. The library is an argument: \<open>enc i block\<close> is what its \<open>i\<close>-th call of \<open>faacEncEncode\<close> answers
  when its input begins with these bytes, a negative number for an error, and what it writes. \<open>faacEncOpen\<close> answers with the handle (0 for
  null), the number of samples a call takes and the size of its output. An access out of an array, or a call that never returns, is \<open>None\<close>.
\<close>

definition KAmpBufSize :: nat where "KAmpBufSize = 2048"

record encoder =
  faac :: bool
  maxOutput :: nat
  inputSamples :: nat
  pOutBytes :: bytes
  pAmpData :: bytes
  nAmpOff :: nat
  inputs :: "bytes list"

text \<open>The configuration calls do not change what the wrapper keeps. \<open>inputs\<close> collects the blocks the library has been handed.\<close>

definition Encoder :: "bool \<Rightarrow> nat \<Rightarrow> nat \<Rightarrow> encoder" where
  "Encoder opened samples output =
     \<lparr>faac = opened, maxOutput = output, inputSamples = samples, pOutBytes = replicate output 0,
      pAmpData = replicate (KAmpBufSize * 2) 0, nAmpOff = 0, inputs = []\<rparr>"

text \<open>The library reads \<open>inputSamples\<close> samples of two bytes, which have to be in the array.\<close>

definition encode_call :: "(nat \<Rightarrow> bytes \<Rightarrow> int \<times> bytes) \<Rightarrow> encoder \<Rightarrow> (int \<times> encoder) option" where
  "encode_call enc s =
     (if 2 * inputSamples s \<le> length (pAmpData s) then
        (let block = take (2 * inputSamples s) (pAmpData s);
             (n, out) = enc (length (inputs s)) block
         in Some (n, s\<lparr>pOutBytes := take (maxOutput s) out @ drop (length out) (pOutBytes s), inputs := inputs s @ [block]\<rparr>))
      else None)"

text \<open>A negative answer becomes a huge \<open>size_t\<close> and ends the loop.\<close>

partial_function (option) faac_loop :: "(nat \<Rightarrow> bytes \<Rightarrow> int \<times> bytes) \<Rightarrow> encoder \<Rightarrow> (nat \<times> encoder) option" where
  "faac_loop enc s = do {
     (n, s) \<leftarrow> encode_call enc s;
     let aacLen = nat (n mod 2 ^ 64);
     if aacLen < 1 then faac_loop enc s else Some (aacLen, s)
   }"

declare faac_loop.simps [code]

text \<open>The pointer that is returned is null or \<open>pOutBytes\<close>.\<close>

definition Encode :: "(nat \<Rightarrow> bytes \<Rightarrow> int \<times> bytes) \<Rightarrow> bytes \<Rightarrow> encoder \<Rightarrow> (bool \<times> nat \<times> encoder) option" where
  "Encode enc pcmData s =
     (if \<not> faac s then Some (False, 0, s)
      else do {
        d \<leftarrow> mem_write (pAmpData s) (nAmpOff s) pcmData;
        let s = s\<lparr>pAmpData := d, nAmpOff := nAmpOff s + length pcmData\<rparr>;
        if nAmpOff s < KAmpBufSize then Some (False, 0, s)
        else do {
          (aacLen, s) \<leftarrow> faac_loop enc s;
          let s = s\<lparr>nAmpOff := nAmpOff s - KAmpBufSize\<rparr>;
          let s = (if nAmpOff s > 0
                   then s\<lparr>pAmpData := take (nAmpOff s) (drop KAmpBufSize (pAmpData s)) @ drop (nAmpOff s) (pAmpData s)\<rparr> else s);
          Some (True, aacLen, s)
        }
      })"

text \<open>Piece after piece.\<close>

fun feed :: "(nat \<Rightarrow> bytes \<Rightarrow> int \<times> bytes) \<Rightarrow> bytes list \<Rightarrow> encoder \<Rightarrow> encoder option" where
  "feed enc [] s = Some s"
| "feed enc (p # ps) s = do { (r, n, s) \<leftarrow> Encode enc p s; feed enc ps s }"

subsection \<open>Blocks\<close>

text \<open>The library answers at last, whatever it is given.\<close>

definition answers :: "(nat \<Rightarrow> bytes \<Rightarrow> int \<times> bytes) \<Rightarrow> bool" where
  "answers enc \<longleftrightarrow> (\<forall>i b. \<exists>k. fst (enc (i + k) b) \<noteq> 0) \<and> (\<forall>i b. \<bar>fst (enc i b)\<bar> < 2 ^ 31)"

lemma size_zero: "\<bar>n :: int\<bar> < 2 ^ 31 \<Longrightarrow> nat (n mod 2 ^ 64) < 1 \<longleftrightarrow> n = 0"
proof -
  assume n: "\<bar>n\<bar> < 2 ^ 31"
  have "n mod 2 ^ 64 = (if n < 0 then n + 2 ^ 64 else n)"
  proof (cases "n < 0")
    case True
    have "n mod 2 ^ 64 = (n + 2 ^ 64) mod 2 ^ 64"
      by (simp only: mod_add_self2)
    also have "\<dots> = n + 2 ^ 64"
      using True n by (intro mod_pos_pos_trivial) simp_all
    finally show ?thesis
      using True by simp
  next
    case False
    then show ?thesis
      using n by (simp add: mod_pos_pos_trivial)
  qed
  then show ?thesis
    using n by (simp only:) auto
qed

lemma faac_loop_answered:
  assumes "answers enc" "2 * inputSamples s \<le> length (pAmpData s)" "fst (enc (length (inputs s)) (take (2 * inputSamples s) (pAmpData s))) \<noteq> 0"
  shows "\<exists>n out. faac_loop enc s = Some (n, s\<lparr>pOutBytes := out, inputs := inputs s @ [take (2 * inputSamples s) (pAmpData s)]\<rparr>)"
proof -
  obtain n out where e: "enc (length (inputs s)) (take (2 * inputSamples s) (pAmpData s)) = (n, out)"
    by fastforce
  have "\<bar>fst (enc (length (inputs s)) (take (2 * inputSamples s) (pAmpData s)))\<bar> < 2 ^ 31"
    using assms(1) unfolding answers_def by blast
  then have "\<not> nat (n mod 2 ^ 64) < 1"
    using size_zero[of n] assms(3) e by simp
  moreover have "encode_call enc s = Some (n, s\<lparr>pOutBytes := take (maxOutput s) out @ drop (length out) (pOutBytes s),
      inputs := inputs s @ [take (2 * inputSamples s) (pAmpData s)]\<rparr>)"
    using assms(2) e by (simp add: encode_call_def Let_def)
  ultimately show ?thesis
    by (subst faac_loop.simps) (simp only: Option.bind.bind_lunit case_prod_conv Let_def if_False, blast)
qed

lemma faac_loop_ends:
  assumes "answers enc" "2 * inputSamples s \<le> length (pAmpData s)"
  shows "\<exists>n k out. faac_loop enc s =
    Some (n, s\<lparr>pOutBytes := out, inputs := inputs s @ replicate (Suc k) (take (2 * inputSamples s) (pAmpData s))\<rparr>)"
proof -
  let ?b = "take (2 * inputSamples s) (pAmpData s)"
  have "\<exists>k. fst (enc (length (inputs s) + k) ?b) \<noteq> 0"
    using assms(1) by (simp add: answers_def)
  then obtain k where "fst (enc (length (inputs s) + k) ?b) \<noteq> 0"
    by blast
  then show ?thesis
    using assms(2)
  proof (induction k arbitrary: s)
    case 0
    then obtain n out where "faac_loop enc s = Some (n, s\<lparr>pOutBytes := out, inputs := inputs s @ [take (2 * inputSamples s) (pAmpData s)]\<rparr>)"
      using faac_loop_answered[OF assms(1), of s] by auto
    then show ?case
      by (intro exI[of _ n] exI[of _ 0] exI[of _ out]) simp
  next
    case (Suc k)
    show ?case
    proof (cases "fst (enc (length (inputs s)) (take (2 * inputSamples s) (pAmpData s))) = 0")
      case True
      let ?b = "take (2 * inputSamples s) (pAmpData s)"
      let ?s = "s\<lparr>pOutBytes := take (maxOutput s) (snd (enc (length (inputs s)) ?b)) @ drop (length (snd (enc (length (inputs s)) ?b))) (pOutBytes s),
        inputs := inputs s @ [?b]\<rparr>"
      have "faac_loop enc s = faac_loop enc ?s"
        using True Suc.prems(2) by (subst faac_loop.simps) (simp add: encode_call_def Let_def case_prod_unfold)
      moreover have "\<exists>n k out. faac_loop enc ?s =
          Some (n, ?s\<lparr>pOutBytes := out, inputs := inputs ?s @ replicate (Suc k) (take (2 * inputSamples ?s) (pAmpData ?s))\<rparr>)"
        using Suc.prems by (intro Suc.IH) simp_all
      then obtain n j out where "faac_loop enc ?s = Some (n, ?s\<lparr>pOutBytes := out, inputs := inputs ?s @ replicate (Suc j) ?b\<rparr>)"
        by auto
      ultimately show ?thesis
        by (intro exI[of _ n] exI[of _ "Suc j"] exI[of _ out]) simp
    next
      case False
      then obtain n out where "faac_loop enc s = Some (n, s\<lparr>pOutBytes := out, inputs := inputs s @ [take (2 * inputSamples s) (pAmpData s)]\<rparr>)"
        using faac_loop_answered[OF assms(1), of s] Suc.prems(2) by auto
      then show ?thesis
        by (intro exI[of _ n] exI[of _ 0] exI[of _ out]) simp
    qed
  qed
qed

text \<open>The samples that have been fed: whole blocks have gone to the library, each at least once and in order, and the rest waits.\<close>

definition holds_pcm :: "bytes \<Rightarrow> encoder \<Rightarrow> bool" where
  "holds_pcm pcm s \<longleftrightarrow> faac s \<and> inputSamples s = 1024 \<and> length (pAmpData s) = 2 * KAmpBufSize \<and> nAmpOff s < KAmpBufSize \<and>
     (\<exists>bs ks. length ks = length bs \<and> list_all (\<lambda>b. length b = KAmpBufSize) bs \<and> 0 \<notin> set ks \<and> inputs s = concat (map2 replicate ks bs) \<and>
       pcm = concat bs @ take (nAmpOff s) (pAmpData s))"

lemma holds_pcmI:
  assumes "faac s" "inputSamples s = 1024" "length (pAmpData s) = 4096" "nAmpOff s < 2048" "length ks = length bs"
    "list_all (\<lambda>b. length b = 2048) bs" "0 \<notin> set ks" "inputs s = concat (map2 replicate ks bs)"
    "pcm = concat bs @ take (nAmpOff s) (pAmpData s)"
  shows "holds_pcm pcm s"
  using assms unfolding holds_pcm_def KAmpBufSize_def by (metis mult_2 numeral_Bit0)

lemma Encode_holds:
  assumes "answers enc" "holds_pcm pcm s" "length p \<le> KAmpBufSize"
  shows "\<exists>r n s'. Encode enc p s = Some (r, n, s') \<and> holds_pcm (pcm @ p) s'"
proof -
  obtain bs ks where s: "faac s" "inputSamples s = 1024" "length (pAmpData s) = 4096" "nAmpOff s < 2048"
    "length ks = length bs" "list_all (\<lambda>b. length b = 2048) bs" "0 \<notin> set ks" "inputs s = concat (map2 replicate ks bs)"
    "pcm = concat bs @ take (nAmpOff s) (pAmpData s)"
    using assms(2) by (auto simp: holds_pcm_def KAmpBufSize_def)
  have p: "length p \<le> 2048"
    using assms(3) by (simp add: KAmpBufSize_def)
  define d where "d = take (nAmpOff s) (pAmpData s) @ p @ drop (nAmpOff s + length p) (pAmpData s)"
  have w: "mem_write (pAmpData s) (nAmpOff s) p = Some d"
    using s p by (simp add: mem_write_def d_def)
  have ld: "length d = 4096"
    using s p by (simp add: d_def)
  have td: "take (nAmpOff s + length p) d = take (nAmpOff s) (pAmpData s) @ p"
    using s p by (simp add: d_def)
  let ?s = "s\<lparr>pAmpData := d, nAmpOff := nAmpOff s + length p\<rparr>"
  show ?thesis
  proof (cases "nAmpOff s + length p < 2048")
    case True
    then have "Encode enc p s = Some (False, 0, ?s)"
      using s w by (simp add: Encode_def KAmpBufSize_def)
    moreover have "holds_pcm (pcm @ p) ?s"
      using s ld td True by (intro holds_pcmI[of _ ks bs]) simp_all
    ultimately show ?thesis
      by blast
  next
    case False
    obtain n k out where e: "faac_loop enc ?s = Some (n, ?s\<lparr>pOutBytes := out, inputs := inputs s @ replicate (Suc k) (take 2048 d)\<rparr>)"
      using faac_loop_ends[OF assms(1), of ?s] s ld by auto
    define o' where "o' = nAmpOff s + length p - 2048"
    have o': "o' < 2048" "nAmpOff s + length p = 2048 + o'"
      using s p False by (auto simp: o'_def)
    define d' where "d' = (if o' > 0 then take o' (drop 2048 d) @ drop o' d else d)"
    let ?t = "?s\<lparr>pOutBytes := out, inputs := inputs s @ replicate (Suc k) (take 2048 d), nAmpOff := o', pAmpData := d'\<rparr>"
    have "Encode enc p s = Some (True, n, ?t)"
      using s w e False by (simp add: Encode_def KAmpBufSize_def Let_def o'_def d'_def)
    moreover have "holds_pcm (pcm @ p) ?t"
    proof -
      let ?bs = "bs @ [take 2048 d]" and ?ks = "ks @ [Suc k]"
      have 1: "take (nAmpOff s) (pAmpData s) @ p = take 2048 d @ take o' (drop 2048 d)"
        using td o'(2) by (metis take_add)
      have 2: "take o' d' = take o' (drop 2048 d)" "length d' = 4096"
        using ld o'(1) by (auto simp: d'_def)
      have 3: "concat (map2 replicate ?ks ?bs) = inputs s @ replicate (Suc k) (take 2048 d)"
        using s(5,8) by simp
      have 4: "pcm @ p = concat ?bs @ take o' d'"
        using 1 unfolding s(9) 2(1) by simp
      have 5: "length ?ks = length ?bs" "list_all (\<lambda>b. length b = 2048) ?bs" "0 \<notin> set ?ks"
        using s(5-7) ld by simp_all
      show ?thesis
      proof (rule holds_pcmI[where ks = ?ks and bs = ?bs])
        show "faac ?t" "inputSamples ?t = 1024" "length (pAmpData ?t) = 4096" "nAmpOff ?t < 2048"
          using s(1,2) 2(2) o'(1) by simp_all
        show "inputs ?t = concat (map2 replicate ?ks ?bs)"
          by (subst 3) simp
        show "pcm @ p = concat ?bs @ take (nAmpOff ?t) (pAmpData ?t)"
          by (subst 4) simp
      qed (fact 5)+
    qed
    ultimately show ?thesis
      by blast
  qed
qed

text \<open>C28. One channel of 16 bits: pieces of at most 2048 bytes each never overrun the buffer; every block of 2048 bytes reaches the
  library in order, at least once, and the rest waits at the front of the buffer. A next piece that does not fit behind this rest in the 4096
  bytes is written over the end of the array.\<close>

theorem aac_blocks:
  assumes "answers enc" "list_all (\<lambda>p. length p \<le> KAmpBufSize) ps"
  shows "\<exists>s. feed enc ps (Encoder True 1024 output) = Some s \<and> holds_pcm (concat ps) s \<and>
    (\<forall>p. 2 * KAmpBufSize < nAmpOff s + length p \<longrightarrow> Encode enc p s = None)"
proof -
  have "\<exists>s'. feed enc ps s = Some s' \<and> holds_pcm (pcm @ concat ps) s'" if "holds_pcm pcm s" for pcm s
    using assms(2) that
  proof (induction ps arbitrary: pcm s)
    case (Cons p ps)
    then have "length p \<le> KAmpBufSize" "list_all (\<lambda>p. length p \<le> KAmpBufSize) ps" "holds_pcm pcm s"
      by simp_all
    then obtain r n s1 where s1: "Encode enc p s = Some (r, n, s1)" "holds_pcm (pcm @ p) s1"
      using Encode_holds[OF assms(1)] by blast
    then show ?case
      using Cons.IH[of "pcm @ p" s1] \<open>list_all _ ps\<close> by simp
  qed simp
  moreover have "holds_pcm [] (Encoder True 1024 output)"
    by (rule holds_pcmI[of _ "[]" "[]"]) (simp_all add: Encoder_def KAmpBufSize_def)
  ultimately have "\<exists>s. feed enc ps (Encoder True 1024 output) = Some s \<and> holds_pcm ([] @ concat ps) s"
    by blast
  moreover have "Encode enc p s = None" if "holds_pcm (concat ps) s" "2 * KAmpBufSize < nAmpOff s + length p" for s p
    using that by (simp add: Encode_def mem_write_def holds_pcm_def)
  ultimately show ?thesis
    unfolding append_Nil by blast
qed

text \<open>A library that answers nothing to its first call: the block is handed over again.\<close>

definition delayed :: "nat \<Rightarrow> bytes \<Rightarrow> int \<times> bytes" where
  "delayed i b = (if i = 0 then (0, []) else (3, [1, 2, 3]))"

lemma delayed_answers: "answers delayed"
  by (auto simp: answers_def delayed_def)

theorem aac_blocks_witness:
  "\<exists>s. feed delayed [replicate 2000 5, replicate 100 6] (Encoder True 1024 8) = Some s \<and> holds_pcm (replicate 2000 5 @ replicate 100 6) s \<and>
    Encode delayed (replicate 5000 0) s = None"
proof -
  have "list_all (\<lambda>p. length p \<le> KAmpBufSize) [replicate 2000 5, replicate 100 6]" "2 * KAmpBufSize < n + length (replicate 5000 (0 :: u8))" for n
    by (simp_all add: KAmpBufSize_def)
  then show ?thesis
    using aac_blocks[of delayed "[replicate 2000 5, replicate 100 6]" 8] delayed_answers by fastforce
qed

text \<open>Its block goes to it twice, and the tail of the second piece waits.\<close>

lemma delayed_twice:
  "map_option (\<lambda>s. (inputs s, nAmpOff s)) (feed delayed [replicate 2000 5, replicate 100 6] (Encoder True 1024 8)) =
   Some ([replicate 2000 5 @ replicate 48 6, replicate 2000 5 @ replicate 48 6], 52)"
proof -
  let ?d = "replicate 2000 5 @ replicate 100 6 @ replicate 1996 0 :: bytes"
  have 1: "Encode delayed (replicate 2000 5) (Encoder True 1024 8) =
      Some (False, 0, (Encoder True 1024 8)\<lparr>pAmpData := replicate 2000 5 @ replicate 2096 0, nAmpOff := 2000\<rparr>)"
    by (simp add: Encode_def Encoder_def mem_write_def KAmpBufSize_def)
  show ?thesis
    unfolding feed.simps 1
    by (simp add: Encode_def Encoder_def mem_write_def KAmpBufSize_def faac_loop.simps encode_call_def delayed_def Let_def)
qed

end
