(* ===== verification/Avc_Units.thy ===== *)
theory Avc_Units
  imports Mp4_Trak
begin

section \<open>The units of an AVC key picture\<close>

text \<open>What \<open>Split\<close> and \<open>Sort\<close> make of a key picture behind its parameter sets, and of a picture alone: shared by the
  publishers and recorders that take frames.\<close>

definition unit_of :: "bytes \<Rightarrow> nat \<Rightarrow> unit_t" where
  "unit_of x d = \<lparr>u_type = (x @ [0]) ! 0, u_size = c_int (length x), u_data = Some d\<rparr>"

definition avc_sets :: "bytes \<Rightarrow> bytes \<Rightarrow> bool" where
  "avc_sets sps pps \<longleftrightarrow> sps \<noteq> [] \<and> pps \<noteq> [] \<and> length sps + length pps < 2 ^ 31 \<and>
     IsH264 (sps ! 0) \<and> sps ! 0 AND 0x1F = AVC_NALU_TYPE_SPS \<and> pps ! 0 AND 0x1F = AVC_NALU_TYPE_PPS"

lemma Sort_avc_sets:
  assumes "avc_sets sps pps"
  shows "Sort [unit_of sps i, unit_of pps j] = Some [unit_of sps i, unit_of pps j]"
  using assms by (auto simp: Sort_def unit_of_def avc_sets_def nth_append nalu_types)

lemma unit_copy_of: "mem_slice m d (length x) = Some x \<Longrightarrow> length x < 2 ^ 31 \<Longrightarrow> unit_copy m (unit_of x d) = Some x"
  by (auto simp: unit_copy_def unit_of_def unit_bytes_def)

text \<open>Three bytes can be read behind the frame, because the splitter does.\<close>

lemma Split_key:
  assumes "no_start sps" "no_start pps" "no_start (x @ [0, 0, 0])"
  shows "Split_nalu (annexb [sps, pps, x] @ [0, 0, 0]) 0 (length (annexb [sps, pps, x])) [] =
    Some (Some (12 + length sps + length pps), length x, [unit_of sps 4, unit_of pps (8 + length sps)])"
  using Split_annexb[of "[sps, pps, x]" "[0, 0, 0]" "[]" "[]"] assms by (simp add: unit_of_def add.commute)

lemma Split_delta:
  "no_start (x @ [0, 0, 0]) \<Longrightarrow> Split_nalu (annexb [x] @ [0, 0, 0]) 0 (length (annexb [x])) [] = Some (Some 4, length x, [])"
  using Split_annexb[of "[x]" "[0, 0, 0]" "[]" "[]"] by simp

lemma key_slices:
  "mem_slice (annexb [sps, pps, x] @ slack) 4 (length sps) = Some sps"
  "mem_slice (annexb [sps, pps, x] @ slack) (8 + length sps) (length pps) = Some pps"
  "mem_slice (annexb [sps, pps, x] @ slack) (12 + length sps + length pps) (length x) = Some x"
  "mem_slice (annexb [sps, pps, x] @ slack) 0 (8 + length sps + length pps) = Some (START @ sps @ START @ pps)"
  by (simp_all add: mem_slice_def)

end
