(* ===== verification/Rtmp_Client.thy ===== *)
theory Rtmp_Client
  imports Flv_Pack Avc_Units
begin

section \<open>librtmp::Client: publishing over RTMP (src/stream/rtmp.hpp)\<close>

text \<open>
  librtmp is an argument: what each of its calls answers may depend on all the calls before it. A packet is built in the
  buffer of the FLV packer, whose first \<open>head_size\<close> bytes (\<open>RTMP_HEAD_SIZE\<close>) it keeps for librtmp's structure; \<open>image\<close> are the
  bytes of that structure. \<open>RTMP_SendPacket\<close> may write into the buffer that \<open>m_body\<close> points to (it puts the headers of its chunks there):
  \<open>leaves\<close> is what it leaves in it. The fields of a sent packet are recorded with the bytes that \<open>m_body\<close> points to. Allocation succeeds.
\<close>

record rtmp_packet =
  m_packetType :: u8
  m_hasAbsTimestamp :: u8
  m_nInfoField2 :: int
  m_nChannel :: nat
  m_headerType :: u8
  m_nTimeStamp :: u32
  m_nBodySize :: u32
  m_body :: bytes

datatype call =
  RTMP_LogSetLevel | RTMP_Alloc | RTMP_Init | RTMP_SetupURL bytes | RTMP_EnableWrite | RTMP_Connect | RTMP_ConnectStream
  | RTMP_Close | RTMP_Free | RTMP_IsConnected | RTMP_SendPacket rtmp_packet

record librtmp =
  head_size :: nat
  TYPE_AUDIO :: u8
  TYPE_VIDEO :: u8
  SIZE_LARGE :: u8
  SIZE_MEDIUM :: u8
  answer :: "call list \<Rightarrow> call \<Rightarrow> int"
  m_stream_id :: "call list \<Rightarrow> int"
  image :: "rtmp_packet \<Rightarrow> bytes"
  leaves :: "call list \<Rightarrow> rtmp_packet \<Rightarrow> bytes \<Rightarrow> bytes"

record client =
  rtmp :: bool
  pkt :: flv
  fts :: int
  calls :: "call list"

definition Client :: "librtmp \<Rightarrow> client" where
  "Client lib = \<lparr>rtmp = False, pkt = Packet (head_size lib), fts = 0, calls = []\<rparr>"

definition do_call :: "librtmp \<Rightarrow> call \<Rightarrow> client \<Rightarrow> int \<times> client" where
  "do_call lib c s = (answer lib (calls s) c, s\<lparr>calls := calls s @ [c]\<rparr>)"

definition note_call :: "librtmp \<Rightarrow> call \<Rightarrow> client \<Rightarrow> client" where
  "note_call lib c s = snd (do_call lib c s)"

definition Close :: "librtmp \<Rightarrow> client \<Rightarrow> client" where
  "Close lib s = (if rtmp s then (note_call lib RTMP_Free (note_call lib RTMP_Close s))\<lparr>rtmp := False\<rparr> else s)"

text \<open>The label \<open>Error\<close> of \<open>Dial\<close>; the message it prints is left out.\<close>

definition Dial_error :: "librtmp \<Rightarrow> client \<Rightarrow> bool \<times> client" where
  "Dial_error lib s = (False, (note_call lib RTMP_Free s)\<lparr>rtmp := False\<rparr>)"

definition Dial :: "librtmp \<Rightarrow> bytes \<Rightarrow> client \<Rightarrow> bool \<times> client" where
  "Dial lib url s =
     (let s = note_call lib RTMP_LogSetLevel s;
          s = (note_call lib RTMP_Alloc s)\<lparr>rtmp := True\<rparr>;
          s = note_call lib RTMP_Init s;
          (r, s) = do_call lib (RTMP_SetupURL url) s
      in if r = 0 then Dial_error lib s
         else
           (let s = note_call lib RTMP_EnableWrite s;
                (r, s) = do_call lib RTMP_Connect s
            in if r = 0 then Dial_error lib s
               else
                 (let (r, s) = do_call lib RTMP_ConnectStream s
                  in if r = 0 then Dial_error lib (note_call lib RTMP_Close s)
                     else (True, s))))"

text \<open>The argument \<open>b\<close> is always the packer's buffer. Without a connection the null pointer is read.\<close>

definition the_packet :: "librtmp \<Rightarrow> u8 \<Rightarrow> u32 \<Rightarrow> bytes \<Rightarrow> client \<Rightarrow> rtmp_packet" where
  "the_packet lib rptype dts v s =
     \<lparr>m_packetType = rptype, m_hasAbsTimestamp = 0, m_nInfoField2 = m_stream_id lib (calls s),
      m_nChannel = (if rptype = TYPE_AUDIO lib then 5 else 4),
      m_headerType = (if rptype = TYPE_AUDIO lib then SIZE_MEDIUM lib else SIZE_LARGE lib), m_nTimeStamp = dts,
      m_nBodySize = word_of_nat (length v) - word_of_nat (head_size lib), m_body = drop (head_size lib) v\<rparr>"

definition WritePacket :: "librtmp \<Rightarrow> u8 \<Rightarrow> u32 \<Rightarrow> client \<Rightarrow> (int \<times> client) option" where
  "WritePacket lib rptype dts s = do {
     v \<leftarrow> Bytes (f_buf (pkt s));
     if \<not> rtmp s then None
     else do {
       let p = the_packet lib rptype dts v s;
       b \<leftarrow> buf_write 0 (image lib p) (f_buf (pkt s));
       let s = s\<lparr>pkt := (pkt s)\<lparr>f_buf := b\<rparr>\<rparr>;
       let (r, s) = do_call lib RTMP_IsConnected s;
       Some (if r = 1
             then do_call lib (RTMP_SendPacket p) (s\<lparr>pkt := (pkt s)\<lparr>f_buf := b\<lparr>vec := leaves lib (calls s) p (vec b)\<rparr>\<rparr>\<rparr>)
             else (0, s))
     }
   }"

text \<open>\<open>ts - fts_\<close> is a \<open>long long\<close>, then an unsigned number of 32 bits.\<close>

definition WriteAudio :: "librtmp \<Rightarrow> bytes \<Rightarrow> nat \<Rightarrow> u32 \<Rightarrow> client \<Rightarrow> (int \<times> client) option" where
  "WriteAudio lib m len dts s = do {
     data \<leftarrow> mem_slice m 0 len;
     p \<leftarrow> Marshal_audio data (pkt s);
     WritePacket lib (TYPE_AUDIO lib) dts (s\<lparr>pkt := p\<rparr>)
   }"

definition WriteVideo :: "librtmp \<Rightarrow> bytes \<Rightarrow> nat \<Rightarrow> bool \<Rightarrow> u32 \<Rightarrow> client \<Rightarrow> (int \<times> client) option" where
  "WriteVideo lib m len key dts s = do {
     (data, len, nalus) \<leftarrow> Split_nalu m 0 len [];
     case data of
       None \<Rightarrow> Some (0, s)
     | Some d \<Rightarrow> do {
         s \<leftarrow> (if key then do {
                 p \<leftarrow> Marshal_units m nalus (pkt s);
                 (r, s) \<leftarrow> WritePacket lib (TYPE_VIDEO lib) dts (s\<lparr>pkt := p\<rparr>);
                 Some s
               } else Some s);
         bs \<leftarrow> mem_slice m d len;
         p \<leftarrow> Marshal_frame bs key (pkt s);
         WritePacket lib (TYPE_VIDEO lib) dts (s\<lparr>pkt := p\<rparr>)
       }
   }"

definition WriteFrame :: "librtmp \<Rightarrow> bytes \<Rightarrow> nat \<Rightarrow> int \<Rightarrow> int \<Rightarrow> client \<Rightarrow> (int \<times> client) option" where
  "WriteFrame lib m len ftype ts s =
     (if fts s = 0 \<and> ftype \<noteq> 1 then Some (0, s)
      else
        (let s = (if fts s = 0 then s\<lparr>fts := ts\<rparr> else s);
             dts = ts - fts s
         in if dts < - (2 ^ 63) \<or> 2 ^ 63 \<le> dts then None
            else if ftype = 3 then WriteAudio lib m len (word_of_int dts) s
            else WriteVideo lib m len (ftype = 1) (word_of_int dts) s))"

subsection \<open>The sequence header\<close>

text \<open>The body of an AVC sequence header.\<close>

definition avc_header :: "bytes \<Rightarrow> bytes \<Rightarrow> bytes" where
  "avc_header sps pps =
     [0x17, 0, 0, 0, 0, 1, sps ! 1, sps ! 2, sps ! 3, 0xff, 0xe1] @ rev (le16 (word_of_nat (length sps))) @ sps @
     [1] @ rev (le16 (word_of_nat (length pps))) @ pps"

lemma size_be16:
  assumes "u_size u = int n"
  shows "[size_hi u, size_lo u] = rev (le16 (word_of_nat n))"
proof -
  have "size_hi u = ucast (drop_bit 8 (word_of_nat n :: u16))"
    unfolding size_hi_def assms and_0xff by (rule bit_word_eqI) (auto simp: bit_simps)
  moreover have "size_lo u = ucast (word_of_nat n :: u16)"
    unfolding size_lo_def assms and_0xff by (rule bit_word_eqI) (auto simp: bit_simps)
  ultimately show ?thesis
    by (simp add: le16_def)
qed

lemma unit_at_copy:
  assumes "unit_copy m u = Some bs" "k < length bs"
  shows "unit_at m u k = Some (bs ! k)"
  using unit_copy_byte[OF assms] unit_copy_length[OF assms(1)] assms(2) by (simp add: unit_byte_def unit_at_def)

lemma flv_avc_config_bytes:
  assumes sps: "unit_copy m u0 = Some sps" "3 < length sps" and pps: "unit_copy m u1 = Some pps"
    and fits: "16 + length sps + length pps \<le> 512"
  shows "\<exists>out. flv_avc_config m [u0, u1] = Some (out, length (avc_header sps pps)) \<and>
    take (length (avc_header sps pps)) out = avc_header sps pps"
proof -
  have b: "unit_at m u0 1 = Some (sps ! 1)" "unit_at m u0 2 = Some (sps ! 2)" "unit_at m u0 3 = Some (sps ! 3)"
    using sps unit_at_copy by auto
  define p0 :: bytes where "p0 = [0x17, 0, 0, 0, 0]"
  define p1 where "p1 = p0 @ [1, sps ! 1, sps ! 2, sps ! 3, 0xff]"
  define p2 where "p2 = p1 @ [0xe1, size_hi u0, size_lo u0]"
  define p3 where "p3 = p2 @ sps"
  define p4 where "p4 = p3 @ [1, size_hi u1, size_lo u1]"
  define p5 where "p5 = p4 @ pps"
  have l: "length p0 = 5" "length p1 = 10" "length p2 = 13" "length p3 = 13 + length sps" "length p4 = 16 + length sps"
    by (simp_all add: p4_def p3_def p2_def p1_def p0_def)
  have z: "emit (replicate 512 0) 0 [0x17] = Some (p0 @ zeros 507, 1)"
  proof -
    have "zeros (4 + 507) = zeros 4 @ zeros 507"
      by (simp only: zeros_def replicate_add)
    moreover have "zeros 4 = [0, 0, 0, 0]"
      by (simp add: zeros_def numeral_eq_Suc)
    ultimately have z: "zeros 511 = [0, 0, 0, 0] @ zeros 507"
      by simp
    have "emit (zeros 512) 0 [0x17] = Some ([0x17] @ zeros 511, 1)"
      using emit_zeros[of "[]" 512 "[0x17]"] by simp
    then show ?thesis
      unfolding z p0_def by (simp only: zeros_def append_Cons append_Nil)
  qed
  have e1: "emit (p0 @ zeros 507) 5 [1, sps ! 1, sps ! 2, sps ! 3, 0xff] = Some (p1 @ zeros 502, 10)"
    using emit_zeros[of p0 507 "[1, sps ! 1, sps ! 2, sps ! 3, 0xff]"] by (simp add: p1_def l)
  have e2: "emit (p1 @ zeros 502) 10 [0xe1, size_hi u0, size_lo u0] = Some (p2 @ zeros 499, 13)"
    using emit_zeros[of p1 502 "[0xe1, size_hi u0, size_lo u0]"] by (simp add: p2_def l)
  have e3: "emit (p2 @ zeros 499) 13 sps = Some (p3 @ zeros (499 - length sps), 13 + length sps)"
    using emit_zeros[of p2 499 sps] fits by (simp add: p3_def l)
  have e4: "emit (p3 @ zeros (499 - length sps)) (13 + length sps) [1, size_hi u1, size_lo u1] =
      Some (p4 @ zeros (496 - length sps), 16 + length sps)"
    using emit_zeros[of p3 "499 - length sps" "[1, size_hi u1, size_lo u1]"] fits by (simp add: p4_def l)
  have e5: "emit (p4 @ zeros (496 - length sps)) (16 + length sps) pps =
      Some (p5 @ zeros (496 - length sps - length pps), 16 + length sps + length pps)"
    using emit_zeros[of p4 "496 - length sps" pps] fits by (simp add: p5_def l)
  have h: "p5 = avc_header sps pps"
    using size_be16[OF unit_copy_length[OF sps(1)]] size_be16[OF unit_copy_length[OF pps]]
    by (simp add: p5_def p4_def p3_def p2_def p1_def p0_def avc_header_def)
  have "flv_avc_config m [u0, u1] = Some (p5 @ zeros (496 - length sps - length pps), 16 + length sps + length pps)"
    by (simp add: flv_avc_config_def put_unit_def mem_read_def b[unfolded One_nat_def] b z[unfolded One_nat_def] z e1[unfolded One_nat_def] e2 e3 e4 e5 sps(1) pps)
  moreover have "length p5 = 16 + length sps + length pps"
    by (simp add: p5_def l)
  ultimately show ?thesis
    by (simp add: h)
qed


text \<open>Parameter sets that fit the array in which the packer builds the header.\<close>

definition parameter_sets :: "bytes \<Rightarrow> bytes \<Rightarrow> bool" where
  "parameter_sets sps pps \<longleftrightarrow> avc_sets sps pps \<and> 3 < length sps \<and> 16 + length sps + length pps \<le> 512"

text \<open>A body in the packer's buffer, behind the head.\<close>

definition holds_body :: "librtmp \<Rightarrow> bytes \<Rightarrow> flv \<Rightarrow> bool" where
  "holds_body lib body p \<longleftrightarrow> f_offset p = head_size lib \<and> buf_ok (f_buf p) \<and> vec (f_buf p) \<noteq> [] \<and>
     head_size lib \<le> length (vec (f_buf p)) \<and> drop (head_size lib) (vec (f_buf p)) = body"

lemma Marshal_units_body:
  assumes "parameter_sets sps pps" "mem_slice m i (length sps) = Some sps" "mem_slice m j (length pps) = Some pps"
    "f_offset p = head_size lib" "buf_ok (f_buf p)"
  shows "\<exists>p'. Marshal_units m [unit_of sps i, unit_of pps j] p = Some p' \<and> is264 p' \<and> holds_body lib (avc_header sps pps) p'"
proof -
  have c: "unit_copy m (unit_of sps i) = Some sps" "unit_copy m (unit_of pps j) = Some pps"
    using assms(1-3) by (auto intro!: unit_copy_of simp: parameter_sets_def)
  obtain out where out: "flv_avc_config m [unit_of sps i, unit_of pps j] = Some (out, length (avc_header sps pps))"
    "take (length (avc_header sps pps)) out = avc_header sps pps"
    using flv_avc_config_bytes[OF c(1) _ c(2)] assms(1) by (auto simp: parameter_sets_def)
  let ?h = "avc_header sps pps" and ?b = "Reset (length (avc_header sps pps) + f_offset p) (Reset 0 (f_buf p))"
  have ok: "buf_ok ?b" "length (vec ?b) = length ?h + f_offset p"
    using assms(5) by (auto intro: Reset_ok)
  have w: "buf_write (f_offset p) ?h ?b = Some (?b\<lparr>vec := take (f_offset p) (vec ?b) @ ?h @ []\<rparr>)"
    using ok(2) by (intro buf_write_mid[where ys = "drop (f_offset p) (vec ?b)"]) simp_all
  have "?h \<noteq> []"
    by (simp add: avc_header_def)
  then show ?thesis
    using out w ok assms(4) assms(1)[unfolded parameter_sets_def] Sort_avc_sets[of sps pps i j]
    by (simp add: Marshal_units_def holds_body_def buf_ok_def Let_def)
qed

lemma buf_write_ok: "buf_write i bs b = Some b' \<Longrightarrow> buf_ok b \<Longrightarrow> buf_ok b' \<and> length (vec b') = length (vec b)"
  by (auto simp: buf_write_def buf_ok_def mem_write_length)

lemma Marshal_frame_keeps:
  "Marshal_frame data key p = Some p' \<Longrightarrow> buf_ok (f_buf p) \<Longrightarrow> is264 p' = is264 p \<and> f_offset p' = f_offset p \<and> buf_ok (f_buf p')"
  by (auto simp: Marshal_frame_def Let_def bind_eq_Some_conv dest!: buf_write_ok intro: Reset_ok)

lemma Marshal_audio_keeps:
  "Marshal_audio data p = Some p' \<Longrightarrow> buf_ok (f_buf p) \<Longrightarrow> is264 p' = is264 p \<and> f_offset p' = f_offset p \<and> buf_ok (f_buf p')"
  by (auto simp: Marshal_audio_def Let_def bind_eq_Some_conv dest!: buf_write_ok intro: Reset_ok)

text \<open>
  The body of an AVC picture. Its composition time is not written: the three bytes are those of the body before, 0 where that was
  shorter.
\<close>

definition composition_time :: "bytes \<Rightarrow> bytes" where
  "composition_time prev = map (\<lambda>i. if i < length prev then prev ! i else 0) [2, 3, 4]"

definition picture_body :: "bool \<Rightarrow> bytes \<Rightarrow> bytes \<Rightarrow> bytes" where
  "picture_body key data prev =
     [if key then 0x17 else 0x27, 1] @ composition_time prev @ be32 (word_of_nat (length data)) @ data"

lemma composition_time_take: "composition_time (take 5 v) = composition_time v"
  by (simp add: composition_time_def)

lemma composition_time_header: "composition_time (avc_header sps pps) = [0, 0, 0]"
  by (simp add: composition_time_def avc_header_def)

lemma composition_time_picture: "composition_time (picture_body key data prev) = composition_time prev"
  by (simp add: composition_time_def picture_body_def)

lemma composition_time_drop:
  "map (\<lambda>i. if i < length v then v ! i else 0) [n + 2, n + 3, n + 4] = composition_time (drop n v)"
  by (auto simp: composition_time_def)

definition audio_body :: "bytes \<Rightarrow> bytes" where
  "audio_body data = [0xAF, if length data = 2 then 0 else 1] @ data"

lemma Marshal_frame_body:
  assumes "is264 p" "f_offset p = head_size lib" "buf_ok (f_buf p)"
    and "composition_time (drop (head_size lib) (vec (f_buf p))) = composition_time prev"
  shows "\<exists>p'. Marshal_frame data key p = Some p' \<and> is264 p' \<and> holds_body lib (picture_body key data prev) p'"
proof -
  have ct: "map (\<lambda>i. if i < Len (f_buf p) then vec (f_buf p) ! i else 0) [f_offset p + 2, f_offset p + 3, f_offset p + 4] = composition_time prev"
    using composition_time_drop[of "vec (f_buf p)" "f_offset p"] assms(2,4) by (simp only: Len_def)
  obtain p' where p': "Marshal_frame data key p = Some p'"
    "drop (f_offset p) (vec (f_buf p')) = picture_body key data prev" "Len (f_buf p') = f_offset p + 9 + length data"
    using Marshal_frame_layout[of data key p] assms(1) unfolding ct picture_body_def by (simp only: if_True) blast
  have "holds_body lib (picture_body key data prev) p'"
    using Marshal_frame_keeps[OF p'(1) assms(3)] assms(2) p'(2,3) by (auto simp: holds_body_def Len_def)
  then show ?thesis
    using Marshal_frame_keeps[OF p'(1) assms(3)] assms(1) p'(1) by blast
qed

lemma Marshal_audio_body:
  assumes "f_offset p = head_size lib" "buf_ok (f_buf p)"
  shows "\<exists>p'. Marshal_audio data p = Some p' \<and> is264 p' = is264 p \<and> holds_body lib (audio_body data) p'"
proof -
  let ?o = "f_offset p" 
  define b where "b = Reset (f_offset p + 2 + length data) (f_buf p)"
  define v where "v = vec b"
  have lv: "length v = ?o + 2 + length data"
    by (simp add: v_def b_def)
  let ?h = "[0xAF, if length data = 2 then 0 else 1] :: bytes"
  have 1: "buf_write ?o ?h b = Some (b\<lparr>vec := take ?o v @ ?h @ drop (?o + 2) v\<rparr>)" (is "_ = Some ?b1")
    using lv split3[of v ?o 2 "length data"] by (intro buf_write_mid[where ys = "take 2 (drop ?o v)"]) (simp_all flip: v_def)
  have 2: "buf_write (?o + 2) data ?b1 = Some (?b1\<lparr>vec := (take ?o v @ ?h) @ data @ []\<rparr>)"
    using lv by (intro buf_write_mid[where ys = "drop (?o + 2) v"]) simp_all
  have "Marshal_audio data p = Some (p\<lparr>f_buf := ?b1\<lparr>vec := (take ?o v @ ?h) @ data @ []\<rparr>\<rparr>)"
    using 1 2 by (simp add: Marshal_audio_def Let_def b_def)
  moreover have "buf_ok b"
    by (simp add: b_def Reset_ok assms)
  ultimately show ?thesis
    using lv assms(1) by (auto simp: holds_body_def buf_ok_def audio_body_def v_def)
qed

subsection \<open>Publishing\<close>

text \<open>
  What librtmp is relied on: its structure fits the head, its two kinds of packets differ, a stream stays connected, and sending a packet
  leaves the buffer its size and the first five bytes of the body as they are (chunk headers are put behind the first chunk).
\<close>

definition streaming :: "librtmp \<Rightarrow> bool" where
  "streaming lib \<longleftrightarrow> (\<forall>p. length (image lib p) \<le> head_size lib) \<and> TYPE_AUDIO lib \<noteq> TYPE_VIDEO lib \<and>
     (\<forall>h. answer lib h RTMP_IsConnected = 1) \<and> (\<forall>h url. answer lib h (RTMP_SetupURL url) \<noteq> 0) \<and>
     (\<forall>h. answer lib h RTMP_Connect \<noteq> 0) \<and> (\<forall>h. answer lib h RTMP_ConnectStream \<noteq> 0) \<and>
     (\<forall>h p v. length (leaves lib h p v) = length v \<and>
       take 5 (drop (head_size lib) (leaves lib h p v)) = take 5 (drop (head_size lib) v))"

definition sent :: "client \<Rightarrow> rtmp_packet list" where
  "sent s = List.map_filter (\<lambda>c. case c of RTMP_SendPacket p \<Rightarrow> Some p | _ \<Rightarrow> None) (calls s)"

lemma sent_calls: "sent (s\<lparr>calls := xs @ ys\<rparr>) = sent (s\<lparr>calls := xs\<rparr>) @ sent (s\<lparr>calls := ys\<rparr>)"
  by (simp add: sent_def map_filter_def)

text \<open>A packet with the fields of its kind.\<close>

definition is_packet :: "librtmp \<Rightarrow> bool \<times> int \<times> bytes \<Rightarrow> rtmp_packet \<Rightarrow> bool" where
  "is_packet lib = (\<lambda>(audio, dts, body) p.
     m_packetType p = (if audio then TYPE_AUDIO lib else TYPE_VIDEO lib) \<and> m_nChannel p = (if audio then 5 else 4) \<and>
     m_headerType p = (if audio then SIZE_MEDIUM lib else SIZE_LARGE lib) \<and> m_hasAbsTimestamp p = 0 \<and>
     m_nTimeStamp p = word_of_int dts \<and> m_nBodySize p = word_of_nat (length body) \<and> m_body p = body)"

text \<open>A client that publishes since \<open>t0\<close>, when the body it has sent last begins like \<open>prev\<close>.\<close>

definition publishing :: "librtmp \<Rightarrow> int \<Rightarrow> bytes \<Rightarrow> client \<Rightarrow> bool" where
  "publishing lib t0 prev s \<longleftrightarrow> rtmp s \<and> fts s = t0 \<and> f_offset (pkt s) = head_size lib \<and> buf_ok (f_buf (pkt s)) \<and> is264 (pkt s) \<and>
     composition_time (drop (head_size lib) (vec (f_buf (pkt s)))) = composition_time prev"

lemma WritePacket_sends:
  assumes "streaming lib" "rtmp s" "fts s = t0" "is264 (pkt s)" "holds_body lib body (pkt s)"
  shows "\<exists>r s' p. WritePacket lib (if audio then TYPE_AUDIO lib else TYPE_VIDEO lib) (word_of_int dts) s = Some (r, s') \<and>
    publishing lib t0 body s' \<and> sent s' = sent s @ [p] \<and> is_packet lib (audio, dts, body) p"
proof -
  let ?v = "vec (f_buf (pkt s))" and ?h = "calls s @ [RTMP_IsConnected]"
  let ?p = "the_packet lib (if audio then TYPE_AUDIO lib else TYPE_VIDEO lib) (word_of_int dts) ?v s"
  let ?i = "image lib ?p"
  have b: "buf_ok (f_buf (pkt s))" "?v \<noteq> []" "head_size lib \<le> length ?v" "drop (head_size lib) ?v = body" "f_offset (pkt s) = head_size lib"
    using assms(5) by (auto simp: holds_body_def)
  let ?b = "(f_buf (pkt s))\<lparr>vec := ?i @ drop (length ?i) ?v\<rparr>"
  let ?l = "leaves lib ?h ?p (vec ?b)"
  let ?s = "s\<lparr>pkt := (pkt s)\<lparr>f_buf := ?b\<lparr>vec := ?l\<rparr>\<rparr>, calls := ?h @ [RTMP_SendPacket ?p]\<rparr>"
  have i: "length ?i \<le> head_size lib" "length ?i \<le> length ?v"
    using assms(1) b(3) by (auto simp: streaming_def intro: order_trans)
  have "Bytes (f_buf (pkt s)) = Some ?v"
    using b(1,2) by (cases ?v) (auto simp: Bytes_def buf_ok_def)
  moreover have "buf_write 0 ?i (f_buf (pkt s)) = Some ?b"
    using i(2) by (simp add: buf_write_def mem_write_def)
  ultimately have w: "WritePacket lib (if audio then TYPE_AUDIO lib else TYPE_VIDEO lib) (word_of_int dts) s =
      Some (answer lib ?h (RTMP_SendPacket ?p), ?s)"
    using assms(1,2) by (simp add: WritePacket_def Let_def do_call_def streaming_def)
  have l: "length ?l = length ?v" "take 5 (drop (head_size lib) ?l) = take 5 (drop (head_size lib) (vec ?b))"
    using assms(1) i(2) by (simp_all add: streaming_def)
  have "drop (head_size lib) (vec ?b) = body"
    using i b(4) by (simp add: drop_append)
  then have "composition_time (drop (head_size lib) ?l) = composition_time body"
    using l(2) composition_time_take by metis
  moreover have "buf_ok (?b\<lparr>vec := ?l\<rparr>)"
    using b(1) l(1) by (simp add: buf_ok_def)
  ultimately have "publishing lib t0 body ?s"
    using assms(2-4) b(5) by (simp add: publishing_def)
  moreover have "is_packet lib (audio, dts, body) ?p"
  proof -
    have "word_of_nat (length ?v) - word_of_nat (head_size lib) = (word_of_nat (length body) :: u32)"
      using b(3,4) by (metis length_drop of_nat_diff)
    then show ?thesis
      using b(4) assms(1) by (auto simp: is_packet_def the_packet_def streaming_def)
  qed
  moreover have "sent ?s = sent s @ [?p]"
    by (simp add: sent_def map_filter_def)
  ultimately show ?thesis
    using w by blast
qed

text \<open>What is published: a key picture with its parameter sets, another picture, or audio.\<close>

datatype media = Key bytes bytes bytes | Delta bytes | Audio bytes

fun frame_of :: "media \<Rightarrow> bytes" where
  "frame_of (Key sps pps x) = annexb [sps, pps, x]"
| "frame_of (Delta x) = annexb [x]"
| "frame_of (Audio x) = x"

fun type_of :: "media \<Rightarrow> int" where
  "type_of (Key sps pps x) = 1"
| "type_of (Delta x) = 2"
| "type_of (Audio x) = 3"

text \<open>Three bytes can be read behind a frame, because the splitter does.\<close>

definition write_media :: "librtmp \<Rightarrow> media \<times> int \<Rightarrow> client \<Rightarrow> client option" where
  "write_media lib = (\<lambda>(x, ts) s. map_option snd (WriteFrame lib (frame_of x @ [0, 0, 0]) (length (frame_of x)) (type_of x) ts s))"

fun publish :: "librtmp \<Rightarrow> (media \<times> int) list \<Rightarrow> client \<Rightarrow> client option" where
  "publish lib [] s = Some s"
| "publish lib (x # xs) s = do { s \<leftarrow> write_media lib x s; publish lib xs s }"

fun well_formed :: "media \<Rightarrow> bool" where
  "well_formed (Key sps pps x) \<longleftrightarrow> parameter_sets sps pps \<and> no_start sps \<and> no_start pps \<and> no_start (x @ [0, 0, 0])"
| "well_formed (Delta x) \<longleftrightarrow> no_start (x @ [0, 0, 0])"
| "well_formed (Audio x) \<longleftrightarrow> True"

text \<open>The bodies of the packets of one of them, each with its kind, and of a list of them with their times.\<close>

fun bodies :: "media \<Rightarrow> bytes \<Rightarrow> (bool \<times> bytes) list" where
  "bodies (Key sps pps x) prev = [(False, avc_header sps pps), (False, picture_body True x (avc_header sps pps))]"
| "bodies (Delta x) prev = [(False, picture_body False x prev)]"
| "bodies (Audio x) prev = [(True, audio_body x)]"

fun expected :: "int \<Rightarrow> bytes \<Rightarrow> (media \<times> int) list \<Rightarrow> (bool \<times> int \<times> bytes) list" where
  "expected t0 prev [] = []"
| "expected t0 prev ((x, ts) # xs) =
     map (\<lambda>(audio, body). (audio, ts - t0, body)) (bodies x prev) @ expected t0 (snd (last (bodies x prev))) xs"

lemma send_body:
  assumes "streaming lib" "publishing lib t0 prev s" "holds_body lib body p" "is264 p"
  shows "\<exists>r s' q. WritePacket lib (if audio then TYPE_AUDIO lib else TYPE_VIDEO lib) (word_of_int dts) (s\<lparr>pkt := p\<rparr>) = Some (r, s') \<and>
    publishing lib t0 body s' \<and> sent s' = sent s @ [q] \<and> is_packet lib (audio, dts, body) q"
  using WritePacket_sends[of lib "s\<lparr>pkt := p\<rparr>" t0 body audio dts] assms by (simp add: sent_def publishing_def)

lemma send_picture:
  assumes "streaming lib" "publishing lib t0 prev s"
  shows "\<exists>p r s' q. Marshal_frame data key (pkt s) = Some p \<and>
    WritePacket lib (TYPE_VIDEO lib) (word_of_int dts) (s\<lparr>pkt := p\<rparr>) = Some (r, s') \<and>
    publishing lib t0 (picture_body key data prev) s' \<and> sent s' = sent s @ [q] \<and> is_packet lib (False, dts, picture_body key data prev) q"
proof -
  obtain p where p: "Marshal_frame data key (pkt s) = Some p" "is264 p" "holds_body lib (picture_body key data prev) p"
    using Marshal_frame_body[of "pkt s" lib prev data key] assms(2) unfolding publishing_def by blast
  then show ?thesis
    using send_body[OF assms(1,2) p(3,2), of False dts] by auto
qed

lemma write_sends:
  assumes lib: "streaming lib" and s: "publishing lib t0 prev s" and x: "well_formed x"
    and t: "t0 \<noteq> 0 \<or> type_of x = 1 \<and> ts = 0" "\<bar>t0\<bar> < 2 ^ 62" "\<bar>ts\<bar> < 2 ^ 62"
  shows "\<exists>s' ps. write_media lib (x, ts) s = Some s' \<and> publishing lib t0 (snd (last (bodies x prev))) s' \<and> sent s' = sent s @ ps \<and>
    list_all2 (is_packet lib) (map (\<lambda>(audio, body). (audio, ts - t0, body)) (bodies x prev)) ps"
proof -
  let ?m = "frame_of x @ [0, 0, 0]" and ?d = "word_of_int (ts - t0) :: u32"
  have w: "WriteFrame lib ?m (length (frame_of x)) (type_of x) ts s =
      (if type_of x = 3 then WriteAudio lib ?m (length (frame_of x)) ?d s
       else WriteVideo lib ?m (length (frame_of x)) (type_of x = 1) ?d s)"
  proof -
    have "\<not> (ts - t0 < - (2 ^ 63) \<or> 2 ^ 63 \<le> ts - t0)" "fts s = t0"
      using s(1) t by (auto simp: publishing_def)
    moreover have keep: "s\<lparr>fts := 0\<rparr> = s" if "fts s = 0"
      using that by (cases s) simp
    ultimately show ?thesis
      using t(1) by (cases "t0 = 0") (simp_all add: WriteFrame_def Let_def keep del: of_int_diff)
  qed
  show ?thesis
  proof (cases x)
    case (Key sps pps pic)
    let ?us = "[unit_of sps 4, unit_of pps (8 + length sps)]"
    have ps: "parameter_sets sps pps" "no_start sps" "no_start pps" "no_start (pic @ [0, 0, 0])"
      using x Key by simp_all
    have m: "mem_slice ?m 4 (length sps) = Some sps" "mem_slice ?m (8 + length sps) (length pps) = Some pps"
      "mem_slice ?m (12 + length sps + length pps) (length pic) = Some pic"
      using Key key_slices by simp_all
    obtain p where p: "Marshal_units ?m ?us (pkt s) = Some p" "is264 p" "holds_body lib (avc_header sps pps) p"
      using Marshal_units_body[OF ps(1) m(1,2)] s(1) unfolding publishing_def by blast
    obtain r1 s1 c where s1: "WritePacket lib (TYPE_VIDEO lib) ?d (s\<lparr>pkt := p\<rparr>) = Some (r1, s1)" "publishing lib t0 (avc_header sps pps) s1"
      "sent s1 = sent s @ [c]" "is_packet lib (False, ts - t0, avc_header sps pps) c"
      using send_body[OF lib s(1) p(3,2), of False "ts - t0"] by auto
    obtain p2 r2 s2 k where s2: "Marshal_frame pic True (pkt s1) = Some p2"
      "WritePacket lib (TYPE_VIDEO lib) ?d (s1\<lparr>pkt := p2\<rparr>) = Some (r2, s2)" "publishing lib t0 (picture_body True pic (avc_header sps pps)) s2"
      "sent s2 = sent s1 @ [k]" "is_packet lib (False, ts - t0, picture_body True pic (avc_header sps pps)) k"
      using send_picture[OF lib s1(2)] by blast
    have "write_media lib (x, ts) s = Some s2"
      using w Key Split_key[OF ps(2-4)] p(1) s1(1) m(3) s2(1,2) by (simp add: write_media_def WriteVideo_def)
    then show ?thesis
      using s1(3,4) s2(3-5) Key by (intro exI[of _ s2] exI[of _ "[c, k]"]) simp
  next
    case (Delta pic)
    obtain p2 r2 s2 k where s2: "Marshal_frame pic False (pkt s) = Some p2"
      "WritePacket lib (TYPE_VIDEO lib) ?d (s\<lparr>pkt := p2\<rparr>) = Some (r2, s2)" "publishing lib t0 (picture_body False pic prev) s2"
      "sent s2 = sent s @ [k]" "is_packet lib (False, ts - t0, picture_body False pic prev) k"
      using send_picture[OF lib s] by blast
    have "mem_slice ?m 4 (length pic) = Some pic"
      using Delta by (simp add: mem_slice_def)
    then have "write_media lib (x, ts) s = Some s2"
      using w Delta x Split_delta[of pic] s2(1,2) by (simp add: write_media_def WriteVideo_def)
    then show ?thesis
      using s2(3-5) Delta by (intro exI[of _ s2] exI[of _ "[k]"]) simp
  next
    case (Audio a)
    obtain p where p: "Marshal_audio a (pkt s) = Some p" "is264 p" "holds_body lib (audio_body a) p"
      using Marshal_audio_body[of "pkt s" lib a] s unfolding publishing_def by blast
    obtain r1 s1 q where s1: "WritePacket lib (TYPE_AUDIO lib) ?d (s\<lparr>pkt := p\<rparr>) = Some (r1, s1)" "publishing lib t0 (audio_body a) s1"
      "sent s1 = sent s @ [q]" "is_packet lib (True, ts - t0, audio_body a) q"
      using send_body[OF lib s(1) p(3,2), of True "ts - t0"] by auto
    have "write_media lib (x, ts) s = Some s1"
      using w Audio p(1) s1(1) by (simp add: write_media_def WriteAudio_def mem_slice_def)
    then show ?thesis
      using s1(2-4) Audio by (intro exI[of _ s1] exI[of _ "[q]"]) simp
  qed
qed

lemma publish_sends:
  assumes "streaming lib" "t0 \<noteq> 0" "\<bar>t0\<bar> < 2 ^ 62" "list_all (\<lambda>(x, ts). well_formed x \<and> \<bar>ts\<bar> < 2 ^ 62) xs"
    and "publishing lib t0 prev s"
  shows "\<exists>s' ps. publish lib xs s = Some s' \<and> sent s' = sent s @ ps \<and> list_all2 (is_packet lib) (expected t0 prev xs) ps"
  using assms(4,5)
proof (induction xs arbitrary: s prev)
  case Nil
  then show ?case
    by (intro exI[of _ s] exI[of _ "[]"]) simp
next
  case (Cons y xs)
  obtain x ts where y: "y = (x, ts)"
    by fastforce
  let ?p = "snd (last (bodies x prev))"
  obtain s1 ps where s1: "write_media lib y s = Some s1" "publishing lib t0 ?p s1" "sent s1 = sent s @ ps"
    "list_all2 (is_packet lib) (map (\<lambda>(audio, body). (audio, ts - t0, body)) (bodies x prev)) ps"
    using write_sends[OF assms(1) Cons.prems(2) _ _ assms(3), of x ts] assms(2) Cons.prems(1) y by auto
  obtain s2 qs where "publish lib xs s1 = Some s2" "sent s2 = sent s1 @ qs" "list_all2 (is_packet lib) (expected t0 ?p xs) qs"
    using Cons.IH[OF _ s1(2)] Cons.prems(1) by auto
  then show ?case
    using s1 y by (intro exI[of _ s2] exI[of _ "ps @ qs"]) (simp add: list_all2_appendI)
qed

text \<open>Before the first key picture nothing is sent.\<close>

lemma publish_waits:
  assumes "fts s = 0" "list_all (\<lambda>(x, ts). type_of x \<noteq> 1) xs"
  shows "publish lib (xs @ ys) s = publish lib ys s"
  using assms(2) by (induction xs) (auto simp: write_media_def WriteFrame_def assms(1))

text \<open>The first key picture sets the origin of the time stamps.\<close>

lemma write_first:
  assumes "fts s = 0"
  shows "write_media lib (Key sps pps x, t0) s = write_media lib (Key sps pps x, t0) (s\<lparr>fts := t0\<rparr>)"
  using assms by (simp add: write_media_def WriteFrame_def Let_def)

lemma Dial_streaming:
  assumes "streaming lib"
  shows "\<exists>s. Dial lib url (Client lib) = (True, s) \<and> rtmp s \<and> fts s = 0 \<and> pkt s = Packet (head_size lib) \<and> sent s = []"
  using assms by (simp add: Dial_def Client_def do_call_def note_call_def Let_def streaming_def sent_def map_filter_def)

text \<open>C29. A client that has dialled a server and stays connected sends nothing before the first key picture. If that has a time stamp other
  than 0, it and everything after it go out in order, a key picture as an AVC sequence header and the picture, other pictures and audio as one
  packet each, with the channel and header of their kind, the size and bytes of the body as FLV has them, and time stamps counted from the first key picture;
  except that the composition time of a picture is not written: its three bytes are 0 behind a key picture, but those of the audio when audio was
  sent since. If the first key picture has the time stamp 0, it is sent and what follows is dropped up to the next key picture. (Pictures
  are H.264: a key picture is a frame of the two parameter sets, which fit the packer's 512 bytes, and one unit, another picture one unit.)\<close>

theorem rtmp_publishes:
  assumes "streaming lib" "list_all (\<lambda>(x, ts). type_of x \<noteq> 1) before"
    and "list_all (\<lambda>(x, ts). well_formed x \<and> \<bar>ts\<bar> < 2 ^ 62) ((Key sps pps x, t0) # after)"
  shows "\<exists>s. Dial lib url (Client lib) = (True, s) \<and>
    (t0 \<noteq> 0 \<longrightarrow> (\<exists>s'. publish lib (before @ (Key sps pps x, t0) # after) s = Some s' \<and>
      list_all2 (is_packet lib) (expected t0 [] ((Key sps pps x, t0) # after)) (sent s'))) \<and>
    (t0 = 0 \<and> list_all (\<lambda>(x, ts). type_of x \<noteq> 1) after \<longrightarrow> (\<exists>s'. publish lib (before @ (Key sps pps x, t0) # after) s = Some s' \<and>
      list_all2 (is_packet lib) (expected 0 [] [(Key sps pps x, 0)]) (sent s')))"
proof -
  obtain s where s: "Dial lib url (Client lib) = (True, s)" "rtmp s" "fts s = 0" "pkt s = Packet (head_size lib)" "sent s = []"
    using Dial_streaming[OF assms(1)] by blast
  let ?s = "s\<lparr>fts := t0\<rparr>"
  have p: "publishing lib t0 [] ?s" "sent ?s = []"
    using s(2,4,5) by (simp_all add: publishing_def Packet_def buf_ok_def Buffer_def sent_def)
  have t: "\<bar>t0\<bar> < 2 ^ 62"
    using assms(3) by simp
  have start: "publish lib (before @ (Key sps pps x, t0) # after) s = publish lib ((Key sps pps x, t0) # after) ?s"
    using publish_waits[OF s(3) assms(2)] write_first[OF s(3)] by simp
  have "\<exists>s'. publish lib (before @ (Key sps pps x, t0) # after) s = Some s' \<and>
      list_all2 (is_packet lib) (expected t0 [] ((Key sps pps x, t0) # after)) (sent s')" if "t0 \<noteq> 0"
    using publish_sends[OF assms(1) that t assms(3) p(1)] start p(2) by auto
  moreover have "\<exists>s'. publish lib (before @ (Key sps pps x, t0) # after) s = Some s' \<and>
      list_all2 (is_packet lib) (expected 0 [] [(Key sps pps x, 0)]) (sent s')"
    if z: "t0 = 0 \<and> list_all (\<lambda>(x, ts). type_of x \<noteq> 1) after"
  proof -
    obtain s1 ps where s1: "write_media lib (Key sps pps x, t0) ?s = Some s1" "fts s1 = t0" "sent s1 = ps"
      "list_all2 (is_packet lib) (expected 0 [] [(Key sps pps x, 0)]) ps"
      using write_sends[OF assms(1) p(1), of "Key sps pps x" t0] t z assms(3) p(2) by (auto simp: publishing_def)
    then have "publish lib ((Key sps pps x, t0) # after) ?s = Some s1"
      using publish_waits[of s1 after lib "[]"] z by simp
    then show ?thesis
      using start s1(3,4) by simp
  qed
  ultimately show ?thesis
    using s(1) by blast
qed

definition plain :: librtmp where
  "plain = \<lparr>head_size = 16, TYPE_AUDIO = 8, TYPE_VIDEO = 9, SIZE_LARGE = 0, SIZE_MEDIUM = 1, answer = (\<lambda>h c. 1),
     m_stream_id = (\<lambda>h. 1), image = (\<lambda>p. replicate 8 0), leaves = (\<lambda>h p v. v)\<rparr>"

theorem rtmp_publishes_witness:
  "\<exists>s s'. Dial plain (asc ''rtmp'') (Client plain) = (True, s) \<and>
    publish plain ([(Audio [1, 2, 3], 20)] @ (Key [0x67, 66, 0, 30] [0x68, 1] [0x65, 9], 40) # [(Audio [4, 5], 80), (Delta [0x61, 7], 90)]) s = Some s' \<and>
    list_all2 (is_packet plain)
      [(False, 0, avc_header [0x67, 66, 0, 30] [0x68, 1]), (False, 0, [0x17, 1, 0, 0, 0, 0, 0, 0, 2, 0x65, 9]), (True, 40, [0xAF, 0, 4, 5]),
       (False, 50, [0x27, 1, 4, 5, 0, 0, 0, 0, 2, 0x61, 7])] (sent s')"
proof -
  have "streaming plain"
    by (simp add: streaming_def plain_def)
  moreover have "no_start [0x67, 66, 0, 30]" "no_start [0x68, 1]" "no_start ([0x65, 9] @ [0, 0, 0])" "no_start ([0x61, 7] @ [0, 0, 0])"
    by (auto simp: no_start_code no_start_upto_def START_def upt_rec)
  moreover have "parameter_sets [0x67, 66, 0, 30] [0x68, 1]"
    by (simp add: parameter_sets_def avc_sets_def IsH264_def nalu_types)
  moreover have "expected 40 [] [(Key [0x67, 66, 0, 30] [0x68, 1] [0x65, 9], 40), (Audio [4, 5], 80), (Delta [0x61, 7], 90)] =
      [(False, 0, avc_header [0x67, 66, 0, 30] [0x68, 1]), (False, 0, [0x17, 1, 0, 0, 0, 0, 0, 0, 2, 0x65, 9]), (True, 40, [0xAF, 0, 4, 5]),
       (False, 50, [0x27, 1, 4, 5, 0, 0, 0, 0, 2, 0x61, 7])]"
    by (simp add: picture_body_def audio_body_def composition_time_header be32_def le32_def) (simp add: composition_time_def)
  ultimately show ?thesis
    using rtmp_publishes[of plain "[(Audio [1, 2, 3], 20)]" "[0x67, 66, 0, 30]" "[0x68, 1]" "[0x65, 9]" 40
        "[(Audio [4, 5], 80), (Delta [0x61, 7], 90)]" "asc ''rtmp''"] by auto
qed

end
