(* ===== verification/Ffmpeg_Mp4.thy ===== *)
theory Ffmpeg_Mp4
  imports Avc_Units Faac_Encoder
begin

section \<open>libffmpeg::Mp4: recording with FFmpeg (src/stream/ffmp4.hpp)\<close>

text \<open>
  The recorder that takes frames and raw audio, encodes the audio and hands packets to libavformat. The calls of the library are
  recorded; what they answer is an argument and may depend on the calls before, as is \<open>rescale\<close>, which takes milliseconds to the time
  base of a stream. A member that points to a deleted object is \<open>Dangling\<close>; using it, or deleting it again, is \<open>None\<close>.
\<close>

datatype codec = AV_CODEC_ID_NONE | AV_CODEC_ID_H264 | AV_CODEC_ID_HEVC | AV_CODEC_ID_AAC

record avstream =
  codec_id :: codec
  st_width :: nat
  st_height :: nat
  frame_rate :: "int \<times> int"
  nb_channels :: nat
  sample_rate :: nat
  frame_size :: nat
  bit_rate :: nat
  extradata :: bytes

definition avstream_zero :: avstream where
  "avstream_zero = \<lparr>codec_id = AV_CODEC_ID_NONE, st_width = 0, st_height = 0, frame_rate = (0, 1), nb_channels = 0, sample_rate = 0,
     frame_size = 0, bit_rate = 0, extradata = []\<rparr>"

record avpacket =
  pkt_key :: bool
  stream_index :: nat
  pkt_data :: bytes
  pkt_size :: int
  pkt_dts :: int
  pkt_pts :: int

datatype av_call =
  avformat_alloc_output_context2 | avio_open | avformat_new_stream | avformat_write_header "avstream list"
  | av_interleaved_write_frame avpacket | avio_flush | av_write_trailer | avio_closep | avformat_free_context

record libav =
  av_answer :: "av_call list \<Rightarrow> av_call \<Rightarrow> int"
  rescale :: "nat \<Rightarrow> int \<Rightarrow> int"
  aac :: "nat \<Rightarrow> bytes \<Rightarrow> int \<times> bytes"
  aac_open :: "bool \<times> nat \<times> nat"
  aac_special :: bytes

datatype 'a owned = Null | Live 'a | Dangling

record recorder =
  pOfmtCtx :: bool
  pb :: bool
  streams :: "avstream list"
  nVSIdx :: nat
  nASIdx :: nat
  firstFrameTs :: int
  ldts :: int
  faac_enc :: "encoder owned"
  av_calls :: "av_call list"

definition av_do :: "libav \<Rightarrow> av_call \<Rightarrow> recorder \<Rightarrow> int \<times> recorder" where
  "av_do lib c s = (av_answer lib (av_calls s) c, s\<lparr>av_calls := av_calls s @ [c]\<rparr>)"

definition av_note :: "libav \<Rightarrow> av_call \<Rightarrow> recorder \<Rightarrow> recorder" where
  "av_note lib c s = snd (av_do lib c s)"

text \<open>The context is set when the call does not fail; the constructor ignores what \<open>init\<close> returns.\<close>

definition ff_init :: "libav \<Rightarrow> recorder \<Rightarrow> bool \<times> recorder" where
  "ff_init lib s =
     (let (code, s) = av_do lib avformat_alloc_output_context2 s;
          s = s\<lparr>pOfmtCtx := 0 \<le> code\<rparr>
      in if code \<noteq> 0 \<or> \<not> pOfmtCtx s then (False, s)
         else (let (code, s) = av_do lib avio_open s in (code = 0, s\<lparr>pb := 0 \<le> code\<rparr>)))"

definition ff_Mp4 :: "libav \<Rightarrow> recorder" where
  "ff_Mp4 lib = snd (ff_init lib \<lparr>pOfmtCtx = False, pb = False, streams = [], nVSIdx = 0, nASIdx = 0, firstFrameTs = 0, ldts = 0,
     faac_enc = Null, av_calls = []\<rparr>)"

text \<open>\<open>Close\<close>, which the destructor calls too, keeps the pointer to the encoder it deletes.\<close>

definition ff_Close :: "libav \<Rightarrow> recorder \<Rightarrow> recorder option" where
  "ff_Close lib s =
     (let s = (if pOfmtCtx s then
                 (let s = av_note lib av_write_trailer s;
                      s = (if pb s then (av_note lib avio_closep s)\<lparr>pb := False\<rparr> else s)
                  in (av_note lib avformat_free_context s)\<lparr>pOfmtCtx := False, streams := []\<rparr>)
               else s)
      in case faac_enc s of
           Null \<Rightarrow> Some s
         | Live e \<Rightarrow> Some (s\<lparr>faac_enc := Dangling\<rparr>)
         | Dangling \<Rightarrow> None)"

definition add_video :: "libav \<Rightarrow> bytes \<Rightarrow> unit_t list \<Rightarrow> nat \<Rightarrow> recorder \<Rightarrow> (bool \<times> recorder) option" where
  "add_video lib m units extraLen s =
     (let (r, s) = av_do lib avformat_new_stream s
      in if r = 0 then Some (False, s)
         else do {
           ns \<leftarrow> Sort units;
           u0 \<leftarrow> mem_read ns 0;
           sps \<leftarrow> unit_copy m u0;
           (ok, v) \<leftarrow> Unit_decode_sps (u_type u0) sps \<lparr>width = 0, height = 0, fps = 0\<rparr>;
           extra \<leftarrow> mem_slice m 0 extraLen;
           let st = avstream_zero\<lparr>codec_id := (if length ns = 2 then AV_CODEC_ID_H264 else AV_CODEC_ID_HEVC), st_width := width v,
             st_height := height v, frame_rate := (fps v, 1), extradata := extra\<rparr>;
           Some (True, s\<lparr>nVSIdx := length (streams s), streams := streams s @ [st]\<rparr>)
         })"

definition add_audio :: "libav \<Rightarrow> recorder \<Rightarrow> bool \<times> recorder" where
  "add_audio lib s =
     (let (r, s) = av_do lib avformat_new_stream s
      in if r = 0 then (False, s)
         else
           (let (opened, samples, output) = aac_open lib;
                st = avstream_zero\<lparr>codec_id := AV_CODEC_ID_AAC, nb_channels := 1, sample_rate := 8000, frame_size := 1024, bit_rate := 16000,
                  extradata := (if opened then aac_special lib else [])\<rparr>
            in (True, s\<lparr>nASIdx := length (streams s), streams := streams s @ [st], faac_enc := Live (Encoder opened samples output)\<rparr>)))"

definition newAVStream :: "libav \<Rightarrow> bytes \<Rightarrow> unit_t list \<Rightarrow> nat \<Rightarrow> recorder \<Rightarrow> (bool \<times> recorder) option" where
  "newAVStream lib m units extraLen s =
     (if \<not> pOfmtCtx s then None
      else do {
        (ok, s) \<leftarrow> add_video lib m units extraLen s;
        if \<not> ok then Some (False, s)
        else
          (let (ok, s) = add_audio lib s
           in if \<not> ok then Some (False, s)
              else (let (code, s) = av_do lib (avformat_write_header (streams s)) s in Some (code = 0, s)))
      })"

text \<open>The frame as it is written, after the streams have been added at the first key picture. \<open>None\<close> inside is an early return.\<close>

definition ff_start :: "libav \<Rightarrow> bytes \<Rightarrow> nat \<Rightarrow> u8 \<Rightarrow> int \<Rightarrow> recorder \<Rightarrow> (nat option \<times> nat \<times> recorder) option" where
  "ff_start lib m len ftype ts s =
     (if ftype < 3 then do {
        (frame, len, units) \<leftarrow> Split_nalu m 0 len [];
        case frame of
          None \<Rightarrow> Some (None, len, s)
        | Some d \<Rightarrow>
            if firstFrameTs s = 0 \<and> ftype = 1 then do {
              (ok, s) \<leftarrow> newAVStream lib m units (d - 4) s;
              Some (Some d, len, if ok then s\<lparr>firstFrameTs := ts\<rparr> else s)
            } else Some (Some d, len, s)
      } else Some (Some 0, len, s))"

text \<open>The bytes to write and their number.\<close>

definition ff_data :: "libav \<Rightarrow> bytes \<Rightarrow> nat \<Rightarrow> nat \<Rightarrow> u8 \<Rightarrow> recorder \<Rightarrow> (bytes \<times> nat \<times> recorder) option" where
  "ff_data lib m d len ftype s =
     (if ftype = 3 \<and> faac_enc s \<noteq> Null then
        (case faac_enc s of
           Live e \<Rightarrow> do {
             pcm \<leftarrow> mem_slice m d len;
             (r, n, e) \<leftarrow> Encode (aac lib) pcm e;
             out \<leftarrow> mem_slice (pOutBytes e) 0 n;
             Some (out, n, s\<lparr>faac_enc := Live e\<rparr>)
           }
         | _ \<Rightarrow> None)
      else do { bs \<leftarrow> mem_slice m d len; Some (bs, len, s) })"

definition ff_stamp :: "int \<Rightarrow> int \<Rightarrow> int" where
  "ff_stamp prev dts = (if prev > 0 \<and> dts = prev then dts + 20 else dts)"

definition ff_write :: "libav \<Rightarrow> u8 \<Rightarrow> int \<Rightarrow> bytes \<Rightarrow> nat \<Rightarrow> recorder \<Rightarrow> recorder option" where
  "ff_write lib ftype ts data len s =
     (let dts = ts - firstFrameTs s
      in if dts < - (2 ^ 63) \<or> 2 ^ 63 - 20 \<le> dts then None
         else
           (let dts = ff_stamp (ldts s) dts;
                s = s\<lparr>ldts := dts\<rparr>;
                i = (if ftype = 3 then nASIdx s else nVSIdx s);
                p = \<lparr>pkt_key = (ftype = 1), stream_index = i, pkt_data = data, pkt_size = c_int len,
                  pkt_dts = rescale lib i dts, pkt_pts = rescale lib i dts\<rparr>
            in if \<not> pOfmtCtx s \<or> length (streams s) \<le> i then None
               else Some (av_note lib avio_flush (av_note lib (av_interleaved_write_frame p) s))))"

definition ff_WriteFrame :: "libav \<Rightarrow> int \<Rightarrow> u8 \<Rightarrow> bytes \<Rightarrow> nat \<Rightarrow> recorder \<Rightarrow> recorder option" where
  "ff_WriteFrame lib ts ftype m len s = do {
     (frame, len, s) \<leftarrow> ff_start lib m len ftype ts s;
     case frame of
       None \<Rightarrow> Some s
     | Some d \<Rightarrow>
         if firstFrameTs s = 0 then Some s
         else do {
           (data, len, s) \<leftarrow> ff_data lib m d len ftype s;
           if len = 0 then Some s else ff_write lib ftype ts data len s
         }
   }"

subsection \<open>The encoder's output\<close>

text \<open>An encoder that answers with what it writes, within its buffer.\<close>

definition bounded :: "(nat \<Rightarrow> bytes \<Rightarrow> int \<times> bytes) \<Rightarrow> nat \<Rightarrow> bool" where
  "bounded enc k \<longleftrightarrow> (\<forall>i b. 0 \<le> fst (enc i b) \<and> fst (enc i b) \<le> int k) \<and> k < 2 ^ 31"

definition out_ok :: "encoder \<Rightarrow> bool" where
  "out_ok e \<longleftrightarrow> length (pOutBytes e) = maxOutput e"

lemma encode_call_out:
  assumes "encode_call enc s = Some (n, s')" "bounded enc (maxOutput s)" "out_ok s"
  shows "0 \<le> n \<and> n \<le> int (maxOutput s) \<and> maxOutput s' = maxOutput s \<and> out_ok s' \<and> nAmpOff s' = nAmpOff s"
proof -
  obtain k out where e: "enc (length (inputs s)) (take (2 * inputSamples s) (pAmpData s)) = (k, out)"
    by fastforce
  have "0 \<le> k" "k \<le> int (maxOutput s)"
    using assms(2) e by (auto simp: bounded_def dest: spec[of _ "length (inputs s)"] spec[of _ "take (2 * inputSamples s) (pAmpData s)"] fstI)
  then show ?thesis
    using assms(1,3) e by (auto simp: encode_call_def Let_def out_ok_def split: if_splits)
qed

lemma faac_loop_out:
  assumes "faac_loop enc s = Some (n, s')" "bounded enc (maxOutput s)" "out_ok s"
  shows "0 < n \<and> n \<le> maxOutput s \<and> maxOutput s' = maxOutput s \<and> out_ok s' \<and> nAmpOff s' = nAmpOff s"
proof -
  have "bounded enc (maxOutput s) \<longrightarrow> out_ok s \<longrightarrow> (case y of (n, s') \<Rightarrow>
      0 < n \<and> n \<le> maxOutput s \<and> maxOutput s' = maxOutput s \<and> out_ok s' \<and> nAmpOff s' = nAmpOff s)"
    if "faac_loop enc s = Some y" for y
  proof (rule faac_loop.raw_induct[OF _ that], intro impI)
    fix f enc s y
    assume IH: "\<And>enc s y. f enc s = Some y \<Longrightarrow> bounded enc (maxOutput s) \<longrightarrow> out_ok s \<longrightarrow> (case y of (n, s') \<Rightarrow>
        0 < n \<and> n \<le> maxOutput s \<and> maxOutput s' = maxOutput s \<and> out_ok s' \<and> nAmpOff s' = nAmpOff s)"
      and b: "encode_call enc s \<bind> (\<lambda>(n, s). let aacLen = nat (n mod 2 ^ 64) in if aacLen < 1 then f enc s else Some (aacLen, s)) = Some y"
      and ok: "bounded enc (maxOutput s)" "out_ok s"
    obtain k s1 where s1: "encode_call enc s = Some (k, s1)"
      using b by (cases "encode_call enc s") auto
    note o1 = encode_call_out[OF s1 ok]
    have k: "nat (k mod 2 ^ 64) = nat k"
      using o1 ok(1) by (simp add: bounded_def mod_pos_pos_trivial)
    show "case y of (n, s') \<Rightarrow> 0 < n \<and> n \<le> maxOutput s \<and> maxOutput s' = maxOutput s \<and> out_ok s' \<and> nAmpOff s' = nAmpOff s"
    proof (cases "nat k < 1")
      case True
      then have "f enc s1 = Some y"
        using b s1 k by (simp add: Let_def)
      then show ?thesis
        using IH[of enc s1 y] o1 ok(1) by auto
    next
      case False
      then have "y = (nat k, s1)"
        using b s1 k by (simp add: Let_def)
      then show ?thesis
        using False o1 by auto
    qed
  qed
  from this[OF assms(1)] show ?thesis
    using assms(2,3) by simp
qed

lemma Encode_out:
  assumes "Encode enc p s = Some (r, n, s')" "bounded enc (maxOutput s)" "out_ok s" "faac s"
  shows "maxOutput s' = maxOutput s \<and> out_ok s' \<and>
    (if nAmpOff s + length p < KAmpBufSize then n = 0 else 0 < n \<and> n \<le> maxOutput s)"
proof -
  obtain d where d: "mem_write (pAmpData s) (nAmpOff s) p = Some d"
    using assms(1,4) by (cases "mem_write (pAmpData s) (nAmpOff s) p") (auto simp: Encode_def)
  let ?s = "s\<lparr>pAmpData := d, nAmpOff := nAmpOff s + length p\<rparr>"
  show ?thesis
  proof (cases "nAmpOff s + length p < KAmpBufSize")
    case True
    then show ?thesis
      using assms d by (auto simp: Encode_def out_ok_def)
  next
    case False
    obtain k t where t: "faac_loop enc ?s = Some (k, t)"
      using assms(1,4) d False by (cases "faac_loop enc ?s") (auto simp: Encode_def Let_def)
    have "0 < k \<and> k \<le> maxOutput s \<and> maxOutput t = maxOutput s \<and> out_ok t"
      using faac_loop_out[OF t] assms(2,3) by (simp add: out_ok_def)
    moreover have "n = k \<and> maxOutput s' = maxOutput t \<and> pOutBytes s' = pOutBytes t"
      using assms(1,4) d False t by (auto simp: Encode_def Let_def split: if_splits)
    ultimately show ?thesis
      using False by (simp add: out_ok_def)
  qed
qed

text \<open>How much waits in the encoder's buffer.\<close>

lemma holds_fill:
  assumes "holds_pcm pcm s"
  shows "nAmpOff s = length pcm mod KAmpBufSize"
proof -
  obtain bs where bs: "list_all (\<lambda>b. length b = KAmpBufSize) bs" "pcm = concat bs @ take (nAmpOff s) (pAmpData s)"
    and s: "length (pAmpData s) = 2 * KAmpBufSize" "nAmpOff s < KAmpBufSize"
    using assms by (auto simp: holds_pcm_def)
  have "length (concat bs) = length bs * KAmpBufSize"
    using bs(1) by (induction bs) auto
  then show ?thesis
    using bs(2) s by simp
qed

subsection \<open>Recording\<close>

text \<open>A picture, its last unit with the units before it, or raw audio.\<close>

datatype item = Pic bool "bytes list" bytes | Pcm bytes

fun item_frame :: "item \<Rightarrow> bytes" where
  "item_frame (Pic key us x) = annexb (us @ [x])"
| "item_frame (Pcm a) = a"

fun item_type :: "item \<Rightarrow> u8" where
  "item_type (Pic key us x) = (if key then 1 else 2)"
| "item_type (Pcm a) = 3"

fun item_ok :: "item \<Rightarrow> bool" where
  "item_ok (Pic key us x) \<longleftrightarrow> (\<forall>u \<in> set us. no_start u) \<and> no_start (x @ [0, 0, 0]) \<and> x \<noteq> []"
| "item_ok (Pcm a) \<longleftrightarrow> length a \<le> KAmpBufSize"

fun ff_run :: "libav \<Rightarrow> (item \<times> int) list \<Rightarrow> recorder \<Rightarrow> recorder option" where
  "ff_run lib [] s = Some s"
| "ff_run lib ((x, ts) # xs) s = do {
     s \<leftarrow> ff_WriteFrame lib ts (item_type x) (item_frame x @ [0, 0, 0]) (length (item_frame x)) s;
     ff_run lib xs s
   }"

definition packets :: "recorder \<Rightarrow> avpacket list" where
  "packets s = List.map_filter (\<lambda>c. case c of av_interleaved_write_frame p \<Rightarrow> Some p | _ \<Rightarrow> None) (av_calls s)"

definition is_avpacket :: "libav \<Rightarrow> bool \<Rightarrow> nat \<Rightarrow> int \<Rightarrow> avpacket \<Rightarrow> bool" where
  "is_avpacket lib key i dts p \<longleftrightarrow> pkt_key p = key \<and> stream_index p = i \<and> pkt_dts p = rescale lib i dts \<and> pkt_pts p = rescale lib i dts \<and>
     pkt_size p = c_int (length (pkt_data p))"

text \<open>A time stamp that repeats the one before is moved by 20 milliseconds.\<close>

definition moved :: "int \<Rightarrow> int \<Rightarrow> int" where
  "moved prev t = (if t = prev \<and> 0 < prev then prev + 20 else t)"

lemma moved_stamp: "moved prev t = ff_stamp prev t"
  by (auto simp: moved_def ff_stamp_def)

text \<open>The packets that items become, with \<open>n\<close> bytes of audio waiting and \<open>prev\<close> the time stamp before: a picture is its last unit, audio
  is a packet whenever a block is full.\<close>

fun recorded :: "libav \<Rightarrow> int \<Rightarrow> nat \<Rightarrow> int \<Rightarrow> (item \<times> int) list \<Rightarrow> avpacket list \<Rightarrow> bool" where
  "recorded lib t0 n prev [] ps \<longleftrightarrow> ps = []"
| "recorded lib t0 n prev ((Pic key us x, ts) # xs) ps \<longleftrightarrow>
     (\<exists>p qs. ps = p # qs \<and> is_avpacket lib key 0 (moved prev (ts - t0)) p \<and> pkt_data p = x \<and>
        recorded lib t0 n (moved prev (ts - t0)) xs qs)"
| "recorded lib t0 n prev ((Pcm a, ts) # xs) ps \<longleftrightarrow>
     (if n + length a < KAmpBufSize then recorded lib t0 (n + length a) prev xs ps
      else (\<exists>p qs. ps = p # qs \<and> is_avpacket lib False 1 (moved prev (ts - t0)) p \<and> pkt_data p \<noteq> [] \<and>
        recorded lib t0 (n + length a - KAmpBufSize) (moved prev (ts - t0)) xs qs))"

definition recording :: "libav \<Rightarrow> int \<Rightarrow> nat \<Rightarrow> recorder \<Rightarrow> bool" where
  "recording lib t0 n s \<longleftrightarrow> pOfmtCtx s \<and> length (streams s) = 2 \<and> nVSIdx s = 0 \<and> nASIdx s = 1 \<and> firstFrameTs s = t0 \<and>
     (\<exists>e pcm. faac_enc s = Live e \<and> holds_pcm pcm e \<and> n = nAmpOff e \<and> out_ok e \<and> bounded (aac lib) (maxOutput e))"

lemma ff_write_packet:
  assumes "recording lib t0 n s" "\<bar>t0\<bar> < 2 ^ 61" "\<bar>ts\<bar> < 2 ^ 61" "len = length data"
  shows "\<exists>s' p. ff_write lib ftype ts data len s = Some s' \<and> recording lib t0 n s' \<and> ldts s' = ff_stamp (ldts s) (ts - t0) \<and>
    streams s' = streams s \<and> packets s' = packets s @ [p] \<and>
    is_avpacket lib (ftype = 1) (if ftype = 3 then 1 else 0) (ff_stamp (ldts s) (ts - t0)) p \<and> pkt_data p = data"
proof -
  have "\<not> (ts - t0 < - (2 ^ 63) \<or> 2 ^ 63 - 20 \<le> ts - t0)"
    using assms(2,3) by auto
  then show ?thesis
    using assms(1,4) by (simp add: ff_write_def recording_def Let_def av_note_def av_do_def packets_def is_avpacket_def map_filter_def)
qed

lemma annexb_snoc: "annexb (us @ [x]) = annexb us @ START @ x"
  by (induction us) simp_all

lemma Split_pic:
  assumes "\<forall>u \<in> set us. no_start u" "no_start (x @ [0, 0, 0])"
  shows "\<exists>units. Split_nalu (annexb (us @ [x]) @ [0, 0, 0]) 0 (length (annexb (us @ [x]))) [] =
    Some (Some (length (annexb us) + 4), length x, units)"
  using Split_annexb[of "us @ [x]" "[0, 0, 0]" "[]" "[]"] assms by (simp add: annexb_snoc)

lemma slice_pic: "mem_slice (annexb (us @ [x]) @ slack) (length (annexb us) + 4) (length x) = Some x"
  by (simp add: annexb_snoc mem_slice_def)

lemma write_pic:
  assumes "recording lib t0 n s" "t0 \<noteq> 0" "\<bar>t0\<bar> < 2 ^ 61" "\<bar>ts\<bar> < 2 ^ 61" "item_ok (Pic key us x)"
  shows "\<exists>s' p. ff_WriteFrame lib ts (if key then 1 else 2) (annexb (us @ [x]) @ [0, 0, 0]) (length (annexb (us @ [x]))) s = Some s' \<and>
    recording lib t0 n s' \<and> ldts s' = ff_stamp (ldts s) (ts - t0) \<and> streams s' = streams s \<and> packets s' = packets s @ [p] \<and>
    is_avpacket lib key 0 (ff_stamp (ldts s) (ts - t0)) p \<and> pkt_data p = x"
proof -
  let ?m = "annexb (us @ [x]) @ [0, 0, 0]" and ?d = "length (annexb us) + 4" and ?t = "if key then 1 else 2 :: u8"
  obtain units where "Split_nalu ?m 0 (length (annexb (us @ [x]))) [] = Some (Some ?d, length x, units)"
    using Split_pic assms(5) by fastforce
  then have "ff_start lib ?m (length (annexb (us @ [x]))) ?t ts s = Some (Some ?d, length x, s)"
    using assms(1,2) by (simp add: ff_start_def recording_def)
  moreover have "ff_data lib ?m ?d (length x) ?t s = Some (x, length x, s)"
    using slice_pic by (simp add: ff_data_def)
  moreover obtain s' p where "ff_write lib ?t ts x (length x) s = Some s'" "recording lib t0 n s'"
    "ldts s' = ff_stamp (ldts s) (ts - t0)" "streams s' = streams s" "packets s' = packets s @ [p]"
    "is_avpacket lib (?t = 1) (if ?t = 3 then 1 else 0) (ff_stamp (ldts s) (ts - t0)) p" "pkt_data p = x"
    using ff_write_packet[OF assms(1,3,4), of "length x" x ?t] by blast
  moreover have "firstFrameTs s \<noteq> 0"
    using assms(1,2) by (simp add: recording_def)
  ultimately show ?thesis
    using assms(5) unfolding ff_WriteFrame_def by (cases key) auto
qed

lemma write_pcm:
  assumes "recording lib t0 n s" "t0 \<noteq> 0" "\<bar>t0\<bar> < 2 ^ 61" "\<bar>ts\<bar> < 2 ^ 61" "length a \<le> KAmpBufSize" "answers (aac lib)"
  shows "\<exists>s'. ff_WriteFrame lib ts 3 (a @ [0, 0, 0]) (length a) s = Some s' \<and> streams s' = streams s \<and>
    (if n + length a < KAmpBufSize then recording lib t0 (n + length a) s' \<and> packets s' = packets s \<and> ldts s' = ldts s
     else recording lib t0 (n + length a - KAmpBufSize) s' \<and> ldts s' = ff_stamp (ldts s) (ts - t0) \<and>
       (\<exists>p. packets s' = packets s @ [p] \<and> is_avpacket lib False 1 (ff_stamp (ldts s) (ts - t0)) p \<and> pkt_data p \<noteq> []))"
proof -
  obtain e pcm where e: "faac_enc s = Live e" "holds_pcm pcm e" "n = nAmpOff e" "out_ok e" "bounded (aac lib) (maxOutput e)"
    using assms(1) by (auto simp: recording_def)
  obtain r k e' where e': "Encode (aac lib) a e = Some (r, k, e')" "holds_pcm (pcm @ a) e'"
    using Encode_holds[OF assms(6) e(2) assms(5)] by blast
  have o: "maxOutput e' = maxOutput e" "out_ok e'" "if n + length a < KAmpBufSize then k = 0 else 0 < k \<and> k \<le> maxOutput e"
    using Encode_out[OF e'(1) e(5,4)] e(2,3) by (simp_all add: holds_pcm_def)
  have n: "nAmpOff e' = (n + length a) mod KAmpBufSize" "n < KAmpBufSize"
    using holds_fill[OF e'(2)] holds_fill[OF e(2)] e(3) by (simp_all add: mod_add_left_eq KAmpBufSize_def)
  have n': "nAmpOff e' = (if n + length a < KAmpBufSize then n + length a else n + length a - KAmpBufSize)"
    using n assms(5) by (auto simp: mod_if KAmpBufSize_def)
  let ?s = "s\<lparr>faac_enc := Live e'\<rparr>"
  have rec: "recording lib t0 (nAmpOff e') ?s"
    using assms(1) e' o(1,2) e(5) by (auto simp: recording_def)
  have start: "ff_start lib (a @ [0, 0, 0]) (length a) 3 ts s = Some (Some 0, length a, s)"
    by (simp add: ff_start_def)
  have data: "ff_data lib (a @ [0, 0, 0]) 0 (length a) 3 s = Some (take k (pOutBytes e'), k, ?s)"
    using e(1) e'(1) o by (auto simp: ff_data_def mem_slice_def out_ok_def split: if_splits)
  have ne: "firstFrameTs s \<noteq> 0"
    using assms(1,2) by (simp add: recording_def)
  show ?thesis
  proof (cases "n + length a < KAmpBufSize")
    case True
    then show ?thesis
      using start data ne o(3) rec n' by (simp add: ff_WriteFrame_def packets_def)
  next
    case False
    have k: "k = length (take k (pOutBytes e'))" "0 < k"
      using False o by (auto simp: out_ok_def)
    obtain s' p where s': "ff_write lib 3 ts (take k (pOutBytes e')) k ?s = Some s'" "recording lib t0 (nAmpOff e') s'"
      "ldts s' = ff_stamp (ldts ?s) (ts - t0)" "streams s' = streams ?s" "packets s' = packets ?s @ [p]"
      "is_avpacket lib (3 = (1 :: u8)) (if (3 :: u8) = 3 then 1 else 0) (ff_stamp (ldts ?s) (ts - t0)) p"
      "pkt_data p = take k (pOutBytes e')"
      using ff_write_packet[OF rec assms(3,4) k(1), of 3] by blast
    have "pkt_data p \<noteq> []"
      using k s'(7) by (metis length_0_conv less_numeral_extra(3))
    then show ?thesis
      using start data ne k s' n' False by (auto simp: ff_WriteFrame_def packets_def)
  qed
qed

lemma run_records:
  assumes "t0 \<noteq> 0" "\<bar>t0\<bar> < 2 ^ 61" "answers (aac lib)"
    and "recording lib t0 n s" "list_all (\<lambda>(x, ts). item_ok x \<and> \<bar>ts\<bar> < 2 ^ 61) xs"
  shows "\<exists>s' ps. ff_run lib xs s = Some s' \<and> streams s' = streams s \<and> packets s' = packets s @ ps \<and> recorded lib t0 n (ldts s) xs ps"
  using assms(4,5)
proof (induction xs arbitrary: n s)
  case (Cons y xs)
  obtain x ts where y: "y = (x, ts)"
    by fastforce
  have t: "\<bar>ts\<bar> < 2 ^ 61" "item_ok x" "list_all (\<lambda>(x, ts). item_ok x \<and> \<bar>ts\<bar> < 2 ^ 61) xs"
    using Cons.prems(2) y by auto
  show ?case
  proof (cases x)
    case (Pic key us z)
    obtain s1 p where s1: "ff_WriteFrame lib ts (if key then 1 else 2) (annexb (us @ [z]) @ [0, 0, 0]) (length (annexb (us @ [z]))) s = Some s1"
      "recording lib t0 n s1" "ldts s1 = ff_stamp (ldts s) (ts - t0)" "streams s1 = streams s" "packets s1 = packets s @ [p]"
      "is_avpacket lib key 0 (ff_stamp (ldts s) (ts - t0)) p" "pkt_data p = z"
      using write_pic[OF Cons.prems(1) assms(1,2) t(1)] t(2) unfolding Pic by blast
    then obtain s2 ps where "ff_run lib xs s1 = Some s2" "streams s2 = streams s1" "packets s2 = packets s1 @ ps"
      "recorded lib t0 n (ldts s1) xs ps"
      using Cons.IH[OF s1(2) t(3)] by blast
    then show ?thesis
      using s1 by (intro exI[of _ s2] exI[of _ "p # ps"]) (simp add: y Pic moved_stamp)
  next
    case (Pcm a)
    obtain s1 where s1: "ff_WriteFrame lib ts 3 (a @ [0, 0, 0]) (length a) s = Some s1" "streams s1 = streams s"
      "if n + length a < KAmpBufSize then recording lib t0 (n + length a) s1 \<and> packets s1 = packets s \<and> ldts s1 = ldts s
       else recording lib t0 (n + length a - KAmpBufSize) s1 \<and> ldts s1 = ff_stamp (ldts s) (ts - t0) \<and>
         (\<exists>p. packets s1 = packets s @ [p] \<and> is_avpacket lib False 1 (ff_stamp (ldts s) (ts - t0)) p \<and> pkt_data p \<noteq> [])"
      using write_pcm[OF Cons.prems(1) assms(1,2) t(1) _ assms(3), of a] t(2) Pcm by auto
    show ?thesis
    proof (cases "n + length a < KAmpBufSize")
      case True
      then show ?thesis
        using s1 Cons.IH[of "n + length a" s1] t(3) by (auto simp: y Pcm)
    next
      case False
      then obtain p where p: "packets s1 = packets s @ [p]" "is_avpacket lib False 1 (ff_stamp (ldts s) (ts - t0)) p" "pkt_data p \<noteq> []"
        "recording lib t0 (n + length a - KAmpBufSize) s1" "ldts s1 = ff_stamp (ldts s) (ts - t0)"
        using s1(3) by auto
      obtain s2 ps where "ff_run lib xs s1 = Some s2" "streams s2 = streams s1" "packets s2 = packets s1 @ ps"
        "recorded lib t0 (n + length a - KAmpBufSize) (ldts s1) xs ps"
        using Cons.IH[OF p(4) t(3)] by blast
      then show ?thesis
        using s1(1,2) p False by (intro exI[of _ s2] exI[of _ "p # ps"]) (simp add: y Pcm moved_stamp)
    qed
  qed
qed simp

text \<open>A recorder before its first key picture.\<close>

definition idle :: "recorder \<Rightarrow> bool" where
  "idle s \<longleftrightarrow> pOfmtCtx s \<and> streams s = [] \<and> firstFrameTs s = 0 \<and> ldts s = 0 \<and> packets s = []"

fun is_key :: "item \<Rightarrow> bool" where
  "is_key (Pic key us x) = key"
| "is_key (Pcm a) = False"

lemma run_waits:
  assumes "idle s" "list_all (\<lambda>(x, ts). item_ok x \<and> \<not> is_key x) xs"
  shows "ff_run lib (xs @ ys) s = ff_run lib ys s"
  using assms(2)
proof (induction xs)
  case (Cons y xs)
  obtain x ts where y: "y = (x, ts)"
    by fastforce
  have "ff_WriteFrame lib ts (item_type x) (item_frame x @ [0, 0, 0]) (length (item_frame x)) s = Some s"
  proof (cases x)
    case (Pic key us z)
    then have "\<forall>u \<in> set us. no_start u" "no_start (z @ [0, 0, 0])" "\<not> key"
      using Cons.prems y by simp_all
    moreover from this obtain units where
      "Split_nalu (annexb (us @ [z]) @ [0, 0, 0]) 0 (length (annexb (us @ [z]))) [] = Some (Some (length (annexb us) + 4), length z, units)"
      using Split_pic by blast
    ultimately show ?thesis
      using assms(1) by (simp add: Pic ff_WriteFrame_def ff_start_def idle_def)
  next
    case (Pcm a)
    then show ?thesis
      using assms(1) by (simp add: ff_WriteFrame_def ff_start_def idle_def)
  qed
  then show ?case
    using Cons by (simp add: y)
qed simp

definition libav_works :: "libav \<Rightarrow> nat \<Rightarrow> bool" where
  "libav_works lib output \<longleftrightarrow> (\<forall>h. av_answer lib h avformat_alloc_output_context2 = 0) \<and> (\<forall>h. av_answer lib h avio_open = 0) \<and>
     (\<forall>h. av_answer lib h avformat_new_stream \<noteq> 0) \<and> (\<forall>h st. av_answer lib h (avformat_write_header st) = 0) \<and>
     aac_open lib = (True, 1024, output) \<and> bounded (aac lib) output \<and> answers (aac lib)"

lemma ff_Mp4_idle: "libav_works lib output \<Longrightarrow> idle (ff_Mp4 lib)"
  by (simp add: libav_works_def ff_Mp4_def ff_init_def av_do_def Let_def idle_def packets_def map_filter_def)

text \<open>The streams that the first key picture adds.\<close>

definition video_stream :: "video \<Rightarrow> bytes \<Rightarrow> bytes \<Rightarrow> avstream" where
  "video_stream v sps pps = avstream_zero\<lparr>codec_id := AV_CODEC_ID_H264, st_width := width v, st_height := height v,
     frame_rate := (fps v, 1), extradata := START @ sps @ START @ pps\<rparr>"

definition audio_stream :: "libav \<Rightarrow> avstream" where
  "audio_stream lib = avstream_zero\<lparr>codec_id := AV_CODEC_ID_AAC, nb_channels := 1, sample_rate := 8000, frame_size := 1024,
     bit_rate := 16000, extradata := aac_special lib\<rparr>"

lemma newAVStream_adds:
  assumes lib: "libav_works lib output" and s: "pOfmtCtx s"
    and sets: "avc_sets sps pps" "avc_decode_sps sps \<lparr>width = 0, height = 0, fps = 0\<rparr> = Some (ok, v)"
  shows "\<exists>s'. newAVStream lib (annexb [sps, pps, x] @ slack) [unit_of sps 4, unit_of pps (8 + length sps)] (8 + length sps + length pps) s = Some (True, s') \<and>
    streams s' = streams s @ [video_stream v sps pps, audio_stream lib] \<and> packets s' = packets s \<and> ldts s' = ldts s \<and> pOfmtCtx s' \<and>
    firstFrameTs s' = firstFrameTs s \<and> nVSIdx s' = length (streams s) \<and> nASIdx s' = length (streams s) + 1 \<and>
    faac_enc s' = Live (Encoder True 1024 output)"
proof -
  have len: "length sps < 2 ^ 31" "sps \<noteq> []" "IsH264 (sps ! 0)"
    using sets(1) by (auto simp: avc_sets_def)
  let ?m = "annexb [sps, pps, x] @ slack"
  have u: "unit_copy ?m (unit_of sps 4) = Some sps"
    by (rule unit_copy_of[OF key_slices(1) len(1)])
  have d: "Unit_decode_sps (u_type (unit_of sps 4)) sps \<lparr>width = 0, height = 0, fps = 0\<rparr> = Some (ok, v)"
    using sets(2) len(2,3) by (simp add: Unit_decode_sps_def unit_of_def nth_append)
  have r: "mem_read [unit_of sps 4, unit_of pps (8 + length sps)] 0 = Some (unit_of sps 4)"
    by (simp add: mem_read_def)
  let ?n = "length (streams s)"
  let ?s1 = "(snd (av_do lib avformat_new_stream s))\<lparr>nVSIdx := ?n, streams := streams s @ [video_stream v sps pps]\<rparr>"
  have v: "add_video lib ?m [unit_of sps 4, unit_of pps (8 + length sps)] (8 + length sps + length pps) s = Some (True, ?s1)"
    unfolding add_video_def Sort_avc_sets[OF sets(1)] av_do_def Let_def prod.case Option.bind.bind_lunit r u d key_slices(4)
    using lib by (simp add: libav_works_def video_stream_def)
  let ?s2 = "(snd (av_do lib avformat_new_stream ?s1))\<lparr>nASIdx := ?n + 1, streams := streams s @ [video_stream v sps pps, audio_stream lib],
    faac_enc := Live (Encoder True 1024 output)\<rparr>"
  let ?s3 = "snd (av_do lib (avformat_write_header (streams ?s2)) ?s2)"
  have a: "add_audio lib ?s1 = (True, ?s2)"
    using lib by (simp add: add_audio_def av_do_def Let_def libav_works_def audio_stream_def)
  have "newAVStream lib ?m [unit_of sps 4, unit_of pps (8 + length sps)] (8 + length sps + length pps) s = Some (True, ?s3)"
    unfolding newAVStream_def v using lib s a by (simp add: libav_works_def av_do_def Let_def)
  then show ?thesis
    using s by (intro exI[of _ ?s3]) (simp add: av_do_def packets_def map_filter_def)
qed

lemma newAVStream_works:
  assumes lib: "libav_works lib output" and s: "idle s"
    and sets: "avc_sets sps pps" "avc_decode_sps sps \<lparr>width = 0, height = 0, fps = 0\<rparr> = Some (ok, v)"
  shows "\<exists>s'. newAVStream lib (annexb [sps, pps, x] @ slack) [unit_of sps 4, unit_of pps (8 + length sps)] (8 + length sps + length pps) s = Some (True, s') \<and>
    recording lib t0 0 (s'\<lparr>firstFrameTs := t0\<rparr>) \<and> streams s' = [video_stream v sps pps, audio_stream lib] \<and> packets s' = [] \<and> ldts s' = 0"
proof -
  have e: "holds_pcm [] (Encoder True 1024 output)" "nAmpOff (Encoder True 1024 output) = 0" "out_ok (Encoder True 1024 output)"
    "bounded (aac lib) (maxOutput (Encoder True 1024 output))"
    using lib by (auto simp: libav_works_def Encoder_def out_ok_def KAmpBufSize_def intro!: holds_pcmI[of _ "[]" "[]"])
  have "pOfmtCtx s"
    using s by (simp add: idle_def)
  from newAVStream_adds[OF lib this sets, of x slack] show ?thesis
    using e s by (force simp: recording_def idle_def)
qed

lemma write_first_key:
  assumes lib: "libav_works lib output" and s: "idle s" and t0: "t0 \<noteq> 0"
    and sets: "avc_sets sps pps" "avc_decode_sps sps \<lparr>width = 0, height = 0, fps = 0\<rparr> = Some (ok, v)" "item_ok (Pic True [sps, pps] x)"
  shows "\<exists>s'. recording lib t0 0 s' \<and> streams s' = [video_stream v sps pps, audio_stream lib] \<and> packets s' = [] \<and> ldts s' = 0 \<and>
    ff_run lib ((Pic True [sps, pps] x, t0) # xs) s = ff_run lib ((Pic True [sps, pps] x, t0) # xs) s'"
proof -
  let ?m = "annexb [sps, pps, x] @ [0, 0, 0]"
  have sp: "Split_nalu ?m 0 (length (annexb [sps, pps, x])) [] =
      Some (Some (12 + length sps + length pps), length x, [unit_of sps 4, unit_of pps (8 + length sps)])"
    using sets(3) by (intro Split_key) simp_all
  obtain s1 where s1: "newAVStream lib ?m [unit_of sps 4, unit_of pps (8 + length sps)] (8 + length sps + length pps) s = Some (True, s1)"
    "recording lib t0 0 (s1\<lparr>firstFrameTs := t0\<rparr>)" "streams s1 = [video_stream v sps pps, audio_stream lib]" "packets s1 = []" "ldts s1 = 0"
    using newAVStream_works[OF lib s sets(1,2)] by blast
  let ?s = "s1\<lparr>firstFrameTs := t0\<rparr>"
  have "ff_start lib ?m (length (annexb [sps, pps, x])) 1 t0 s = Some (Some (12 + length sps + length pps), length x, ?s)"
  proof -
    have "firstFrameTs s = 0" "12 + length sps + length pps - 4 = 8 + length sps + length pps" "(1 :: u8) < 3"
      using s by (simp_all add: idle_def)
    then show ?thesis
      unfolding ff_start_def sp by (simp only: s1(1) Option.bind.bind_lunit prod.case option.case simp_thms if_True)
  qed
  moreover have "ff_start lib ?m (length (annexb [sps, pps, x])) 1 t0 ?s = Some (Some (12 + length sps + length pps), length x, ?s)"
    unfolding ff_start_def sp using t0 by simp
  ultimately have "ff_WriteFrame lib t0 1 ?m (length (annexb [sps, pps, x])) s = ff_WriteFrame lib t0 1 ?m (length (annexb [sps, pps, x])) ?s"
    by (simp only: ff_WriteFrame_def)
  then have "ff_run lib ((Pic True [sps, pps] x, t0) # xs) s = ff_run lib ((Pic True [sps, pps] x, t0) # xs) ?s"
    by (simp only: ff_run.simps item_type.simps item_frame.simps append_Cons append_Nil if_True)
  then show ?thesis
    using s1(2-5) by (intro exI[of _ ?s]) (simp add: packets_def)
qed

text \<open>With the time stamp 0 the key picture adds its streams and is dropped.\<close>

lemma write_zero_key:
  assumes lib: "libav_works lib output" and s: "pOfmtCtx s" "firstFrameTs s = 0"
    and sets: "avc_sets sps pps" "avc_decode_sps sps \<lparr>width = 0, height = 0, fps = 0\<rparr> = Some (ok, v)" "item_ok (Pic True [sps, pps] x)"
  shows "\<exists>s'. ff_run lib ((Pic True [sps, pps] x, 0) # xs) s = ff_run lib xs s' \<and> pOfmtCtx s' \<and> firstFrameTs s' = 0 \<and> packets s' = packets s \<and>
    streams s' = streams s @ [video_stream v sps pps, audio_stream lib]"
proof -
  let ?m = "annexb [sps, pps, x] @ [0, 0, 0]"
  have sp: "Split_nalu ?m 0 (length (annexb [sps, pps, x])) [] =
      Some (Some (12 + length sps + length pps), length x, [unit_of sps 4, unit_of pps (8 + length sps)])"
    using sets(3) by (intro Split_key) simp_all
  obtain s1 where s1: "newAVStream lib ?m [unit_of sps 4, unit_of pps (8 + length sps)] (8 + length sps + length pps) s = Some (True, s1)"
    "streams s1 = streams s @ [video_stream v sps pps, audio_stream lib]" "packets s1 = packets s" "pOfmtCtx s1" "firstFrameTs s1 = 0"
    using newAVStream_adds[OF lib s(1) sets(1,2)] s(2) by metis
  let ?s = "s1\<lparr>firstFrameTs := 0\<rparr>"
  have "ff_start lib ?m (length (annexb [sps, pps, x])) 1 0 s = Some (Some (12 + length sps + length pps), length x, ?s)"
  proof -
    have "firstFrameTs s = 0" "12 + length sps + length pps - 4 = 8 + length sps + length pps" "(1 :: u8) < 3"
      using s by simp_all
    then show ?thesis
      unfolding ff_start_def sp by (simp only: s1(1) Option.bind.bind_lunit prod.case option.case simp_thms if_True)
  qed
  then have "ff_WriteFrame lib 0 1 ?m (length (annexb [sps, pps, x])) s = Some ?s"
    by (simp add: ff_WriteFrame_def)
  then have "ff_run lib ((Pic True [sps, pps] x, 0) # xs) s = ff_run lib xs ?s"
    by simp
  then show ?thesis
    using s1(2-4) by (intro exI[of _ ?s]) (simp add: packets_def)
qed

lemma run_zero_keys:
  assumes lib: "libav_works lib output" and s: "pOfmtCtx s" "firstFrameTs s = 0"
    and sets: "avc_sets sps pps" "avc_decode_sps sps \<lparr>width = 0, height = 0, fps = 0\<rparr> = Some (ok, v)" "item_ok (Pic True [sps, pps] x)"
  shows "\<exists>s'. ff_run lib (replicate k (Pic True [sps, pps] x, 0)) s = Some s' \<and> packets s' = packets s \<and>
    streams s' = streams s @ concat (replicate k [video_stream v sps pps, audio_stream lib])"
  using s
proof (induction k arbitrary: s)
  case (Suc k)
  obtain s1 where s1: "ff_run lib ((Pic True [sps, pps] x, 0) # replicate k (Pic True [sps, pps] x, 0)) s =
      ff_run lib (replicate k (Pic True [sps, pps] x, 0)) s1"
    "pOfmtCtx s1" "firstFrameTs s1 = 0" "packets s1 = packets s" "streams s1 = streams s @ [video_stream v sps pps, audio_stream lib]"
    using write_zero_key[OF lib Suc.prems sets] by blast
  then show ?case
    using Suc.IH[OF s1(2,3)] by (simp del: ff_run.simps)
qed simp

text \<open>C30. With a library whose calls succeed, a recorder drops everything before the first key picture. If that has a time stamp other than
  0, it adds a video stream with the size and rate that \<open>decode_sps\<close> makes of the parameter set and an audio stream, and then writes every picture as a
  packet of its last unit and audio, in pieces of at most 2048 bytes, whenever a block is full, each with the time since the first key picture,
  moved by 20 when it repeats the one before. Key pictures at time 0 are dropped, and each of them adds two more streams. (The
  first key picture is a frame of the two H.264 parameter sets and one unit; times are below 2^61.)\<close>

theorem ff_records:
  assumes "libav_works lib output" "list_all (\<lambda>(x, ts). item_ok x \<and> \<not> is_key x) before"
    and "list_all (\<lambda>(x, ts). item_ok x \<and> \<bar>ts\<bar> < 2 ^ 61) ((Pic True [sps, pps] x, t0) # after)"
    and "avc_sets sps pps" "avc_decode_sps sps \<lparr>width = 0, height = 0, fps = 0\<rparr> = Some (ok, v)"
  shows "(t0 \<noteq> 0 \<longrightarrow> (\<exists>s. ff_run lib (before @ (Pic True [sps, pps] x, t0) # after) (ff_Mp4 lib) = Some s \<and>
      streams s = [video_stream v sps pps, audio_stream lib] \<and>
      recorded lib t0 0 0 ((Pic True [sps, pps] x, t0) # after) (packets s))) \<and>
    (\<exists>s. ff_run lib (before @ replicate k (Pic True [sps, pps] x, 0)) (ff_Mp4 lib) = Some s \<and>
      streams s = concat (replicate k [video_stream v sps pps, audio_stream lib]) \<and> packets s = [])"
proof (intro conjI impI)
  let ?xs = "(Pic True [sps, pps] x, t0) # after"
  have i: "idle (ff_Mp4 lib)"
    by (rule ff_Mp4_idle[OF assms(1)])
  have ok: "item_ok (Pic True [sps, pps] x)" "\<bar>t0\<bar> < 2 ^ 61" "answers (aac lib)"
    using assms(1,3) by (auto simp: libav_works_def)
  show "\<exists>s. ff_run lib (before @ ?xs) (ff_Mp4 lib) = Some s \<and> streams s = [video_stream v sps pps, audio_stream lib] \<and>
      recorded lib t0 0 0 ?xs (packets s)" if nz: "t0 \<noteq> 0"
  proof -
    obtain s1 where s1: "recording lib t0 0 s1" "streams s1 = [video_stream v sps pps, audio_stream lib]" "packets s1 = []" "ldts s1 = 0"
      "ff_run lib ?xs (ff_Mp4 lib) = ff_run lib ?xs s1"
      using write_first_key[OF assms(1) i nz assms(4,5) ok(1)] by blast
    obtain s2 ps where "ff_run lib ?xs s1 = Some s2" "streams s2 = streams s1" "packets s2 = packets s1 @ ps" "recorded lib t0 0 (ldts s1) ?xs ps"
      using run_records[OF nz ok(2,3) s1(1) assms(3)] by blast
    then show ?thesis
      using run_waits[OF i assms(2), of lib ?xs] s1(2-5) by simp
  qed
  show "\<exists>s. ff_run lib (before @ replicate k (Pic True [sps, pps] x, 0)) (ff_Mp4 lib) = Some s \<and>
      streams s = concat (replicate k [video_stream v sps pps, audio_stream lib]) \<and> packets s = []"
    using run_waits[OF i assms(2)] run_zero_keys[OF assms(1) _ _ assms(4,5) ok(1), of "ff_Mp4 lib" k] i by (auto simp: idle_def)
qed

definition small_sps :: bytes where
  "small_sps = [0x67, 66, 0, 30, 244, 10, 15, 208, 128, 0, 0, 3, 0, 128, 0, 0, 25, 64]"

lemma small_sps_decodes: "\<exists>v. avc_decode_sps small_sps \<lparr>width = 0, height = 0, fps = 0\<rparr> = Some (True, v) \<and> width v = 320 \<and> height v = 240"
proof -
  define a where "a = \<lparr>ref_idc = 3, profile_idc = 66, constraints = (0, 0, 0, 0), reserved = 0, level_idc = 30, sps_id = 0, high_part = None,
    log2_frame_num = 0, poc = Order_0 0, num_refs = 1, gaps = 0, width_mbs = 19, map_units = 14, field_coding = None, direct_8x8 = 1,
    crop = None, vui_part = Some \<lparr>aspect = None, overscan = None, signal = None, chroma_loc = None, timing = Some (1, 50)\<rparr>\<rparr>"
  have "avc_params_ok a"
    by (simp add: a_def avc_params_ok_def avc_elems_def avc_tail_elems_def)
  moreover have "bits_of (0x67 # 66 # unesc 0x67 66 [0, 30, 244, 10, 15, 208, 128, 0, 0, 3, 0, 128, 0, 0, 25, 64]) =
      encode_elems (avc_elems a) @ True # replicate 6 False"
    unfolding a_def by code_simp
  ultimately have "avc_decode_sps (0x67 # 66 # [0, 30, 244, 10, 15, 208, 128, 0, 0, 3, 0, 128, 0, 0, 25, 64]) \<lparr>width = 0, height = 0, fps = 0\<rparr> =
      Some (True, \<lparr>width = (width_mbs a + 1) * 16, height = (map_units a + 1) * 16, fps = avc_rate (Option.bind (vui_part a) timing)\<rparr>)"
    by (rule avc_decode_written)
  then show ?thesis
    by (simp add: small_sps_def a_def)
qed

text \<open>A library that always succeeds, and an encoder with an answer of four bytes to every block.\<close>

definition easy_lib :: libav where
  "easy_lib = \<lparr>av_answer = (\<lambda>h c. case c of avformat_new_stream \<Rightarrow> 1 | _ \<Rightarrow> 0), rescale = (\<lambda>i t. t * 90), aac = (\<lambda>i b. (4, [1, 2, 3, 4])),
     aac_open = (True, 1024, 768), aac_special = [0x15, 0x88]\<rparr>"

theorem ff_records_witness:
  "\<exists>v. width v = 320 \<and> (\<exists>s. ff_run easy_lib ([(Pcm [7, 7], 5)] @ (Pic True [small_sps, [0x68, 1]] [0x65, 9], 40) #
      [(Pcm (replicate 2000 1), 60), (Pic False [] [0x61, 7], 80), (Pcm (replicate 100 2), 80)]) (ff_Mp4 easy_lib) = Some s \<and>
    streams s = [video_stream v small_sps [0x68, 1], audio_stream easy_lib] \<and>
    recorded easy_lib 40 0 0 ((Pic True [small_sps, [0x68, 1]] [0x65, 9], 40) #
      [(Pcm (replicate 2000 1), 60), (Pic False [] [0x61, 7], 80), (Pcm (replicate 100 2), 80)]) (packets s)) \<and>
    (\<exists>s. ff_run easy_lib ([(Pcm [7, 7], 5)] @ replicate 2 (Pic True [small_sps, [0x68, 1]] [0x65, 9], 0)) (ff_Mp4 easy_lib) = Some s \<and>
      streams s = concat (replicate 2 [video_stream v small_sps [0x68, 1], audio_stream easy_lib]) \<and> packets s = [])"
proof -
  obtain v where v: "avc_decode_sps small_sps \<lparr>width = 0, height = 0, fps = 0\<rparr> = Some (True, v)" "width v = 320"
    using small_sps_decodes by blast
  have "libav_works easy_lib 768"
    by (auto simp: libav_works_def easy_lib_def bounded_def answers_def)
  moreover have "no_start small_sps" "no_start [0x68, 1]" "no_start ([0x65, 9] @ [0, 0, 0])" "no_start ([0x61, 7] @ [0, 0, 0])"
    by (auto simp: no_start_code no_start_upto_def START_def small_sps_def upt_rec)
  moreover have "avc_sets small_sps [0x68, 1]"
    by (simp add: avc_sets_def small_sps_def IsH264_def nalu_types)
  ultimately show ?thesis
    using ff_records[of easy_lib 768 "[(Pcm [7, 7], 5)]" small_sps "[0x68, 1]" "[0x65, 9]" 40
        "[(Pcm (replicate 2000 1), 60), (Pic False [] [0x61, 7], 80), (Pcm (replicate 100 2), 80)]" True v 2] v
    by (intro exI[of _ v] conjI) (auto simp: KAmpBufSize_def simp del: ff_run.simps recorded.simps replicate.simps)
qed

text \<open>\<open>Close\<close> on a recorder with an encoder, and then its destructor: the encoder is deleted twice.\<close>

lemma close_twice:
  assumes "faac_enc s = Live e"
  shows "\<exists>s'. ff_Close lib s = Some s' \<and> ff_Close lib s' = None"
  using assms by (simp add: ff_Close_def av_note_def av_do_def Let_def)

end
