(* ===== verification/Timer_Clock.thy ===== *)
theory Timer_Clock
  imports Prelude "HOL-Library.Multiset"
begin

section \<open>Clock and timer (src/time.hpp, src/timer.hpp)\<close>

text \<open>
  The calendar functions of the C library are an argument (\<open>strftime_local\<close>, a text for a number of seconds), and so are the
  clock's readings. The threads of a timer are program counters over the one flag they share; the clock of their sleeping counts
  microseconds.
\<close>

subsection \<open>Time stamps\<close>

text \<open>The thresholds of \<open>Format\<close> are doubles that are exact: 10 to the 15 and 10 to the 12.\<close>

definition Format_seconds :: "int \<Rightarrow> int \<Rightarrow> int" where
  "Format_seconds now t = (if 10 ^ 15 \<le> t then t div 1000000 else if 10 ^ 12 \<le> t then t div 1000 else if t = 0 then now else t)"

definition Format_time :: "(int \<Rightarrow> bytes) \<Rightarrow> int \<Rightarrow> int \<Rightarrow> bytes" where
  "Format_time strftime_local now t = strftime_local (Format_seconds now t)"

definition UnixMilli :: "int \<Rightarrow> int \<Rightarrow> int" where
  "UnixMilli tv_sec tv_usec = tv_sec * 1000 + tv_usec div 1000"

definition Since :: "int \<Rightarrow> int \<Rightarrow> int \<Rightarrow> int" where
  "Since tv_sec tv_usec tb = UnixMilli tv_sec tv_usec - tb"

definition Sleep_usec :: "u32 \<Rightarrow> u32" where
  "Sleep_usec ms = ms * 1000"

text \<open>From September 2001 to the year 33658 a time is shown the same in seconds, milliseconds and microseconds.\<close>

lemma Format_any_unit:
  assumes "10 ^ 9 \<le> s" "s < 10 ^ 12" "0 \<le> ms" "ms < 1000" "0 \<le> us" "us < 1000000"
  shows "Format_time f now s = f s" "Format_time f now (s * 1000 + ms) = f s" "Format_time f now (s * 1000000 + us) = f s"
proof -
  show "Format_time f now s = f s"
    using assms(1,2) by (simp add: Format_time_def Format_seconds_def)
  have "(s * 1000 + ms) div 1000 = s" "10 ^ 12 \<le> s * 1000 + ms" "s * 1000 + ms < 10 ^ 15"
    using assms by auto
  then show "Format_time f now (s * 1000 + ms) = f s"
    by (simp add: Format_time_def Format_seconds_def)
  have "(s * 1000000 + us) div 1000000 = s" "10 ^ 15 \<le> s * 1000000 + us"
    using assms by auto
  then show "Format_time f now (s * 1000000 + us) = f s"
    by (simp add: Format_time_def Format_seconds_def)
qed

text \<open>Before that, milliseconds are taken for seconds; and \<open>Sleep\<close> of an hour and twelve minutes wraps.\<close>

lemma Format_old_milliseconds: "0 < t \<Longrightarrow> t < 10 ^ 12 \<Longrightarrow> Format_time f now t = f t"
  by (simp add: Format_time_def Format_seconds_def)

lemma Sleep_wraps: "Sleep_usec 4294968 = 704"
  by (simp add: Sleep_usec_def)

subsection \<open>The timer\<close>

datatype kind = Timeout | Interval

datatype timer_pc = Check_before | Sleeping int | Check_after | Run | Done

record thread =
  t_kind :: kind
  t_task :: nat
  t_delay :: int
  t_pc :: timer_pc

record timer =
  m_bClear :: bool
  threads :: "thread list"
  now_us :: int
  ran :: "nat list"

definition Timer :: timer where
  "Timer = \<lparr>m_bClear = False, threads = [], now_us = 0, ran = []\<rparr>"

text \<open>\<open>SetTimeout\<close> and \<open>SetInterval\<close> reset the flag and start a thread.\<close>

definition SetTimeout :: "nat \<Rightarrow> int \<Rightarrow> timer \<Rightarrow> timer" where
  "SetTimeout task msDelay s =
     s\<lparr>m_bClear := False, threads := threads s @ [\<lparr>t_kind = Timeout, t_task = task, t_delay = msDelay, t_pc = Check_before\<rparr>]\<rparr>"

definition SetInterval :: "nat \<Rightarrow> int \<Rightarrow> timer \<Rightarrow> timer" where
  "SetInterval task msInterval s =
     s\<lparr>m_bClear := False, threads := threads s @ [\<lparr>t_kind = Interval, t_task = task, t_delay = msInterval, t_pc = Check_before\<rparr>]\<rparr>"

definition Timer_Stop :: "timer \<Rightarrow> timer" where
  "Timer_Stop s = s\<lparr>m_bClear := True\<rparr>"

text \<open>How long a thread sleeps: the timeout counts microseconds, the interval milliseconds.\<close>

definition sleep_us :: "thread \<Rightarrow> int" where
  "sleep_us t = (case t_kind t of Timeout \<Rightarrow> t_delay t | Interval \<Rightarrow> t_delay t * 1000)"

text \<open>One step of a thread; \<open>None\<close> when it sleeps on or has ended.\<close>

definition thread_next :: "bool \<Rightarrow> int \<Rightarrow> thread \<Rightarrow> timer_pc option" where
  "thread_next cleared now t =
     (case t_pc t of
        Check_before \<Rightarrow> Some (if cleared then Done else Sleeping (now + sleep_us t))
      | Sleeping u \<Rightarrow> (if u \<le> now then Some Check_after else None)
      | Check_after \<Rightarrow> Some (if cleared then Done else Run)
      | Run \<Rightarrow> Some (case t_kind t of Timeout \<Rightarrow> Done | Interval \<Rightarrow> Check_before)
      | Done \<Rightarrow> None)"

definition thread_step :: "nat \<Rightarrow> timer \<Rightarrow> timer option" where
  "thread_step i s = do {
     t \<leftarrow> mem_read (threads s) i;
     p \<leftarrow> thread_next (m_bClear s) (now_us s) t;
     Some (s\<lparr>threads := (threads s)[i := t\<lparr>t_pc := p\<rparr>], ran := ran s @ (if t_pc t = Run then [t_task t] else [])\<rparr>)
   }"

datatype timer_event = Set_timeout nat int | Set_interval nat int | Stop_timer | Tick nat | Thread nat

fun timer_step :: "timer_event \<Rightarrow> timer \<Rightarrow> timer option" where
  "timer_step (Set_timeout task d) s = Some (SetTimeout task d s)"
| "timer_step (Set_interval task d) s = Some (SetInterval task d s)"
| "timer_step Stop_timer s = Some (Timer_Stop s)"
| "timer_step (Tick n) s = Some (s\<lparr>now_us := now_us s + int n\<rparr>)"
| "timer_step (Thread i) s = thread_step i s"

fun timer_run :: "timer_event list \<Rightarrow> timer \<Rightarrow> timer option" where
  "timer_run [] s = Some s"
| "timer_run (e # es) s = do { s \<leftarrow> timer_step e s; timer_run es s }"

fun is_set :: "timer_event \<Rightarrow> bool" where
  "is_set (Set_timeout task d) = True"
| "is_set (Set_interval task d) = True"
| "is_set _ = False"

text \<open>The tasks that a thread has decided to run and not yet run.\<close>

definition about_to_run :: "timer \<Rightarrow> nat multiset" where
  "about_to_run s = image_mset t_task (filter_mset (\<lambda>t. t_pc t = Run) (mset (threads s)))"

lemma mset_list_update: "i < length xs \<Longrightarrow> mset (xs[i := y]) + {# xs ! i #} = mset xs + {# y #}"
  by (simp add: mset_update)

lemma thread_step_cleared:
  assumes "thread_step i s = Some s'" "m_bClear s"
  shows "m_bClear s' \<and> mset (ran s') + about_to_run s' = mset (ran s) + about_to_run s"
proof -
  obtain t p where t: "i < length (threads s)" "t = threads s ! i" "thread_next True (now_us s) t = Some p"
    "s' = s\<lparr>threads := (threads s)[i := t\<lparr>t_pc := p\<rparr>], ran := ran s @ (if t_pc t = Run then [t_task t] else [])\<rparr>"
    using assms by (auto simp: thread_step_def bind_eq_Some_conv mem_simps)
  have "p \<noteq> Run"
    using t(3) by (auto simp: thread_next_def split: timer_pc.splits kind.splits if_splits)
  let ?f = "\<lambda>m. image_mset t_task (filter_mset (\<lambda>t. t_pc t = Run) m)"
  have "?f (mset ((threads s)[i := t\<lparr>t_pc := p\<rparr>]) + {# t #}) = ?f (mset (threads s) + {# t\<lparr>t_pc := p\<rparr> #})"
    using mset_list_update[OF t(1), of "t\<lparr>t_pc := p\<rparr>"] t(2) by simp
  then have "?f (mset ((threads s)[i := t\<lparr>t_pc := p\<rparr>])) + (if t_pc t = Run then {# t_task t #} else {#}) = about_to_run s"
    using \<open>p \<noteq> Run\<close> by (simp add: about_to_run_def split: if_splits)
  then show ?thesis
    using assms(2) unfolding t(4) by (cases "t_pc t = Run") (simp_all add: about_to_run_def)
qed

text \<open>After \<open>Stop\<close>, as long as nothing is set again, the tasks that run are those that were about to run, each once.\<close>

theorem stop_is_final:
  assumes "timer_run es (Timer_Stop s) = Some s'" "list_all (\<lambda>e. \<not> is_set e) es"
  shows "mset (ran s') + about_to_run s' = mset (ran s) + about_to_run s"
proof -
  have "mset (ran r') + about_to_run r' = mset (ran r) + about_to_run r"
    if "timer_run es r = Some r'" "m_bClear r" for r r'
    using that assms(2)
  proof (induction es arbitrary: r)
    case (Cons e es)
    then obtain r1 where r1: "timer_step e r = Some r1" "timer_run es r1 = Some r'"
      by (auto simp: bind_eq_Some_conv)
    have "m_bClear r1 \<and> mset (ran r1) + about_to_run r1 = mset (ran r) + about_to_run r"
    proof (cases e)
      case (Thread i)
      then show ?thesis
        using thread_step_cleared[of i r r1] r1(1) Cons.prems(2) by simp
    qed (use r1(1) Cons.prems(2,3) in \<open>auto simp: Timer_Stop_def about_to_run_def\<close>)
    then show ?case
      using Cons.IH[OF r1(2)] Cons.prems(3) by simp
  qed simp
  from this[OF assms(1)] show ?thesis
    by (simp add: Timer_Stop_def about_to_run_def)
qed

text \<open>A timer that is set again lets a stopped interval that still sleeps go on.\<close>

lemma set_revives_stopped:
  "map_option ran (timer_run [Set_interval 1 10, Thread 0, Stop_timer, Set_timeout 2 5, Tick 10000, Thread 0, Thread 0, Thread 0] Timer) =
   Some [1]"
  by (simp add: Timer_def SetInterval_def SetTimeout_def Timer_Stop_def thread_step_def thread_next_def sleep_us_def mem_read_def)

text \<open>A timeout of a second is over after a millisecond.\<close>

lemma timeout_in_microseconds:
  "map_option ran (timer_run [Set_timeout 1 1000, Thread 0, Tick 1000, Thread 0, Thread 0, Thread 0] Timer) = Some [1]"
  by (simp add: Timer_def SetTimeout_def thread_step_def thread_next_def sleep_us_def mem_read_def)

end
