(* ===== verification/Platform.thy ===== *)
theory Platform
  imports C_Text Timer_Clock
begin

section \<open>Files, the single process, the log and the factory (src/file.hpp, src/proc.hpp, src/log.hpp, src/factory.hpp)\<close>

text \<open>The results of system calls are arguments; \<open>None\<close> stands for an access out of an array.\<close>

subsection \<open>Files\<close>

text \<open>\<open>stat\<close> yields the size and whether it is a directory, or fails and leaves the zeroed structure.\<close>

definition Size :: "(nat \<times> bool) option \<Rightarrow> nat" where
  "Size st = (case st of None \<Rightarrow> 0 | Some (n, d) \<Rightarrow> n)"

definition IsDir :: "(nat \<times> bool) option \<Rightarrow> bool" where
  "IsDir st = (case st of None \<Rightarrow> False | Some (n, d) \<Rightarrow> d)"

text \<open>The names for which the function is called, in the order of \<open>readdir\<close>.\<close>

fun Walk_loop :: "bytes list \<Rightarrow> bytes list" where
  "Walk_loop [] = []"
| "Walk_loop (e # es) = (if e = str ''.'' \<or> e = str ''..'' then Walk_loop es else e # Walk_loop es)"

definition Walk :: "bytes list option \<Rightarrow> bytes list" where
  "Walk dir = (case dir of None \<Rightarrow> [] | Some entries \<Rightarrow> Walk_loop entries)"

lemma Walk_entries: "Walk (Some es) = filter (\<lambda>e. e \<noteq> str ''.'' \<and> e \<noteq> str ''..'') es"
proof -
  have "Walk_loop es = filter (\<lambda>e. e \<noteq> str ''.'' \<and> e \<noteq> str ''..'') es"
    by (induction es) auto
  then show ?thesis
    by (simp add: Walk_def)
qed

subsection \<open>The single process\<close>

text \<open>The name is printed into 100 bytes and the process number into 16. The file is opened and locked, or the process exits with 1;
  otherwise the name of the file and what is written to it are returned.\<close>

definition running :: "int \<Rightarrow> int \<Rightarrow> int \<Rightarrow> bytes \<Rightarrow> (int + bytes \<times> bytes) option" where
  "running fd lock pid proc =
     (let fname = str ''/var/run/'' @ proc @ str ''.pid'' in
      if 100 < length fname + 1 then None
      else if fd < 0 \<or> lock < 0 then Some (Inl 1)
      else
        (let buf = dec pid in
         if 16 < length buf + 1 then None else Some (Inr (fname, buf @ [0]))))"

text \<open>A name of more than 86 characters is written over the end of the array.\<close>

lemma running_long_name: "running fd lock pid proc = None" if "86 < length proc"
  using that by (simp add: running_def str_def)

subsection \<open>The log\<close>

record logger =
  lg_level :: nat
  lg_file :: bool
  lg_stdout :: bytes
  lg_output :: bytes

definition Logger :: logger where
  "Logger = \<lparr>lg_level = 0, lg_file = False, lg_stdout = [], lg_output = []\<rparr>"

definition SetOutput :: "bool \<Rightarrow> logger \<Rightarrow> logger" where
  "SetOutput file s = s\<lparr>lg_file := file\<rparr>"

definition SetLevel :: "nat \<Rightarrow> logger \<Rightarrow> logger" where
  "SetLevel level s = s\<lparr>lg_level := level\<rparr>"

definition level_text :: "bytes list" where
  "level_text = [str ''DEBUG'', str '' INFO'', str '' WARN'', str ''ERROR'']"

definition esc :: bytes where "esc = [0x1b, 0x5b]"

definition level_text_color :: "bytes list" where
  "level_text_color = [str ''DEBUG'', esc @ str ''32m INFO'' @ esc @ str ''0m'', esc @ str ''33m WARN'' @ esc @ str ''0m'',
     esc @ str ''31mERROR'' @ esc @ str ''0m'']"

definition pad3 :: "bytes \<Rightarrow> bytes" where
  "pad3 s = replicate (3 - length s) 48 @ s"

definition log_head :: "bytes \<Rightarrow> nat \<Rightarrow> bytes \<Rightarrow> bytes \<Rightarrow> nat \<Rightarrow> bytes" where
  "log_head s mills level filename line =
     str ''['' @ s @ str ''.'' @ pad3 (dec (int mills)) @ str ''] '' @ level @ str '' '' @ filename @ str '':'' @ dec (int line) @ str '' ''"

text \<open>\<open>msg\<close> is the message as the fmt library formats it, \<open>f\<close> the calendar and \<open>ts\<close> the clock in milliseconds.\<close>

definition Println :: "(int \<Rightarrow> bytes) \<Rightarrow> nat \<Rightarrow> nat \<Rightarrow> bytes \<Rightarrow> nat \<Rightarrow> bytes \<Rightarrow> logger \<Rightarrow> logger option" where
  "Println f ts level filename line msg s =
     (if level < lg_level s then Some s
      else do {
        let t = Format_time f (int (ts div 1000)) (int (ts div 1000));
        c \<leftarrow> mem_read level_text_color level;
        let s = s\<lparr>lg_stdout := lg_stdout s @ log_head t (ts mod 1000) c filename line @ msg @ [10]\<rparr>;
        if lg_file s then do {
          p \<leftarrow> mem_read level_text level;
          Some (s\<lparr>lg_output := lg_output s @ log_head t (ts mod 1000) p filename line @ msg @ [10]\<rparr>)
        } else Some s
      })"

text \<open>A message below the level leaves no trace; any other is one line at the end of each output.\<close>

lemma Println_lines:
  assumes "level < 4"
  shows "\<exists>s'. Println f ts level filename line msg s = Some s' \<and>
    (if level < lg_level s then s' = s
     else (\<exists>h. lg_stdout s' = lg_stdout s @ h @ msg @ [10]) \<and>
       (if lg_file s then \<exists>h. lg_output s' = lg_output s @ h @ msg @ [10] else lg_output s' = lg_output s))"
proof -
  have "\<exists>c. mem_read level_text_color level = Some c" "\<exists>c. mem_read level_text level = Some c"
    using assms by (simp_all add: mem_read_def level_text_color_def level_text_def)
  then show ?thesis
    by (fastforce simp: Println_def Let_def)
qed

subsection \<open>The factory\<close>

text \<open>A name stands for what its constructor makes; an unknown name raises an exception.\<close>

definition factory_register :: "bytes \<Rightarrow> 'o \<Rightarrow> (bytes \<Rightarrow> 'o option) \<Rightarrow> bytes \<Rightarrow> 'o option" where
  "factory_register key mk m = (if m key = None then m(key \<mapsto> mk) else m)"

definition factory_find :: "bytes \<Rightarrow> (bytes \<Rightarrow> 'o option) \<Rightarrow> string + 'o" where
  "factory_find key m = (case m key of None \<Rightarrow> Inl ''key is not exist!'' | Some mk \<Rightarrow> Inr mk)"

text \<open>The first registration of a name is the one that counts.\<close>

lemma factory_first_wins:
  "factory_find key (fold (\<lambda>(k, mk). factory_register k mk) rs Map.empty) =
   (case map_of rs key of None \<Rightarrow> Inl ''key is not exist!'' | Some mk \<Rightarrow> Inr mk)"
proof -
  have "fold (\<lambda>(k, mk). factory_register k mk) rs m key = (case m key of None \<Rightarrow> map_of rs key | Some mk \<Rightarrow> Some mk)" for m
  proof (induction rs arbitrary: m)
    case Nil
    show ?case
      by (cases "m key") simp_all
  next
    case (Cons r rs)
    obtain k mk where r: "r = (k, mk)"
      by fastforce
    have "fold (\<lambda>(k, mk). factory_register k mk) (r # rs) m key =
        (case factory_register k mk m key of None \<Rightarrow> map_of rs key | Some mk \<Rightarrow> Some mk)"
      by (simp add: r Cons.IH)
    also have "\<dots> = (case m key of None \<Rightarrow> map_of (r # rs) key | Some mk \<Rightarrow> Some mk)"
      by (cases "m k"; cases "k = key") (auto simp: r factory_register_def split: option.split)
    finally show ?case .
  qed
  then show ?thesis
    by (simp add: factory_find_def)
qed

end
