(* ===== verification/Kcp_Client.thy ===== *)
theory Kcp_Client
  imports Prelude
begin

section \<open>libkcp::Client: reliable datagrams over UDP (src/net/ikcp.hpp)\<close>

text \<open>
  The kcp library and the system calls are arguments. The members are not initialised before \<open>Dial\<close>: using one of them is
  \<open>None\<close>. The calls of the library are recorded.
\<close>

datatype 'a member = Uninit | Is 'a

datatype kcp_call =
  ikcp_create | ikcp_nodelay int int int int | ikcp_wndsize int int | ikcp_send bytes | ikcp_update u32 | ikcp_input bytes | ikcp_release

record kcp_client =
  sockfd :: "int member"
  kcp :: "bool member"
  sockaddr_in :: "(u32 \<times> u16) member"
  kcp_calls :: "kcp_call list"

definition kcp_new :: kcp_client where
  "kcp_new = \<lparr>sockfd = Uninit, kcp = Uninit, sockaddr_in = Uninit, kcp_calls = []\<rparr>"

definition kcp_note :: "kcp_call \<Rightarrow> kcp_client \<Rightarrow> kcp_client" where
  "kcp_note c s = s\<lparr>kcp_calls := kcp_calls s @ [c]\<rparr>"

definition iclock64 :: "int \<Rightarrow> int \<Rightarrow> int" where
  "iclock64 s u = s * 1000 + u div 1000"

definition iclock :: "int \<Rightarrow> int \<Rightarrow> u32" where
  "iclock s u = ucast ((word_of_int (iclock64 s u) :: u64) AND 0xffffffff)"

text \<open>\<open>udpOutPut\<close> passes on what \<open>sendto\<close> answers.\<close>

definition udpOutPut :: "(int \<Rightarrow> bytes \<Rightarrow> u32 \<times> u16 \<Rightarrow> int) \<Rightarrow> bytes \<Rightarrow> kcp_client \<Rightarrow> int option" where
  "udpOutPut sendto buf s =
     (case (sockfd s, sockaddr_in s) of (Is fd, Is a) \<Rightarrow> Some (sendto fd buf a) | _ \<Rightarrow> None)"

definition kcp_Dial :: "bool \<Rightarrow> int \<Rightarrow> u32 \<Rightarrow> u16 \<Rightarrow> kcp_client \<Rightarrow> bool \<times> kcp_client" where
  "kcp_Dial created fd inet_addr port s =
     (let s = (kcp_note ikcp_create s)\<lparr>kcp := Is created\<rparr> in
      if \<not> created then (False, s)
      else
        (let s = s\<lparr>sockfd := Is fd\<rparr> in
         if fd < 0 then (False, s)
         else
           (let s = kcp_note (ikcp_wndsize 128 128) (kcp_note (ikcp_nodelay 0 10 0 0) s)
            in (True, s\<lparr>sockaddr_in := Is (inet_addr, port)\<rparr>))))"

definition kcp_destroy :: "kcp_client \<Rightarrow> kcp_client option" where
  "kcp_destroy s =
     (case (kcp s, sockfd s) of
        (Is k, Is fd) \<Rightarrow> Some (if k then kcp_note ikcp_release s else s)
      | _ \<Rightarrow> None)"

text \<open>An \<open>int\<close> that is returned as \<open>size_t\<close>.\<close>

definition as_size :: "int \<Rightarrow> nat" where
  "as_size n = nat (n mod 2 ^ 64)"

definition kcp_Write :: "int \<Rightarrow> bytes \<Rightarrow> kcp_client \<Rightarrow> (nat \<times> kcp_client) option" where
  "kcp_Write sent buf s = (if kcp s = Is True then Some (as_size sent, kcp_note (ikcp_send buf) s) else None)"

text \<open>\<open>recvfrom\<close> answers with a number, the bytes it wrote and the sender, whose address replaces the server's; the buffer as the
  caller finds it is returned too.\<close>

definition kcp_Read :: "u32 \<Rightarrow> int \<times> bytes \<times> (u32 \<times> u16) option \<Rightarrow> int \<Rightarrow> bytes \<Rightarrow> kcp_client \<Rightarrow> (nat \<times> bytes \<times> kcp_client) option" where
  "kcp_Read ts recv input_answer buf s =
     (if kcp s \<noteq> Is True \<or> sockfd s = Uninit then None
      else
        (let s = kcp_note (ikcp_update ts) s;
             (n, data, from) = recv;
             s = (case from of None \<Rightarrow> s | Some a \<Rightarrow> s\<lparr>sockaddr_in := Is a\<rparr>)
         in if length buf < length data then None
            else
              (let buf = data @ drop (length data) buf in
               if n > 0 then Some (as_size input_answer, buf, kcp_note (ikcp_input (take (nat n) buf)) s)
               else Some (as_size n, buf, s))))"

text \<open>The clock of kcp is the time in milliseconds modulo 2 to the 32.\<close>

lemma iclock_mod: "iclock s u = word_of_int (s * 1000 + u div 1000)"
proof -
  have m: "(0xffffffff :: u64) = mask 32"
    by (simp add: mask_eq_exp_minus_1)
  have "ucast ((word_of_int x :: u64) AND mask 32) = (word_of_int x :: u32)" for x
    by (rule bit_word_eqI) (auto simp: bit_simps)
  then show ?thesis
    by (simp only: iclock_def iclock64_def m)
qed

text \<open>A client that has never dialled cannot be destroyed.\<close>

lemma kcp_destroy_undialled: "kcp_destroy kcp_new = None"
  by (simp add: kcp_destroy_def kcp_new_def)

text \<open>What \<open>Read\<close> leaves in the caller's buffer is the datagram as it came, header and all: the messages that kcp puts together are
  never fetched, and when it accepts the datagram the result is kcp's 0.\<close>

lemma kcp_Read_raw:
  assumes "kcp s = Is True" "sockfd s = Is fd" "data \<noteq> []" "length data \<le> length buf"
  shows "\<exists>s'. kcp_Read ts (int (length data), data, from) 0 buf s = Some (0, data @ drop (length data) buf, s') \<and>
    kcp_calls s' = kcp_calls s @ [ikcp_update ts, ikcp_input data]"
  using assms by (auto simp: kcp_Read_def Let_def as_size_def kcp_note_def split: option.split)

text \<open>With nothing to read the result is the largest number there is.\<close>

lemma kcp_Read_nothing:
  assumes "kcp s = Is True" "sockfd s = Is fd"
  shows "\<exists>s'. kcp_Read ts (-1, [], None) a buf s = Some (2 ^ 64 - 1, buf, s')"
  using assms by (simp add: kcp_Read_def Let_def as_size_def)

end
