(* ===== verification/Net_Socket.thy ===== *)
theory Net_Socket
  imports C_Text Byte_Buffer
begin

section \<open>Blocking sockets (src/net/socket.hpp)\<close>

text \<open>
  The classes the RTSP client is built on. What the kernel answers is an argument of each operation: the result of a
  call is \<open>Ret\<close> of a non-negative value or \<open>Err\<close> of the \<open>errno\<close> it left, \<open>errno\<close> being numbered as on Linux, and
  \<open>recv\<close> yields the bytes it stored. An operation that throws leaves its object in the state it had reached.
\<close>

datatype Error =
      ESeriousError | ENetworkDown | ENoSocketsAvailable | ENoMemory | EAddressNotAvailable
  | EAlreadyConnected | ENotConnected | EConnectionRefused | ENetworkUnreachable | ENetworkReset
  | EHostUnreachable | EHostDown | EConnectionAborted | EConnectionReset | EOperationWouldBlock
  | EDNSNotFound | EDNSError | ENoDNSData | EInProgress | EInterrupted | EAccessDenied | EInvalidParameter
  | EAddressFamilyNotSupported | EProtocolFamilyNotSupported | EProtocolNotSupported
  | EProtocolNotSupportedBySocket | EOperationNotSupported | EInvalidSocketType | EInvalidSocket
  | EAddressRequired | EMessageTooLong | EBadProtocolOption | EAddressInUse | ETimedOut | EShutDown
  | ESocketLimitReached | ENotAvailable | EConnectionClosed

text \<open>The POSIX branch of the translation.\<close>

definition TranslateError :: "int \<Rightarrow> bool \<Rightarrow> Error" where
  "TranslateError p_error p_errno =
     (if p_errno then
        (if p_error = 4 then EInterrupted
         else if p_error = 13 then EAccessDenied
         else if p_error = 14 \<or> p_error = 22 then EInvalidParameter
         else if p_error = 24 then ENoSocketsAvailable
         else if p_error = 11 then EOperationWouldBlock
         else if p_error = 115 \<or> p_error = 114 then EInProgress
         else if p_error = 88 then EInvalidSocket
         else if p_error = 89 then EAddressRequired
         else if p_error = 90 then EMessageTooLong
         else if p_error = 91 then EProtocolNotSupportedBySocket
         else if p_error = 92 then EBadProtocolOption
         else if p_error = 93 then EProtocolNotSupported
         else if p_error = 94 then EInvalidSocketType
         else if p_error = 95 then EOperationNotSupported
         else if p_error = 96 then EProtocolFamilyNotSupported
         else if p_error = 97 then EAddressFamilyNotSupported
         else if p_error = 98 then EAddressInUse
         else if p_error = 99 then EAddressNotAvailable
         else if p_error = 100 then ENetworkDown
         else if p_error = 101 then ENetworkUnreachable
         else if p_error = 102 then ENetworkReset
         else if p_error = 103 then EConnectionAborted
         else if p_error = 104 then EConnectionReset
         else if p_error = 105 then ENoMemory
         else if p_error = 106 then EAlreadyConnected
         else if p_error = 107 then ENotConnected
         else if p_error = 108 then EShutDown
         else if p_error = 110 then ETimedOut
         else if p_error = 111 then EConnectionRefused
         else if p_error = 112 then EHostDown
         else if p_error = 113 then EHostUnreachable
         else ESeriousError)
      else
        (if p_error = 1 then EDNSNotFound
         else if p_error = 2 then EDNSError
         else if p_error = 4 then ENoDNSData
         else ESeriousError))"

definition GetError :: "bool \<Rightarrow> int \<Rightarrow> int \<Rightarrow> Error" where
  "GetError p_errno errno h_errno =
     (if p_errno then TranslateError errno p_errno else TranslateError h_errno p_errno)"

definition PrintError :: "Error \<Rightarrow> string" where
  "PrintError m_code =
     (case m_code of
        EOperationWouldBlock \<Rightarrow> ''Nonblocking socket operation would have blocked''
      | EInProgress \<Rightarrow> ''This operation is already in progress''
      | EInvalidSocket \<Rightarrow> ''The socket was not valid''
      | EAddressRequired \<Rightarrow> ''A destination address is required''
      | EMessageTooLong \<Rightarrow> ''The message was too long''
      | EProtocolNotSupported \<Rightarrow> ''The protocol is not supported''
      | EProtocolNotSupportedBySocket \<Rightarrow> ''The socket type is not supported''
      | EOperationNotSupported \<Rightarrow> ''The operation is not supported''
      | EProtocolFamilyNotSupported \<Rightarrow> ''The protocol family is not supported''
      | EAddressFamilyNotSupported \<Rightarrow> ''The operation is not supported by the address family''
      | EAddressInUse \<Rightarrow> ''The address is already in use''
      | EAddressNotAvailable \<Rightarrow> ''The address is not available to use''
      | ENetworkDown \<Rightarrow> ''The network is down''
      | ENetworkUnreachable \<Rightarrow> ''The destination network is unreachable''
      | ENetworkReset \<Rightarrow> ''The network connection has been reset''
      | EConnectionAborted \<Rightarrow> ''The network connection has been aborted due to software error''
      | EConnectionReset \<Rightarrow> ''Connection has been closed by the other side''
      | ENoMemory \<Rightarrow> ''There was insufficient system memory to complete the operation''
      | EAlreadyConnected \<Rightarrow> ''The socket is already connected''
      | ENotConnected \<Rightarrow> ''The socket is not connected''
      | EShutDown \<Rightarrow> ''The socket has already been shut down''
      | ETimedOut \<Rightarrow> ''The connection timed out''
      | EConnectionRefused \<Rightarrow> ''The connection was refused''
      | EHostDown \<Rightarrow> ''The host is down''
      | EHostUnreachable \<Rightarrow> ''The host is unreachable''
      | EDNSNotFound \<Rightarrow> ''DNS lookup is not found''
      | EDNSError \<Rightarrow> ''Host not found due to error; try again''
      | ENoDNSData \<Rightarrow> ''Address found, but has no valid data''
      | EInterrupted \<Rightarrow> ''Operation was interrupted''
      | ENoSocketsAvailable \<Rightarrow> ''No more sockets available''
      | EInvalidParameter \<Rightarrow> ''Operation has an invalid parameter''
      | EInvalidSocketType \<Rightarrow> ''Socket type is invalid''
      | EAccessDenied \<Rightarrow> ''Access to this operation was denied''
      | ESocketLimitReached \<Rightarrow> ''The manager has reached its maximum number of sockets''
      | _ \<Rightarrow> ''undefined or serious error'')"

datatype exn = Net_exception Error | Std_exception std_exn

datatype ('a, 's) outcome = Done 'a 's | Raise exn 's | Undefined

datatype sys_result = Ret nat | Err int

subsection \<open>Socket\<close>

definition INVALID_SOCKET :: int where "INVALID_SOCKET = -1"

text \<open>\<open>htons\<close> and \<open>ntohs\<close> swap the two bytes.\<close>

definition htons :: "u16 \<Rightarrow> u16" where
  "htons n = push_bit 8 n OR drop_bit 8 n"

record sockaddr_in =
  sin_port :: u16
  sin_addr :: u32

record Socket =
  m_sock :: int
  m_localinfo :: sockaddr_in
  m_isblocking :: bool

definition zero_addr :: sockaddr_in where "zero_addr = \<lparr>sin_port = 0, sin_addr = 0\<rparr>"

text \<open>The constructor; \<open>getsockname\<close> (when it is called) leaves \<open>info\<close>.\<close>

definition new_Socket :: "int \<Rightarrow> sockaddr_in \<Rightarrow> Socket" where
  "new_Socket p_socket info =
     \<lparr>m_sock = p_socket, m_localinfo = (if p_socket \<noteq> INVALID_SOCKET then info else zero_addr), m_isblocking = True\<rparr>"

definition Create :: "sys_result \<Rightarrow> 's Socket_scheme \<Rightarrow> 's Socket_scheme" where
  "Create r s =
     (if m_sock s = INVALID_SOCKET then s\<lparr>m_sock := (case r of Ret fd \<Rightarrow> int fd | Err e \<Rightarrow> INVALID_SOCKET)\<rparr> else s)"

definition GetSock :: "'s Socket_scheme \<Rightarrow> int" where "GetSock s = m_sock s"
definition GetLocalPort :: "'s Socket_scheme \<Rightarrow> u16" where "GetLocalPort s = htons (sin_port (m_localinfo s))"
definition GetLocalAddress :: "'s Socket_scheme \<Rightarrow> u64" where "GetLocalAddress s = ucast (sin_addr (m_localinfo s))"

definition Socket_Close :: "'s Socket_scheme \<Rightarrow> 's Socket_scheme" where
  "Socket_Close s = s\<lparr>m_sock := -1\<rparr>"

definition O_NONBLOCK :: u32 where "O_NONBLOCK = 0x800"

text \<open>
  \<open>getfl\<close> is what \<open>fcntl(F_GETFL)\<close> returns (its failure, -1, is used as flags), \<open>setfl\<close> answers the flags that are
  set.
\<close>

definition SetBlocking :: "bool \<Rightarrow> u32 \<Rightarrow> (u32 \<Rightarrow> sys_result) \<Rightarrow> 's Socket_scheme \<Rightarrow> (unit, 's Socket_scheme) outcome" where
  "SetBlocking p_blockmode getfl setfl s =
     (let flags = (if \<not> p_blockmode then getfl OR O_NONBLOCK else getfl AND NOT O_NONBLOCK)
      in case setfl flags of
           Err errno \<Rightarrow> Raise (Net_exception (GetError True errno 0)) s
         | Ret _ \<Rightarrow> Done () (s\<lparr>m_isblocking := p_blockmode\<rparr>))"

subsection \<open>TcpConn\<close>

record TcpConn = Socket +
  m_connected :: bool
  m_remoteinfo :: sockaddr_in

definition new_TcpConn :: "int \<Rightarrow> sockaddr_in \<Rightarrow> sockaddr_in \<Rightarrow> TcpConn" where
  "new_TcpConn p_socket local remote =
     \<lparr>m_sock = p_socket, m_localinfo = m_localinfo (new_Socket p_socket local), m_isblocking = True,
      m_connected = (p_socket \<noteq> INVALID_SOCKET),
      m_remoteinfo = (if p_socket \<noteq> INVALID_SOCKET then remote else zero_addr)\<rparr>"

definition GetRemoteAddress :: "TcpConn \<Rightarrow> u64" where "GetRemoteAddress s = ucast (sin_addr (m_remoteinfo s))"
definition GetRemotePort :: "TcpConn \<Rightarrow> u16" where "GetRemotePort s = htons (sin_port (m_remoteinfo s))"
definition IsConnected :: "TcpConn \<Rightarrow> bool" where "IsConnected s = m_connected s"

text \<open>\<open>addr\<close> is \<open>inet_addr(p_addr)\<close>; the other arguments answer \<open>socket\<close>, \<open>connect\<close> and \<open>getsockname\<close>.\<close>

definition Dial ::
    "u32 \<Rightarrow> u16 \<Rightarrow> sys_result \<Rightarrow> sys_result \<Rightarrow> int + sockaddr_in \<Rightarrow> TcpConn \<Rightarrow> (unit, TcpConn) outcome" where
  "Dial addr p_port sock_r conn_r name_r s =
     (if m_connected s then Raise (Net_exception EAlreadyConnected) s
      else
        (let s = Create sock_r s
         in if m_sock s = INVALID_SOCKET
            then Raise (Net_exception (GetError True (case sock_r of Err e \<Rightarrow> e | Ret _ \<Rightarrow> 0) 0)) s
            else
              (let s = s\<lparr>m_remoteinfo := \<lparr>sin_port = htons p_port, sin_addr = addr\<rparr>\<rparr>
               in case conn_r of
                    Err errno \<Rightarrow> Raise (Net_exception (GetError True errno 0)) s
                  | Ret _ \<Rightarrow>
                      (let s = s\<lparr>m_connected := True\<rparr>
                       in case name_r of
                            Inl errno \<Rightarrow> Raise (Net_exception (GetError True errno 0)) s
                          | Inr info \<Rightarrow> Done () (s\<lparr>m_localinfo := info\<rparr>)))))"

text \<open>
  \<open>setDealTimeout\<close> waits in \<open>select\<close>; each answer is used by one turn of its loop. Without a further answer it is still
  waiting, the result \<open>None\<close>. After a failure that is not \<open>EINTR\<close> or \<open>EAGAIN\<close> the descriptor sets are unchanged, so the
  socket counts as ready.
\<close>

datatype select_result = Ready | Timeout | Select_err int

fun setDealTimeout :: "select_result list \<Rightarrow> int option" where
  "setDealTimeout [] = None"
| "setDealTimeout (Ready # rs) = Some 0"
| "setDealTimeout (Timeout # rs) = Some (-1)"
| "setDealTimeout (Select_err e # rs) = (if e = 4 \<or> e = 11 then setDealTimeout rs else Some 0)"

text \<open>\<open>Write\<close> returns the number of bytes the kernel took, which may be less than \<open>p_size\<close>, and 0 when it would block.\<close>

definition TcpConn_Write :: "int \<Rightarrow> select_result list \<Rightarrow> sys_result \<Rightarrow> TcpConn \<Rightarrow> (exn + nat) option" where
  "TcpConn_Write timeout sel sent s =
     (if \<not> m_connected s then Some (Inl (Net_exception ENotConnected))
      else do {
        t \<leftarrow> (if timeout > 0 then setDealTimeout sel else Some 0);
        if t < 0 then Some (Inl (Net_exception ETimedOut))
        else (case sent of
            Ret n \<Rightarrow> Some (Inr n)
          | Err errno \<Rightarrow>
              (let e = GetError True errno 0
               in if e \<noteq> EOperationWouldBlock then Some (Inl (Net_exception e)) else Some (Inr 0)))
      })"

datatype recv_result = Recv bytes | Recv_err int

definition TcpConn_Read :: "nat \<Rightarrow> int \<Rightarrow> select_result list \<Rightarrow> recv_result \<Rightarrow> TcpConn \<Rightarrow> (exn + bytes) option" where
  "TcpConn_Read p_size timeout sel rcv s =
     (if \<not> m_connected s then Some (Inl (Net_exception ENotConnected))
      else do {
        t \<leftarrow> (if timeout > 0 then setDealTimeout sel else Some 0);
        if t < 0 then Some (Inl (Net_exception ETimedOut))
        else (case rcv of
            Recv data \<Rightarrow> if data = [] then Some (Inl (Net_exception EConnectionClosed)) else Some (Inr (take p_size data))
          | Recv_err errno \<Rightarrow> Some (Inl (Net_exception (GetError True errno 0))))
      })"

definition TcpConn_Close :: "TcpConn \<Rightarrow> TcpConn" where
  "TcpConn_Close s = (let s = Socket_Close s in s\<lparr>m_connected := False\<rparr>)"

subsection \<open>LoopRead\<close>

text \<open>
  The handler gets the memory behind \<open>rbuf.Bytes()\<close> and the length. The inner loop runs it while it consumes bytes; a
  handler that never stops consuming is the result \<open>None\<close>. The outer loop reads until the handler returns a negative
  number or something is thrown; when the answers of the kernel run out, the loop is waiting in \<open>Read\<close>.
\<close>

datatype 's loop_result = More buffer 's | Returned 's | Raised exn 's | Faulted

partial_function (option) handle_loop ::
    "(bytes \<Rightarrow> nat \<Rightarrow> 's \<Rightarrow> (int, 's) outcome) \<Rightarrow> buffer \<Rightarrow> 's \<Rightarrow> 's loop_result option" where
  "handle_loop handler rbuf s =
     (case handler (vec rbuf) (Len rbuf) s of
        Done l s \<Rightarrow>
          if l < 0 then Some (Returned s)
          else if l = 0 then Some (More rbuf s)
          else handle_loop handler (snd (Remove (nat l) rbuf)) s
      | Raise e s \<Rightarrow> Some (Raised e s)
      | Undefined \<Rightarrow> Some Faulted)"

declare handle_loop.simps [code]

fun LoopRead ::
    "(bytes \<Rightarrow> nat \<Rightarrow> 's \<Rightarrow> (int, 's) outcome) \<Rightarrow> int \<Rightarrow> TcpConn \<Rightarrow> (select_result list \<times> recv_result) list \<Rightarrow> buffer \<Rightarrow> 's \<Rightarrow>
       's loop_result option" where
  "LoopRead handler timeout conn [] rbuf s = Some (More rbuf s)"
| "LoopRead handler timeout conn ((sel, rcv) # evs) rbuf s = do {
     r \<leftarrow> TcpConn_Read 2048 timeout sel rcv conn;
     (case r of
        Inl e \<Rightarrow> Some (Raised e s)
      | Inr data \<Rightarrow> do {
          (n, rbuf) \<leftarrow> Write (Some (data @ replicate (2048 - length data) 0)) (length data) rbuf;
          q \<leftarrow> handle_loop handler rbuf s;
          (case q of More rbuf s \<Rightarrow> LoopRead handler timeout conn evs rbuf s | _ \<Rightarrow> Some q)
        })
   }"

text \<open>
  The contract of a handler. It leaves an empty buffer alone, which is enough for the inner loop to end: every other
  turn takes at least a byte out of the buffer.
\<close>

locale stream_handler =
  fixes handler :: "bytes \<Rightarrow> nat \<Rightarrow> 's \<Rightarrow> (int, 's) outcome"
  assumes idle: "handler [] 0 s = Done 0 s"
begin

lemma handle_loop_ends: "\<exists>r. handle_loop handler rbuf s = Some r"
proof (induction "length (vec rbuf)" arbitrary: rbuf s rule: less_induct)
  case less
  show ?case
  proof (cases "handler (vec rbuf) (Len rbuf) s")
    case (Done l s')
    show ?thesis
    proof (cases "l \<le> 0")
      case True
      with Done show ?thesis
        by (subst handle_loop.simps) simp
    next
      case False
      with Done idle[of s] have "vec rbuf \<noteq> []"
        by (auto simp: Len_def)
      with False have "length (vec (snd (Remove (nat l) rbuf))) < length (vec rbuf)"
        by simp
      from less[OF this] Done False show ?thesis
        by (subst handle_loop.simps) simp
    qed
  qed (subst handle_loop.simps, simp)+
qed

lemma handle_loop_empty: "vec rbuf = [] \<Longrightarrow> handle_loop handler rbuf s = Some (More rbuf s)"
  by (subst handle_loop.simps) (simp add: idle Len_def)

end

text \<open>
  A handler that recognises frames: when the buffer starts with one, it consumes exactly the frame and changes the
  state by it, whatever follows. Reads that deliver whole frames are then handled frame by frame.
\<close>

locale frame_handler = stream_handler handler for handler :: "bytes \<Rightarrow> nat \<Rightarrow> 's \<Rightarrow> (int, 's) outcome" +
  fixes frame :: "bytes \<Rightarrow> 's \<Rightarrow> 's \<Rightarrow> bool"
  assumes consumes: "frame f s s' \<Longrightarrow> handler (f @ t) (length (f @ t)) s = Done (int (length f)) s'"
    and not_empty: "frame f s s' \<Longrightarrow> f \<noteq> []"
begin

inductive frames :: "bytes \<Rightarrow> 's \<Rightarrow> 's \<Rightarrow> bool" where
  none: "frames [] s s"
| next_frame: "frame f s s' \<Longrightarrow> frames t s' s'' \<Longrightarrow> frames (f @ t) s s''"

lemma handle_loop_frames: "frames data s s' \<Longrightarrow> vec rbuf = data \<Longrightarrow> \<exists>rbuf'. handle_loop handler rbuf s = Some (More rbuf' s') \<and> vec rbuf' = []"
proof (induction arbitrary: rbuf rule: frames.induct)
  case (none s)
  then show ?case
    using handle_loop_empty[of rbuf s] by blast
next
  case (next_frame f s s' t s'')
  have "handler (vec rbuf) (Len rbuf) s = Done (int (length f)) s'"
    using consumes[OF next_frame.hyps(1)] next_frame.prems by (simp add: Len_def)
  moreover have "vec (snd (Remove (length f) rbuf)) = t"
    using next_frame.prems by simp
  from next_frame.IH[OF this] obtain rbuf' where
    "handle_loop handler (snd (Remove (length f) rbuf)) s' = Some (More rbuf' s'')" "vec rbuf' = []"
    by blast
  moreover have "int (length f) \<noteq> 0"
    using not_empty[OF next_frame.hyps(1)] by simp
  ultimately show ?case
    by (subst handle_loop.simps) (simp add: not_empty[OF next_frame.hyps(1)])
qed

lemma LoopRead_frames:
  assumes "frames data s s'" "data \<noteq> []" "length data \<le> 2048" "m_connected conn" "vec rbuf = []"
  shows "\<exists>rbuf'. vec rbuf' = [] \<and>
    LoopRead handler timeout conn (([Ready], Recv data) # evs) rbuf s = LoopRead handler timeout conn evs rbuf' s'"
proof -
  let ?buf = "data @ replicate (2048 - length data) 0"
  obtain rb where rb: "Write (Some ?buf) (length data) rbuf = Some (length data, rb)" "vec rb = vec rbuf @ take (length data) ?buf"
    using Write_defined[of "length data" ?buf rbuf] by auto
  then have "vec rb = data"
    using assms(5) by simp
  from handle_loop_frames[OF assms(1) this] obtain rbuf' where l: "handle_loop handler rb s = Some (More rbuf' s')" "vec rbuf' = []"
    by blast
  have r: "TcpConn_Read 2048 timeout [Ready] (Recv data) conn = Some (Inr data)"
    using assms(2-4) by (simp add: TcpConn_Read_def)
  show ?thesis
    unfolding LoopRead.simps r bind.bind_lunit sum.case rb(1) prod.case l(1) using l(2) by (intro exI[of _ rbuf']) simp
qed

end

subsection \<open>TcpServer\<close>

record TcpServer = Socket +
  m_listening :: bool

definition new_TcpServer :: TcpServer where
  "new_TcpServer = \<lparr>m_sock = INVALID_SOCKET, m_localinfo = zero_addr, m_isblocking = True, m_listening = False\<rparr>"

definition Accept :: "int + int \<times> sockaddr_in \<times> sockaddr_in \<Rightarrow> TcpServer \<Rightarrow> exn + TcpConn" where
  "Accept acc s =
     (case acc of
        Inl errno \<Rightarrow> Inl (Net_exception (GetError True errno 0))
      | Inr (fd, local, remote) \<Rightarrow> Inr (new_TcpConn fd local remote))"

definition IsListening :: "TcpServer \<Rightarrow> bool" where "IsListening s = m_listening s"

definition TcpServer_Close :: "TcpServer \<Rightarrow> TcpServer" where
  "TcpServer_Close s = (let s = Socket_Close s in s\<lparr>m_listening := False\<rparr>)"

definition TcpServer_Listen ::
    "u16 \<Rightarrow> sys_result \<Rightarrow> sys_result \<Rightarrow> sys_result \<Rightarrow> sys_result \<Rightarrow> TcpServer \<Rightarrow> (unit, TcpServer) outcome" where
  "TcpServer_Listen p_port sock_r opt_r bind_r listen_r s =
     (let s = Create sock_r s;
          fail = (\<lambda>r s. Raise (Net_exception (GetError True (case r of Err e \<Rightarrow> e | Ret _ \<Rightarrow> 0) 0)) s)
      in if m_sock s = INVALID_SOCKET then fail sock_r s
         else (case opt_r of Err _ \<Rightarrow> fail opt_r s | Ret _ \<Rightarrow>
           (let s = s\<lparr>m_localinfo := \<lparr>sin_port = htons p_port, sin_addr = 0\<rparr>\<rparr>
            in case bind_r of Err _ \<Rightarrow> fail bind_r s | Ret _ \<Rightarrow>
              (case listen_r of Err _ \<Rightarrow> fail listen_r s | Ret _ \<Rightarrow> Done () (s\<lparr>m_listening := True\<rparr>)))))"

end
