(* ===== verification/Rtsp.thy ===== *)
theory Rtsp
  imports Net_Socket Base64 Md5 Rtp_Depay
begin

section \<open>The RTSP client (src/stream/rtsp.hpp)\<close>

text \<open>
  The client sends a request, parses the response in the handler of \<open>LoopRead\<close> and sends the next one; interleaved RTP
  packets arrive in the same stream and go through the depacketiser. Text is a list of bytes.
\<close>

subsection \<open>findVar and the URL\<close>

definition findVar :: "bytes \<Rightarrow> bytes \<Rightarrow> bytes \<Rightarrow> bytes" where
  "findVar s b e =
     (case string_find s b 0 of
        None \<Rightarrow> []
      | Some p0 \<Rightarrow>
          (let p0 = p0 + length b
           in case string_find s e p0 of
                None \<Rightarrow> drop p0 s
              | Some p1 \<Rightarrow> take (p1 - p0) (drop p0 s)))"

record url =
  path :: bytes
  user :: bytes
  password :: bytes
  ip :: bytes
  port :: u16
  baseAuth :: bytes
  digestHex :: bytes

text \<open>\<open>strcpy\<close> into the array of 1024 bytes is undefined for a longer text.\<close>

definition url_Parse :: "bytes \<Rightarrow> url \<Rightarrow> (bool \<times> url) option" where
  "url_Parse uri u =
     (let u = u\<lparr>baseAuth := []\<rparr>
      in if \<not> is_prefix (str ''rtsp://'') uri then Some (False, u)
         else if 1024 \<le> length (drop 7 uri) then None
         else
           (let u = u\<lparr>path := str ''rtsp://''\<rparr>;
                s = drop 7 uri;
                (s, u) = (case strchr s 64 of
                    None \<Rightarrow> (s, u)
                  | Some i \<Rightarrow>
                      (let cred = take i s;
                           (name, u) = (case strchr cred 58 of
                               None \<Rightarrow> (cred, u)
                             | Some j \<Rightarrow> (take j cred, u\<lparr>password := drop (j + 1) cred\<rparr>))
                       in (drop (i + 1) s, u\<lparr>user := name\<rparr>)));
                u = u\<lparr>path := path u @ s\<rparr>;
                s = (case strchr s 47 of None \<Rightarrow> s | Some i \<Rightarrow> take i s)
            in case strchr s 58 of
                 None \<Rightarrow> Some (True, u\<lparr>port := 554, ip := s\<rparr>)
               | Some i \<Rightarrow> do {
                   v \<leftarrow> atoi (drop (i + 1) s);
                   Some (True, u\<lparr>port := word_of_int v, ip := take i s\<rparr>)
                 }))"

definition SetAuth :: "bytes \<Rightarrow> url \<Rightarrow> url" where
  "SetAuth s u =
     (if contains s (str ''Basic'') then
        u\<lparr>baseAuth := str ''Authorization: Basic '' @ base64_encode (user u @ str '':'' @ password u) @ crlf\<rparr>
      else if contains s (str ''Digest'') then
        (let realm = findVar s (str ''realm=\"'') (str ''\"'');
             nonce = findVar s (str ''nonce=\"'') (str ''\"'');
             u = u\<lparr>baseAuth := str ''Authorization: Digest ''\<rparr>;
             u = u\<lparr>baseAuth := baseAuth u @ str ''username=\"'' @ user u\<rparr>;
             u = u\<lparr>baseAuth := baseAuth u @ str ''\", realm=\"'' @ realm\<rparr>;
             u = u\<lparr>baseAuth := baseAuth u @ str ''\", nonce=\"'' @ nonce\<rparr>;
             u = u\<lparr>baseAuth := baseAuth u @ str ''\", uri=\"'' @ path u @ str ''\"''\<rparr>
         in u\<lparr>digestHex := md5_hash_hex zero_state (user u @ str '':'' @ realm @ str '':'' @ password u) @ str '':'' @ nonce @ str '':''\<rparr>)
      else u)"

definition GetAuth :: "bytes \<Rightarrow> url \<Rightarrow> bytes" where
  "GetAuth type u =
     (if contains (baseAuth u) (str ''Basic'') then baseAuth u
      else if contains (baseAuth u) (str ''Digest'') then
        (let s = digestHex u @ md5_hash_hex zero_state (type @ str '':'' @ path u)
         in baseAuth u @ str '', response=\"'' @ md5_hash_hex zero_state s @ str ''\"'' @ crlf)
      else [])"

subsection \<open>The session description\<close>

record media =
  format :: int
  stype :: bytes
  rtpmap :: bytes
  sprops :: bytes
  name :: bytes
  control_id :: bytes
  hevc :: bool

definition media0 :: media where
  "media0 = \<lparr>format = 0, stype = [], rtpmap = [], sprops = [], name = [], control_id = [], hevc = False\<rparr>"

record sdp =
  content :: bytes
  session :: bytes
  spsvalue :: bytes
  medias :: "media list"
  formats :: "int \<rightharpoonup> media"

text \<open>
  \<open>sline >> it->format >> it->rtpmap\<close>. A blank line leaves both as they were; a text that is no number makes the
  format 0 and a number that is no \<open>int\<close> the nearest one, both without a word; the word is kept when there is none.
\<close>

definition read_rtpmap :: "bytes \<Rightarrow> media \<Rightarrow> media" where
  "read_rtpmap s m =
     (if dropWhile is_space s = [] then m
      else (case parse_int s of
          (None, _) \<Rightarrow> m\<lparr>format := 0\<rparr>
        | (Some v, r) \<Rightarrow>
            if in_int v then
              (let m = m\<lparr>format := v\<rparr>; w = dropWhile is_space r
               in if w = [] then m else m\<lparr>rtpmap := takeWhile (\<lambda>c. \<not> is_space c) w\<rparr>)
            else m\<lparr>format := (if v < 0 then - (2 ^ 31) else 2 ^ 31 - 1)\<rparr>))"

definition at_last :: "('a \<Rightarrow> 'a) \<Rightarrow> 'a list \<Rightarrow> 'a list" where
  "at_last f xs = butlast xs @ [f (last xs)]"

text \<open>One line; \<open>it\<close> tells whether the pointer to the last media description is set.\<close>

definition parse_line :: "bytes \<Rightarrow> bool \<times> sdp \<Rightarrow> bool \<times> sdp" where
  "parse_line s = (\<lambda>(it, d).
     if contains s (str ''Session: '') then (it, d\<lparr>session := drop 9 s\<rparr>)
     else if contains s (str ''m='') then (True, d\<lparr>medias := medias d @ [media0\<lparr>stype := c_str (drop 2 s)\<rparr>]\<rparr>)
     else if \<not> it then (it, d)
     else if contains s (str ''a=rtpmap:'') then
       (it, d\<lparr>medias := at_last (\<lambda>m.
          (let m = read_rtpmap (c_str (drop 9 s)) m;
               m = (case strchr (rtpmap m) 47 of None \<Rightarrow> m | Some pos \<Rightarrow> m\<lparr>name := take pos (rtpmap m)\<rparr>)
           in m\<lparr>hevc := (name m = str ''H265'')\<rparr>)) (medias d)\<rparr>)
     else (case string_find s (str ''sprop'') 0 of
         Some pos \<Rightarrow> (it, d\<lparr>medias := at_last (\<lambda>m. m\<lparr>sprops := drop pos s\<rparr>) (medias d)\<rparr>)
       | None \<Rightarrow>
           (case string_find s (str ''a=control:'') 0 of
              None \<Rightarrow> (it, d)
            | Some pos \<Rightarrow>
                (it, d\<lparr>medias := at_last (\<lambda>m.
                   (let m = m\<lparr>control_id := drop (pos + 10) s\<rparr>
                    in case string_rfind (control_id m) 47 of
                         None \<Rightarrow> m
                       | Some pos \<Rightarrow> m\<lparr>control_id := drop (pos + 1) (control_id m)\<rparr>)) (medias d)\<rparr>))))"

definition is_video :: "media \<Rightarrow> bool" where "is_video m = contains (stype m) (str ''video'')"
definition is_audio :: "media \<Rightarrow> bool" where "is_audio m = contains (stype m) (str ''audio'')"

text \<open>The parameter sets of one media description, each behind a start code.\<close>

definition append_base64 :: "bytes \<Rightarrow> sdp \<Rightarrow> sdp option" where
  "append_base64 x d = map_option (\<lambda>y. d\<lparr>spsvalue := spsvalue d @ y\<rparr>) (base64_decode x)"

definition parse_media :: "media \<Rightarrow> sdp \<Rightarrow> sdp option" where
  "parse_media m d =
     (let d = d\<lparr>formats := (formats d)(format m \<mapsto> m)\<rparr>
      in if \<not> is_video m then Some d
         else
           (let d = d\<lparr>spsvalue := nalu_header\<rparr>
            in if hevc m then do {
                 d \<leftarrow> append_base64 (findVar (sprops m) (str ''sps='') (str '';'')) d;
                 d \<leftarrow> append_base64 (findVar (sprops m) (str ''pps='') (str '';'')) (d\<lparr>spsvalue := spsvalue d @ nalu_header\<rparr>);
                 append_base64 (findVar (sprops m) (str ''vps='') (str '';'')) (d\<lparr>spsvalue := spsvalue d @ nalu_header\<rparr>)
               }
               else do {
                 d \<leftarrow> append_base64 (findVar (sprops m) (str ''sprop-parameter-sets='') (str '','')) d;
                 append_base64 (findVar (sprops m) (str '','') (str '','')) (d\<lparr>spsvalue := spsvalue d @ nalu_header\<rparr>)
               }))"

primrec parse_medias :: "media list \<Rightarrow> sdp \<Rightarrow> sdp option" where
  "parse_medias [] d = Some d"
| "parse_medias (m # ms) d = do { d \<leftarrow> parse_media m d; parse_medias ms d }"

text \<open>\<open>None\<close> is the undefined behaviour of a parameter set that the decoder of Base64 cannot index.\<close>

definition sdp_Parse :: "bytes list \<Rightarrow> sdp \<Rightarrow> sdp option" where
  "sdp_Parse ss d = (let (it, d) = fold parse_line ss (False, d) in parse_medias (medias d) d)"

subsection \<open>Requests\<close>

datatype command =
    OPTIONS | DESCRIBE | SETUP | PLAY | SCALE | GET_PARAMETER | SET_PARAMETER | PAUSE | ANNOUNCE | TEARDOWN
  | SETUP_NOSS | SETAUDIO

abbreviation line :: "string \<Rightarrow> bytes" where "line s \<equiv> str s @ crlf"
abbreviation user_agent :: bytes where "user_agent \<equiv> line ''User-Agent: github/dontls''"

definition Format :: "command \<Rightarrow> bytes" where
  "Format type = (case type of
     OPTIONS \<Rightarrow> line ''OPTIONS %s RTSP/1.0'' @ line ''CSeq: %d'' @ str ''%s'' @ user_agent @ crlf
   | DESCRIBE \<Rightarrow>
       line ''DESCRIBE %s RTSP/1.0'' @ line ''CSeq: %d'' @ str ''%s'' @ user_agent @ line ''Accept: application/sdp'' @ crlf
   | SETUP \<Rightarrow>
       line ''SETUP %s/%s RTSP/1.0'' @ line ''CSeq: %d'' @ line ''Session: %s'' @ str ''%s'' @ user_agent @
       line ''Transport: RTP/AVP/TCP;unicast;interleaved=0-1'' @ crlf
   | SETUP_NOSS \<Rightarrow>
       line ''SETUP %s/%s RTSP/1.0'' @ line ''CSeq: %d'' @ str ''%s'' @ str ''%s'' @ user_agent @
       line ''Transport: RTP/AVP/TCP;unicast;interleaved=0-1'' @ crlf
   | PLAY \<Rightarrow>
       line ''PLAY %s RTSP/1.0'' @ line ''CSeq: %d'' @ line ''Session: %s'' @ str ''%s'' @ user_agent @
       line ''Range: npt=%0.3f-'' @ crlf
   | SCALE \<Rightarrow>
       line ''PLAY %s RTSP/1.0'' @ line ''CSeq: %d'' @ line ''Session: %s'' @ str ''%s'' @ user_agent @
       line ''Scale: %0.1f'' @ crlf
   | PAUSE \<Rightarrow>
       line ''PAUSE %s RTSP/1.0'' @ line ''CSeq: %d'' @ line ''Session: %s'' @ user_agent @ str ''%s'' @ str ''%s'' @ crlf
   | ANNOUNCE \<Rightarrow>
       line ''ANNOUNCE %s RTSP/1.0'' @ str ''CSeq: %d/r/n'' @ line ''Content-Type: application/sdp'' @ str ''%s'' @
       line ''Content-length: %d'' @ crlf @ user_agent @ line ''%s''
   | SET_PARAMETER \<Rightarrow>
       line ''SET_PARAMETER %s RTSP/1.0'' @ line ''CSeq: %d'' @ line ''Session: %s'' @ user_agent @
       line ''Content-length: %d'' @ crlf @ line ''%s: %s''
   | GET_PARAMETER \<Rightarrow>
       line ''GET_PARAMETER %s RTSP/1.0'' @ line ''CSeq: %d'' @ line ''Session: %s'' @ user_agent @ str ''%s'' @ crlf
   | TEARDOWN \<Rightarrow>
       line ''TEARDOWN %s RTSP/1.0'' @ line ''CSeq: %d'' @ line ''Session: %s'' @ user_agent @ str ''%s'' @ crlf
   | SETAUDIO \<Rightarrow> [])"

subsection \<open>The client\<close>

text \<open>
  \<open>writes\<close> are the requests handed to \<open>TcpConn::Write\<close>, in order; \<open>frames\<close> and \<open>packets\<close> the calls of the two
  callbacks. The environment answers the n-th \<open>Write\<close> (its result is thrown away unless it is an exception), reads the
  clock for the n-th time, says what the frame callback returns and which callbacks are set, and holds the text that a
  floating-point conversion prints for an \<open>int\<close>.
\<close>

record client =
  cmd :: command
  seqn :: int
  atype :: int
  c_url :: url
  c_sdp :: sdp
  dbuf :: buffer
  ts :: int
  ticks :: nat
  writes :: "bytes list"
  frames :: "(bytes \<times> u8 \<times> bytes \<times> int) list"
  packets :: "bytes list"

record env =
  write_result :: "nat \<Rightarrow> exn + nat"
  clock :: "nat \<Rightarrow> int"
  call_frame :: "(bytes \<Rightarrow> u8 \<Rightarrow> bytes \<Rightarrow> int \<Rightarrow> int) option"
  any_packet :: bool
  junk :: bytes

definition url0 :: url where
  "url0 = \<lparr>path = [], user = [], password = [], ip = [], port = 0, baseAuth = [], digestHex = []\<rparr>"

definition sdp0 :: sdp where
  "sdp0 = \<lparr>content = [], session = [], spsvalue = [], medias = [], formats = Map.empty\<rparr>"

definition rtsp_Client :: "bool \<Rightarrow> client" where
  "rtsp_Client reqAudio =
     \<lparr>cmd = OPTIONS, seqn = 0, atype = (if reqAudio then 0x7f else -1), c_url = url0, c_sdp = sdp0, dbuf = Buffer, ts = 0,
      ticks = 0, writes = [], frames = [], packets = []\<rparr>"

text \<open>\<open>port\<close> is an unsigned short, uninitialised before \<open>Parse\<close> and not read before it.\<close>

definition next_seq :: "client \<Rightarrow> client" where
  "next_seq c = c\<lparr>seqn := seqn c + 1\<rparr>"

definition doWriteCmd :: "env \<Rightarrow> command \<Rightarrow> arg list \<Rightarrow> client \<Rightarrow> (unit, client) outcome" where
  "doWriteCmd env type args c =
     (let c = c\<lparr>cmd := type\<rparr>;
          type = (if type = SETUP \<and> session (c_sdp c) = [] then SETUP_NOSS else type)
      in case sprintf (junk env) (Format type) (Arg_s (c_str (path (c_url c))) # args) of
           None \<Rightarrow> Undefined
         | Some txt \<Rightarrow>
             if 2048 \<le> length txt then Undefined
             else
               (let r = write_result env (length (writes c));
                    c = c\<lparr>writes := writes c @ [c_str txt]\<rparr>
                in case r of Inl e \<Rightarrow> Raise e c | Inr n \<Rightarrow> Done () c))"

text \<open>The session and the authorization header as arguments of a request.\<close>

definition auth_arg :: "bytes \<Rightarrow> client \<Rightarrow> arg" where
  "auth_arg type c = Arg_s (c_str (GetAuth type (c_url c)))"

definition session_arg :: "client \<Rightarrow> arg" where
  "session_arg c = Arg_s (c_str (session (c_sdp c)))"

definition doKeepalive :: "env \<Rightarrow> client \<Rightarrow> (unit, client) outcome" where
  "doKeepalive env c =
     doWriteCmd env GET_PARAMETER [Arg_d (seqn c), session_arg c, auth_arg (str ''GET_PARAMETER'') c] (next_seq c)"

definition Stop :: "env \<Rightarrow> client \<Rightarrow> (unit, client) outcome" where
  "Stop env c = doWriteCmd env TEARDOWN [Arg_d (seqn c), session_arg c, auth_arg (str ''TEARDOWN'') c] (next_seq c)"

fun find_if :: "('a \<Rightarrow> bool) \<Rightarrow> 'a list \<Rightarrow> 'a option" where
  "find_if P [] = None"
| "find_if P (x # xs) = (if P x then Some x else find_if P xs)"

definition and_then :: "('a, 's) outcome \<Rightarrow> ('a \<Rightarrow> 's \<Rightarrow> ('b, 's) outcome) \<Rightarrow> ('b, 's) outcome" where
  "and_then m f = (case m of Done a s \<Rightarrow> f a s | Raise e s \<Rightarrow> Raise e s | Undefined \<Rightarrow> Undefined)"

definition checkAuthorized :: "env \<Rightarrow> bytes list \<Rightarrow> command \<Rightarrow> bytes \<Rightarrow> client \<Rightarrow> (bool, client) outcome" where
  "checkAuthorized env res type meth c =
     (case find_if (\<lambda>s. contains s (str ''WWW-Authenticate'')) res of
        None \<Rightarrow> Done True c
      | Some s \<Rightarrow>
          if baseAuth (c_url c) \<noteq> [] then Raise (Net_exception EAccessDenied) c
          else
            (let c = c\<lparr>c_url := SetAuth (c_str s) (c_url c)\<rparr>
             in and_then (doWriteCmd env type [Arg_d (seqn c), auth_arg meth c] (next_seq c)) (\<lambda>_ c. Done False c)))"

text \<open>The loop that cuts a response into lines: what is behind the last line end is dropped.\<close>

function text_lines :: "bytes \<Rightarrow> bytes list" where
  "text_lines t =
     (case strstr (t @ [0]) crlf of
        Some (Some i) \<Rightarrow> if t = [] then [] else take i t # text_lines (drop (i + 2) t)
      | _ \<Rightarrow> [])"
  by pat_completeness auto
termination by (relation "measure length") auto

declare text_lines.simps [simp del]

text \<open>The \<open>switch\<close> on the last command, for the lines of a response, its text and the length of its head.\<close>

definition reply_setup :: "env \<Rightarrow> client \<Rightarrow> (unit, client) outcome" where
  "reply_setup env c = doWriteCmd env PLAY [Arg_d (seqn c), session_arg c, auth_arg (str ''PLAY'') c, Arg_d 0] (next_seq c)"

definition send_setup :: "env \<Rightarrow> media \<Rightarrow> client \<Rightarrow> (unit, client) outcome" where
  "send_setup env m c =
     doWriteCmd env SETUP [Arg_s (c_str (control_id m)), Arg_d (seqn c), session_arg c, auth_arg (str ''SETUP'') c] (next_seq c)"

definition reply_describe :: "env \<Rightarrow> bytes list \<Rightarrow> bytes \<Rightarrow> nat \<Rightarrow> client \<Rightarrow> (unit, client) outcome" where
  "reply_describe env res hs hlen c =
     and_then (checkAuthorized env res DESCRIBE (str ''DESCRIBE'') c) (\<lambda>ok c.
       if \<not> ok then Done () c
       else (case substr_from hs hlen of
           None \<Rightarrow> Raise (Std_exception Out_of_range) c
         | Some body \<Rightarrow>
             (let c = c\<lparr>c_sdp := (c_sdp c)\<lparr>content := body\<rparr>\<rparr>
              in case sdp_Parse res (c_sdp c) of
                   None \<Rightarrow> Undefined
                 | Some d \<Rightarrow>
                     (let c = c\<lparr>c_sdp := d\<rparr>
                      in case find_if is_video (medias (c_sdp c)) of
                           None \<Rightarrow> Undefined
                         | Some m \<Rightarrow> and_then (send_setup env m c) (\<lambda>_ c. Done () (c\<lparr>cmd := SETAUDIO\<rparr>))))))"

definition session_of :: "bytes \<Rightarrow> bytes" where
  "session_of s = (case strchr s 59 of
       None \<Rightarrow> drop 9 s
     | Some pos \<Rightarrow> if pos < 9 then drop 9 s else take (pos - 9) (drop 9 s))"

definition reply_setaudio :: "env \<Rightarrow> bytes list \<Rightarrow> client \<Rightarrow> (unit, client) outcome" where
  "reply_setaudio env res c =
     (let c = (if session (c_sdp c) = [] then
                 (case find_if (\<lambda>s. contains s (str ''Session: '')) res of
                    None \<Rightarrow> c
                  | Some s \<Rightarrow> c\<lparr>c_sdp := (c_sdp c)\<lparr>session := session_of s\<rparr>\<rparr>)
               else c)
      in if atype c = 0x7f then
           (case find_if is_audio (medias (c_sdp c)) of
              Some m \<Rightarrow> send_setup env m (c\<lparr>atype := signed_take_bit 7 (format m)\<rparr>)
            | None \<Rightarrow> reply_setup env c)
         else reply_setup env c)"

definition reply_switch :: "env \<Rightarrow> bytes list \<Rightarrow> bytes \<Rightarrow> nat \<Rightarrow> client \<Rightarrow> (unit, client) outcome" where
  "reply_switch env res hs hlen c =
     (case cmd c of
        OPTIONS \<Rightarrow>
          and_then (checkAuthorized env res OPTIONS (str ''OPTIONS'') c) (\<lambda>ok c.
            if ok then doWriteCmd env DESCRIBE [Arg_d (seqn c), auth_arg (str ''DESCRIBE'') c] (next_seq c) else Done () c)
      | DESCRIBE \<Rightarrow> reply_describe env res hs hlen c
      | SETAUDIO \<Rightarrow> reply_setaudio env res c
      | SETUP \<Rightarrow> reply_setup env c
      | _ \<Rightarrow> Done () c)"

text \<open>The value of the \<open>Content-Length\<close> header as an unsigned 64-bit number: a negative one is huge.\<close>

definition content_length :: "bytes \<Rightarrow> u64 option" where
  "content_length head = map_option word_of_int (atoi (c_str (findVar head (str ''Content-Length: '') crlf)))"

definition doRtspParse :: "env \<Rightarrow> bytes \<Rightarrow> nat \<Rightarrow> client \<Rightarrow> (int, client) outcome" where
  "doRtspParse env b len c =
     (case strstr b (crlf @ crlf) of
        None \<Rightarrow> Undefined
      | Some None \<Rightarrow> Done 0 c
      | Some (Some h0) \<Rightarrow>
          (let hlen = h0 + 4; hs = take hlen b
           in case content_length hs of
                None \<Rightarrow> Undefined
              | Some dlen \<Rightarrow>
                  if unat (dlen + word_of_nat hlen) > len then Done 0 c
                  else
                    (let len = unat (dlen + word_of_nat hlen);
                         hs = (if dlen > 0 then take len b else hs);
                         res = text_lines (c_str hs)
                     in and_then (reply_switch env res hs hlen c) (\<lambda>_ c. Done (signed_take_bit 31 (int len)) c))))"

subsection \<open>Play\<close>

definition media_of :: "int \<Rightarrow> client \<Rightarrow> media \<times> client" where
  "media_of pt c = (case formats (c_sdp c) pt of
       Some m \<Rightarrow> (m, c)
     | None \<Rightarrow> (media0, c\<lparr>c_sdp := (c_sdp c)\<lparr>formats := (formats (c_sdp c))(pt \<mapsto> media0)\<rparr>\<rparr>))"

text \<open>What the callback on frames does with one packet: its answer (0 when it is not called) and the client.\<close>

definition deliver :: "env \<Rightarrow> packet \<Rightarrow> client \<Rightarrow> (int \<times> client) option" where
  "deliver env rtp c = (case call_frame env of
       None \<Rightarrow> Some (0, c)
     | Some callFrame \<Rightarrow>
         (let (m, c) = media_of (uint (PayloadType rtp)) c
          in if sprops m \<noteq> [] then do {
               (ftype, rtp, b) \<leftarrow> Decode rtp (spsvalue (c_sdp c)) (dbuf c) (hevc m);
               let c = c\<lparr>dbuf := b\<rparr>;
               if ftype > 0 then
                 (let ftype = (if ftype = 1 then 2 else 1); call = (c_str (name m), ftype, vec b, int (Len b))
                  in Some (callFrame (c_str (name m)) ftype (vec b) (int (Len b)), c\<lparr>frames := frames c @ [call], dbuf := Reset 0 b\<rparr>))
               else Some (0, c)
             }
             else if format m = atype c then
               (let data = drop (p_data rtp) (mem rtp); call = (c_str (name m), 3, data, p_size rtp)
                in Some (callFrame (c_str (name m)) 3 data (p_size rtp), c\<lparr>frames := frames c @ [call]\<rparr>))
             else Some (0, c)))"

definition read_clock :: "env \<Rightarrow> client \<Rightarrow> int \<times> client" where
  "read_clock env c = (clock env (ticks c), c\<lparr>ticks := ticks c + 1\<rparr>)"

definition keep_alive :: "env \<Rightarrow> client \<Rightarrow> (unit, client) outcome" where
  "keep_alive env c =
     (let (now, c) = read_clock env c
      in if now - ts c > 10000 then
           (let (now, c) = read_clock env c in doKeepalive env (c\<lparr>ts := now\<rparr>))
         else Done () c)"

definition Play_handler :: "env \<Rightarrow> bytes \<Rightarrow> nat \<Rightarrow> client \<Rightarrow> (int, client) outcome" where
  "Play_handler env b len c =
     (if len < 4 then Done 0 c
      else if b ! 0 \<noteq> 36 then doRtspParse env b len c
      else (case Uint16 b 2 of
          None \<Rightarrow> Undefined
        | Some n \<Rightarrow>
            (let dlen = unat n + 4
             in if len < dlen then Done 0 c
                else
                  (let c = (if any_packet env then c\<lparr>packets := packets c @ [take dlen b]\<rparr> else c)
                   in case Unmarshal (drop 4 b) (int dlen - 4) of
                        None \<Rightarrow> Undefined
                      | Some rtp \<Rightarrow>
                          (case deliver env rtp c of
                             None \<Rightarrow> Undefined
                           | Some (ret, c) \<Rightarrow>
                               if ret \<noteq> 0 then Done (-1) c
                               else and_then (keep_alive env c) (\<lambda>_ c. Done (int dlen) c))))))"

text \<open>
  \<open>Play\<close>: the flag is its return value. \<open>inet_addr\<close> is that of the C library, the next three arguments answer the calls
  of \<open>Dial\<close>, and the list holds what the reads of \<open>LoopRead\<close> get.
\<close>

definition Play ::
    "env \<Rightarrow> bytes \<Rightarrow> (bytes \<Rightarrow> u32) \<Rightarrow> sys_result \<Rightarrow> sys_result \<Rightarrow> int + sockaddr_in \<Rightarrow> (select_result list \<times> recv_result) list \<Rightarrow>
       TcpConn \<Rightarrow> client \<Rightarrow> (bool \<times> client loop_result) option" where
  "Play env sUrl inet sock_r conn_r name_r evs conn c =
     (case url_Parse sUrl (c_url c) of
        None \<Rightarrow> Some (True, Faulted)
      | Some (False, u) \<Rightarrow> Some (False, Returned (c\<lparr>c_url := u\<rparr>))
      | Some (True, u) \<Rightarrow>
          (let c = c\<lparr>c_url := u\<rparr>
           in case Dial (inet (ip u)) (port u) sock_r conn_r name_r conn of
                Raise e conn \<Rightarrow> Some (True, Raised e c)
              | Undefined \<Rightarrow> Some (True, Faulted)
              | Done _ conn \<Rightarrow>
                  (case doWriteCmd env OPTIONS [Arg_d (seqn c), Arg_s []] (next_seq c) of
                     Raise e c \<Rightarrow> Some (True, Raised e c)
                   | Undefined \<Rightarrow> Some (True, Faulted)
                   | Done _ c \<Rightarrow>
                       (let (now, c) = read_clock env c
                        in map_option (Pair True) (LoopRead (Play_handler env) 1000 conn evs Buffer (c\<lparr>ts := now\<rparr>))))))"

end
