(* ===== verification/Rtsp_Session.thy ===== *)
theory Rtsp_Session
  imports Rtsp
begin

section \<open>An RTSP session\<close>

text \<open>
  Responses as a server writes them, how the client cuts them out of the stream, and the requests it answers with.
\<close>

subsection \<open>Responses\<close>

text \<open>The lines of a head hold neither zero bytes nor carriage returns; a body follows the empty line.\<close>

definition line_ok :: "bytes \<Rightarrow> bool" where
  "line_ok l \<longleftrightarrow> l \<noteq> [] \<and> 0 \<notin> set l \<and> 13 \<notin> set l"

definition head :: "bytes list \<Rightarrow> bytes" where
  "head hs = concat (map (\<lambda>l. l @ crlf) hs) @ crlf"

lemma head_simps: "head [] = crlf" "head (l # hs) = l @ 13 # 10 # head hs"
  by (simp_all add: head_def crlf_def)

lemma head_no_zero: "list_all line_ok hs \<Longrightarrow> 0 \<notin> set (head hs)"
  by (induction hs) (auto simp: head_simps crlf_def line_ok_def)

lemma strstr_head_from:
  "list_all line_ok hs \<Longrightarrow> hs \<noteq> [] \<Longrightarrow>
     strstr_from i (head hs @ rest) (crlf @ crlf) = Some (Some (i + length (head hs) - 4))"
proof (induction hs arbitrary: i)
  case (Cons l hs)
  have skip: "strstr_from i (head (l # hs) @ rest) (crlf @ crlf) =
      strstr_from (i + length l) (13 # 10 # head hs @ rest) (crlf @ crlf)"
    using Cons.prems(1) strstr_from_skip[of 13 l i "13 # 10 # head hs @ rest" "10 # crlf"]
    by (simp add: head_simps line_ok_def crlf_def)
  show ?case
  proof (cases hs)
    case Nil
    then show ?thesis
      unfolding skip by (simp add: head_simps crlf_def)
  next
    case Cons': (Cons l' hs')
    with Cons.prems obtain c t where l': "l' = c # t" "c \<noteq> 13"
      by (cases l') (auto simp: line_ok_def)
    have "strstr_from (i + length l) (13 # 10 # head hs @ rest) (crlf @ crlf) = strstr_from (i + length l + 2) (head hs @ rest) (crlf @ crlf)"
      using l'(2) by (simp add: Cons' l'(1) head_simps crlf_def)
    also have "\<dots> = Some (Some (i + length l + 2 + length (head hs) - 4))"
      using Cons.prems Cons' by (intro Cons.IH) simp_all
    finally show ?thesis
      unfolding skip by (simp add: head_simps)
  qed
qed simp

lemma strstr_head:
  "list_all line_ok hs \<Longrightarrow> hs \<noteq> [] \<Longrightarrow> strstr (head hs @ rest) (crlf @ crlf) = Some (Some (length (head hs) - 4))"
  using strstr_head_from[of hs 0 rest] by (simp add: strstr_def)

lemma length_head: "hs \<noteq> [] \<Longrightarrow> list_all line_ok hs \<Longrightarrow> 4 < length (head hs)"
  by (cases hs) (auto simp: head_simps crlf_def line_ok_def head_def)

text \<open>Cutting a text into lines.\<close>

lemma text_lines_line: "0 \<notin> set l \<Longrightarrow> 13 \<notin> set l \<Longrightarrow> text_lines (l @ 13 # 10 # t) = l # text_lines t"
  using strstr_from_skip[of 13 l 0 "13 # 10 # t @ [0]" "[10]"]
  by (subst text_lines.simps) (simp add: strstr_def crlf_def)

lemma text_lines_head: "list_all line_ok hs \<Longrightarrow> text_lines (head hs @ t) = hs @ [] # text_lines t"
proof (induction hs)
  case Nil
  show ?case
    using text_lines_line[of "[]" t] by (simp add: head_simps crlf_def)
next
  case (Cons l hs)
  then show ?case
    using text_lines_line[of l "head hs @ t"] by (simp add: head_simps line_ok_def)
qed

subsection \<open>Framing\<close>

text \<open>
  A response that is complete in the buffer is cut out and answered, whatever follows it.
\<close>

definition reply_ok :: "bytes list \<Rightarrow> bytes \<Rightarrow> bool" where
  "reply_ok hs body \<longleftrightarrow>
     hs \<noteq> [] \<and> list_all line_ok hs \<and> content_length (head hs) = Some (word_of_nat (length body)) \<and>
     length (head hs @ body) < 2 ^ 31"

lemma u64_sum: "a + b < 2 ^ 31 \<Longrightarrow> unat (word_of_nat a + word_of_nat b :: u64) = a + b"
  unfolding of_nat_add [symmetric] by (simp add: unat_of_nat del: of_nat_add)

lemma doRtspParse_reply:
  assumes "reply_ok hs body"
  shows "doRtspParse env (head hs @ body @ next_data) (length (head hs @ body @ next_data)) c =
    and_then (reply_switch env (hs @ [] # text_lines (c_str body)) (head hs @ body) (length (head hs)) c)
      (\<lambda>_ c. Done (int (length (head hs @ body))) c)"
proof -
  have hs: "hs \<noteq> []" "list_all line_ok hs" "content_length (head hs) = Some (word_of_nat (length body))"
    and len: "length (head hs @ body) < 2 ^ 31"
    using assms by (auto simp: reply_ok_def)
  let ?n = "length (head hs)"
  have n: "?n - 4 + 4 = ?n"
    using length_head[OF hs(1,2)] by simp
  have sum: "unat (word_of_nat (length body) + word_of_nat ?n :: u64) = length (head hs @ body)"
    using len by (subst u64_sum) simp_all
  have ret: "signed_take_bit 31 (int (length (head hs @ body))) = int (length (head hs @ body))"
    using len by (intro signed_take_bit_int_eq_self) simp_all
  have body_eq: "(if word_of_nat (length body) > (0 :: u64) then take (length (head hs @ body)) (head hs @ body @ next_data) else head hs) =
      head hs @ body"
  proof (cases "body = []")
    case False
    then have "word_of_nat (length body) \<noteq> (0 :: u64)"
      using len by (auto simp: word_unat_eq_iff unat_of_nat)
    then show ?thesis
      by (simp add: word_neq_0_conv)
  qed simp
  have lines: "text_lines (c_str (head hs @ body)) = hs @ [] # text_lines (c_str body)"
    using head_no_zero[OF hs(2)] hs(2) by (simp add: c_str_append text_lines_head)
  have front: "take ?n (head hs @ body @ next_data) = head hs"
    and fits: "\<not> length (head hs @ body @ next_data) < length (head hs @ body)"
    by simp_all
  show ?thesis
    unfolding doRtspParse_def strstr_head[OF hs(2,1)] Let_def option.case n front hs(3) sum ret body_eq lines
    using fits by (simp only: if_False)
qed

text \<open>A head that has not arrived completely makes the search run out of the buffer.\<close>

lemma doRtspParse_part:
  assumes "list_all line_ok hs" "hs \<noteq> []" "head hs = part @ rest" "rest \<noteq> []"
  shows "doRtspParse env part (length part) c = Undefined"
proof -
  have "strstr part (crlf @ crlf) = None"
  proof (rule strstr_prefix_overrun)
    show "strstr (part @ rest) (crlf @ crlf) = Some (Some (length (head hs) - 4))"
      using strstr_head[OF assms(1,2), of "[]"] assms(3) by simp
    show "length part < length (head hs) - 4 + length (crlf @ crlf)"
      using assms(3,4) length_head[OF assms(2,1)] by (cases rest) (simp_all add: crlf_def)
    show "0 \<notin> set part"
      using head_no_zero[OF assms(1)] assms(3) by auto
  qed (simp add: crlf_def)
  then show ?thesis
    by (simp add: doRtspParse_def)
qed

subsection \<open>Requests\<close>

text \<open>A request as RFC 2326 has it: the request line, the sequence number, further headers, an empty line.\<close>

definition request :: "string \<Rightarrow> bytes \<Rightarrow> int \<Rightarrow> bytes list \<Rightarrow> bytes" where
  "request meth uri n hdrs =
     str meth @ str '' '' @ uri @ str '' RTSP/1.0'' @ crlf @ str ''CSeq: '' @ dec n @ crlf @
     concat hdrs @ crlf"

lemma sprintf_lit: "37 \<notin> set l \<Longrightarrow> sprintf j (l @ f) args = map_option ((@) l) (sprintf j f args)"
  by (induction l; cases "sprintf j f args") auto

lemma sprintf_s: "sprintf j (37 # 115 # f) (Arg_s s # args) = map_option ((@) s) (sprintf j f args)"
  by simp

lemma sprintf_d: "sprintf j (37 # 100 # f) (Arg_d v # args) = map_option ((@) (dec v)) (sprintf j f args)"
  by simp

lemma sprintf_f: "sprintf j (37 # 48 # 46 # x # 102 # f) (Arg_d v # args) = map_option ((@) j) (sprintf j f args)"
  by simp

fun plain :: "string \<Rightarrow> bool" where
  "plain [] = True"
| "plain (c # s) = (of_char c \<noteq> (37 :: u8) \<and> of_char c \<noteq> (0 :: u8) \<and> plain s)"

lemma plain_str: "plain s \<Longrightarrow> 37 \<notin> set (str s) \<and> 0 \<notin> set (str s)"
  by (induction s) (auto simp: str_def)

lemma sprintf_str: "plain s \<Longrightarrow> sprintf j (str s @ f) args = map_option ((@) (str s)) (sprintf j f args)"
  using plain_str by (simp add: sprintf_lit)

lemma sprintf_crlf: "sprintf j (crlf @ f) args = map_option ((@) crlf) (sprintf j f args)"
  by (rule sprintf_lit) (simp add: crlf_def)

lemma sprintf_nil: "sprintf j [] args = Some []"
  by simp

lemma plain_lits:
  "plain ''OPTIONS ''"
  "plain ''DESCRIBE ''"
  "plain ''SETUP ''"
  "plain ''PLAY ''"
  "plain ''GET_PARAMETER ''"
  "plain ''TEARDOWN ''"
  "plain '' RTSP/1.0''"
  "plain ''CSeq: ''"
  "plain ''Session: ''"
  "plain ''/''"
  "plain ''User-Agent: github/dontls''"
  "plain ''Accept: application/sdp''"
  "plain ''Transport: RTP/AVP/TCP;unicast;interleaved=0-1''"
  "plain ''Range: npt=''"
  "plain ''-''"
  by code_simp+

lemmas sprintf_simps = sprintf_str sprintf_crlf sprintf_s sprintf_d sprintf_f sprintf_nil plain_lits

lemma Format_OPTIONS: "Format OPTIONS =
    str ''OPTIONS '' @ 37 # 115 # str '' RTSP/1.0'' @ crlf @ str ''CSeq: '' @ 37 # 100 # crlf @ 37 # 115 # str
      ''User-Agent: github/dontls'' @ crlf @ crlf @ []"
  by code_simp

lemma Format_DESCRIBE: "Format DESCRIBE =
    str ''DESCRIBE '' @ 37 # 115 # str '' RTSP/1.0'' @ crlf @ str ''CSeq: '' @ 37 # 100 # crlf @ 37 # 115 # str
      ''User-Agent: github/dontls'' @ crlf @ str ''Accept: application/sdp'' @ crlf @ crlf @ []"
  by code_simp

lemma Format_SETUP: "Format SETUP =
    str ''SETUP '' @ 37 # 115 # str ''/'' @ 37 # 115 # str '' RTSP/1.0'' @ crlf @ str ''CSeq: '' @ 37 # 100 #
      crlf @ str ''Session: '' @ 37 # 115 # crlf @ 37 # 115 # str ''User-Agent: github/dontls'' @ crlf @ str
      ''Transport: RTP/AVP/TCP;unicast;interleaved=0-1'' @ crlf @ crlf @ []"
  by code_simp

lemma Format_SETUP_NOSS: "Format SETUP_NOSS =
    str ''SETUP '' @ 37 # 115 # str ''/'' @ 37 # 115 # str '' RTSP/1.0'' @ crlf @ str ''CSeq: '' @ 37 # 100 #
      crlf @ 37 # 115 # 37 # 115 # str ''User-Agent: github/dontls'' @ crlf @ str ''Transport: RTP/AVP/TCP;unicast;interleaved=0-1'' @ crlf @ crlf @ []"
  by code_simp

lemma Format_PLAY: "Format PLAY =
    str ''PLAY '' @ 37 # 115 # str '' RTSP/1.0'' @ crlf @ str ''CSeq: '' @ 37 # 100 # crlf @ str ''Session: '' @
      37 # 115 # crlf @ 37 # 115 # str ''User-Agent: github/dontls'' @ crlf @ str ''Range: npt='' @ 37 # 48 # 46
      # 51 # 102 # str ''-'' @ crlf @ crlf @ []"
  by code_simp

lemma Format_GET_PARAMETER: "Format GET_PARAMETER =
    str ''GET_PARAMETER '' @ 37 # 115 # str '' RTSP/1.0'' @ crlf @ str ''CSeq: '' @ 37 # 100 # crlf @ str
      ''Session: '' @ 37 # 115 # crlf @ str ''User-Agent: github/dontls'' @ crlf @ 37 # 115 # crlf @ []"
  by code_simp

lemma Format_TEARDOWN: "Format TEARDOWN =
    str ''TEARDOWN '' @ 37 # 115 # str '' RTSP/1.0'' @ crlf @ str ''CSeq: '' @ 37 # 100 # crlf @ str ''Session: '' @ 37 # 115 # crlf @ str ''User-Agent: github/dontls'' @ crlf @ 37 # 115 # crlf @ []"
  by code_simp

lemma str_append: "str (s @ t) = str s @ str t"
  by (simp add: str_def)

lemma str_Cons: "str (c # s) = of_char c # str s" "str [] = []"
  by (simp_all add: str_def)

lemma sprintf_OPTIONS: "sprintf j (Format OPTIONS) [Arg_s p, Arg_d n, Arg_s a] =
    Some (request ''OPTIONS'' p n [a, user_agent])"
  unfolding Format_OPTIONS request_def by (simp only: sprintf_simps option.map) (simp add: str_Cons)

lemma sprintf_DESCRIBE: "sprintf j (Format DESCRIBE) [Arg_s p, Arg_d n, Arg_s a] =
    Some (request ''DESCRIBE'' p n [a, user_agent, line ''Accept: application/sdp''])"
  unfolding Format_DESCRIBE request_def by (simp only: sprintf_simps option.map) (simp add: str_Cons)

lemma sprintf_SETUP: "sprintf j (Format SETUP) [Arg_s p, Arg_s m, Arg_d n, Arg_s z, Arg_s a] =
    Some (request ''SETUP'' (p @ str ''/'' @ m) n
      [str ''Session: '' @ z @ crlf, a, user_agent, line ''Transport: RTP/AVP/TCP;unicast;interleaved=0-1''])"
  unfolding Format_SETUP request_def by (simp only: sprintf_simps option.map) (simp add: str_Cons)

lemma sprintf_SETUP_NOSS: "sprintf j (Format SETUP_NOSS) [Arg_s p, Arg_s m, Arg_d n, Arg_s [], Arg_s a] =
    Some (request ''SETUP'' (p @ str ''/'' @ m) n
      [a, user_agent, line ''Transport: RTP/AVP/TCP;unicast;interleaved=0-1''])"
  unfolding Format_SETUP_NOSS request_def by (simp only: sprintf_simps option.map) (simp add: str_Cons)

lemma sprintf_PLAY: "sprintf j (Format PLAY) [Arg_s p, Arg_d n, Arg_s z, Arg_s a, Arg_d 0] =
    Some (request ''PLAY'' p n
      [str ''Session: '' @ z @ crlf, a, user_agent, str ''Range: npt='' @ j @ line ''-''])"
  unfolding Format_PLAY request_def by (simp only: sprintf_simps option.map) (simp add: str_Cons)

lemma sprintf_GET_PARAMETER: "sprintf j (Format GET_PARAMETER) [Arg_s p, Arg_d n, Arg_s z, Arg_s a] =
    Some (request ''GET_PARAMETER'' p n [str ''Session: '' @ z @ crlf, user_agent, a])"
  unfolding Format_GET_PARAMETER request_def by (simp only: sprintf_simps option.map) (simp add: str_Cons)

lemma sprintf_TEARDOWN: "sprintf j (Format TEARDOWN) [Arg_s p, Arg_d n, Arg_s z, Arg_s a] =
    Some (request ''TEARDOWN'' p n [str ''Session: '' @ z @ crlf, user_agent, a])"
  unfolding Format_TEARDOWN request_def by (simp only: sprintf_simps option.map) (simp add: str_Cons)

subsection \<open>One response\<close>

text \<open>Every \<open>Write\<close> succeeds, in whole or in part.\<close>

definition sending :: "env \<Rightarrow> bool" where
  "sending env \<longleftrightarrow> (\<forall>n. \<exists>k. write_result env n = Inr k)"

lemma doWriteCmd_sends:
  assumes "sending env"
    and "sprintf (junk env) (Format (if type = SETUP \<and> session (c_sdp c) = [] then SETUP_NOSS else type)) (Arg_s (c_str (path (c_url c))) # args) = Some t"
    and "length t < 2048" "0 \<notin> set t"
  shows "doWriteCmd env type args c = Done () (c\<lparr>cmd := type, writes := writes c @ [t]\<rparr>)"
proof -
  obtain k where "write_result env (length (writes c)) = Inr k"
    using assms(1) by (auto simp: sending_def)
  with assms(2-4) show ?thesis
    by (simp add: doWriteCmd_def Let_def c_str_id)
qed

lemma length_str [simp]: "length (str s) = length s"
  by (simp add: str_def)

lemma length_crlf [simp]: "length crlf = 2"
  by (simp add: crlf_def)

lemma zero_crlf [simp]: "0 \<notin> set crlf"
  by (simp add: crlf_def)

lemma zero_dec [simp]: "0 \<notin> set (dec v)"
  using dec_nat_digits[of "nat v"] dec_nat_digits[of "nat (- v)"] digit_facts by (auto simp: dec_def)

lemma zero_lits [simp]: "0 \<notin> set (str ''DESCRIBE'')" "0 \<notin> set (str ''OPTIONS'')" "0 \<notin> set (str ''SETUP'')" "0 \<notin> set (str ''PLAY'')"
  "0 \<notin> set (str '' '')" "0 \<notin> set (str ''/'')" "0 \<notin> set (str ''-'')" "0 \<notin> set (str '' RTSP/1.0'')" "0 \<notin> set (str ''CSeq: '')"
  "0 \<notin> set (str ''Session: '')" "0 \<notin> set (str ''User-Agent: github/dontls'')" "0 \<notin> set (str ''Accept: application/sdp'')"
  "0 \<notin> set (str ''Transport: RTP/AVP/TCP;unicast;interleaved=0-1'')" "0 \<notin> set (str ''Range: npt='')"
  by (rule conjunct2[OF plain_str]; code_simp)+

lemma zero_request: "0 \<notin> set (request meth uri n hdrs) \<longleftrightarrow> 0 \<notin> set (str meth) \<and> 0 \<notin> set uri \<and> list_all (\<lambda>h. 0 \<notin> set h) hdrs"
  by (auto simp: request_def list_all_iff)

lemma length_request: "length (request meth uri n hdrs) = length meth + length uri + length (dec n) + sum_list (map length hdrs) + 22"
  by (simp add: request_def length_concat)

definition unchallenged :: "bytes list \<Rightarrow> bool" where
  "unchallenged res \<longleftrightarrow> list_all (\<lambda>s. \<not> contains s (str ''WWW-Authenticate'')) res"

lemma find_if_None: "find_if P xs = None \<longleftrightarrow> list_all (\<lambda>x. \<not> P x) xs"
  by (induction xs) auto

lemma checkAuthorized_unchallenged: "unchallenged res \<Longrightarrow> checkAuthorized env res type meth c = Done True c"
  unfolding unchallenged_def find_if_None [symmetric] by (simp add: checkAuthorized_def)

lemma contains_empty: "contains [] (c # p) = False"
  by (simp add: contains_def string_find_def)

lemma GetAuth_none: "baseAuth u = [] \<Longrightarrow> GetAuth type u = []"
  by (simp add: GetAuth_def str_Cons contains_empty)

text \<open>A client that talks to a server without authentication and whose texts fit the request buffer.\<close>

definition plain_client :: "env \<Rightarrow> client \<Rightarrow> bool" where
  "plain_client env c \<longleftrightarrow>
     sending env \<and> baseAuth (c_url c) = [] \<and> 0 \<notin> set (path (c_url c)) \<and> length (path (c_url c)) \<le> 1100"

lemma c_str_path: "plain_client env c \<Longrightarrow> c_str (path (c_url c)) = path (c_url c)"
  by (simp add: plain_client_def c_str_id)

lemma auth_arg_none: "plain_client env c \<Longrightarrow> auth_arg t c = Arg_s []"
  by (simp add: plain_client_def auth_arg_def GetAuth_none c_str_def)

lemma short_dec: "0 \<le> v \<Longrightarrow> v < 10 \<Longrightarrow> length (dec v) = 1"
proof -
  assume "0 \<le> v" "v < 10"
  then have "nat v < 10"
    by linarith
  then show ?thesis
    using \<open>0 \<le> v\<close> by (subst dec_nonneg, simp, subst dec_nat.simps) simp
qed

lemma reply_to_options:
  assumes "plain_client env c" "cmd c = OPTIONS" "unchallenged res" "0 \<le> seqn c" "seqn c < 10"
  shows "reply_switch env res hs hlen c =
    Done () (c\<lparr>seqn := seqn c + 1, cmd := DESCRIBE,
      writes := writes c @ [request ''DESCRIBE'' (path (c_url c)) (seqn c) [user_agent, line ''Accept: application/sdp'']]\<rparr>)"
proof -
  have "doWriteCmd env DESCRIBE [Arg_d (seqn c), Arg_s []] (next_seq c) =
      Done () ((next_seq c)\<lparr>cmd := DESCRIBE,
        writes := writes (next_seq c) @ [request ''DESCRIBE'' (path (c_url c)) (seqn c) [[], user_agent, line ''Accept: application/sdp'']]\<rparr>)"
    using assms(1,4,5) c_str_path[OF assms(1)]
    by (intro doWriteCmd_sends) (simp_all add: plain_client_def next_seq_def sprintf_DESCRIBE length_request short_dec zero_request)
  moreover have "request ''DESCRIBE'' u n [[], a, b] = request ''DESCRIBE'' u n [a, b]" for u n a b
    by (simp add: request_def)
  ultimately show ?thesis
    using assms(2) auth_arg_none[OF assms(1)]
    by (simp add: reply_switch_def checkAuthorized_unchallenged[OF assms(3)] and_then_def next_seq_def)
qed

text \<open>The description that the client makes of the lines of a response.\<close>

definition described :: "bytes list \<Rightarrow> bytes \<Rightarrow> client \<Rightarrow> sdp option" where
  "described res body c = sdp_Parse res ((c_sdp c)\<lparr>content := body\<rparr>)"

abbreviation transport :: bytes where "transport \<equiv> line ''Transport: RTP/AVP/TCP;unicast;interleaved=0-1''"

lemma reply_to_describe:
  assumes "plain_client env c" "cmd c = DESCRIBE" "unchallenged res" "0 \<le> seqn c" "seqn c < 10"
    and d: "described res body c = Some d" "session d = []" and m: "find_if is_video (medias d) = Some m"
    and "0 \<notin> set (control_id m)" "length (control_id m) \<le> 700"
  shows "reply_switch env res (head hs @ body) (length (head hs)) c =
    Done () (c\<lparr>seqn := seqn c + 1, cmd := SETAUDIO, c_sdp := d,
      writes := writes c @ [request ''SETUP'' (path (c_url c) @ str ''/'' @ control_id m) (seqn c) [user_agent, transport]]\<rparr>)"
proof -
  let ?c = "c\<lparr>c_sdp := d\<rparr>"
  have *: "plain_client env ?c"
    using assms(1) by (simp add: plain_client_def)
  have "doWriteCmd env SETUP [Arg_s (control_id m), Arg_d (seqn c), Arg_s [], Arg_s []] (next_seq ?c) =
      Done () ((next_seq ?c)\<lparr>cmd := SETUP, writes := writes (next_seq ?c) @
        [request ''SETUP'' (path (c_url c) @ str ''/'' @ control_id m) (seqn c) [[], user_agent, transport]]\<rparr>)"
    using assms c_str_path[OF assms(1)]
    by (intro doWriteCmd_sends) (simp_all add: plain_client_def next_seq_def sprintf_SETUP_NOSS length_request short_dec zero_request)
  moreover have "request ''SETUP'' u n [[], a, b] = request ''SETUP'' u n [a, b]" for u n a b
    by (simp add: request_def)
  ultimately have "send_setup env m ?c = Done () (c\<lparr>c_sdp := d, seqn := seqn c + 1, cmd := SETUP,
      writes := writes c @ [request ''SETUP'' (path (c_url c) @ str ''/'' @ control_id m) (seqn c) [user_agent, transport]]\<rparr>)"
    using auth_arg_none[OF *] assms(7,9) by (simp add: send_setup_def c_str_id session_arg_def next_seq_def)
  moreover have "substr_from (head hs @ body) (length (head hs)) = Some body"
    by (simp add: substr_from_def)
  ultimately show ?thesis
    using assms(2) m d(1)
    by (simp add: reply_switch_def reply_describe_def checkAuthorized_unchallenged[OF assms(3)] and_then_def described_def)
qed

text \<open>The response to the first SETUP brings the session. It is followed by PLAY, or by the SETUP of the audio stream when audio was asked for
  and is there; the response to that is followed by PLAY.\<close>

lemma PLAY_sent:
  assumes "plain_client env c" "0 \<le> seqn c" "seqn c < 10" "session (c_sdp c) = sid" "0 \<notin> set sid" "0 \<notin> set (junk env)"
    and "length sid + length (junk env) \<le> 700"
  shows "reply_setup env c = Done () (c\<lparr>seqn := seqn c + 1, cmd := PLAY,
      writes := writes c @ [request ''PLAY'' (path (c_url c)) (seqn c)
        [str ''Session: '' @ sid @ crlf, user_agent, str ''Range: npt='' @ junk env @ line ''-'']]\<rparr>)"
proof -
  have "doWriteCmd env PLAY [Arg_d (seqn c), Arg_s sid, Arg_s [], Arg_d 0] (next_seq c) =
      Done () ((next_seq c)\<lparr>cmd := PLAY, writes := writes (next_seq c) @
        [request ''PLAY'' (path (c_url c)) (seqn c) [str ''Session: '' @ sid @ crlf, [], user_agent, str ''Range: npt='' @ junk env @ line ''-'']]\<rparr>)"
    using assms c_str_path[OF assms(1)]
    by (intro doWriteCmd_sends) (simp_all add: plain_client_def next_seq_def sprintf_PLAY length_request short_dec zero_request)
  moreover have "request ''PLAY'' u n [x, [], a, b] = request ''PLAY'' u n [x, a, b]" for u n x a b
    by (simp add: request_def)
  ultimately show ?thesis
    using auth_arg_none[OF assms(1)] assms(4,5) by (simp add: reply_setup_def c_str_id session_arg_def next_seq_def)
qed

lemma SETUP_sent:
  assumes "plain_client env c" "0 \<le> seqn c" "seqn c < 10" "session (c_sdp c) = sid" "sid \<noteq> []" "0 \<notin> set sid"
    and "0 \<notin> set (control_id m)" "length (control_id m) + length sid \<le> 700"
  shows "send_setup env m c = Done () (c\<lparr>seqn := seqn c + 1, cmd := SETUP,
      writes := writes c @ [request ''SETUP'' (path (c_url c) @ str ''/'' @ control_id m) (seqn c)
        [str ''Session: '' @ sid @ crlf, user_agent, transport]]\<rparr>)"
proof -
  have "doWriteCmd env SETUP [Arg_s (control_id m), Arg_d (seqn c), Arg_s sid, Arg_s []] (next_seq c) =
      Done () ((next_seq c)\<lparr>cmd := SETUP, writes := writes (next_seq c) @
        [request ''SETUP'' (path (c_url c) @ str ''/'' @ control_id m) (seqn c) [str ''Session: '' @ sid @ crlf, [], user_agent, transport]]\<rparr>)"
    using assms c_str_path[OF assms(1)]
    by (intro doWriteCmd_sends) (simp_all add: plain_client_def next_seq_def sprintf_SETUP length_request short_dec zero_request)
  moreover have "request ''SETUP'' u n [x, [], a, b] = request ''SETUP'' u n [x, a, b]" for u n x a b
    by (simp add: request_def)
  ultimately show ?thesis
    using auth_arg_none[OF assms(1)] assms(4-7) by (simp add: send_setup_def c_str_id session_arg_def next_seq_def)
qed

lemma reply_to_setup:
  assumes "plain_client env c" "cmd c = SETAUDIO" "atype c = 0x7f \<longrightarrow> find_if is_audio (medias (c_sdp c)) = None" "0 \<le> seqn c" "seqn c < 10" "session (c_sdp c) = []"
    and "find_if (\<lambda>s. contains s (str ''Session: '')) res = Some l" "session_of l = sid" "sid \<noteq> []" "0 \<notin> set sid" "0 \<notin> set (junk env)"
    and "length sid + length (junk env) \<le> 700"
  shows "reply_switch env res hs hlen c =
    Done () (c\<lparr>seqn := seqn c + 1, cmd := PLAY, c_sdp := (c_sdp c)\<lparr>session := sid\<rparr>,
      writes := writes c @ [request ''PLAY'' (path (c_url c)) (seqn c)
        [str ''Session: '' @ sid @ crlf, user_agent, str ''Range: npt='' @ junk env @ line ''-'']]\<rparr>)"
proof -
  have "plain_client env (c\<lparr>c_sdp := (c_sdp c)\<lparr>session := sid\<rparr>\<rparr>)"
    using assms(1) by (simp add: plain_client_def)
  from PLAY_sent[OF this, of sid] show ?thesis
    using assms by (simp add: reply_switch_def reply_setaudio_def Let_def split: if_splits)
qed

lemma reply_to_setup_audio:
  assumes "plain_client env c" "cmd c = SETAUDIO" "atype c = 0x7f" "find_if is_audio (medias (c_sdp c)) = Some m" "0 \<le> seqn c" "seqn c < 10"
    and "session (c_sdp c) = []" "find_if (\<lambda>s. contains s (str ''Session: '')) res = Some l" "session_of l = sid" "sid \<noteq> []" "0 \<notin> set sid"
    and "0 \<notin> set (control_id m)" "length (control_id m) + length sid \<le> 700"
  shows "reply_switch env res hs hlen c =
    Done () (c\<lparr>atype := signed_take_bit 7 (format m), seqn := seqn c + 1, cmd := SETUP, c_sdp := (c_sdp c)\<lparr>session := sid\<rparr>,
      writes := writes c @ [request ''SETUP'' (path (c_url c) @ str ''/'' @ control_id m) (seqn c)
        [str ''Session: '' @ sid @ crlf, user_agent, transport]]\<rparr>)"
proof -
  have "plain_client env (c\<lparr>c_sdp := (c_sdp c)\<lparr>session := sid\<rparr>, atype := signed_take_bit 7 (format m)\<rparr>)"
    using assms(1) by (simp add: plain_client_def)
  from SETUP_sent[OF this, of sid m] show ?thesis
    using assms by (simp add: reply_switch_def reply_setaudio_def Let_def split: if_splits)
qed

lemma reply_to_second_setup:
  assumes "plain_client env c" "cmd c = SETUP" "0 \<le> seqn c" "seqn c < 10" "session (c_sdp c) = sid" "0 \<notin> set sid" "0 \<notin> set (junk env)"
    and "length sid + length (junk env) \<le> 700"
  shows "reply_switch env res hs hlen c = Done () (c\<lparr>seqn := seqn c + 1, cmd := PLAY,
      writes := writes c @ [request ''PLAY'' (path (c_url c)) (seqn c)
        [str ''Session: '' @ sid @ crlf, user_agent, str ''Range: npt='' @ junk env @ line ''-'']]\<rparr>)"
  using PLAY_sent[OF assms(1,3-8)] assms(2) by (simp add: reply_switch_def)

subsection \<open>The loop\<close>

text \<open>The handler of \<open>Play\<close> consumes responses as frames.\<close>

definition answered :: "env \<Rightarrow> bytes \<Rightarrow> client \<Rightarrow> client \<Rightarrow> bool" where
  "answered env f c c' \<longleftrightarrow>
     (\<exists>hs body. f = head hs @ body \<and> reply_ok hs body \<and> hd (hd hs) \<noteq> 36 \<and>
       reply_switch env (hs @ [] # text_lines (c_str body)) (head hs @ body) (length (head hs)) c = Done () c')"

lemma Play_handler_reply:
  assumes "reply_ok hs body" "hd (hd hs) \<noteq> 36"
    and "reply_switch env (hs @ [] # text_lines (c_str body)) (head hs @ body) (length (head hs)) c = Done () c'"
  shows "Play_handler env (head hs @ body @ next_data) (length (head hs @ body @ next_data)) c = Done (int (length (head hs @ body))) c'"
proof -
  have hs: "hs \<noteq> []" "list_all line_ok hs"
    using assms(1) by (simp_all add: reply_ok_def)
  have n: "4 < length (head hs)"
    by (rule length_head[OF hs])
  have "(head hs @ body @ next_data) ! 0 \<noteq> 36"
    using hs assms(2) by (cases hs; cases "hd hs") (auto simp: head_simps line_ok_def nth_append)
  then have "Play_handler env (head hs @ body @ next_data) (length (head hs @ body @ next_data)) c =
      doRtspParse env (head hs @ body @ next_data) (length (head hs @ body @ next_data)) c"
    using n by (simp add: Play_handler_def)
  also have "\<dots> = Done (int (length (head hs @ body))) c'"
    unfolding doRtspParse_reply[OF assms(1)] assms(3) by (simp add: and_then_def)
  finally show ?thesis .
qed

interpretation play: frame_handler "Play_handler env" "answered env" for env
proof unfold_locales
  show "Play_handler env [] 0 s = Done 0 s" for s
    by (simp add: Play_handler_def)
next
  fix f s s' t
  assume "answered env f s s'"
  then show "Play_handler env (f @ t) (length (f @ t)) s = Done (int (length f)) s'"
    unfolding answered_def using Play_handler_reply by (elim exE conjE) (simp only: append_assoc)
next
  fix f s s'
  assume "answered env f s s'"
  then show "f \<noteq> []"
    using length_head by (fastforce simp: answered_def reply_ok_def)
qed

text \<open>A response that one read delivers.\<close>

lemma LoopRead_reply:
  assumes "reply_ok hs body" "hd (hd hs) \<noteq> 36" "length (head hs @ body) \<le> 2048" "vec rbuf = []" "m_connected conn"
    and "reply_switch env (hs @ [] # text_lines (c_str body)) (head hs @ body) (length (head hs)) c = Done () c'"
  shows "\<exists>rbuf'. vec rbuf' = [] \<and> LoopRead (Play_handler env) 1000 conn (([Ready], Recv (head hs @ body)) # evs) rbuf c =
    LoopRead (Play_handler env) 1000 conn evs rbuf' c'"
proof -
  have a: "answered env (head hs @ body) c c'"
    using assms(1,2,6) by (auto simp: answered_def)
  from play.next_frame[OF a play.none] have "play.frames env (head hs @ body) c c'"
    by simp
  then show ?thesis
    using play.not_empty[OF a] assms(3-5) by (intro play.LoopRead_frames)
qed

text \<open>Several responses, each delivered by one read.\<close>

definition whole_reply :: "bytes list \<times> bytes \<Rightarrow> bool" where
  "whole_reply = (\<lambda>(hs, body). reply_ok hs body \<and> hd (hd hs) \<noteq> 36 \<and> length (head hs @ body) \<le> 2048)"

definition reply_lines :: "bytes list \<times> bytes \<Rightarrow> bytes list" where
  "reply_lines = (\<lambda>(hs, body). hs @ [] # text_lines (c_str body))"

definition read_of :: "bytes list \<times> bytes \<Rightarrow> select_result list \<times> recv_result" where
  "read_of = (\<lambda>(hs, body). ([Ready], Recv (head hs @ body)))"

definition answers :: "env \<Rightarrow> bytes list \<times> bytes \<Rightarrow> client \<Rightarrow> client \<Rightarrow> bool" where
  "answers env r c c' \<longleftrightarrow>
     reply_switch env (reply_lines r) (head (fst r) @ snd r) (length (head (fst r))) c = Done () c'"

lemma LoopRead_read:
  assumes "whole_reply r" "answers env r c c'" "m_connected conn" "vec rbuf = []"
  obtains rb where "vec rb = []"
    "LoopRead (Play_handler env) 1000 conn (read_of r # evs) rbuf c = LoopRead (Play_handler env) 1000 conn evs rb c'"
proof -
  obtain hs body where r: "r = (hs, body)"
    by fastforce
  then show ?thesis
    using LoopRead_reply[of hs body rbuf conn env c c' evs] assms that
    by (auto simp: whole_reply_def answers_def reply_lines_def read_of_def)
qed

inductive exchange :: "env \<Rightarrow> (bytes list \<times> bytes) list \<Rightarrow> client \<Rightarrow> client \<Rightarrow> bool" for env where
  none: "exchange env [] c c"
| more: "whole_reply r \<Longrightarrow> answers env r c c' \<Longrightarrow> exchange env rs c' c'' \<Longrightarrow> exchange env (r # rs) c c''"

lemma LoopRead_exchange:
  assumes "exchange env rs c c'" "m_connected conn" "vec rbuf = []"
  shows "\<exists>rb. vec rb = [] \<and> LoopRead (Play_handler env) 1000 conn (map read_of rs) rbuf c = Some (More rb c')"
  using assms
proof (induction arbitrary: rbuf)
  case (more r c c' rs c'')
  obtain rb where "vec rb = []"
    "LoopRead (Play_handler env) 1000 conn (read_of r # map read_of rs) rbuf c = LoopRead (Play_handler env) 1000 conn (map read_of rs) rb c'"
    by (rule LoopRead_read[OF more.hyps(1,2) more.prems])
  then show ?case
    using more.IH more.prems(1) by simp
qed simp

subsection \<open>The requests of a session\<close>

definition req_options :: "bytes \<Rightarrow> bytes" where
  "req_options p = request ''OPTIONS'' p 0 [user_agent]"

definition req_describe :: "bytes \<Rightarrow> bytes" where
  "req_describe p = request ''DESCRIBE'' p 1 [user_agent, line ''Accept: application/sdp'']"

definition req_setup :: "bytes \<Rightarrow> bytes" where
  "req_setup p = request ''SETUP'' p 2 [user_agent, transport]"

definition req_setup_audio :: "bytes \<Rightarrow> bytes \<Rightarrow> bytes" where
  "req_setup_audio p sid = request ''SETUP'' p 3 [str ''Session: '' @ sid @ crlf, user_agent, transport]"

definition req_play :: "bytes \<Rightarrow> int \<Rightarrow> bytes \<Rightarrow> bytes \<Rightarrow> bytes" where
  "req_play p n sid t = request ''PLAY'' p n [str ''Session: '' @ sid @ crlf, user_agent, str ''Range: npt='' @ t @ line ''-'']"

lemma OPTIONS_sent:
  assumes "plain_client env c" "seqn c = 0" "session (c_sdp c) = []" "writes c = []"
  shows "doWriteCmd env OPTIONS [Arg_d 0, Arg_s []] (next_seq c) =
    Done () (c\<lparr>seqn := 1, cmd := OPTIONS, writes := [req_options (path (c_url c))]\<rparr>)"
proof -
  have "doWriteCmd env OPTIONS [Arg_d 0, Arg_s []] (next_seq c) =
      Done () ((next_seq c)\<lparr>cmd := OPTIONS, writes := writes (next_seq c) @ [request ''OPTIONS'' (path (c_url c)) 0 [[], user_agent]]\<rparr>)"
    using assms c_str_path[OF assms(1)]
    by (intro doWriteCmd_sends) (simp_all add: plain_client_def next_seq_def sprintf_OPTIONS length_request short_dec zero_request)
  moreover have "request ''OPTIONS'' u n [[], a] = request ''OPTIONS'' u n [a]" for u n a
    by (simp add: request_def)
  ultimately show ?thesis
    using assms by (simp add: next_seq_def req_options_def)
qed

text \<open>A successful \<open>Dial\<close> of a fresh connection.\<close>

lemma Dial_fresh:
  assumes "\<not> m_connected conn" "m_sock conn = INVALID_SOCKET"
  obtains conn' where "Dial a p (Ret fd) (Ret n) (Inr info) conn = Done () conn'" "m_connected conn'"
  using assms that by (auto simp: Dial_def Create_def INVALID_SOCKET_def Let_def)

lemma url_Parse_auth: "url_Parse uri u = Some (True, u') \<Longrightarrow> baseAuth u' = []"
  by (auto simp: url_Parse_def Let_def bind_eq_Some_conv split: if_splits option.splits)

subsection \<open>Properties\<close>

text \<open>C36. The handshake, for a URL without credentials, a server that answers each request in one piece without a challenge, and a description
  whose response brings no session: the client sends OPTIONS, DESCRIBE, SETUP of the first video stream of the description, then, if audio was asked
  for and the description has an audio stream, SETUP of the first one with the session that the server gave, and PLAY with this session, numbered
  from 0 on, and then waits for data. (The texts hold no zero byte and fit the request buffer, and a response has at most 2048 bytes.)\<close>

theorem rtsp_handshake:
  assumes "url_Parse uri (c_url (rtsp_Client reqAudio)) = Some (True, u)" "0 \<notin> set (path u)" "length (path u) \<le> 1100" "sending env"
    and dial: "\<not> m_connected conn" "m_sock conn = INVALID_SOCKET"
    and r: "list_all whole_reply [r1, r2, r3, r4]" "unchallenged (reply_lines r1)" "unchallenged (reply_lines r2)"
    and d: "sdp_Parse (reply_lines r2) (sdp0\<lparr>content := snd r2\<rparr>) = Some d" "session d = []"
    and m: "find_if is_video (medias d) = Some m" "0 \<notin> set (control_id m)" "length (control_id m) \<le> 700"
    and a: "(if reqAudio then find_if is_audio (medias d) else None) = a"
      "\<forall>m \<in> set_option a. 0 \<notin> set (control_id m) \<and> length (control_id m) + length sid \<le> 700"
    and sid: "find_if (\<lambda>s. contains s (str ''Session: '')) (reply_lines r3) = Some l" "session_of l = sid" "sid \<noteq> []"
      "0 \<notin> set sid" "0 \<notin> set (junk env)" "length sid + length (junk env) \<le> 700"
  shows "\<exists>rb c. Play env uri inet (Ret fd) (Ret 0) (Inr info) (map read_of ([r1, r2, r3] @ (if a = None then [] else [r4]))) conn (rtsp_Client reqAudio) =
      Some (True, More rb c) \<and> vec rb = [] \<and> cmd c = PLAY \<and>
      writes c = [req_options (path u), req_describe (path u), req_setup (path u @ str ''/'' @ control_id m)] @
        (case a of None \<Rightarrow> [req_play (path u) 3 sid (junk env)]
         | Some m \<Rightarrow> [req_setup_audio (path u @ str ''/'' @ control_id m) sid, req_play (path u) 4 sid (junk env)])"
proof -
  have auth: "baseAuth u = []"
    by (rule url_Parse_auth[OF assms(1)])
  obtain conn' where conn': "Dial (inet (ip u)) (port u) (Ret fd) (Ret 0) (Inr info) conn = Done () conn'" "m_connected conn'"
    by (rule Dial_fresh[OF dial])
  define c0 where "c0 = (rtsp_Client reqAudio)\<lparr>c_url := u\<rparr>"
  have c0: "plain_client env c0" "seqn c0 = 0" "session (c_sdp c0) = []" "writes c0 = []"
    using assms(2-4) auth by (simp_all add: c0_def plain_client_def rtsp_Client_def sdp0_def)
  define c1 where "c1 = c0\<lparr>seqn := 1, cmd := OPTIONS, writes := [req_options (path u)], ticks := 1, ts := clock env 0\<rparr>"
  define c2 where "c2 = c1\<lparr>seqn := 2, cmd := DESCRIBE, writes := writes c1 @ [req_describe (path u)]\<rparr>"
  define c3 where "c3 = c2\<lparr>seqn := 3, cmd := SETAUDIO, c_sdp := d, writes := writes c2 @ [req_setup (path u @ str ''/'' @ control_id m)]\<rparr>"
  note c_defs = c3_def c2_def c1_def c0_def rtsp_Client_def
  have plain: "plain_client env c1" "plain_client env c2" "plain_client env c3"
    using c0(1) by (simp_all add: c1_def c2_def c3_def plain_client_def)
  have s1: "answers env r1 c1 c2"
    unfolding answers_def by (subst reply_to_options[OF plain(1) _ r(2)]) (simp_all add: c_defs req_describe_def)
  have "described (reply_lines r2) (snd r2) c2 = Some d"
    using d(1) by (simp add: described_def c_defs)
  then have s2: "answers env r2 c2 c3"
    unfolding answers_def by (subst reply_to_describe[OF plain(2) _ r(3) _ _ _ d(2) m]) (simp_all add: c_defs req_setup_def)
  have start: "Play env uri inet (Ret fd) (Ret 0) (Inr info) evs conn (rtsp_Client reqAudio) =
      map_option (Pair True) (LoopRead (Play_handler env) 1000 conn' evs Buffer c1)" for evs
    using assms(1) conn'(1) OPTIONS_sent[OF c0] c0(2) by (simp add: Play_def read_clock_def c_defs)
  have e: "vec Buffer = []" and w: "whole_reply r1" "whole_reply r2" "whole_reply r3" "whole_reply r4"
    using r(1) by (simp_all add: Buffer_def)
  have "\<exists>c. exchange env ([r3] @ (if a = None then [] else [r4])) c3 c \<and> cmd c = PLAY \<and> writes c = writes c3 @
      (case a of None \<Rightarrow> [req_play (path u) 3 sid (junk env)]
       | Some m \<Rightarrow> [req_setup_audio (path u @ str ''/'' @ control_id m) sid, req_play (path u) 4 sid (junk env)])"
  proof (cases a)
    case None
    define c4 where "c4 = c3\<lparr>seqn := 4, cmd := PLAY, c_sdp := d\<lparr>session := sid\<rparr>, writes := writes c3 @ [req_play (path u) 3 sid (junk env)]\<rparr>"
    have "atype c3 = 0x7f \<longrightarrow> find_if is_audio (medias (c_sdp c3)) = None"
      using a(1) None by (simp add: c_defs split: if_splits)
    then have "answers env r3 c3 c4"
      unfolding answers_def by (subst reply_to_setup[OF plain(3) _ _ _ _ _ sid]) (simp_all add: c4_def c_defs d(2) req_play_def)
    then show ?thesis
      using None by (intro exI[of _ c4]) (simp add: exchange.intros w c4_def)
  next
    case (Some ma)
    define c4 where "c4 = c3\<lparr>atype := signed_take_bit 7 (format ma), seqn := 4, cmd := SETUP, c_sdp := d\<lparr>session := sid\<rparr>,
      writes := writes c3 @ [req_setup_audio (path u @ str ''/'' @ control_id ma) sid]\<rparr>"
    define c5 where "c5 = c4\<lparr>seqn := 5, cmd := PLAY, writes := writes c4 @ [req_play (path u) 4 sid (junk env)]\<rparr>"
    have au: "reqAudio" "find_if is_audio (medias d) = Some ma"
      using a(1) Some by (simp_all split: if_splits)
    have "answers env r3 c3 c4"
      unfolding answers_def using a(2) Some
      by (subst reply_to_setup_audio[OF plain(3) _ _ _ _ _ _ sid(1-4)]) (simp_all add: c4_def c_defs d(2) au req_setup_audio_def)
    moreover have "plain_client env c4"
      using plain(3) by (simp add: c4_def plain_client_def)
    then have "answers env r4 c4 c5"
      unfolding answers_def
      by (subst reply_to_second_setup[OF _ _ _ _ _ sid(4-6)]) (simp_all add: c5_def c4_def c_defs req_play_def)
    ultimately show ?thesis
      using Some by (intro exI[of _ c5]) (auto simp: c5_def c4_def intro!: exchange.intros w)
  qed
  then obtain c where c: "exchange env ([r1, r2, r3] @ (if a = None then [] else [r4])) c1 c" "cmd c = PLAY"
      "writes c = writes c3 @ (case a of None \<Rightarrow> [req_play (path u) 3 sid (junk env)]
       | Some m \<Rightarrow> [req_setup_audio (path u @ str ''/'' @ control_id m) sid, req_play (path u) 4 sid (junk env)])"
    using exchange.more[OF w(1) s1 exchange.more[OF w(2) s2]] by auto
  then show ?thesis
    using LoopRead_exchange[OF c(1) conn'(2) e] unfolding start by (auto simp: c3_def c2_def c1_def)
qed

text \<open>A camera with an H.264 stream and an audio stream.\<close>

definition cam_env :: env where
  "cam_env = \<lparr>write_result = (\<lambda>n. Inr 100), clock = (\<lambda>n. 0), call_frame = None, any_packet = False, junk = str ''0.000''\<rparr>"

definition cam_url :: url where
  "cam_url = url0\<lparr>path := str ''rtsp://cam:8554/live'', ip := str ''cam'', port := 8554\<rparr>"

definition cam_ok :: "bytes list" where
  "cam_ok = [str ''RTSP/1.0 200 OK'', str ''CSeq: 0'']"

definition cam_body :: bytes where
  "cam_body = line ''v=0'' @ line ''m=video 0 RTP/AVP 96'' @ line ''a=rtpmap:96 H264/90000'' @
     line ''a=fmtp:96 sprop-parameter-sets=Z0IAKeA=,aM48gA=='' @ line ''a=control:rtsp://cam/trackID=1'' @
     line ''m=audio 0 RTP/AVP 8'' @ line ''a=rtpmap:8 PCMA/8000'' @ line ''a=control:trackID=2''"

definition cam_sdp_head :: "bytes list" where
  "cam_sdp_head = [str ''RTSP/1.0 200 OK'', str ''Content-Length: 197'']"

definition cam_session :: "bytes list" where
  "cam_session = [str ''RTSP/1.0 200 OK'', str ''Session: 4711;timeout=60'']"

abbreviation "cam_options \<equiv> (cam_ok, [])"
abbreviation "cam_describe \<equiv> (cam_sdp_head, cam_body)"
abbreviation "cam_setup \<equiv> (cam_session, [])"

lemma reply_okI:
  "hs \<noteq> [] \<Longrightarrow> list_all line_ok hs \<Longrightarrow> content_length (head hs) = Some w \<Longrightarrow> length body = n \<Longrightarrow> w = word_of_nat n \<Longrightarrow>
     length (head hs @ body) \<le> 2048 \<Longrightarrow> reply_ok hs body"
  by (simp add: reply_ok_def)

lemma cam_texts:
  "cam_ok \<noteq> []" "list_all line_ok cam_ok" "content_length (head cam_ok) = Some 0" "hd (hd cam_ok) \<noteq> 36" "length (head cam_ok @ []) \<le> 2048"
  "cam_sdp_head \<noteq> []" "list_all line_ok cam_sdp_head" "content_length (head cam_sdp_head) = Some 197" "hd (hd cam_sdp_head) \<noteq> 36"
  "length cam_body = 197" "length (head cam_sdp_head @ cam_body) \<le> 2048"
  "cam_session \<noteq> []" "list_all line_ok cam_session" "content_length (head cam_session) = Some 0" "hd (hd cam_session) \<noteq> 36"
  "length (head cam_session @ []) \<le> 2048"
  "unchallenged (reply_lines cam_options)" "unchallenged (reply_lines cam_describe)"
  by code_simp+

lemma cam_replies: "reply_ok cam_ok []" "reply_ok cam_sdp_head cam_body" "reply_ok cam_session []"
  by (rule reply_okI; (rule cam_texts list.size(3))?; simp)+

lemma cam_whole: "list_all whole_reply [cam_options, cam_describe, cam_setup, cam_options]"
  using cam_replies cam_texts(4,5,9,11,15,16) by (simp add: whole_reply_def)

lemma cam_parsed:
  "url_Parse (str ''rtsp://cam:8554/live'') (c_url (rtsp_Client b)) = Some (True, cam_url)"
  "map_option (\<lambda>d. (session d, map_option control_id (find_if is_video (medias d)), map_option control_id (find_if is_audio (medias d))))
     (sdp_Parse (reply_lines cam_describe) (sdp0\<lparr>content := snd cam_describe\<rparr>)) = Some ([], Some (str ''trackID=1''), Some (str ''trackID=2''))"
  "find_if (\<lambda>s. contains s (str ''Session: '')) (reply_lines cam_setup) = Some (str ''Session: 4711;timeout=60'')"
  "session_of (str ''Session: 4711;timeout=60'') = str ''4711''"
  by code_simp+

theorem rtsp_handshake_witness:
  "\<exists>rb c. Play cam_env (str ''rtsp://cam:8554/live'') (\<lambda>a. 0) (Ret 3) (Ret 0) (Inr zero_addr)
      (map read_of [cam_options, cam_describe, cam_setup, cam_options]) (new_TcpConn (-1) zero_addr zero_addr) (rtsp_Client True) =
      Some (True, More rb c) \<and> vec rb = [] \<and> cmd c = PLAY \<and>
      writes c = [req_options (path cam_url), req_describe (path cam_url), req_setup (path cam_url @ str ''/'' @ str ''trackID=1''),
        req_setup_audio (path cam_url @ str ''/'' @ str ''trackID=2'') (str ''4711''), req_play (path cam_url) 4 (str ''4711'') (junk cam_env)]"
proof -
  obtain d m ma where d: "sdp_Parse (reply_lines cam_describe) (sdp0\<lparr>content := snd cam_describe\<rparr>) = Some d" "session d = []"
    and m: "find_if is_video (medias d) = Some m" "control_id m = str ''trackID=1''"
    and ma: "find_if is_audio (medias d) = Some ma" "control_id ma = str ''trackID=2''"
    using cam_parsed(2) by auto
  have *: "sending cam_env" "\<not> m_connected (new_TcpConn (-1) zero_addr zero_addr)" "m_sock (new_TcpConn (-1) zero_addr zero_addr) = INVALID_SOCKET"
    by (simp_all add: sending_def cam_env_def new_TcpConn_def INVALID_SOCKET_def)
  have **: "0 \<notin> set (path cam_url)" "length (path cam_url) \<le> 1100" "0 \<notin> set (str ''trackID=1'')" "length (str ''trackID=1'') \<le> 700"
    "str ''4711'' \<noteq> []" "0 \<notin> set (str ''4711'')" "0 \<notin> set (junk cam_env)" "length (str ''4711'') + length (junk cam_env) \<le> 700"
    "0 \<notin> set (str ''trackID=2'')" "length (str ''trackID=2'') + length (str ''4711'') \<le> 700"
    by code_simp+
  have a: "(if True then find_if is_audio (medias d) else None) = Some ma"
    "\<forall>m \<in> set_option (Some ma). 0 \<notin> set (control_id m) \<and> length (control_id m) + length (str ''4711'') \<le> 700"
    using ma **(9,10) by simp_all
  have m': "0 \<notin> set (control_id m)" "length (control_id m) \<le> 700"
    using m(2) **(3,4) by simp_all
  show ?thesis
    using rtsp_handshake[OF cam_parsed(1) **(1,2) * cam_whole cam_texts(17,18) d m(1) m' a cam_parsed(3,4) **(5-8),
        where fd = 3 and info = zero_addr and inet = "\<lambda>a. 0"] m(2) ma(2) by simp
qed

text \<open>A response whose head arrives in two reads is undefined behaviour: the search for the empty line runs over the end of the buffer, which holds
  no zero byte. (In the program it goes on in whatever follows the buffer's elements.)\<close>

theorem reply_in_pieces:
  assumes "list_all line_ok hs" "hs \<noteq> []" "hd (hd hs) \<noteq> 36" "head hs = part @ rest" "rest \<noteq> []" "4 \<le> length part" "length part \<le> 2048"
    and "m_connected conn" "vec rbuf = []"
  shows "LoopRead (Play_handler env) 1000 conn (([Ready], Recv part) # evs) rbuf c = Some Faulted"
proof -
  have n: "part \<noteq> []"
    using assms(6) by auto
  obtain rb where rb: "Write (Some (part @ replicate (2048 - length part) 0)) (length part) rbuf = Some (length part, rb)"
    "vec rb = vec rbuf @ take (length part) (part @ replicate (2048 - length part) 0)"
    using Write_defined[of "length part" "part @ replicate (2048 - length part) 0" rbuf] by auto
  have r: "TcpConn_Read 2048 1000 [Ready] (Recv part) conn = Some (Inr part)"
    using n assms(7,8) by (simp add: TcpConn_Read_def)
  obtain x xs where hd: "hd hs = x # xs" "x \<noteq> 36"
    using assms(1-3) by (cases hs; cases "hd hs") (auto simp: line_ok_def)
  have "hd (head hs) = x"
    using assms(2) hd(1) by (cases hs) (simp_all add: head_simps)
  then have "part ! 0 = x"
    using assms(4) n by (simp add: hd_conv_nth[symmetric])
  then have "Play_handler env (vec rb) (Len rb) c = Undefined"
    using rb(2) assms(6,9) hd(2) doRtspParse_part[OF assms(1,2,4,5)] by (simp add: Play_handler_def Len_def)
  then have "handle_loop (Play_handler env) rb c = Some Faulted"
    by (subst handle_loop.simps) simp
  then show ?thesis
    unfolding LoopRead.simps r bind.bind_lunit sum.case rb(1) prod.case by simp
qed

theorem reply_in_pieces_witness:
  "LoopRead (Play_handler cam_env) 1000 (new_TcpConn 3 zero_addr zero_addr) [([Ready], Recv (str ''RTSP/1.0 200 OK''))] Buffer (rtsp_Client False) = Some Faulted"
proof -
  have h: "head cam_ok = str ''RTSP/1.0 200 OK'' @ drop 15 (head cam_ok)" "drop 15 (head cam_ok) \<noteq> []"
    "m_connected (new_TcpConn 3 zero_addr zero_addr)" "vec Buffer = []"
    by code_simp+
  show ?thesis
    by (rule reply_in_pieces[OF cam_texts(2,1,4) h(1,2) _ _ h(3,4)]) simp_all
qed

end
