(* ===== verification/Rtsp_Auth.thy ===== *)
theory Rtsp_Auth
  imports Rtsp_Session
begin

section \<open>RTSP URLs and authentication\<close>

text \<open>
  What \<open>url\<close> makes of a URL, and what it adds to a request once a server has asked for credentials.
\<close>

subsection \<open>URLs\<close>

lemma strchr_first_in: "s = a @ c # b \<Longrightarrow> c \<notin> set a \<Longrightarrow> strchr s c = Some (length a)"
  by (simp add: strchr_first)

lemma dec_no: "\<not> is_digit c \<Longrightarrow> c \<noteq> 45 \<Longrightarrow> c \<notin> set (dec v)"
  using dec_nat_digits[of "nat v"] dec_nat_digits[of "nat (- v)"] by (auto simp: dec_def)

lemma not_digits: "\<not> is_digit 47" "\<not> is_digit 58" "\<not> is_digit 64"
  by (simp_all add: is_digit_def)

lemma is_prefix_str: "is_prefix (str ''rtsp://'') (str ''rtsp://'' @ s)"
  by simp

lemma drop_scheme: "drop 7 (str ''rtsp://'' @ s) = s"
  by (simp add: str_Cons)

text \<open>The part behind the credentials: host, port and path.\<close>

lemma host_port:
  assumes "47 \<notin> set host" "58 \<notin> set host" "n < 2 ^ 31"
  shows "strchr (host @ 58 # dec (int n) @ 47 # rest) 47 = Some (length (host @ 58 # dec (int n)))"
    and "strchr (host @ 58 # dec (int n)) 58 = Some (length host)" and "atoi (dec (int n)) = Some (int n)"
    and "strchr (host @ 47 # rest) 47 = Some (length host)" and "strchr host 58 = None"
proof -
  show "strchr (host @ 58 # dec (int n) @ 47 # rest) 47 = Some (length (host @ 58 # dec (int n)))"
    using assms(1) dec_no[OF not_digits(1), of "int n"] by (intro strchr_first_in) auto
  show "strchr (host @ 58 # dec (int n)) 58 = Some (length host)" "strchr (host @ 47 # rest) 47 = Some (length host)" "strchr host 58 = None"
    using assms by (simp_all add: strchr_first strchr_absent)
  show "atoi (dec (int n)) = Some (int n)"
    using atoi_dec_nat[OF assms(3), of "[]"] by (simp add: dec_nonneg)
qed



subsection \<open>Digest authentication\<close>

text \<open>The hexadecimal digits of a digest.\<close>

definition hex :: "bytes \<Rightarrow> bytes" where
  "hex bs = concat (map (\<lambda>h. [hexval ! unat (drop_bit 4 h AND 0xF), hexval ! unat (h AND 0x0F)]) bs)"

lemma md5_hash_hex_rfc: "md5_hash_hex zero_state s = hex (rfc_md5 s)"
  by (simp add: md5_hash_hex_def hex_def md5_hash_string_rfc zero_state_def)

lemma length_rfc_md5: "length (rfc_md5 m) = 16"
  by (simp add: rfc_md5_def split: prod.split)

lemma length_hex: "length (hex bs) = 2 * length bs"
  by (induction bs) (simp_all add: hex_def)

lemma hexval_no_zero: "0 \<notin> set hexval" "length hexval = 16"
  by code_simp+

lemma nibble_less: "unat (h AND 0xF) < 16" for h :: u8
proof -
  have "h AND 0xF = take_bit 4 h"
    by (simp add: take_bit_eq_mask mask_eq_exp_minus_1)
  then have "unat (h AND 0xF) = take_bit 4 (unat h)"
    by (simp only: unsigned_take_bit_eq)
  then show ?thesis
    using take_bit_nat_less_exp[of 4 "unat h"] by simp
qed

lemma hex_no_zero: "0 \<notin> set (hex bs)"
proof -
  have "hexval ! unat (h AND 0xF) \<noteq> 0" for h :: u8
    using nth_mem[of "unat (h AND 0xF)" hexval] nibble_less[of h] hexval_no_zero by metis
  then show ?thesis
    by (auto simp: hex_def)
qed

text \<open>The header of RFC 2617 without a quality of protection.\<close>

definition digest_header :: "bytes \<Rightarrow> bytes \<Rightarrow> bytes \<Rightarrow> bytes \<Rightarrow> bytes" where
  "digest_header us realm nonce uri =
     str ''Authorization: Digest '' @ str ''username=\"'' @ us @ str ''\", realm=\"'' @ realm @ str ''\", nonce=\"'' @ nonce @ str ''\", uri=\"'' @ uri @
     str ''\"''"

definition digest_response :: "bytes \<Rightarrow> bytes \<Rightarrow> bytes \<Rightarrow> bytes \<Rightarrow> bytes \<Rightarrow> bytes \<Rightarrow> bytes" where
  "digest_response us pw realm nonce meth uri =
     hex (rfc_md5 (hex (rfc_md5 (us @ str '':'' @ realm @ str '':'' @ pw)) @ str '':'' @ nonce @ str '':'' @
       hex (rfc_md5 (meth @ str '':'' @ uri))))"

definition challenge :: "bytes \<Rightarrow> bytes \<Rightarrow> bytes" where
  "challenge realm nonce = str ''WWW-Authenticate: Digest realm=\"'' @ realm @ str ''\", nonce=\"'' @ nonce @ str ''\"''"

lemma find_at_skip_all: "(\<And>j. j < length s \<Longrightarrow> \<not> is_prefix pat (drop j (s @ t))) \<Longrightarrow> find_at i pat (s @ t) = find_at (i + length s) pat t"
proof (induction s arbitrary: i)
  case (Cons c s)
  have "\<not> is_prefix pat (c # s @ t)"
    using Cons.prems[of 0] by simp
  moreover have "find_at (i + 1) pat (s @ t) = find_at (i + 1 + length s) pat t"
    using Cons.prems[of "Suc j" for j] by (intro Cons.IH) auto
  ultimately show ?case
    by simp
qed simp

lemma findVar_realm: "34 \<notin> set realm \<Longrightarrow> findVar (challenge realm nonce) (str ''realm=\"'') (str ''\"'') = realm"
proof -
  assume q: "34 \<notin> set realm"
  have f: "find_at 0 (str ''realm=\"'') (challenge realm nonce) = Some 25"
    by (simp add: challenge_def str_Cons)
  have d: "drop 32 (challenge realm nonce) = realm @ 34 # str '', nonce=\"'' @ nonce @ str ''\"''"
    by (simp add: challenge_def str_Cons)
  have l: "32 \<le> length (challenge realm nonce)"
    by (simp add: challenge_def)
  have e: "find_at 32 (str ''\"'') (realm @ 34 # str '', nonce=\"'' @ nonce @ str ''\"'') = Some (32 + length realm)"
    using q find_at_skip[of 34 realm 32 "[]"] by (simp add: str_Cons)
  show ?thesis
    using f d l e by (simp add: findVar_def string_find_def)
qed

lemma c_no_quote: "34 \<notin> set xs \<Longrightarrow> takeWhile (\<lambda>c. c \<noteq> 34) xs = xs" for xs :: bytes
  by (auto simp: takeWhile_eq_all_conv)

lemma nonce_not_in_realm:
  assumes "34 \<notin> set r" "61 \<notin> set r" "r \<noteq> []"
  shows "\<not> is_prefix (str ''nonce=\"'') (r @ 34 # t)"
proof
  assume "is_prefix (str ''nonce=\"'') (r @ 34 # t)"
  then obtain z where z: "r @ 34 # t = str ''nonce='' @ 34 # z"
    by (auto simp: is_prefix_append str_Cons)
  have "34 \<notin> set (str ''nonce='')" "61 \<in> set (str ''nonce='')"
    by code_simp+
  moreover from this assms(1) have "r = str ''nonce=''"
    using arg_cong[OF z, of "takeWhile (\<lambda>c. c \<noteq> 34)"] by (simp add: takeWhile_tail c_no_quote)
  ultimately show False
    using assms(2) by simp
qed

lemma findVar_nonce:
  assumes "34 \<notin> set realm" "61 \<notin> set realm" "34 \<notin> set nonce"
  shows "findVar (challenge realm nonce) (str ''nonce=\"'') (str ''\"'') = nonce"
proof -
  let ?rest = "str '', nonce=\"'' @ nonce @ str ''\"''"
  have c: "challenge realm nonce = str ''WWW-Authenticate: Digest realm=\"'' @ realm @ 34 # ?rest"
    by (simp add: challenge_def str_Cons)
  have "find_at 0 (str ''nonce=\"'') (challenge realm nonce) = find_at 32 (str ''nonce=\"'') (realm @ 34 # ?rest)"
    unfolding c by (simp add: str_Cons) (simp add: numeral_eq_Suc)
  also have "\<dots> = find_at (32 + length realm) (str ''nonce=\"'') (34 # ?rest)"
  proof (rule find_at_skip_all)
    fix j assume "j < length realm"
    then have "drop j (realm @ 34 # ?rest) = drop j realm @ 34 # ?rest" "drop j realm \<noteq> []"
      by simp_all
    then show "\<not> is_prefix (str ''nonce=\"'') (drop j (realm @ 34 # ?rest))"
      using nonce_not_in_realm[of "drop j realm" ?rest] assms(1,2) by (auto dest: in_set_dropD)
  qed
  also have "\<dots> = Some (35 + length realm)"
    by (simp add: str_Cons)
  finally have f: "find_at 0 (str ''nonce=\"'') (challenge realm nonce) = Some (35 + length realm)" .
  have l: "length (str ''nonce=\"'') = 7"
    by simp
  have d: "drop (42 + length realm) (challenge realm nonce) = nonce @ 34 # []" and len: "42 + length realm \<le> length (challenge realm nonce)"
    by (simp_all add: challenge_def) (simp add: str_Cons)
  have e: "find_at (42 + length realm) (str ''\"'') (nonce @ 34 # []) = Some (42 + length realm + length nonce)"
    using assms(3) find_at_skip[of 34 nonce "42 + length realm" "[]" "34 # []"] by (simp add: str_Cons)
  have p0: "35 + length realm + 7 = 42 + length realm"
    by simp
  show ?thesis
    using f d len e p0 by (simp add: findVar_def string_find_def Let_def)
qed

text \<open>What a challenge leaves in the URL, and the header of the next request.\<close>

lemma SetAuth_digest:
  assumes "34 \<notin> set realm" "61 \<notin> set realm" "34 \<notin> set nonce" "\<not> contains (challenge realm nonce) (str ''Basic'')"
  shows "SetAuth (challenge realm nonce) u =
    u\<lparr>baseAuth := digest_header (user u) realm nonce (path u),
      digestHex := hex (rfc_md5 (user u @ str '':'' @ realm @ str '':'' @ password u)) @ str '':'' @ nonce @ str '':''\<rparr>"
proof -
  have "contains (challenge realm nonce) (str ''Digest'')"
    by (simp add: contains_def string_find_def challenge_def str_Cons)
  then show ?thesis
    using assms(4) by (simp add: SetAuth_def Let_def findVar_realm[OF assms(1)] findVar_nonce[OF assms(1-3)] md5_hash_hex_rfc digest_header_def)
qed

lemma GetAuth_digest:
  assumes "baseAuth u = digest_header us realm nonce uri" "\<not> contains (digest_header us realm nonce uri) (str ''Basic'')"
    and "digestHex u = hex (rfc_md5 (us @ str '':'' @ realm @ str '':'' @ pw)) @ str '':'' @ nonce @ str '':''" "path u = uri"
  shows "GetAuth meth u = digest_header us realm nonce uri @ str '', response=\"'' @ digest_response us pw realm nonce meth uri @ str ''\"'' @ crlf"
proof -
  have "contains (digest_header us realm nonce uri) (str ''Digest'')"
    by (simp add: contains_def string_find_def digest_header_def str_Cons)
  then show ?thesis
    using assms by (simp add: GetAuth_def md5_hash_hex_rfc digest_response_def)
qed

lemma find_if_challenge: "find_if P res = Some s \<Longrightarrow> P s"
  by (induction res) (auto split: if_splits)

lemma zero_quoted [simp]: "0 \<notin> set (str ''Authorization: Digest '')" "0 \<notin> set (str ''username=\"'')" "0 \<notin> set (str ''\", realm=\"'')"
  "0 \<notin> set (str ''\", nonce=\"'')" "0 \<notin> set (str ''\", uri=\"'')" "0 \<notin> set (str ''\"'')" "0 \<notin> set (str '', response=\"'')"
  "0 \<notin> set (str ''WWW-Authenticate: Digest realm=\"'')"
  by (rule conjunct2[OF plain_str]; code_simp)+

lemma short_seq: "0 \<le> v \<Longrightarrow> v < 100 \<Longrightarrow> length (dec v) \<le> 2"
proof -
  assume "0 \<le> v" "v < 100"
  then have v: "nat v < 100"
    by linarith
  then have "nat v div 10 < 10"
    by simp
  then have "length (dec_nat (nat v div 10)) = 1"
    by (subst dec_nat.simps) simp
  then show ?thesis
    using \<open>0 \<le> v\<close> by (subst dec_nonneg, simp, subst dec_nat.simps) simp
qed


definition cam_login :: client where
  "cam_login = (rtsp_Client False)\<lparr>c_url := cam_url\<lparr>user := str ''admin'', password := str ''secret''\<rparr>, cmd := DESCRIBE, seqn := 1\<rparr>"


end
