(* ===== verification/Spec2Isabelle.thy ===== *)
theory Spec2Isabelle
  imports Byte_Slice Byte_Buffer Nalu Bit_Reader Sps Rtp_Depay Mp4_Box Mp4_Trak Mp4_Writer Fmp4_Writer Flv_Pack
    Sync_Channel Sync_Pool Tcp_Conn Tcp_Framing Tcp_Client Base64 G711
    Asio_Conn Asio_Client Frame_File Aes Md5 Sha1 Ftp_Transfer Sigslot Faac_Encoder Rtmp_Client Ffmpeg_Mp4 Timer_Clock Platform Kcp_Client C_Text Net_Socket Rtsp Rtsp_Session Rtsp_Auth
begin

text \<open>
  A verification development for \<open>inc\<close>, a collection of C++ headers for media and network programs: byte
  buffers, codecs of container formats, parsers of video bit streams, network clients and servers on the
  POSIX calls, thread synchronisation, and the digests and codings they use. Every header is included on its own, so
  the development follows the headers; each theory opens with the conventions of its model.

  \<^bold>\<open>Parts of the program and their theories.\<close>

  \<^item> \<open>Prelude\<close>: what all share. The integer types of \<open>src/types.h\<close> are words of their width (\<open>int\<close> is
    the integers with its range written out where it matters), memory is a list of bytes, a read or write outside of
    it is \<open>None\<close>; lemmas on bytes of words, slices of lists and the bits of a byte string.
  \<^item> \<open>Byte_Slice\<close> (\<open>src/byte.hpp\<close>) and \<open>Byte_Buffer\<close> (\<open>src/buffer.hpp\<close>): readers and writers at a position,
    with plain \<open>char\<close> signed or not, and the growing buffer with its capacity and its asserts.
  \<^item> \<open>Bit_Reader\<close>, \<open>Sps\<close>, \<open>Nalu\<close> (\<open>src/stream/sps.hpp\<close>, the search of \<open>src/stream/frame.hpp\<close>): bit-level
    readers with Exp-Golomb codes, the removal of emulation bytes, both parameter set decoders statement by statement,
    and the splitting of a frame into NAL units.
  \<^item> \<open>Rtp_Depay\<close> (\<open>src/stream/rtp.hpp\<close>): packet headers and the reassembly of H.264 and H.265 units.
  \<^item> \<open>Mp4_Box\<close>, \<open>Mp4_Trak\<close> (\<open>src/stream/mp4box.hpp\<close>), \<open>Mp4_Writer\<close> (\<open>src/stream/mp4.hpp\<close>), \<open>Fmp4_Writer\<close>
    (\<open>src/stream/fmp4.hpp\<close>), \<open>Flv_Pack\<close> (\<open>src/stream/flv.hpp\<close>): every packed structure as a record with its
    bytes, the boxes, tracks and files made of them, and the FLV packets. A file is its contents and its position;
    reads and writes of a file succeed.
  \<^item> \<open>Sync_Channel\<close> (\<open>src/channel.hpp\<close>) and \<open>Sync_Pool\<close> (\<open>src/pool.hpp\<close>): threads as program counters, one
    step per locked region; a condition variable is the set of the threads that sleep on it.
  \<^item> \<open>Tcp_Conn\<close>, \<open>Tcp_Framing\<close>, \<open>Tcp_Client\<close> (\<open>src/net/tcp.hpp\<close>): the epoll loop's handler table, one
    connection with its two loops, the client with connecting, timer and reconnecting, and the server.
  \<^item> \<open>Net_Socket\<close> (\<open>src/net/socket.hpp\<close>): blocking sockets with their exceptions, and the read loop that hands
    what has arrived to a handler.
  \<^item> \<open>C_Text\<close> (\<open>src/string.hpp\<close> and the string functions of the C and C++ libraries that the sources call).
  \<^item> \<open>Rtsp\<close>, \<open>Rtsp_Session\<close>, \<open>Rtsp_Auth\<close> (\<open>src/stream/rtsp.hpp\<close>): the RTSP client on top of \<open>Net_Socket\<close> and
    \<open>C_Text\<close>: URLs, session descriptions, requests, authentication, and the handler that drives a session.
  \<^item> \<open>Asio_Conn\<close>, \<open>Asio_Client\<close> (\<open>src/net/asio.hpp\<close>): the connection on its strand, with posted tasks and the
    handlers of asynchronous operations as events, and the context, client (timer, reconnecting, lifetime) and server.
  \<^item> \<open>Frame_File\<close> (\<open>src/stream/frame.hpp\<close>): the reader that cuts a file of pictures.
  \<^item> \<open>Ftp_Line\<close>, \<open>Ftp\<close>, \<open>Ftp_Transfer\<close> (\<open>src/net/ftp.hpp\<close>): lines and buffers over a socket; replies,
    commands and the data connection; whole transfers against the bytes of a server.
  \<^item> \<open>Sigslot\<close> (\<open>src/sigslot.hpp\<close>): signals and the objects connected to them as a heap, with a signal in the middle of
    firing as a frame of a stack; a slot may connect, disconnect, copy and destroy what it likes, by a list of operations.
  \<^item> \<open>Faac_Encoder\<close> (\<open>src/stream/faac.hpp\<close>): the buffer that cuts samples into blocks; libfaac is an argument.
  \<^item> \<open>Rtmp_Client\<close> (\<open>src/stream/rtmp.hpp\<close>): the publisher that turns frames into the packets of \<open>Flv_Pack\<close>, and
    \<open>Ffmpeg_Mp4\<close> (\<open>src/stream/ffmp4.hpp\<close>): the recorder that hands frames and encoded audio to FFmpeg; the calls of both
    libraries are recorded in order, and what they answer is an argument. \<open>Avc_Units\<close> has what the two share.
  \<^item> \<open>Timer_Clock\<close> (\<open>src/time.hpp\<close>, \<open>src/timer.hpp\<close>), \<open>Platform\<close> (\<open>src/file.hpp\<close>, \<open>src/proc.hpp\<close>,
    \<open>src/log.hpp\<close>, \<open>src/factory.hpp\<close>) and \<open>Kcp_Client\<close> (\<open>src/net/ikcp.hpp\<close>): the small wrappers over results of the
    system and of the kcp library; the threads of a timer are program counters over the flag they share.
  \<^item> \<open>Aes_Tables\<close>, \<open>Aes\<close>, \<open>Sha1\<close>, \<open>Md5\<close>, \<open>Base64\<close> (\<open>src/crypto\<close>) and \<open>G711\<close> (\<open>src/stream/g711.h\<close>). In
    \<open>aes.h\<close> \<open>u32\<close> has 64 bits; the tables are shown to be substitutions times matrices over GF(256), from which the
    inversion of a round follows. The references of both hashes are written after RFC 1321 and FIPS 180-4.

  \<^bold>\<open>How they interact.\<close> The bit reader serves the parameter set decoders, and these the MP4 tracks, which also
  take units from the splitter of \<open>Nalu\<close>; both writers and the FLV packets build on \<open>Byte_Buffer\<close> and the boxes. The
  connection of \<open>Tcp_Conn\<close> keeps its input in a \<open>Byte_Buffer\<close>. The RTSP client gives a handler to the read loop of
  \<open>Net_Socket\<close>; credentials are \<open>Base64\<close> or \<open>Md5\<close>. Both asynchronous clients dispatch their input through a
  \<open>Byte_Buffer\<close>, and the file reader uses the boundary search of \<open>Nalu\<close>.

  \<^bold>\<open>Interfaces.\<close> Where a component works with any provider that keeps some laws, these are a locale, interpreted on
  the model's own operations: \<open>stream_handler\<close> and its extension \<open>frame_handler\<close> (what \<open>LoopRead\<close> asks of its
  handler: it ends, and takes whole messages off the front) are interpreted by the handler of the RTSP client;
  \<open>byte_fifo\<close> (a queue of bytes that is written at its end and read from its front) by \<open>libyte::Buffer\<close>;
  \<open>slice_field\<close> (a writer and a reader of one width and byte order) by the seven pairs of \<open>libyte::Slice\<close>; the
  other locales stand, with their interpretations, in the theories that need them.

  \<^bold>\<open>What is outside of the program\<close> is an argument. The results of system calls (\<open>recv\<close>, \<open>send\<close>,
  \<open>connect\<close>, \<open>accept\<close>, the resolver, the clock) are lists or values that the operations consume, and the theorems hold
  for all of them; handlers that the application installs are functions, and what a theorem needs of them is a premise.
  Third-party libraries (libfaac, librtmp, FFmpeg) are functions of what they have been given.
  Loops that may not end are \<open>partial_function (option)\<close>, and where a theorem uses one it states that it ends.

  \<^bold>\<open>Bounds.\<close> No model has fuel. The bounds in premises are those of the code's arrays and integers: 512 bytes for a
  sequence header, 4096 for samples (so pieces of at most 2048), 2048 for a request, 1024 for a URL, an \<open>int\<close> or a length of 32 bits where
  the code counts in one; the Base64 decoder counts characters in an \<open>int\<close>, which bounds what it can take. Times are below 2^62 (2^61) so that
  their differences are numbers of 64 bits.

  \<^bold>\<open>What the theorems show.\<close> Container files have the layout and the offsets their readers rely on; the
  depacketisers and the splitter recover what a sender put in; the H.264 parameter set decoder reads every element that the standard writes where it
  stands, and reports the size without regard to fields and cropping; slices, Base64, URLs and the companding laws round-trip
  within stated limits, MD5 is RFC 1321 however
  a message is cut, \<open>calc\<close> is SHA-1, AES decryption inverts encryption; the buffer refines a queue of bytes; the channel and the pool neither lose nor double an element or a
  task, and which threads may sleep for ever; connections deliver in order and independently of how the kernel cuts the
  stream, and an open asio connection can always go on with its output; the states of a client, and those it does not
  leave; an RTSP session, with or without audio, and its authentication step by step; the file reader returns whole pictures; an FTP fetch yields
  the bytes sent and text survives a put and a fetch; signals and objects agree about their connections whatever slots do
  while a signal fires; samples reach the AAC encoder in whole blocks; an RTMP
  client publishes from the first key picture on, in order, byte by byte, with time stamps from there, and a recorder
  writes every picture and every block of audio once. Where
  the code does not do what it means to, the theorem states what it does: a handler that reads a unit out of range, a
  box written behind its array, a client that waits for an event that never comes, a refused FTP transfer that goes on, an
  object that is called after its destruction, a write whose string is freed when the connection is closed, an H.265 unit of type 0 that is not
  announced, a first picture at time 0 that counts as none, a composition time that is not written, an at sign in a path.

  \<^bold>\<open>Not modelled.\<close> \<open>src/stream/minimp4.hpp\<close>, a third-party library that only one test program includes;
  \<open>src/lock.hpp\<close> and \<open>src/singleton.hpp\<close>, a scoped lock and a static local, which compute nothing. Within the modelled headers:
  the Windows and macOS branches, inline assembly, data races on unsynchronised members, and failures of the heap.
\<close>

end
